(* ===== verification/Rda_Prelude.thy ===== *)
theory Rda_Prelude
  imports Main "HOL-Library.Word"
begin

text \<open>
  Shared vocabulary of the development: the machine-integer types of the Rust sources, the
  arithmetic of the Rust standard library that the sources use (saturating subtraction, big-endian
  byte order), fallible results, and the list and word lemmas that the component theories rely on.

  Rust integers are words of their width: \<open>u8\<close>, \<open>u16\<close>, \<open>u32\<close>, \<open>u64\<close>, and \<open>usize\<close> lengths of
  in-memory sequences are \<open>nat\<close>. The \<open>+\<close> of a word wraps, which is what a release build of the
  workspace does (its profiles do not set \<open>overflow-checks\<close>).
  A \<open>Result<T, E>\<close> is the sum \<open>'e + 'a\<close>, the error on the left.
\<close>

unbundle bit_operations_syntax

type_synonym u8 = "8 word"
type_synonym u16 = "16 word"
type_synonym u32 = "32 word"
type_synonym u64 = "64 word"

named_theorems wire_simps \<open>byte-level facts used by the codec proofs\<close>

subsection \<open>Results\<close>

definition bindE :: "'e + 'a \<Rightarrow> ('a \<Rightarrow> 'e + 'b) \<Rightarrow> 'e + 'b" where
  "bindE m f = (case m of Inl e \<Rightarrow> Inl e | Inr x \<Rightarrow> f x)"

definition mapE :: "('a \<Rightarrow> 'b) \<Rightarrow> 'e + 'a \<Rightarrow> 'e + 'b" where
  "mapE f m = (case m of Inl e \<Rightarrow> Inl e | Inr x \<Rightarrow> Inr (f x))"

definition ok_or :: "'a option \<Rightarrow> 'e \<Rightarrow> 'e + 'a" where
  "ok_or m e = (case m of None \<Rightarrow> Inl e | Some x \<Rightarrow> Inr x)"

lemma bindE_simps [simp]:
  "bindE (Inl e) f = Inl e"
  "bindE (Inr x) f = f x"
  by (simp_all add: bindE_def)

lemma bindE_eq_Inr: "bindE m f = Inr y \<longleftrightarrow> (\<exists>x. m = Inr x \<and> f x = Inr y)"
  by (auto simp: bindE_def split: sum.splits)

lemma ok_or_simps [simp]:
  "ok_or None e = Inl e"
  "ok_or (Some x) e = Inr x"
  by (simp_all add: ok_or_def)

lemma ok_or_eq_Inr [simp]: "ok_or m e = Inr x \<longleftrightarrow> m = Some x"
  by (simp add: ok_or_def split: option.splits)

lemma map_option_fst_SomeE:
  assumes "map_option fst x = Some a"
  obtains b where "x = Some (a, b)"
  using assms by (cases x) auto

subsection \<open>Stateful code that can fail\<close>

text \<open>A method on \<open>&mut self\<close> that returns a \<open>Result\<close>: the state after the call is there on both
  outcomes. \<open>sbind\<close> is \<open>?\<close> and sequencing; \<open>sfor\<close> is a loop whose body may return early.\<close>

type_synonym ('s, 'e, 'a) st = "'s \<Rightarrow> ('e + 'a) \<times> 's"

definition sret :: "'a \<Rightarrow> ('s, 'e, 'a) st" where
  "sret x s = (Inr x, s)"

definition sfail :: "'e \<Rightarrow> ('s, 'e, 'a) st" where
  "sfail e s = (Inl e, s)"

definition smodify :: "('s \<Rightarrow> 's) \<Rightarrow> ('s, 'e, unit) st" where
  "smodify f s = (Inr (), f s)"

definition sbind :: "('s, 'e, 'a) st \<Rightarrow> ('a \<Rightarrow> ('s, 'e, 'b) st) \<Rightarrow> ('s, 'e, 'b) st" where
  "sbind m f s = (case m s of (Inl e, s') \<Rightarrow> (Inl e, s') | (Inr x, s') \<Rightarrow> f x s')"

primrec sfor :: "'a list \<Rightarrow> ('a \<Rightarrow> ('s, 'e, unit) st) \<Rightarrow> ('s, 'e, unit) st" where
  "sfor [] body = sret ()"
| "sfor (x # xs) body = sbind (body x) (\<lambda>_. sfor xs body)"

lemma st_simps [simp]:
  "sret x s = (Inr x, s)"
  "sfail e s = (Inl e, s)"
  "smodify f s = (Inr (), f s)"
  by (simp_all add: sret_def sfail_def smodify_def)

lemma sbind_simps [simp]:
  "m s = (Inl e, s') \<Longrightarrow> sbind m f s = (Inl e, s')"
  "m s = (Inr x, s') \<Longrightarrow> sbind m f s = f x s'"
  by (simp_all add: sbind_def)

text \<open>What every step keeps, a sequence of steps keeps.\<close>

definition keeps :: "('s \<Rightarrow> bool) \<Rightarrow> ('s, 'e, 'a) st \<Rightarrow> bool" where
  "keeps P m \<longleftrightarrow> (\<forall>s. P s \<longrightarrow> P (snd (m s)))"

lemma keepsD: "keeps P m \<Longrightarrow> P s \<Longrightarrow> P (snd (m s))"
  by (simp add: keeps_def)

lemma keeps_intros:
  "keeps P (sret x)"
  "keeps P (sfail e)"
  "(\<And>s. P s \<Longrightarrow> P (f s)) \<Longrightarrow> keeps P (smodify f)"
  by (simp_all add: keeps_def)

lemma keeps_sbind: "keeps P m \<Longrightarrow> (\<And>x. keeps P (f x)) \<Longrightarrow> keeps P (sbind m f)"
  by (auto simp: keeps_def sbind_def split: prod.splits sum.splits)

lemma keeps_sfor: "(\<And>x. x \<in> set xs \<Longrightarrow> keeps P (body x)) \<Longrightarrow> keeps P (sfor xs body)"
  by (induction xs) (auto intro: keeps_intros keeps_sbind)

lemma keeps_if: "keeps P m \<Longrightarrow> keeps P n \<Longrightarrow> keeps P (if b then m else n)"
  by simp

subsection \<open>Saturating arithmetic\<close>

definition saturating_sub :: "'a::len word \<Rightarrow> 'a word \<Rightarrow> 'a word" where
  "saturating_sub a b = (if a < b then 0 else a - b)"

lemma unat_saturating_sub [simp]: "unat (saturating_sub a b) = unat a - unat b"
  by (simp add: saturating_sub_def unat_sub_if' word_less_nat_alt word_le_nat_alt)

lemma saturating_sub_self [simp]: "saturating_sub a a = 0"
  by (simp add: saturating_sub_def)

lemma saturating_sub_0 [simp]: "saturating_sub a 0 = a"
  by (simp add: saturating_sub_def)

lemma saturating_sub_le: "saturating_sub a b \<le> a"
  by (simp add: word_le_nat_alt)

lemma saturating_sub_mono: "a \<le> a' \<Longrightarrow> saturating_sub a b \<le> saturating_sub a' b"
  by (simp add: word_le_nat_alt)

subsection \<open>Big-endian byte order\<close>

definition to_be_bytes16 :: "u16 \<Rightarrow> u8 list" where
  "to_be_bytes16 w = [ucast (drop_bit 8 w), ucast w]"

definition to_be_bytes32 :: "u32 \<Rightarrow> u8 list" where
  "to_be_bytes32 w =
     [ucast (drop_bit 24 w), ucast (drop_bit 16 w), ucast (drop_bit 8 w), ucast w]"

definition to_be_bytes64 :: "u64 \<Rightarrow> u8 list" where
  "to_be_bytes64 w =
     [ucast (drop_bit 56 w), ucast (drop_bit 48 w), ucast (drop_bit 40 w), ucast (drop_bit 32 w),
      ucast (drop_bit 24 w), ucast (drop_bit 16 w), ucast (drop_bit 8 w), ucast w]"

definition from_be_bytes16 :: "u8 \<Rightarrow> u8 \<Rightarrow> u16" where
  "from_be_bytes16 b0 b1 = push_bit 8 (ucast b0) OR ucast b1"

definition from_be_bytes32 :: "u8 \<Rightarrow> u8 \<Rightarrow> u8 \<Rightarrow> u8 \<Rightarrow> u32" where
  "from_be_bytes32 b0 b1 b2 b3 =
     push_bit 24 (ucast b0) OR push_bit 16 (ucast b1) OR push_bit 8 (ucast b2) OR ucast b3"

lemma length_to_be_bytes [simp, wire_simps]:
  "length (to_be_bytes16 w) = 2"
  "length (to_be_bytes32 d) = 4"
  "length (to_be_bytes64 q) = 8"
  by (simp_all add: to_be_bytes16_def to_be_bytes32_def to_be_bytes64_def)

lemma from_to_be_bytes16 [simp]:
  "from_be_bytes16 (ucast (drop_bit 8 w)) (ucast w) = w"
  by (rule bit_word_eqI) (auto simp: from_be_bytes16_def bit_simps not_less dest: bit_imp_le_length)

lemma from_to_be_bytes32 [simp]:
  "from_be_bytes32 (ucast (drop_bit 24 w)) (ucast (drop_bit 16 w)) (ucast (drop_bit 8 w)) (ucast w) = w"
proof (rule bit_word_eqI)
  fix n assume "n < LENGTH(32)"
  then consider "n < 8" | "8 \<le> n" "n < 16" | "16 \<le> n" "n < 24" | "24 \<le> n" "n < 32"
    by fastforce
  then show "bit (from_be_bytes32 (ucast (drop_bit 24 w)) (ucast (drop_bit 16 w))
      (ucast (drop_bit 8 w)) (ucast w)) n = bit w n"
    by cases (auto simp: from_be_bytes32_def bit_simps)
qed

lemma to_from_be_bytes16 [simp]: "to_be_bytes16 (from_be_bytes16 b0 b1) = [b0, b1]"
proof -
  have "(ucast (drop_bit 8 (from_be_bytes16 b0 b1)) :: u8) = b0"
    by (rule bit_word_eqI) (auto simp: from_be_bytes16_def bit_simps dest: bit_imp_le_length)
  moreover have "(ucast (from_be_bytes16 b0 b1) :: u8) = b1"
    by (rule bit_word_eqI) (auto simp: from_be_bytes16_def bit_simps)
  ultimately show ?thesis
    by (simp add: to_be_bytes16_def)
qed

lemma to_from_be_bytes32 [simp]: "to_be_bytes32 (from_be_bytes32 b0 b1 b2 b3) = [b0, b1, b2, b3]"
proof -
  let ?w = "from_be_bytes32 b0 b1 b2 b3"
  have "(ucast (drop_bit 24 ?w) :: u8) = b0" "(ucast (drop_bit 16 ?w) :: u8) = b1"
    "(ucast (drop_bit 8 ?w) :: u8) = b2" "(ucast ?w :: u8) = b3"
    by (rule bit_word_eqI, auto simp: from_be_bytes32_def bit_simps dest: bit_imp_le_length)+
  then show ?thesis by (simp add: to_be_bytes32_def)
qed

lemma from_to_be_bytes64 [simp]:
  "push_bit 32 (ucast (from_be_bytes32 (ucast (drop_bit 56 q)) (ucast (drop_bit 48 q))
       (ucast (drop_bit 40 q)) (ucast (drop_bit 32 q))))
   OR ucast (from_be_bytes32 (ucast (drop_bit 24 q)) (ucast (drop_bit 16 q))
       (ucast (drop_bit 8 q)) (ucast q)) = (q :: u64)" (is "?lhs = q")
proof (rule bit_word_eqI)
  fix n assume "n < LENGTH(64)"
  then consider "n < 8" | "8 \<le> n" "n < 16" | "16 \<le> n" "n < 24" | "24 \<le> n" "n < 32"
    | "32 \<le> n" "n < 40" | "40 \<le> n" "n < 48" | "48 \<le> n" "n < 56" | "56 \<le> n" "n < 64"
    by fastforce
  then show "bit ?lhs n = bit q n"
    by cases (auto simp: from_be_bytes32_def bit_simps)
qed

subsection \<open>Decimal rendering\<close>

fun decimal :: "nat \<Rightarrow> string" where
  "decimal n =
     (if n < 10 then [char_of (48 + n)] else decimal (n div 10) @ [char_of (48 + n mod 10)])"

declare decimal.simps [simp del]

subsection \<open>Reachable states and invariants\<close>

text \<open>The states a component can reach from its initial states by its steps.\<close>

inductive reach :: "('s \<Rightarrow> bool) \<Rightarrow> ('s \<Rightarrow> 's \<Rightarrow> bool) \<Rightarrow> 's \<Rightarrow> bool"
  for init :: "'s \<Rightarrow> bool" and step :: "'s \<Rightarrow> 's \<Rightarrow> bool" where
  reach_init: "init s \<Longrightarrow> reach init step s"
| reach_step: "reach init step s \<Longrightarrow> step s t \<Longrightarrow> reach init step t"

text \<open>The contract of an inductive invariant, and what a client of the component may conclude.\<close>

locale inductive_invariant =
  fixes init :: "'s \<Rightarrow> bool"
    and step :: "'s \<Rightarrow> 's \<Rightarrow> bool"
    and inv :: "'s \<Rightarrow> bool"
  assumes inv_init: "init s \<Longrightarrow> inv s"
    and inv_step: "inv s \<Longrightarrow> step s t \<Longrightarrow> inv t"
begin

lemma reach_inv: "reach init step s \<Longrightarrow> inv s"
  by (induction rule: reach.induct) (auto intro: inv_init inv_step)

lemma steps_inv: "step\<^sup>*\<^sup>* s t \<Longrightarrow> inv s \<Longrightarrow> inv t"
  by (induction rule: rtranclp_induct) (auto intro: inv_step)

end

end
