(* ===== verification/Rda_Seq.thy ===== *)
theory Rda_Seq
  imports Rda_Prelude
begin

text \<open>
  Serial number arithmetic of \<^verbatim>\<open>rda-proto/src/seq.rs\<close>: the wrapping 16-bit sequence space of control
  frames, RFC 1982 comparison and the tracker that decides whether a frame on an unreliable channel
  is newer than everything applied so far.

  \<open>abs_accept\<close> is the specification: the same tracker over unbounded counters, compared with \<open><\<close>.
  The refinement lemma says that the 16-bit tracker makes the decisions of the unbounded one as
  long as no counter is half the sequence space or more away from the newest.
\<close>

subsection \<open>The code\<close>

type_synonym Serial = u16

definition HALF :: u16 where
  "HALF = 0x8000"

definition serial_next :: "Serial \<Rightarrow> Serial" where
  "serial_next s = s + 1"

definition is_newer_than :: "Serial \<Rightarrow> Serial \<Rightarrow> bool" where
  "is_newer_than self other = (let diff = self - other in diff \<noteq> 0 \<and> diff < HALF)"

definition is_stale_against :: "Serial \<Rightarrow> Serial \<Rightarrow> bool" where
  "is_stale_against self last_applied = (\<not> is_newer_than self last_applied)"

record SerialTracker =
  last_serial :: "Serial option"

definition serial_tracker_new :: SerialTracker where
  "serial_tracker_new = \<lparr>last_serial = None\<rparr>"

definition serial_accept :: "SerialTracker \<Rightarrow> Serial \<Rightarrow> bool \<times> SerialTracker" where
  "serial_accept t seq = (case last_serial t of
     None \<Rightarrow> (True, t\<lparr>last_serial := Some seq\<rparr>)
   | Some l \<Rightarrow>
       if is_newer_than seq l then (True, t\<lparr>last_serial := Some seq\<rparr>) else (False, t))"

text \<open>Running the tracker over the frames of one channel: the decisions, and the final tracker.\<close>

fun serial_accept_all :: "SerialTracker \<Rightarrow> Serial list \<Rightarrow> bool list \<times> SerialTracker" where
  "serial_accept_all t [] = ([], t)"
| "serial_accept_all t (s # ss) =
     (let (d, t') = serial_accept t s; (ds, t'') = serial_accept_all t' ss in (d # ds, t''))"

subsection \<open>The order\<close>

lemma is_newer_than_iff:
  "is_newer_than a b \<longleftrightarrow> (\<exists>k. 0 < k \<and> k < 32768 \<and> a = b + of_nat k)"
proof
  assume "is_newer_than a b"
  then have "0 < unat (a - b)" "unat (a - b) < 32768"
    by (auto simp: is_newer_than_def HALF_def Let_def word_less_nat_alt unat_gt_0)
  moreover have "a = b + of_nat (unat (a - b))"
    by simp
  ultimately show "\<exists>k. 0 < k \<and> k < 32768 \<and> a = b + of_nat k"
    by blast
next
  assume "\<exists>k. 0 < k \<and> k < 32768 \<and> a = b + of_nat k"
  then obtain k where k: "0 < k" "k < 32768" "a - b = of_nat k" by auto
  moreover have "unat (of_nat k :: u16) = k"
    using k(2) by (simp add: unat_of_nat)
  ultimately show "is_newer_than a b"
    by (auto simp: is_newer_than_def HALF_def Let_def word_less_nat_alt)
qed

lemma not_is_newer_than_self [simp]: "\<not> is_newer_than a a"
  by (simp add: is_newer_than_def)

lemma is_newer_than_asym: "is_newer_than a b \<Longrightarrow> \<not> is_newer_than b a"
proof
  assume "is_newer_than a b" "is_newer_than b a"
  then obtain k l where k: "0 < k" "k < 32768" "a = b + of_nat k"
    and l: "0 < l" "l < 32768" "b = a + of_nat l"
    unfolding is_newer_than_iff by blast
  then have "(of_nat (k + l) :: u16) = 0" by (simp add: add.commute)
  then have "2 ^ 16 dvd k + l" by (simp add: word_of_nat_eq_0_iff del: of_nat_add)
  with k l show False by (auto dest: dvd_imp_le)
qed

lemma is_newer_than_total:
  "a \<noteq> b \<Longrightarrow> a - b \<noteq> HALF \<Longrightarrow> is_newer_than a b \<or> is_newer_than b a"
proof -
  assume ne: "a \<noteq> b" and half: "a - b \<noteq> HALF"
  define d where "d = unat (a - b)"
  have a: "a = b + of_nat d" and d0: "0 < d"
    using ne by (simp_all add: d_def unat_gt_0)
  have d1: "d < 65536"
    using unsigned_less [of "a - b", where ?'a = nat] by (simp add: d_def)
  have d2: "d \<noteq> 32768"
  proof
    assume "d = 32768"
    then have "a - b = HALF" using a by (simp add: HALF_def)
    with half show False ..
  qed
  have "of_nat d + of_nat (65536 - d) = (of_nat 65536 :: u16)"
    using d1 by (simp flip: of_nat_add)
  then have "b = a + of_nat (65536 - d)"
    using a by (simp add: add.assoc)
  moreover have "d < 32768 \<or> 65536 - d < 32768" "0 < 65536 - d"
    using d1 d2 by auto
  ultimately show ?thesis
    unfolding is_newer_than_iff using a d0 by blast
qed

lemma is_newer_than_next [simp]: "is_newer_than (serial_next s) s"
  by (simp add: is_newer_than_def serial_next_def HALF_def)

text \<open>The exactly opposite point is newer in neither direction.\<close>

lemma opposite_not_newer: "\<not> is_newer_than (a + HALF) a"
  by (simp add: is_newer_than_def)

subsection \<open>The tracker\<close>

lemma serial_accept_last:
  "serial_accept t s = (d, t') \<Longrightarrow> last_serial t' = (if d then Some s else last_serial t)"
  by (auto simp: serial_accept_def split: option.splits if_splits)

lemma serial_accept_strict:
  "serial_accept t s = (True, t') \<Longrightarrow> last_serial t = Some l \<Longrightarrow> is_newer_than s l"
  by (auto simp: serial_accept_def split: if_splits)

text \<open>The specification: an unbounded counter, accepted when it is the largest so far.\<close>

definition abs_accept :: "nat option \<Rightarrow> nat \<Rightarrow> bool \<times> nat option" where
  "abs_accept m n = (case m of
     None \<Rightarrow> (True, Some n)
   | Some l \<Rightarrow> if l < n then (True, Some n) else (False, m))"

fun abs_accept_all :: "nat option \<Rightarrow> nat list \<Rightarrow> bool list" where
  "abs_accept_all m [] = []"
| "abs_accept_all m (n # ns) = (let (d, m') = abs_accept m n in d # abs_accept_all m' ns)"

text \<open>No counter is half the sequence space or more away from the newest before it.\<close>

fun within_half :: "nat option \<Rightarrow> nat list \<Rightarrow> bool" where
  "within_half m [] = True"
| "within_half m (n # ns) =
     ((case m of None \<Rightarrow> True | Some l \<Rightarrow> n < l + 32768 \<and> l < n + 32768)
      \<and> within_half (snd (abs_accept m n)) ns)"

definition serial_abs :: "SerialTracker \<Rightarrow> nat option \<Rightarrow> bool" where
  "serial_abs t m \<longleftrightarrow> last_serial t = map_option of_nat m"

lemma is_newer_than_of_nat:
  assumes "n < l + 32768" "l < n + 32768"
  shows "is_newer_than (of_nat n) (of_nat l) \<longleftrightarrow> l < n"
proof (cases "l < n")
  case True
  then have "(of_nat n :: u16) = of_nat l + of_nat (n - l)"
    by (simp flip: of_nat_add)
  moreover have "0 < n - l" "n - l < 32768" using True assms by auto
  ultimately have "is_newer_than (of_nat n) (of_nat l)"
    unfolding is_newer_than_iff by blast
  with True show ?thesis by simp
next
  case False
  then have "(of_nat l :: u16) = of_nat n + of_nat (l - n)"
    by (simp flip: of_nat_add)
  then have "of_nat l = (of_nat n :: u16) \<or> is_newer_than (of_nat l) (of_nat n)"
    unfolding is_newer_than_iff using False assms
    by (cases "l = n") (auto intro!: exI [of _ "l - n"])
  with False show ?thesis
    by (metis is_newer_than_asym not_is_newer_than_self)
qed

lemma serial_accept_refines:
  assumes "serial_abs t m"
    and "case m of None \<Rightarrow> True | Some l \<Rightarrow> n < l + 32768 \<and> l < n + 32768"
  shows "fst (serial_accept t (of_nat n)) = fst (abs_accept m n)"
    and "serial_abs (snd (serial_accept t (of_nat n))) (snd (abs_accept m n))"
  using assms is_newer_than_of_nat
  by (auto simp: serial_abs_def serial_accept_def abs_accept_def split: option.splits)

lemma serial_accept_all_refines:
  "serial_abs t m \<Longrightarrow> within_half m ns \<Longrightarrow>
   fst (serial_accept_all t (map of_nat ns)) = abs_accept_all m ns"
proof (induction ns arbitrary: t m)
  case (Cons n ns)
  from Cons.prems have w: "case m of None \<Rightarrow> True | Some l \<Rightarrow> n < l + 32768 \<and> l < n + 32768"
    by simp
  note r = serial_accept_refines [OF Cons.prems(1) w]
  from Cons.prems(2) have "within_half (snd (abs_accept m n)) ns" by simp
  from Cons.IH [OF r(2) this] r(1) show ?case
    by (auto simp: case_prod_unfold Let_def)
qed simp

subsection \<open>Property\<close>

text \<open>C39. The sequence filter is the ideal one: as long as no frame is half the 16-bit sequence space or
  more away from the newest before it, a fresh tracker accepts exactly the frames that an unbounded
  counter would accept as newer than everything accepted so far, across any number of wraps.\<close>

theorem sequence_filter_refines:
  assumes "within_half None ns"
  shows "fst (serial_accept_all serial_tracker_new (map of_nat ns)) = abs_accept_all None ns"
  using assms by (intro serial_accept_all_refines) (simp_all add: serial_abs_def serial_tracker_new_def)

theorem sequence_filter_refines_witness:
  "fst (serial_accept_all serial_tracker_new (map of_nat [65534, 65535, 65537, 65536, 65537, 80000])) =
     [True, True, True, False, False, True]"
  using sequence_filter_refines [of "[65534, 65535, 65537, 65536, 65537, 80000]"]
  by (simp add: abs_accept_def del: serial_accept_all.simps list.map)

end
