(* ===== verification/Rda_Hid.thy ===== *)
theory Rda_Hid
  imports Rda_Prelude
begin

text \<open>
  Keyboard usages of \<^verbatim>\<open>rda-input/src/hid.rs\<close>: the modifier usages, the allow-list, the mapping table
  and its lookup. \<open>binary_search_by_key\<close> is the slice method of the standard library, written out as
  the halving loop it is. On the table, which is sorted, it finds exactly what a linear scan finds
  (\<open>lookup_eq_find\<close>).
\<close>

definition PAGE_KEYBOARD :: u16 where "PAGE_KEYBOARD = 0x0007"
definition PAGE_CONSUMER :: u16 where "PAGE_CONSUMER = 0x000C"
definition KEYBOARD_USAGE_MIN :: u16 where "KEYBOARD_USAGE_MIN = 0x01"
definition KEYBOARD_USAGE_MAX :: u16 where "KEYBOARD_USAGE_MAX = 0xE7"
definition NO_CODE :: u16 where "NO_CODE = 0xFFFF"

definition MODIFIER_USAGES :: "u16 list" where
  "MODIFIER_USAGES = [0xE0, 0xE1, 0xE2, 0xE3, 0xE4, 0xE5, 0xE6, 0xE7]"

text \<open>\<open>Iterator::position\<close>.\<close>

fun position :: "('a \<Rightarrow> bool) \<Rightarrow> 'a list \<Rightarrow> nat option" where
  "position P [] = None"
| "position P (x # xs) = (if P x then Some 0 else map_option Suc (position P xs))"

definition modifier_bit :: "u16 \<Rightarrow> u16 option" where
  "modifier_bit usage = map_option (\<lambda>i. push_bit i 1) (position (\<lambda>u. u = usage) MODIFIER_USAGES)"

definition is_modifier :: "u16 \<Rightarrow> bool" where
  "is_modifier usage \<longleftrightarrow> 0xE0 \<le> usage \<and> usage \<le> 0xE7"

definition is_valid_keyboard_usage :: "u16 \<Rightarrow> bool" where
  "is_valid_keyboard_usage usage \<longleftrightarrow> KEYBOARD_USAGE_MIN \<le> usage \<and> usage \<le> KEYBOARD_USAGE_MAX"

record KeyMapping =
  km_usage :: u16
  km_windows_scancode :: u16
  km_macos_keycode :: u16
  km_linux_evdev :: u16
  km_name :: string

definition km :: "u16 \<Rightarrow> u16 \<Rightarrow> u16 \<Rightarrow> u16 \<Rightarrow> string \<Rightarrow> KeyMapping" where
  "km usage win mac lin name =
     \<lparr>km_usage = usage, km_windows_scancode = win, km_macos_keycode = mac, km_linux_evdev = lin, km_name = name\<rparr>"

definition KEY_TABLE :: "KeyMapping list" where
  "KEY_TABLE =
    [km 0x04 0x1E 0x00 30 ''KeyA'',
     km 0x05 0x30 0x0B 48 ''KeyB'',
     km 0x06 0x2E 0x08 46 ''KeyC'',
     km 0x07 0x20 0x02 32 ''KeyD'',
     km 0x08 0x12 0x0E 18 ''KeyE'',
     km 0x09 0x21 0x03 33 ''KeyF'',
     km 0x0A 0x22 0x05 34 ''KeyG'',
     km 0x0B 0x23 0x04 35 ''KeyH'',
     km 0x0C 0x17 0x22 23 ''KeyI'',
     km 0x0D 0x24 0x26 36 ''KeyJ'',
     km 0x0E 0x25 0x28 37 ''KeyK'',
     km 0x0F 0x26 0x25 38 ''KeyL'',
     km 0x10 0x32 0x2E 50 ''KeyM'',
     km 0x11 0x31 0x2D 49 ''KeyN'',
     km 0x12 0x18 0x1F 24 ''KeyO'',
     km 0x13 0x19 0x23 25 ''KeyP'',
     km 0x14 0x10 0x0C 16 ''KeyQ'',
     km 0x15 0x13 0x0F 19 ''KeyR'',
     km 0x16 0x1F 0x01 31 ''KeyS'',
     km 0x17 0x14 0x11 20 ''KeyT'',
     km 0x18 0x16 0x20 22 ''KeyU'',
     km 0x19 0x2F 0x09 47 ''KeyV'',
     km 0x1A 0x11 0x0D 17 ''KeyW'',
     km 0x1B 0x2D 0x07 45 ''KeyX'',
     km 0x1C 0x15 0x10 21 ''KeyY'',
     km 0x1D 0x2C 0x06 44 ''KeyZ'',
     km 0x1E 0x02 0x12 2 ''Digit1'',
     km 0x1F 0x03 0x13 3 ''Digit2'',
     km 0x20 0x04 0x14 4 ''Digit3'',
     km 0x21 0x05 0x15 5 ''Digit4'',
     km 0x22 0x06 0x17 6 ''Digit5'',
     km 0x23 0x07 0x16 7 ''Digit6'',
     km 0x24 0x08 0x1A 8 ''Digit7'',
     km 0x25 0x09 0x1C 9 ''Digit8'',
     km 0x26 0x0A 0x19 10 ''Digit9'',
     km 0x27 0x0B 0x1D 11 ''Digit0'',
     km 0x28 0x1C 0x24 28 ''Enter'',
     km 0x29 0x01 0x35 1 ''Escape'',
     km 0x2A 0x0E 0x33 14 ''Backspace'',
     km 0x2B 0x0F 0x30 15 ''Tab'',
     km 0x2C 0x39 0x31 57 ''Space'',
     km 0x2D 0x0C 0x1B 12 ''Minus'',
     km 0x2E 0x0D 0x18 13 ''Equal'',
     km 0x2F 0x1A 0x21 26 ''BracketLeft'',
     km 0x30 0x1B 0x1E 27 ''BracketRight'',
     km 0x31 0x2B 0x2A 43 ''Backslash'',
     km 0x33 0x27 0x29 39 ''Semicolon'',
     km 0x34 0x28 0x27 40 ''Quote'',
     km 0x35 0x29 0x32 41 ''Backquote'',
     km 0x36 0x33 0x2B 51 ''Comma'',
     km 0x37 0x34 0x2F 52 ''Period'',
     km 0x38 0x35 0x2C 53 ''Slash'',
     km 0x39 0x3A 0x39 58 ''CapsLock'',
     km 0x3A 0x3B 0x7A 59 ''F1'',
     km 0x3B 0x3C 0x78 60 ''F2'',
     km 0x3C 0x3D 0x63 61 ''F3'',
     km 0x3D 0x3E 0x76 62 ''F4'',
     km 0x3E 0x3F 0x60 63 ''F5'',
     km 0x3F 0x40 0x61 64 ''F6'',
     km 0x40 0x41 0x62 65 ''F7'',
     km 0x41 0x42 0x64 66 ''F8'',
     km 0x42 0x43 0x65 67 ''F9'',
     km 0x43 0x44 0x6D 68 ''F10'',
     km 0x44 0x57 0x67 87 ''F11'',
     km 0x45 0x58 0x6F 88 ''F12'',
     km 0x46 0xE037 0x69 99 ''PrintScreen'',
     km 0x47 0x46 NO_CODE 70 ''ScrollLock'',
     km 0x48 0x45 NO_CODE 119 ''Pause'',
     km 0x49 0xE052 0x72 110 ''Insert'',
     km 0x4A 0xE047 0x73 102 ''Home'',
     km 0x4B 0xE049 0x74 104 ''PageUp'',
     km 0x4C 0xE053 0x75 111 ''Delete'',
     km 0x4D 0xE04F 0x77 107 ''End'',
     km 0x4E 0xE051 0x79 109 ''PageDown'',
     km 0x4F 0xE04D 0x7C 106 ''ArrowRight'',
     km 0x50 0xE04B 0x7B 105 ''ArrowLeft'',
     km 0x51 0xE050 0x7D 108 ''ArrowDown'',
     km 0x52 0xE048 0x7E 103 ''ArrowUp'',
     km 0x53 0x45 0x47 69 ''NumLock'',
     km 0x54 0xE035 0x4B 98 ''NumpadDivide'',
     km 0x55 0x37 0x43 55 ''NumpadMultiply'',
     km 0x56 0x4A 0x4E 74 ''NumpadSubtract'',
     km 0x57 0x4E 0x45 78 ''NumpadAdd'',
     km 0x58 0xE01C 0x4C 96 ''NumpadEnter'',
     km 0x59 0x4F 0x53 79 ''Numpad1'',
     km 0x5A 0x50 0x54 80 ''Numpad2'',
     km 0x5B 0x51 0x55 81 ''Numpad3'',
     km 0x5C 0x4B 0x56 75 ''Numpad4'',
     km 0x5D 0x4C 0x57 76 ''Numpad5'',
     km 0x5E 0x4D 0x58 77 ''Numpad6'',
     km 0x5F 0x47 0x59 71 ''Numpad7'',
     km 0x60 0x48 0x5B 72 ''Numpad8'',
     km 0x61 0x49 0x5C 73 ''Numpad9'',
     km 0x62 0x52 0x52 82 ''Numpad0'',
     km 0x63 0x53 0x41 83 ''NumpadDecimal'',
     km 0x64 0x56 0x0A 86 ''IntlBackslash'',
     km 0x65 0xE05D 0x6E 127 ''ContextMenu'',
     km 0x67 0x59 0x51 117 ''NumpadEqual'',
     km 0x7F 0xE020 NO_CODE 113 ''AudioVolumeMute'',
     km 0x80 0xE030 NO_CODE 115 ''AudioVolumeUp'',
     km 0x81 0xE02E NO_CODE 114 ''AudioVolumeDown'',
     km 0xE0 0x1D 0x3B 29 ''ControlLeft'',
     km 0xE1 0x2A 0x38 42 ''ShiftLeft'',
     km 0xE2 0x38 0x3A 56 ''AltLeft'',
     km 0xE3 0xE05B 0x37 125 ''MetaLeft'',
     km 0xE4 0xE01D 0x3E 97 ''ControlRight'',
     km 0xE5 0x36 0x3C 54 ''ShiftRight'',
     km 0xE6 0xE038 0x3D 100 ''AltRight'',
     km 0xE7 0xE05C 0x36 126 ''MetaRight'']"

text \<open>The halving loop: the search is confined to \<open>[lo, lo + sz)\<close>.\<close>

function binary_search_from :: "('a \<Rightarrow> 'k::linorder) \<Rightarrow> 'k \<Rightarrow> 'a list \<Rightarrow> nat \<Rightarrow> nat \<Rightarrow> nat option" where
  "binary_search_from f k xs lo sz =
     (if sz = 0 then None
      else let mid = lo + sz div 2 in
        if f (xs ! mid) = k then Some mid
        else if f (xs ! mid) < k then binary_search_from f k xs (mid + 1) (sz - sz div 2 - 1)
        else binary_search_from f k xs lo (sz div 2))"
  by pat_completeness auto
termination by (relation "measure (\<lambda>(f, k, xs, lo, sz). sz)") auto

declare binary_search_from.simps [simp del]

definition binary_search_by_key :: "('a \<Rightarrow> 'k::linorder) \<Rightarrow> 'k \<Rightarrow> 'a list \<Rightarrow> nat option" where
  "binary_search_by_key f k xs = binary_search_from f k xs 0 (length xs)"

definition lookup :: "u16 \<Rightarrow> KeyMapping option" where
  "lookup usage = map_option (\<lambda>i. KEY_TABLE ! i) (binary_search_by_key km_usage usage KEY_TABLE)"

definition lookup_by_name :: "string \<Rightarrow> KeyMapping option" where
  "lookup_by_name name = find (\<lambda>k. km_name k = name) KEY_TABLE"

text \<open>\<open>cfg!(target_os = ...)\<close> is fixed when the crate is built.\<close>

datatype target_os = Windows | Macos | OtherOs

definition mapping_platform_code :: "target_os \<Rightarrow> KeyMapping \<Rightarrow> u16 option" where
  "mapping_platform_code os k =
     (let code = (case os of Windows \<Rightarrow> km_windows_scancode k | Macos \<Rightarrow> km_macos_keycode k
                  | OtherOs \<Rightarrow> km_linux_evdev k)
      in if code \<noteq> NO_CODE then Some code else None)"

definition windows_extended :: "KeyMapping \<Rightarrow> bool" where
  "windows_extended k \<longleftrightarrow> km_windows_scancode k AND 0xFF00 = 0xE000"

definition windows_scancode_low :: "KeyMapping \<Rightarrow> u16" where
  "windows_scancode_low k = km_windows_scancode k AND 0x00FF"

subsection \<open>Binary search\<close>

lemma binary_search_from_Some:
  "binary_search_from f k xs lo sz = Some i \<Longrightarrow> lo \<le> i \<and> i < lo + sz \<and> f (xs ! i) = k"
proof (induction f k xs lo sz rule: binary_search_from.induct)
  case (1 f k xs lo sz)
  show ?case
    using "1.prems" "1.IH" [OF _ refl]
    by (subst (asm) binary_search_from.simps) (fastforce simp: Let_def split: if_splits)
qed

lemma binary_search_from_None:
  "binary_search_from f k xs lo sz = None \<Longrightarrow> sorted (map f xs) \<Longrightarrow> lo + sz \<le> length xs \<Longrightarrow>
   lo \<le> i \<Longrightarrow> i < lo + sz \<Longrightarrow> f (xs ! i) \<noteq> k"
proof (induction f k xs lo sz rule: binary_search_from.induct)
  case (1 f k xs lo sz)
  let ?mid = "lo + sz div 2"
  have s: "sz \<noteq> 0" using "1.prems" by simp
  have mid: "?mid < lo + sz" using s by simp
  have mono: "f (xs ! a) \<le> f (xs ! b)" if "a \<le> b" "b < length xs" for a b
    using sorted_nth_mono [OF "1.prems"(2), of a b] that by simp
  have ne: "f (xs ! ?mid) \<noteq> k"
    using "1.prems"(1) s by (subst (asm) binary_search_from.simps) (auto simp: Let_def split: if_splits)
  show ?case
  proof (cases "f (xs ! ?mid) < k")
    case True
    then have "binary_search_from f k xs (?mid + 1) (sz - sz div 2 - 1) = None"
      using "1.prems"(1) s ne by (subst (asm) binary_search_from.simps) (simp add: Let_def)
    then show ?thesis
    proof (cases "i \<le> ?mid")
      case F: False
      with \<open>binary_search_from f k xs (?mid + 1) (sz - sz div 2 - 1) = None\<close> show ?thesis
        using "1.IH"(1) [OF s refl ne True] "1.prems" by simp
    qed (use True mono [of i ?mid] mid "1.prems"(3) in force)
  next
    case False
    then have n: "binary_search_from f k xs lo (sz div 2) = None"
      using "1.prems"(1) s ne by (subst (asm) binary_search_from.simps) (simp add: Let_def)
    show ?thesis
    proof (cases "i < ?mid")
      case True
      with n show ?thesis using "1.IH"(2) [OF s refl ne False] "1.prems" by simp
    qed (use False ne mono [of ?mid i] "1.prems"(3,5) in force)
  qed
qed

lemma find_unique:
  fixes f :: "'a \<Rightarrow> 'k::linorder"
  shows "sorted_wrt (<) (map f xs) \<Longrightarrow> i < length xs \<Longrightarrow> f (xs ! i) = k \<Longrightarrow>
   find (\<lambda>x. f x = k) xs = Some (xs ! i)"
proof (induction xs arbitrary: i)
  case (Cons x xs)
  show ?case
  proof (cases i)
    case (Suc j)
    then have "f x < f (xs ! j)" using Cons.prems nth_mem [of j xs] by (simp del: nth_mem) blast
    then have "f x \<noteq> k" using Cons.prems(3) Suc by simp
    with Cons Suc show ?thesis by simp
  qed (use Cons in simp)
qed simp

lemma binary_search_eq_find:
  fixes f :: "'a \<Rightarrow> 'k::linorder"
  assumes "sorted_wrt (<) (map f xs)"
  shows "map_option (\<lambda>i. xs ! i) (binary_search_by_key f k xs) = find (\<lambda>x. f x = k) xs"
proof (cases "binary_search_by_key f k xs")
  case None
  have "sorted (map f xs)" using assms by (simp add: strict_sorted_iff)
  with None have "\<forall>i < length xs. f (xs ! i) \<noteq> k"
    using binary_search_from_None [of f k xs 0 "length xs"] by (auto simp: binary_search_by_key_def)
  then have "find (\<lambda>x. f x = k) xs = None"
    by (auto simp: find_None_iff in_set_conv_nth)
  with None show ?thesis by simp
next
  case (Some i)
  then have "i < length xs" "f (xs ! i) = k"
    using binary_search_from_Some [of f k xs 0 "length xs" i] by (auto simp: binary_search_by_key_def)
  with Some find_unique [OF assms] show ?thesis by simp
qed

subsection \<open>The table\<close>

lemma KEY_TABLE_sorted: "sorted_wrt (<) (map km_usage KEY_TABLE)"
  by code_simp

lemma KEY_TABLE_valid: "list_all (\<lambda>k. is_valid_keyboard_usage (km_usage k)) KEY_TABLE"
  by code_simp

lemma lookup_eq_find: "lookup usage = find (\<lambda>k. km_usage k = usage) KEY_TABLE"
  unfolding lookup_def by (rule binary_search_eq_find [OF KEY_TABLE_sorted])

lemma lookup_Some: "lookup usage = Some k \<Longrightarrow> k \<in> set KEY_TABLE \<and> km_usage k = usage"
  by (auto simp: lookup_eq_find find_Some_iff)

lemma lookup_usage: "k \<in> set KEY_TABLE \<Longrightarrow> lookup (km_usage k) = Some k"
  using find_unique [OF KEY_TABLE_sorted] by (auto simp: lookup_eq_find in_set_conv_nth)

subsection \<open>Modifiers\<close>

lemma is_modifier_iff: "is_modifier u \<longleftrightarrow> u \<in> set MODIFIER_USAGES"
proof
  assume "is_modifier u"
  then have "u - 0xE0 \<le> 7"
    by (auto simp: is_modifier_def word_le_nat_alt unat_sub_if')
  then have "unat (u - 0xE0) \<in> set [0..<8]"
    by (simp add: word_le_nat_alt)
  moreover have "u = 0xE0 + word_of_nat (unat (u - 0xE0))" by simp
  ultimately have "u \<in> (\<lambda>n. 0xE0 + word_of_nat n) ` set [0..<8]" by blast
  then show "u \<in> set MODIFIER_USAGES"
    by (simp add: MODIFIER_USAGES_def upt_rec)
qed (auto simp: MODIFIER_USAGES_def is_modifier_def)

lemma modifier_bit_None: "modifier_bit u = None \<longleftrightarrow> \<not> is_modifier u"
  by (auto simp: modifier_bit_def MODIFIER_USAGES_def is_modifier_iff)

text \<open>The eight modifiers have eight different bits.\<close>

lemma modifier_bit_inj:
  "modifier_bit u = Some b \<Longrightarrow> modifier_bit v = Some c \<Longrightarrow> u \<noteq> v \<Longrightarrow> b AND c = 0"
  by (auto simp: modifier_bit_def MODIFIER_USAGES_def split: if_splits)

lemma modifier_bit_nonzero: "modifier_bit u = Some b \<Longrightarrow> b \<noteq> 0"
  by (auto simp: modifier_bit_def MODIFIER_USAGES_def split: if_splits)

subsection \<open>Properties\<close>

text \<open>C40. The key table is searched correctly: for every usage, the binary search returns the row of the
  table with that usage, and reports none exactly when the table has none; every row is reachable and
  inside the allow-list.\<close>

theorem lookup_correct:
  "lookup usage = find (\<lambda>k. km_usage k = usage) KEY_TABLE \<and>
   list_all (\<lambda>k. lookup (km_usage k) = Some k \<and> is_valid_keyboard_usage (km_usage k)) KEY_TABLE"
  using lookup_eq_find lookup_usage KEY_TABLE_valid by (simp add: list_all_iff)

end
