(* ===== verification/Rda_Utf8.thy ===== *)
theory Rda_Utf8
  imports Rda_Prelude "HOL-Library.Sublist"
begin

text \<open>
  Rust strings. A \<open>String\<close> or \<open>&str\<close> is its UTF-8 byte sequence, a \<open>u8 list\<close> that
  \<open>std::str::from_utf8\<close> accepts; \<open>chars()\<close> is its list of code points. The decoder below follows the
  table of well-formed byte sequences of the Unicode standard, which is what the standard library
  implements: overlong forms, surrogates and values above \<open>U+10FFFF\<close> are rejected.

  On top of it stands \<open>truncate_utf8\<close> of \<^verbatim>\<open>rda-proto/src/control.rs\<close>: cutting a string to a byte budget
  without splitting a code point. The main facts are that the result is again a string
  (\<open>valid_utf8_truncate_utf8\<close>), fits the budget, is the longest such prefix and loses at most three
  bytes of the budget.
\<close>

type_synonym rust_str = "u8 list"

subsection \<open>Decoding\<close>

definition is_continuation :: "u8 \<Rightarrow> bool" where
  "is_continuation b \<longleftrightarrow> 0x80 \<le> b \<and> b \<le> 0xBF"

definition cont_bits :: "u8 \<Rightarrow> nat" where
  "cont_bits b = unat b - 0x80"

text \<open>The number of bytes a lead byte announces (0: not a lead byte) and the bits it carries.\<close>

definition utf8_width :: "u8 \<Rightarrow> nat" where
  "utf8_width b = (if b < 0x80 then 1 else if b < 0xC2 then 0 else if b \<le> 0xDF then 2
     else if b \<le> 0xEF then 3 else if b \<le> 0xF4 then 4 else 0)"

definition lead_bits :: "u8 \<Rightarrow> nat" where
  "lead_bits b = unat b - (if b < 0x80 then 0 else if b \<le> 0xDF then 0xC0
     else if b \<le> 0xEF then 0xE0 else 0xF0)"

text \<open>Four lead bytes narrow the range of the byte after them: no overlong form, no surrogate,
  nothing above \<open>U+10FFFF\<close>.\<close>

definition second_ok :: "u8 \<Rightarrow> u8 list \<Rightarrow> bool" where
  "second_ok b0 cs = (case cs of
     [] \<Rightarrow> True
   | b1 # _ \<Rightarrow> (b0 = 0xE0 \<longrightarrow> 0xA0 \<le> b1) \<and> (b0 = 0xED \<longrightarrow> b1 \<le> 0x9F)
       \<and> (b0 = 0xF0 \<longrightarrow> 0x90 \<le> b1) \<and> (b0 = 0xF4 \<longrightarrow> b1 \<le> 0x8F))"

text \<open>The code point at the head of a byte sequence and the number of bytes it takes.\<close>

definition utf8_step :: "u8 list \<Rightarrow> (nat \<times> nat) option" where
  "utf8_step bs = (case bs of
     [] \<Rightarrow> None
   | b0 # t \<Rightarrow>
     (let n = utf8_width b0; cs = take (n - 1) t in
      if n \<noteq> 0 \<and> length cs = n - 1 \<and> list_all is_continuation cs \<and> second_ok b0 cs
      then Some (foldl (\<lambda>a c. a * 64 + cont_bits c) (lead_bits b0) cs, n)
      else None))"

lemma utf8_step_SomeE:
  assumes "utf8_step bs = Some (c, n)"
  obtains b0 t where "bs = b0 # t" "n = utf8_width b0" "0 < n" "n - 1 \<le> length t"
    "list_all is_continuation (take (n - 1) t)" "second_ok b0 (take (n - 1) t)"
    "c = foldl (\<lambda>a c. a * 64 + cont_bits c) (lead_bits b0) (take (n - 1) t)"
  using assms by (auto simp: utf8_step_def Let_def min_def split: list.splits if_splits)

lemma utf8_step_Cons:
  assumes "n = utf8_width b0" "0 < n" "n - 1 \<le> length t"
    "list_all is_continuation (take (n - 1) t)" "second_ok b0 (take (n - 1) t)"
  shows "utf8_step (b0 # t) =
    Some (foldl (\<lambda>a c. a * 64 + cont_bits c) (lead_bits b0) (take (n - 1) t), n)"
  using assms by (auto simp: utf8_step_def Let_def min_def)

lemma utf8_width_le: "utf8_width b \<le> 4"
  by (simp add: utf8_width_def)

lemma utf8_step_width: "utf8_step bs = Some (c, n) \<Longrightarrow> 0 < n \<and> n \<le> 4 \<and> n \<le> length bs"
  by (erule utf8_step_SomeE) (auto simp: utf8_width_le)

function utf8_decode :: "u8 list \<Rightarrow> nat list option" where
  "utf8_decode bs =
     (if bs = [] then Some []
      else case utf8_step bs of
        None \<Rightarrow> None
      | Some (c, n) \<Rightarrow> map_option (Cons c) (utf8_decode (drop n bs)))"
  by pat_completeness auto
termination
  by (relation "measure length") (auto dest: utf8_step_width)

declare utf8_decode.simps [simp del]

definition valid_utf8 :: "u8 list \<Rightarrow> bool" where
  "valid_utf8 bs \<longleftrightarrow> utf8_decode bs \<noteq> None"

definition from_utf8 :: "u8 list \<Rightarrow> rust_str option" where
  "from_utf8 bs = (if valid_utf8 bs then Some bs else None)"

definition chars :: "rust_str \<Rightarrow> nat list" where
  "chars s = (case utf8_decode s of None \<Rightarrow> [] | Some cs \<Rightarrow> cs)"

text \<open>\<open>char::is_control\<close>: general category Cc.\<close>

definition is_control :: "nat \<Rightarrow> bool" where
  "is_control c \<longleftrightarrow> c < 0x20 \<or> (0x7F \<le> c \<and> c \<le> 0x9F)"

definition is_char_boundary :: "rust_str \<Rightarrow> nat \<Rightarrow> bool" where
  "is_char_boundary s i \<longleftrightarrow>
     i = 0 \<or> i = length s \<or> (i < length s \<and> \<not> is_continuation (s ! i))"

lemma valid_utf8_Nil [simp]: "valid_utf8 []"
  by (simp add: valid_utf8_def utf8_decode.simps)

lemma utf8_decode_step:
  "utf8_step bs = Some (c, n) \<Longrightarrow> utf8_decode bs = map_option (Cons c) (utf8_decode (drop n bs))"
  by (subst utf8_decode.simps) (auto simp: utf8_step_def)

lemma valid_utf8_step:
  "utf8_step bs = Some (c, n) \<Longrightarrow> valid_utf8 bs \<longleftrightarrow> valid_utf8 (drop n bs)"
  by (simp add: valid_utf8_def utf8_decode_step)

lemma valid_utf8_cases:
  assumes "valid_utf8 bs"
  obtains "bs = []" | c n where "bs \<noteq> []" "utf8_step bs = Some (c, n)" "valid_utf8 (drop n bs)"
proof (cases "bs = []")
  case False
  with assms obtain c n where "utf8_step bs = Some (c, n)"
    by (auto simp: valid_utf8_def utf8_decode.simps [of bs] split: option.splits prod.splits)
  with assms False that(2) show ?thesis
    using valid_utf8_step by blast
qed (rule that(1))

subsection \<open>Locality of one decoding step\<close>

lemma lead_not_continuation: "0 < utf8_width b \<Longrightarrow> \<not> is_continuation b"
  by (auto simp: utf8_width_def is_continuation_def word_le_nat_alt word_less_nat_alt split: if_splits)

lemma utf8_step_head: "utf8_step bs = Some (c, n) \<Longrightarrow> \<not> is_continuation (bs ! 0)"
  by (erule utf8_step_SomeE) (simp add: lead_not_continuation)

lemma utf8_step_append:
  assumes "utf8_step bs = Some (c, n)"
  shows "utf8_step (bs @ cs) = Some (c, n)"
  using assms
proof (rule utf8_step_SomeE)
  fix b0 t
  assume *: "bs = b0 # t" "n = utf8_width b0" "0 < n" "n - 1 \<le> length t"
    "list_all is_continuation (take (n - 1) t)" "second_ok b0 (take (n - 1) t)"
    "c = foldl (\<lambda>a c. a * 64 + cont_bits c) (lead_bits b0) (take (n - 1) t)"
  have "take (n - 1) (t @ cs) = take (n - 1) t"
    using *(4) by simp
  with * show ?thesis
    using utf8_step_Cons [of n b0 "t @ cs"] by simp
qed

lemma utf8_step_take:
  assumes "utf8_step bs = Some (c, n)"
  shows "utf8_step (take n bs) = Some (c, n)"
  using assms
proof (rule utf8_step_SomeE)
  fix b0 t
  assume *: "bs = b0 # t" "n = utf8_width b0" "0 < n" "n - 1 \<le> length t"
    "list_all is_continuation (take (n - 1) t)" "second_ok b0 (take (n - 1) t)"
    "c = foldl (\<lambda>a c. a * 64 + cont_bits c) (lead_bits b0) (take (n - 1) t)"
  have "take n bs = b0 # take (n - 1) t"
    using *(1,3) by (simp add: take_Cons')
  with * show ?thesis
    using utf8_step_Cons [of n b0 "take (n - 1) t"] by simp
qed

lemma utf8_step_inner:
  assumes "utf8_step bs = Some (c, n)" "0 < i" "i < n"
  shows "is_continuation (bs ! i)"
  using assms(1)
proof (rule utf8_step_SomeE)
  fix b0 t
  assume *: "bs = b0 # t" "n - 1 \<le> length t" "list_all is_continuation (take (n - 1) t)"
  have "is_continuation (take (n - 1) t ! (i - 1))"
    using *(2,3) assms(2,3) by (auto simp: list_all_length)
  with *(1) assms(2,3) show ?thesis by (simp add: nth_Cons')
qed

subsection \<open>Prefixes that end on a boundary\<close>

lemma valid_utf8_take:
  assumes "valid_utf8 bs" "is_char_boundary bs e" "e \<le> length bs"
  shows "valid_utf8 (take e bs)"
  using assms
proof (induction "length bs" arbitrary: bs e rule: less_induct)
  case less
  from less.prems(1) show ?case
  proof (cases rule: valid_utf8_cases)
    case (2 c n)
    note w = utf8_step_width [OF 2(2)]
    show ?thesis
    proof (cases "e < n")
      case True
      with less.prems(2) w utf8_step_inner [OF 2(2), of e] have "e = 0"
        by (auto simp: is_char_boundary_def)
      then show ?thesis by simp
    next
      case False
      have "is_char_boundary (drop n bs) (e - n)"
        using less.prems(2,3) False w by (auto simp: is_char_boundary_def nth_drop)
      then have tl: "valid_utf8 (take (e - n) (drop n bs))"
        using less.hyps [of "drop n bs" "e - n"] less.prems(3) 2 w by auto
      have split: "take e bs = take n bs @ take (e - n) (drop n bs)"
        using False by (metis le_add_diff_inverse not_less take_add)
      have "utf8_step (take e bs) = Some (c, n)"
        unfolding split by (intro utf8_step_append utf8_step_take 2(2))
      then show ?thesis
        using tl w valid_utf8_step by (simp add: split)
    qed
  qed simp
qed

lemma no_four_continuations:
  assumes "valid_utf8 bs" "i + 3 < length bs"
  shows "\<exists>k \<le> 3. \<not> is_continuation (bs ! (i + k))"
  using assms
proof (induction "length bs" arbitrary: bs i rule: less_induct)
  case less
  from less.prems(1) show ?case
  proof (cases rule: valid_utf8_cases)
    case 1
    with less.prems(2) show ?thesis by simp
  next
    case (2 c n)
    note w = utf8_step_width [OF 2(2)]
    consider "n \<le> i" | "i = 0" | "0 < i" "i < n" by linarith
    then show ?thesis
    proof cases
      case 1
      with w less.prems(2) have "i - n + 3 < length (drop n bs)" by auto
      then obtain k where "k \<le> 3" "\<not> is_continuation (drop n bs ! (i - n + k))"
        using less.hyps [of "drop n bs" "i - n"] 2 w by auto
      with 1 w less.prems(2) show ?thesis by (auto simp: nth_drop)
    next
      case i: 2
      with utf8_step_head [OF 2(2)] show ?thesis by (intro exI [of _ 0]) simp
    next
      case 3
      with w less.prems(2) have n: "n < length bs" "n - i \<le> 3" by auto
      from 2(3) have "\<not> is_continuation (drop n bs ! 0)"
        using n by (cases rule: valid_utf8_cases) (auto dest: utf8_step_head)
      with n 3 show ?thesis by (intro exI [of _ "n - i"]) auto
    qed
  qed
qed

subsection \<open>Truncation to a byte budget\<close>

text \<open>The loop of \<open>truncate_utf8\<close>: step back from \<open>end\<close> until it is a boundary.\<close>

fun back_to_boundary :: "rust_str \<Rightarrow> nat \<Rightarrow> nat" where
  "back_to_boundary s 0 = 0"
| "back_to_boundary s (Suc e) =
     (if is_char_boundary s (Suc e) then Suc e else back_to_boundary s e)"

definition truncate_utf8 :: "rust_str \<Rightarrow> nat \<Rightarrow> rust_str" where
  "truncate_utf8 s max_bytes =
     (if length s \<le> max_bytes then s else take (back_to_boundary s max_bytes) s)"

lemma back_to_boundary_le: "back_to_boundary s e \<le> e"
  by (induction e) auto

lemma back_to_boundary_boundary: "is_char_boundary s (back_to_boundary s e)"
  by (induction e) (auto simp: is_char_boundary_def)

lemma back_to_boundary_greatest:
  "i \<le> e \<Longrightarrow> is_char_boundary s i \<Longrightarrow> i \<le> back_to_boundary s e"
  by (induction e) (auto simp: le_Suc_eq)

lemma valid_utf8_truncate_utf8: "valid_utf8 s \<Longrightarrow> valid_utf8 (truncate_utf8 s m)"
  using back_to_boundary_le [of s m]
  by (auto simp: truncate_utf8_def intro!: valid_utf8_take back_to_boundary_boundary)

lemma length_truncate_utf8: "length (truncate_utf8 s m) \<le> m"
  using back_to_boundary_le [of s m] by (auto simp: truncate_utf8_def)

lemma truncate_utf8_id: "length s \<le> m \<Longrightarrow> truncate_utf8 s m = s"
  by (simp add: truncate_utf8_def)

lemma prefix_truncate_utf8: "prefix (truncate_utf8 s m) s"
  by (simp add: truncate_utf8_def take_is_prefix)

lemma truncate_utf8_loss:
  assumes "valid_utf8 s" "m < length s"
  shows "m - 3 \<le> length (truncate_utf8 s m)"
proof (cases "m < 3")
  case False
  obtain k where "k \<le> 3" "\<not> is_continuation (s ! (m - 3 + k))"
    using no_four_continuations [OF assms(1), of "m - 3"] assms(2) False by auto
  then have "is_char_boundary s (m - 3 + k)" "m - 3 + k \<le> m"
    using assms(2) False by (auto simp: is_char_boundary_def)
  then have "m - 3 + k \<le> back_to_boundary s m"
    by (intro back_to_boundary_greatest)
  then show ?thesis
    using assms(2) back_to_boundary_le [of s m] by (simp add: truncate_utf8_def)
qed simp

subsection \<open>Property\<close>

text \<open>Cutting a text to a byte budget never splits a code point: the result is a valid string, a
  prefix of the text, within the budget, equal to the text when it fits, and otherwise at most three
  bytes below the budget.\<close>

theorem truncate_utf8_correct:
  assumes "valid_utf8 s"
  shows "valid_utf8 (truncate_utf8 s m) \<and> prefix (truncate_utf8 s m) s \<and>
    length (truncate_utf8 s m) \<le> m \<and>
    (if length s \<le> m then truncate_utf8 s m = s else m - 3 \<le> length (truncate_utf8 s m))"
  using assms valid_utf8_truncate_utf8 prefix_truncate_utf8 length_truncate_utf8 truncate_utf8_id
    truncate_utf8_loss [of s m] by auto

theorem truncate_utf8_correct_witness:
  "truncate_utf8 [0x61, 0xE2, 0x82, 0xAC, 0x62] 3 = [0x61] \<and>
   valid_utf8 (truncate_utf8 [0x61, 0xE2, 0x82, 0xAC, 0x62] 3)"
  using truncate_utf8_correct [of "[0x61, 0xE2, 0x82, 0xAC, 0x62]" 3] by code_simp

end
