(* ===== verification/Rda_Backend.thy ===== *)
theory Rda_Backend
  imports Rda_Hid Rda_Utf8 "HOL-Library.Signed_Division"
begin

text \<open>
  The backend interface of \<^verbatim>\<open>rda-input/src/backend/mod.rs\<close> and the backend that records calls. A
  \<open>Backend\<close> is a record of the trait's methods over a backend state. Relative motion is passed in
  eighths of a pixel: the \<open>f64\<close> the code computes is an \<open>i16\<close> divided by eight, which is exact.

  The locale \<open>input_backend\<close> is the contract an injector relies on: a call that succeeds has done what
  it says to the keys that are down, and nothing else has. The recording backend fulfils it.
\<close>

datatype Button = Left | Right | Middle | Back | Forward

record ScrollDelta =
  sd_vertical :: u16
  sd_horizontal :: u16

definition whole_detents :: "ScrollDelta \<Rightarrow> int \<times> int" where
  "whole_detents d = (sint (sd_vertical d) sdiv 120, sint (sd_horizontal d) sdiv 120)"

datatype BackendError =
    PermissionDenied string | Unavailable string | UnmappedUsage u16 | InjectionFailed string
  | Unsupported

record 'b Backend =
  be_pointer_absolute :: "int \<Rightarrow> int \<Rightarrow> ('b, BackendError, unit) st"
  be_pointer_relative :: "int \<Rightarrow> int \<Rightarrow> ('b, BackendError, unit) st"
  be_button :: "Button \<Rightarrow> bool \<Rightarrow> ('b, BackendError, unit) st"
  be_scroll :: "ScrollDelta \<Rightarrow> ('b, BackendError, unit) st"
  be_key :: "u16 \<Rightarrow> bool \<Rightarrow> ('b, BackendError, unit) st"
  be_text :: "rust_str \<Rightarrow> ('b, BackendError, unit) st"

definition backend_platform_code :: "target_os \<Rightarrow> u16 \<Rightarrow> BackendError + u16" where
  "backend_platform_code os usage =
     ok_or (Option.bind (lookup usage) (mapping_platform_code os)) (UnmappedUsage usage)"

subsection \<open>The recording backend\<close>

datatype RecordedEvent =
    PointerAbsolute int int
  | PointerRelative int int        \<comment> \<open>milli-pixels\<close>
  | ButtonEvent Button bool
  | Scroll u16 u16
  | KeyEvent u16 bool
  | Text rust_str

record RecordingBackend =
  rb_events :: "RecordedEvent list"
  rb_fail_with :: "BackendError option"

definition recording_default :: RecordingBackend where
  "recording_default = \<lparr>rb_events = [], rb_fail_with = None\<rparr>"

definition recording_keys :: "RecordingBackend \<Rightarrow> (u16 \<times> bool) list" where
  "recording_keys b =
     concat (map (\<lambda>e. case e of KeyEvent usage down \<Rightarrow> [(usage, down)] | _ \<Rightarrow> []) (rb_events b))"

definition recording_check :: "RecordingBackend \<Rightarrow> BackendError + unit" where
  "recording_check b = (case rb_fail_with b of Some e \<Rightarrow> Inl e | None \<Rightarrow> Inr ())"

definition recording_push :: "RecordedEvent \<Rightarrow> (RecordingBackend, BackendError, unit) st" where
  "recording_push e b = (case recording_check b of
     Inl err \<Rightarrow> (Inl err, b)
   | Inr _ \<Rightarrow> (Inr (), b\<lparr>rb_events := rb_events b @ [e]\<rparr>))"

text \<open>\<open>(dx * 1000.0) as i64\<close> of \<open>n / 8\<close> is \<open>125 n\<close>, exactly.\<close>

definition recording_backend :: "RecordingBackend Backend" where
  "recording_backend =
     \<lparr>be_pointer_absolute = (\<lambda>x y. recording_push (PointerAbsolute x y)),
      be_pointer_relative = (\<lambda>dx dy. recording_push (PointerRelative (dx * 125) (dy * 125))),
      be_button = (\<lambda>b down. recording_push (ButtonEvent b down)),
      be_scroll = (\<lambda>d. recording_push (Scroll (sd_vertical d) (sd_horizontal d))),
      be_key = (\<lambda>usage down. recording_push (KeyEvent usage down)),
      be_text = (\<lambda>t. recording_push (Text t))\<rparr>"

subsection \<open>The contract\<close>

locale input_backend =
  fixes ops :: "'b Backend"
    and down :: "'b \<Rightarrow> u16 set"
    and works :: "'b \<Rightarrow> bool"
  assumes key_works: "works b \<Longrightarrow> \<exists>b'. be_key ops u d b = (Inr (), b') \<and> works b' \<and>
      down b' = (if d then insert u (down b) else down b - {u})"
    and absolute_works: "works b \<Longrightarrow> \<exists>b'. be_pointer_absolute ops x y b = (Inr (), b') \<and> works b' \<and> down b' = down b"
    and relative_works: "works b \<Longrightarrow> \<exists>b'. be_pointer_relative ops x y b = (Inr (), b') \<and> works b' \<and> down b' = down b"
    and button_works: "works b \<Longrightarrow> \<exists>b'. be_button ops bt d b = (Inr (), b') \<and> works b' \<and> down b' = down b"
    and scroll_works: "works b \<Longrightarrow> \<exists>b'. be_scroll ops sd b = (Inr (), b') \<and> works b' \<and> down b' = down b"
    and text_works: "works b \<Longrightarrow> \<exists>b'. be_text ops t b = (Inr (), b') \<and> works b' \<and> down b' = down b"

text \<open>The keys that are down after the recorded calls.\<close>

definition recorded_down :: "RecordingBackend \<Rightarrow> u16 set" where
  "recorded_down b =
     foldl (\<lambda>D (u, d). if d then insert u D else D - {u}) {} (recording_keys b)"

lemma recorded_down_push:
  "recorded_down (b\<lparr>rb_events := rb_events b @ [e]\<rparr>) =
     (case e of KeyEvent u d \<Rightarrow> if d then insert u (recorded_down b) else recorded_down b - {u}
      | _ \<Rightarrow> recorded_down b)"
  by (cases e) (simp_all add: recorded_down_def recording_keys_def)

interpretation recording: input_backend recording_backend recorded_down "\<lambda>b. rb_fail_with b = None"
  by unfold_locales
    (auto simp: recording_backend_def recording_push_def recording_check_def recorded_down_push)

text \<open>A failing recording backend does nothing at all.\<close>

lemma recording_push_fails: "rb_fail_with b = Some e \<Longrightarrow> recording_push ev b = (Inl e, b)"
  by (simp add: recording_push_def recording_check_def)

end
