(* ===== verification/Rda_Wire.thy ===== *)
theory Rda_Wire
  imports Rda_Utf8
begin

text \<open>
  The vocabulary of the control protocol, \<^verbatim>\<open>rda-proto/src/control.rs\<close>: its limits, the decoding
  errors, the bounds-checked \<open>Reader\<close>, message types and the channel each one rides on, modifiers and
  the small enums of the payloads. \<open>i16\<close> values are 16-bit words: the cast between \<open>u16\<close> and \<open>i16\<close>
  keeps the bits. \<open>usize\<close> lengths are \<open>nat\<close>.

  A decoding step is a function from a reader to an error or a value and the advanced reader;
  \<open>rbind\<close> is what \<open>?\<close> does. \<open>parses p bs x\<close> says that \<open>p\<close> consumes exactly \<open>bs\<close> and yields \<open>x\<close>,
  whatever follows. The locale \<open>wire_field\<close> is the contract of one encoded field; it is interpreted
  for every kind of field of the protocol.
\<close>

subsection \<open>Limits and errors\<close>

definition PROTO_VERSION :: u8 where "PROTO_VERSION = 1"
definition HEADER_LEN :: nat where "HEADER_LEN = 8"
definition MAX_PRESSED_KEYS :: nat where "MAX_PRESSED_KEYS = 32"
definition MAX_TEXT_INPUT :: nat where "MAX_TEXT_INPUT = 1024"
definition MAX_CURSOR_DATA :: nat where "MAX_CURSOR_DATA = 256 * 1024"
definition MAX_CURSOR_DIM :: u16 where "MAX_CURSOR_DIM = 256"
definition MAX_VIDEO_FRAME :: nat where "MAX_VIDEO_FRAME = 2 * 1024 * 1024"
definition MAX_VIDEO_FRAGMENT :: nat where "MAX_VIDEO_FRAGMENT = 16 * 1024"
definition MAX_VIDEO_FRAGMENTS :: u16 where
  "MAX_VIDEO_FRAGMENTS = word_of_nat (MAX_VIDEO_FRAME div MAX_VIDEO_FRAGMENT)"

lemmas limit_defs = PROTO_VERSION_def HEADER_LEN_def MAX_PRESSED_KEYS_def MAX_TEXT_INPUT_def
  MAX_CURSOR_DATA_def MAX_CURSOR_DIM_def MAX_VIDEO_FRAGMENT_def MAX_VIDEO_FRAME_def

lemma MAX_VIDEO_FRAGMENTS_eq: "MAX_VIDEO_FRAGMENTS = 128"
  by (simp add: MAX_VIDEO_FRAGMENTS_def limit_defs)

datatype DecodeError =
    Truncated nat nat              \<comment> \<open>need, got\<close>
  | BadVersion u8
  | InvalidField string u32        \<comment> \<open>field, value\<close>
  | LengthCap string nat nat       \<comment> \<open>field, len, max\<close>
  | InvalidText string

subsection \<open>Reader\<close>

record reader =
  rd_buf :: "u8 list"
  rd_pos :: nat

type_synonym 'a parser = "reader \<Rightarrow> DecodeError + ('a \<times> reader)"

definition reader_new :: "u8 list \<Rightarrow> reader" where
  "reader_new buf = \<lparr>rd_buf = buf, rd_pos = 0\<rparr>"

definition remaining :: "reader \<Rightarrow> nat" where
  "remaining r = length (rd_buf r) - rd_pos r"

definition r_take :: "nat \<Rightarrow> u8 list parser" where
  "r_take n r =
     (if remaining r < n then Inl (Truncated n (remaining r))
      else Inr (take n (drop (rd_pos r) (rd_buf r)), r\<lparr>rd_pos := rd_pos r + n\<rparr>))"

definition rret :: "'a \<Rightarrow> 'a parser" where
  "rret x r = Inr (x, r)"

definition rfail :: "DecodeError \<Rightarrow> 'a parser" where
  "rfail e r = Inl e"

definition rbind :: "'a parser \<Rightarrow> ('a \<Rightarrow> 'b parser) \<Rightarrow> 'b parser" where
  "rbind p f r = bindE (p r) (\<lambda>(x, r'). f x r')"

definition rlift :: "DecodeError + 'a \<Rightarrow> 'a parser" where
  "rlift m r = mapE (\<lambda>x. (x, r)) m"

definition r_u8 :: "u8 parser" where
  "r_u8 = rbind (r_take 1) (\<lambda>b. rret (b ! 0))"

definition r_u16 :: "u16 parser" where
  "r_u16 = rbind (r_take 2) (\<lambda>b. rret (from_be_bytes16 (b ! 0) (b ! 1)))"

definition r_i16 :: "u16 parser" where
  "r_i16 = r_u16"

definition r_u32 :: "u32 parser" where
  "r_u32 = rbind (r_take 4) (\<lambda>b. rret (from_be_bytes32 (b ! 0) (b ! 1) (b ! 2) (b ! 3)))"

definition skip_reserved :: "nat \<Rightarrow> unit parser" where
  "skip_reserved n = rbind (r_take n) (\<lambda>_. rret ())"

text \<open>\<open>for _ in 0..count\<close> with a step that may fail, collecting the values.\<close>

primrec r_repeat :: "nat \<Rightarrow> 'a parser \<Rightarrow> 'a list parser" where
  "r_repeat 0 p = rret []"
| "r_repeat (Suc n) p = rbind p (\<lambda>x. rbind (r_repeat n p) (\<lambda>xs. rret (x # xs)))"

subsection \<open>Message types and channels\<close>

datatype MessageType =
    Hello | HelloAck | AuthRequest | AuthResponse | SessionReady | Ping | Pong | Pause | Resume
  | EndSession | Error | AuthConfirm
  | MouseMove | MouseMoveRelative | MouseButton | MouseWheel | KeyEvent | KeyStateSync | TextInput
  | DisplayList | DisplaySelect | QualityHint | RequestKeyframe | LtrAck | CursorUpdate
  | CursorShape | VideoFrame
  | ClipboardOffer | ClipboardRequest | ClipboardData
  | QosReport

text \<open>The discriminants, \<open>ty as u8\<close>.\<close>

fun msg_code :: "MessageType \<Rightarrow> u8" where
  "msg_code Hello = 0x01" | "msg_code HelloAck = 0x02" | "msg_code AuthRequest = 0x03"
| "msg_code AuthResponse = 0x04" | "msg_code SessionReady = 0x05" | "msg_code Ping = 0x06"
| "msg_code Pong = 0x07" | "msg_code Pause = 0x08" | "msg_code Resume = 0x09"
| "msg_code EndSession = 0x0A" | "msg_code Error = 0x0B" | "msg_code AuthConfirm = 0x0C"
| "msg_code MouseMove = 0x10" | "msg_code MouseMoveRelative = 0x11" | "msg_code MouseButton = 0x12"
| "msg_code MouseWheel = 0x13" | "msg_code KeyEvent = 0x14" | "msg_code KeyStateSync = 0x15"
| "msg_code TextInput = 0x16"
| "msg_code DisplayList = 0x30" | "msg_code DisplaySelect = 0x31" | "msg_code QualityHint = 0x32"
| "msg_code RequestKeyframe = 0x33" | "msg_code LtrAck = 0x34" | "msg_code CursorUpdate = 0x35"
| "msg_code CursorShape = 0x36" | "msg_code VideoFrame = 0x37"
| "msg_code ClipboardOffer = 0x40" | "msg_code ClipboardRequest = 0x41"
| "msg_code ClipboardData = 0x42"
| "msg_code QosReport = 0x50"

definition from_u8 :: "u8 \<Rightarrow> MessageType option" where
  "from_u8 v =
    (if v = 0x01 then Some Hello else if v = 0x02 then Some HelloAck
     else if v = 0x03 then Some AuthRequest else if v = 0x04 then Some AuthResponse
     else if v = 0x05 then Some SessionReady else if v = 0x06 then Some Ping
     else if v = 0x07 then Some Pong else if v = 0x08 then Some Pause
     else if v = 0x09 then Some Resume else if v = 0x0A then Some EndSession
     else if v = 0x0B then Some Error else if v = 0x0C then Some AuthConfirm
     else if v = 0x10 then Some MouseMove else if v = 0x11 then Some MouseMoveRelative
     else if v = 0x12 then Some MouseButton else if v = 0x13 then Some MouseWheel
     else if v = 0x14 then Some KeyEvent else if v = 0x15 then Some KeyStateSync
     else if v = 0x16 then Some TextInput
     else if v = 0x30 then Some DisplayList else if v = 0x31 then Some DisplaySelect
     else if v = 0x32 then Some QualityHint else if v = 0x33 then Some RequestKeyframe
     else if v = 0x34 then Some LtrAck else if v = 0x35 then Some CursorUpdate
     else if v = 0x36 then Some CursorShape else if v = 0x37 then Some VideoFrame
     else if v = 0x40 then Some ClipboardOffer else if v = 0x41 then Some ClipboardRequest
     else if v = 0x42 then Some ClipboardData
     else if v = 0x50 then Some QosReport
     else None)"

datatype Channel = Control | InputKeys | InputPointer | Cursor | Stats | Clipboard | File | Video

definition channel :: "MessageType \<Rightarrow> Channel" where
  "channel ty = (case ty of
     MouseMove \<Rightarrow> InputPointer | MouseMoveRelative \<Rightarrow> InputPointer
   | MouseButton \<Rightarrow> InputKeys | MouseWheel \<Rightarrow> InputKeys | KeyEvent \<Rightarrow> InputKeys
   | KeyStateSync \<Rightarrow> InputKeys | TextInput \<Rightarrow> InputKeys
   | CursorUpdate \<Rightarrow> Cursor | CursorShape \<Rightarrow> Cursor
   | VideoFrame \<Rightarrow> Video
   | ClipboardOffer \<Rightarrow> Clipboard | ClipboardRequest \<Rightarrow> Clipboard | ClipboardData \<Rightarrow> Clipboard
   | QosReport \<Rightarrow> Stats
   | _ \<Rightarrow> Control)"

fun channel_label :: "Channel \<Rightarrow> string" where
  "channel_label Control = ''ctl''"
| "channel_label InputKeys = ''input-k''"
| "channel_label InputPointer = ''input-p''"
| "channel_label Cursor = ''cursor''"
| "channel_label Stats = ''stats''"
| "channel_label Clipboard = ''clip''"
| "channel_label File = ''file''"
| "channel_label Video = ''video''"

fun stream_id :: "Channel \<Rightarrow> u16" where
  "stream_id Control = 0" | "stream_id InputKeys = 1" | "stream_id InputPointer = 2"
| "stream_id Cursor = 3" | "stream_id Stats = 4" | "stream_id Clipboard = 5"
| "stream_id File = 6" | "stream_id Video = 7"

definition channel_all :: "Channel list" where
  "channel_all = [Control, InputKeys, InputPointer, Cursor, Stats, Clipboard, File, Video]"

subsection \<open>Modifiers and small enums\<close>

type_synonym Modifiers = u16

definition LEFT_CTRL :: u16 where "LEFT_CTRL = 0x0001"
definition LEFT_SHIFT :: u16 where "LEFT_SHIFT = 0x0002"
definition LEFT_ALT :: u16 where "LEFT_ALT = 0x0004"
definition LEFT_GUI :: u16 where "LEFT_GUI = 0x0008"
definition RIGHT_CTRL :: u16 where "RIGHT_CTRL = 0x0010"
definition RIGHT_SHIFT :: u16 where "RIGHT_SHIFT = 0x0020"
definition RIGHT_ALT :: u16 where "RIGHT_ALT = 0x0040"
definition RIGHT_GUI :: u16 where "RIGHT_GUI = 0x0080"

definition modifiers_contains :: "Modifiers \<Rightarrow> u16 \<Rightarrow> bool" where
  "modifiers_contains m bits \<longleftrightarrow> m AND bits \<noteq> 0"

definition hid_byte :: "Modifiers \<Rightarrow> u8" where
  "hid_byte m = ucast (m AND 0x00FF)"

datatype MouseButtonId = Left | Right | Middle | X1 | X2

fun button_code :: "MouseButtonId \<Rightarrow> u8" where
  "button_code Left = 1" | "button_code Right = 2" | "button_code Middle = 3"
| "button_code X1 = 4" | "button_code X2 = 5"

definition button_from_u8 :: "u8 \<Rightarrow> DecodeError + MouseButtonId" where
  "button_from_u8 v =
    (if v = 1 then Inr Left else if v = 2 then Inr Right else if v = 3 then Inr Middle
     else if v = 4 then Inr X1 else if v = 5 then Inr X2
     else Inl (InvalidField ''button'' (ucast v)))"

datatype KeyAction = Up | Down | Repeat

fun action_code :: "KeyAction \<Rightarrow> u8" where
  "action_code Up = 0" | "action_code Down = 1" | "action_code Repeat = 2"

definition action_from_u8 :: "u8 \<Rightarrow> string \<Rightarrow> bool \<Rightarrow> DecodeError + KeyAction" where
  "action_from_u8 v field allow_repeat =
    (if v = 0 then Inr Up else if v = 1 then Inr Down
     else if v = 2 \<and> allow_repeat then Inr Repeat
     else Inl (InvalidField field (ucast v)))"

datatype KeyframeMode = Idr | Ltr

fun mode_code :: "KeyframeMode \<Rightarrow> u8" where
  "mode_code Idr = 0" | "mode_code Ltr = 1"

definition USAGE_PAGE_KEYBOARD :: u16 where "USAGE_PAGE_KEYBOARD = 0x0007"
definition USAGE_PAGE_CONSUMER :: u16 where "USAGE_PAGE_CONSUMER = 0x000C"

definition validate_usage :: "u16 \<Rightarrow> u16 \<Rightarrow> DecodeError + unit" where
  "validate_usage page usage =
    (if page = USAGE_PAGE_KEYBOARD then
       (if \<not> (0x01 \<le> usage \<and> usage \<le> 0xE7)
        then Inl (InvalidField ''usage_id'' (ucast usage)) else Inr ())
     else if page = USAGE_PAGE_CONSUMER then
       (if usage = 0 \<or> usage > 0x029C
        then Inl (InvalidField ''usage_id'' (ucast usage)) else Inr ())
     else Inl (InvalidField ''usage_page'' (ucast page)))"

subsection \<open>Facts on the reader\<close>

lemma rbind_Inr:
  "rbind p f r = Inr z \<longleftrightarrow> (\<exists>x r'. p r = Inr (x, r') \<and> f x r' = Inr z)"
  by (auto simp: rbind_def bindE_eq_Inr)

lemma rret_Inr [simp]: "rret x r = Inr (y, r') \<longleftrightarrow> y = x \<and> r' = r"
  by (auto simp: rret_def)

lemma rfail_Inr [simp]: "rfail e r \<noteq> Inr z"
  by (simp add: rfail_def)

lemma rlift_Inr [simp]: "rlift m r = Inr (x, r') \<longleftrightarrow> m = Inr x \<and> r' = r"
  by (auto simp: rlift_def mapE_def split: sum.splits)

lemma if_fail_Inr:
  "(if b then rfail e else p) r = Inr z \<longleftrightarrow> \<not> b \<and> p r = Inr z"
  by simp

text \<open>Consuming exactly a given prefix of what remains.\<close>

definition parses :: "'a parser \<Rightarrow> u8 list \<Rightarrow> 'a \<Rightarrow> bool" where
  "parses p bs x \<longleftrightarrow>
     (\<forall>r rest. drop (rd_pos r) (rd_buf r) = bs @ rest \<longrightarrow>
        p r = Inr (x, r\<lparr>rd_pos := rd_pos r + length bs\<rparr>))"

lemma parses_rret: "parses (rret x) [] x"
  by (simp add: parses_def rret_def)

lemma parses_rlift: "m = Inr x \<Longrightarrow> parses (rlift m) [] x"
  by (simp add: parses_def rlift_def mapE_def)

lemma parses_take: "length bs = n \<Longrightarrow> parses (r_take n) bs bs"
proof (unfold parses_def, intro allI impI)
  fix r :: reader and rest
  assume n: "length bs = n" and eq: "drop (rd_pos r) (rd_buf r) = bs @ rest"
  from eq have "length (rd_buf r) - rd_pos r = length bs + length rest"
    by (metis length_append length_drop)
  with n eq show "r_take n r = Inr (bs, r\<lparr>rd_pos := rd_pos r + length bs\<rparr>)"
    by (simp add: r_take_def remaining_def)
qed

lemma parses_bind:
  assumes "parses p bs x" "parses (f x) cs y" "ds = bs @ cs"
  shows "parses (rbind p f) ds y"
proof (unfold parses_def, intro allI impI)
  fix r :: reader and rest
  let ?r = "r\<lparr>rd_pos := rd_pos r + length bs\<rparr>"
  assume eq: "drop (rd_pos r) (rd_buf r) = ds @ rest"
  then have "p r = Inr (x, ?r)"
    using assms(1,3) by (simp add: parses_def)
  moreover have "drop (rd_pos ?r) (rd_buf ?r) = cs @ rest"
    using eq assms(3) by (metis append_assoc append_eq_conv_conj drop_drop add.commute
        reader.select_convs(1,2) reader.surjective reader.update_convs(2))
  then have "f x ?r = Inr (y, ?r\<lparr>rd_pos := rd_pos ?r + length cs\<rparr>)"
    using assms(2) unfolding parses_def by blast
  ultimately show "rbind p f r = Inr (y, r\<lparr>rd_pos := rd_pos r + length ds\<rparr>)"
    using assms(3) by (simp add: rbind_def add.assoc)
qed

lemma parses_if_fail: "\<not> b \<Longrightarrow> parses p bs x \<Longrightarrow> parses (if b then rfail e else p) bs x"
  by simp

lemma parses_new: "parses p bs x \<Longrightarrow> \<exists>r'. p (reader_new bs) = Inr (x, r')"
  by (simp add: parses_def reader_new_def)

subsection \<open>The contract of a field\<close>

text \<open>An encoder and a decoder of one field: what is encoded is decoded from exactly its bytes, and
  the decoder yields only admissible values.\<close>

locale wire_field =
  fixes enc :: "'a \<Rightarrow> u8 list"
    and dec :: "'a parser"
    and ok :: "'a \<Rightarrow> bool"
  assumes dec_enc: "ok x \<Longrightarrow> parses dec (enc x) x"
    and dec_ok: "dec r = Inr (x, r') \<Longrightarrow> ok x"
begin

text \<open>A sequence of such fields.\<close>

lemma dec_enc_list:
  "list_all ok xs \<Longrightarrow> parses (r_repeat (length xs) dec) (concat (map enc xs)) xs"
proof (induction xs)
  case (Cons x xs)
  then have IH: "parses (r_repeat (length xs) dec) (concat (map enc xs)) xs" by simp
  show ?case
    unfolding length_Cons r_repeat.simps
  proof (rule parses_bind)
    show "parses dec (enc x) x" using Cons.prems dec_enc by simp
    show "parses (rbind (r_repeat (length xs) dec) (\<lambda>xs. rret (x # xs)))
        (concat (map enc xs)) (x # xs)"
      by (rule parses_bind [OF IH parses_rret]) simp
  qed simp
qed (simp add: parses_rret)

lemma dec_list_ok:
  "r_repeat n dec r = Inr (xs, r') \<Longrightarrow> length xs = n \<and> list_all ok xs"
proof (induction n arbitrary: r xs r')
  case (Suc n)
  from Suc.prems obtain x r1 ys where x: "dec r = Inr (x, r1)"
    and ys: "r_repeat n dec r1 = Inr (ys, r')" and xs: "xs = x # ys"
    by (auto simp: rbind_Inr)
  show ?case using Suc.IH [OF ys] dec_ok [OF x] xs by simp
qed simp

end

lemma parses_take_map:
  assumes "length bs = n" "f bs = y"
  shows "parses (rbind (r_take n) (\<lambda>b. rret (f b))) bs y"
  by (rule parses_bind [OF parses_take [OF assms(1)], where cs = "[]"]) (simp_all add: assms parses_rret)

interpretation f_u8: wire_field "\<lambda>b. [b]" r_u8 "\<lambda>_. True"
  by unfold_locales (simp_all add: r_u8_def parses_take_map)

interpretation f_u16: wire_field to_be_bytes16 r_u16 "\<lambda>_. True"
  by unfold_locales (simp_all add: r_u16_def parses_take_map to_be_bytes16_def)

interpretation f_i16: wire_field to_be_bytes16 r_i16 "\<lambda>_. True"
  by unfold_locales (simp_all add: r_i16_def f_u16.dec_enc)

interpretation f_u32: wire_field to_be_bytes32 r_u32 "\<lambda>_. True"
  by unfold_locales (simp_all add: r_u32_def parses_take_map to_be_bytes32_def)

lemmas parses_u8 = f_u8.dec_enc [OF TrueI]
  and parses_u16 = f_u16.dec_enc [OF TrueI]
  and parses_i16 = f_i16.dec_enc [OF TrueI]
  and parses_u32 = f_u32.dec_enc [OF TrueI]

text \<open>A key of a \<open>KeyStateSync\<close>: a usage of the keyboard page.\<close>

definition r_pressed :: "u16 parser" where
  "r_pressed = rbind r_u16 (\<lambda>usage.
     rbind (rlift (validate_usage USAGE_PAGE_KEYBOARD usage)) (\<lambda>_. rret usage))"

interpretation f_pressed: wire_field to_be_bytes16 r_pressed
  "\<lambda>usage. validate_usage USAGE_PAGE_KEYBOARD usage = Inr ()"
proof
  fix usage
  assume "validate_usage USAGE_PAGE_KEYBOARD usage = Inr ()"
  then have "parses (rbind (rlift (validate_usage USAGE_PAGE_KEYBOARD usage)) (\<lambda>_. rret usage)) [] usage"
    by (rule parses_bind [OF parses_rlift parses_rret, of _ _ "[]"]) simp
  then show "parses r_pressed (to_be_bytes16 usage) usage"
    unfolding r_pressed_def by (rule parses_bind [OF parses_u16]) simp_all
qed (auto simp: r_pressed_def rbind_Inr)

interpretation f_button: wire_field "\<lambda>b. [button_code b]" "rbind r_u8 (\<lambda>b. rlift (button_from_u8 b))"
  "\<lambda>_. True"
proof
  fix b :: MouseButtonId
  have "parses (rlift (button_from_u8 (button_code b))) [] b"
    by (rule parses_rlift) (cases b; simp add: button_from_u8_def)
  then show "parses (rbind r_u8 (\<lambda>b. rlift (button_from_u8 b))) [button_code b] b"
    by (rule parses_bind [OF parses_u8]) simp_all
qed simp

text \<open>An action; \<open>allow_repeat\<close> is false for mouse buttons.\<close>

lemma action_from_code:
  "a \<noteq> Repeat \<or> rep \<Longrightarrow> action_from_u8 (action_code a) f rep = Inr a"
  by (cases a) (auto simp: action_from_u8_def)

lemma action_from_u8_ok: "action_from_u8 v f rep = Inr a \<Longrightarrow> a \<noteq> Repeat \<or> rep"
  by (auto simp: action_from_u8_def split: if_splits)

interpretation f_action: wire_field "\<lambda>a. [action_code a]"
  "rbind r_u8 (\<lambda>b. rlift (action_from_u8 b f rep))" "\<lambda>a. a \<noteq> Repeat \<or> rep" for f rep
proof
  fix a :: KeyAction
  assume "a \<noteq> Repeat \<or> rep"
  then have "parses (rlift (action_from_u8 (action_code a) f rep)) [] a"
    by (intro parses_rlift action_from_code)
  then show "parses (rbind r_u8 (\<lambda>b. rlift (action_from_u8 b f rep))) [action_code a] a"
    by (rule parses_bind [OF parses_u8]) simp_all
next
  fix r a r'
  assume "rbind r_u8 (\<lambda>b. rlift (action_from_u8 b f rep)) r = Inr (a, r')"
  then show "a \<noteq> Repeat \<or> rep"
    by (auto simp: rbind_Inr dest: action_from_u8_ok)
qed

text \<open>Reading one field and going on: the bytes of the field, then the rest.\<close>

lemma parses_then:
  "parses (f b) cs y \<Longrightarrow> parses (rbind r_u8 f) (b # cs) y"
  "parses (g w) cs y \<Longrightarrow> parses (rbind r_u16 g) (to_be_bytes16 w @ cs) y"
  "parses (g w) cs y \<Longrightarrow> parses (rbind r_i16 g) (to_be_bytes16 w @ cs) y"
  "parses (h d) cs y \<Longrightarrow> parses (rbind r_u32 h) (to_be_bytes32 d @ cs) y"
  "length bs = n \<Longrightarrow> parses (k bs) cs y \<Longrightarrow> parses (rbind (r_take n) k) (bs @ cs) y"
  "parses (j ()) cs y \<Longrightarrow> parses (rbind (skip_reserved 1) j) (b # cs) y"
  by (auto intro: parses_bind [OF parses_u8] parses_bind [OF parses_u16] parses_bind [OF parses_i16]
      parses_bind [OF parses_u32] parses_bind [OF parses_take])
    (rule parses_bind [where bs = "[b]"], auto simp: skip_reserved_def intro: parses_take_map)

lemma parses_last:
  "parses (g w) [] y \<Longrightarrow> parses (rbind r_u16 g) (to_be_bytes16 w) y"
  "parses (h d) [] y \<Longrightarrow> parses (rbind r_u32 h) (to_be_bytes32 d) y"
  "length bs = n \<Longrightarrow> parses (k bs) [] y \<Longrightarrow> parses (rbind (r_take n) k) bs y"
  "m = Inr x \<Longrightarrow> parses (f x) cs z \<Longrightarrow> parses (rbind (rlift m) f) cs z"
  by (auto intro: parses_bind [OF parses_u16] parses_bind [OF parses_u32]
      parses_bind [OF parses_take] parses_bind [OF parses_rlift])

lemma parses_button:
  "parses (f b) cs y \<Longrightarrow>
   parses (rbind (rbind r_u8 (\<lambda>v. rlift (button_from_u8 v))) f) (button_code b # cs) y"
  by (rule parses_bind [OF f_button.dec_enc]) simp_all

lemma parses_action:
  "a \<noteq> Repeat \<or> rep \<Longrightarrow> parses (f a) cs y \<Longrightarrow>
   parses (rbind (rbind r_u8 (\<lambda>v. rlift (action_from_u8 v fld rep))) f) (action_code a # cs) y"
  by (rule parses_bind [OF f_action.dec_enc]) simp_all

subsection \<open>Message types and channels: facts\<close>

lemma from_u8_msg_code [simp]: "from_u8 (msg_code ty) = Some ty"
  by (cases ty) (simp_all add: from_u8_def)

lemma msg_code_from_u8: "from_u8 v = Some ty \<Longrightarrow> msg_code ty = v"
  by (auto simp: from_u8_def split: if_split_asm)

lemma from_u8_eq_Some: "from_u8 v = Some ty \<longleftrightarrow> v = msg_code ty"
  using msg_code_from_u8 by auto

lemma stream_id_nth: "channel_all ! unat (stream_id c) = c"
  by (cases c) (simp_all add: channel_all_def)

lemma channel_inj: "stream_id c = stream_id d \<Longrightarrow> c = d"
  using stream_id_nth by metis

lemma channel_label_inj: "channel_label c = channel_label d \<Longrightarrow> c = d"
  by (cases c; cases d; simp)

lemma validate_usage_iff:
  "validate_usage page usage = Inr () \<longleftrightarrow>
     page = USAGE_PAGE_KEYBOARD \<and> 1 \<le> usage \<and> usage \<le> 0xE7 \<or>
     page = USAGE_PAGE_CONSUMER \<and> usage \<noteq> 0 \<and> usage \<le> 0x029C"
  by (auto simp: validate_usage_def USAGE_PAGE_KEYBOARD_def USAGE_PAGE_CONSUMER_def not_less)

end
