(* ===== verification/Rda_KeyState.thy ===== *)
theory Rda_KeyState
  imports Rda_Hid Rda_Wire "HOL-Library.Product_Lexorder"
begin

text \<open>
  The key state tracker of \<^verbatim>\<open>rda-input/src/state.rs\<close>: which keys the remote peer holds, and the actions
  that bring the operating system back in step. The \<open>BTreeSet<u16>\<close> is a set of usages, iterated in
  ascending order (\<open>sorted_list_of_set\<close>). \<open>run_actions\<close> is the specification: what a list of press and
  release actions does to the set of keys that are down.
\<close>

definition MAX_HELD_KEYS :: nat where "MAX_HELD_KEYS = 32"

datatype SyncAction = Press u16 | Release u16

fun action_usage :: "SyncAction \<Rightarrow> u16" where
  "action_usage (Press u) = u"
| "action_usage (Release u) = u"

definition is_press :: "SyncAction \<Rightarrow> bool" where
  "is_press a = (case a of Press _ \<Rightarrow> True | Release _ \<Rightarrow> False)"

record KeyState =
  ks_held :: "u16 set"

definition key_state_new :: KeyState where
  "key_state_new = \<lparr>ks_held = {}\<rparr>"

definition key_press :: "KeyState \<Rightarrow> u16 \<Rightarrow> bool \<times> KeyState" where
  "key_press s usage =
     (if card (ks_held s) \<ge> MAX_HELD_KEYS \<and> usage \<notin> ks_held s then (False, s)
      else (usage \<notin> ks_held s, s\<lparr>ks_held := insert usage (ks_held s)\<rparr>))"

definition key_release :: "KeyState \<Rightarrow> u16 \<Rightarrow> bool \<times> KeyState" where
  "key_release s usage = (usage \<in> ks_held s, s\<lparr>ks_held := ks_held s - {usage}\<rparr>)"

definition is_held :: "KeyState \<Rightarrow> u16 \<Rightarrow> bool" where
  "is_held s usage \<longleftrightarrow> usage \<in> ks_held s"

definition held_keys :: "KeyState \<Rightarrow> u16 list" where
  "held_keys s = sorted_list_of_set (ks_held s)"

definition held_modifiers :: "KeyState \<Rightarrow> Modifiers" where
  "held_modifiers s =
     foldl (\<lambda>bits usage. case modifier_bit usage of Some b \<Rightarrow> bits OR b | None \<Rightarrow> bits) 0
       (sorted_list_of_set (ks_held s))"

definition reconcile_target :: "u16 list \<Rightarrow> u16 set" where
  "reconcile_target authoritative = set (take MAX_HELD_KEYS (filter is_valid_keyboard_usage authoritative))"

definition reconcile :: "KeyState \<Rightarrow> u16 list \<Rightarrow> SyncAction list \<times> KeyState" where
  "reconcile s authoritative =
     (let target = reconcile_target authoritative;
          actions = map Release (sorted_list_of_set (ks_held s - target))
                  @ map Press (sorted_list_of_set (target - ks_held s))
      in (actions, s\<lparr>ks_held := target\<rparr>))"

definition reconcile_modifiers :: "KeyState \<Rightarrow> Modifiers \<Rightarrow> SyncAction list \<times> KeyState" where
  "reconcile_modifiers s modifiers =
     (let actions = map Release (filter
            (\<lambda>usage. let b = (case modifier_bit usage of Some b \<Rightarrow> b | None \<Rightarrow> 0);
                         should_be_down = modifiers AND b \<noteq> 0
                     in usage \<in> ks_held s \<and> \<not> should_be_down) MODIFIER_USAGES)
      in (actions, fold (\<lambda>a s. s\<lparr>ks_held := ks_held s - {action_usage a}\<rparr>) actions s))"

text \<open>\<open>sort_by_key(|&u| (is_modifier(u), u))\<close>: pairs compare lexicographically, \<open>false\<close> first.\<close>

definition release_order :: "u16 list \<Rightarrow> u16 list" where
  "release_order usages = sort_key (\<lambda>u. (is_modifier u, u)) usages"

definition key_release_all :: "KeyState \<Rightarrow> SyncAction list \<times> KeyState" where
  "key_release_all s =
     (map Release (release_order (sorted_list_of_set (ks_held s))), s\<lparr>ks_held := {}\<rparr>)"

subsection \<open>The guard and the watchdog\<close>

text \<open>\<open>on_release\<close> is a closure with a state of its own; dropping the guard is \<open>release_now\<close>.\<close>

record 'a ReleaseGuard =
  gd_state :: KeyState
  gd_sink :: 'a
  gd_armed :: bool

definition guard_new :: "'a \<Rightarrow> 'a ReleaseGuard" where
  "guard_new sink = \<lparr>gd_state = key_state_new, gd_sink = sink, gd_armed = True\<rparr>"

definition release_now :: "('a \<Rightarrow> SyncAction list \<Rightarrow> 'a) \<Rightarrow> 'a ReleaseGuard \<Rightarrow> 'a ReleaseGuard" where
  "release_now on_release g =
     (if gd_armed g then
        (let (actions, st) = key_release_all (gd_state g);
             g = g\<lparr>gd_state := st\<rparr>;
             g = (if actions \<noteq> [] then g\<lparr>gd_sink := on_release (gd_sink g) actions\<rparr> else g)
         in g\<lparr>gd_armed := False\<rparr>)
      else g)"

definition guard_drop :: "('a \<Rightarrow> SyncAction list \<Rightarrow> 'a) \<Rightarrow> 'a ReleaseGuard \<Rightarrow> 'a ReleaseGuard" where
  "guard_drop on_release g = release_now on_release g"

definition SYNC_INTERVAL_MS :: u64 where "SYNC_INTERVAL_MS = 250"

record SyncWatchdog =
  wd_last_sync_ms :: u64
  wd_grace_ms :: u64

definition watchdog_default :: SyncWatchdog where
  "watchdog_default = \<lparr>wd_last_sync_ms = 0, wd_grace_ms = SYNC_INTERVAL_MS * 3\<rparr>"

definition watchdog_new :: "u64 \<Rightarrow> SyncWatchdog" where
  "watchdog_new now_ms = watchdog_default\<lparr>wd_last_sync_ms := now_ms\<rparr>"

definition watchdog_observe :: "SyncWatchdog \<Rightarrow> u64 \<Rightarrow> SyncWatchdog" where
  "watchdog_observe w now_ms = w\<lparr>wd_last_sync_ms := now_ms\<rparr>"

definition is_stale :: "SyncWatchdog \<Rightarrow> u64 \<Rightarrow> bool" where
  "is_stale w now_ms \<longleftrightarrow> saturating_sub now_ms (wd_last_sync_ms w) > wd_grace_ms w"

subsection \<open>What actions do\<close>

fun run_action :: "u16 set \<Rightarrow> SyncAction \<Rightarrow> u16 set" where
  "run_action down (Press u) = insert u down"
| "run_action down (Release u) = down - {u}"

definition run_actions :: "u16 set \<Rightarrow> SyncAction list \<Rightarrow> u16 set" where
  "run_actions down acts = foldl run_action down acts"

lemma run_actions_simps [simp]:
  "run_actions d [] = d"
  "run_actions d (a # as) = run_actions (run_action d a) as"
  "run_actions d (as @ bs) = run_actions (run_actions d as) bs"
  by (simp_all add: run_actions_def)

lemma run_actions_release [simp]: "run_actions d (map Release us) = d - set us"
  by (induction us arbitrary: d) auto

lemma run_actions_press [simp]: "run_actions d (map Press us) = d \<union> set us"
  by (induction us arbitrary: d) auto

lemma finite_u16 [simp]: "finite (A :: u16 set)"
  by simp

lemma card_reconcile_target: "card (reconcile_target ks) \<le> MAX_HELD_KEYS"
  unfolding reconcile_target_def by (rule order_trans [OF card_length]) simp

lemma reconcile_held: "ks_held (snd (reconcile s ks)) = reconcile_target ks"
  by (simp add: reconcile_def Let_def)

lemma reconcile_actions: "run_actions (ks_held s) (fst (reconcile s ks)) = reconcile_target ks"
  by (auto simp: reconcile_def Let_def)

lemma fold_remove_held:
  "ks_held (fold (\<lambda>a s. s\<lparr>ks_held := ks_held s - {action_usage a}\<rparr>) (map Release us) s) = ks_held s - set us"
  by (induction us arbitrary: s) auto

lemma modifier_bit_Some: "modifier_bit u = Some b \<Longrightarrow> u \<in> set MODIFIER_USAGES"
  using modifier_bit_None [of u] by (simp add: is_modifier_iff)

lemma reconcile_modifiers_held:
  "ks_held (snd (reconcile_modifiers s m)) =
     {u \<in> ks_held s. \<forall>b. modifier_bit u = Some b \<longrightarrow> m AND b \<noteq> 0}"
  by (auto simp: reconcile_modifiers_def Let_def fold_remove_held modifier_bit_None is_modifier_iff
      split: option.splits dest: modifier_bit_Some)

lemma reconcile_modifiers_actions:
  "run_actions (ks_held s) (fst (reconcile_modifiers s m)) = ks_held (snd (reconcile_modifiers s m))"
  by (simp add: reconcile_modifiers_def Let_def fold_remove_held)

lemma reconcile_modifiers_releases:
  "a \<in> set (fst (reconcile_modifiers s m)) \<Longrightarrow> \<exists>u. a = Release u \<and> u \<in> ks_held s \<and> is_modifier u"
  by (auto simp: reconcile_modifiers_def Let_def is_modifier_iff)

lemma release_all_actions:
  "run_actions (ks_held s) (fst (key_release_all s)) = {}" "ks_held (snd (key_release_all s)) = {}"
  by (simp_all add: key_release_all_def release_order_def)

lemma length_release_all: "length (fst (key_release_all s)) = card (ks_held s)"
  by (simp add: key_release_all_def release_order_def)

subsection \<open>Modifier bits\<close>

lemma bit_fold_modifiers:
  "bit (foldl (\<lambda>bits u. case modifier_bit u of Some b \<Rightarrow> bits OR b | None \<Rightarrow> bits) w us) n \<longleftrightarrow>
   bit w n \<or> (\<exists>u \<in> set us. \<exists>b. modifier_bit u = Some b \<and> bit b n)"
  by (induction us arbitrary: w) (auto simp: bit_or_iff split: option.splits)

lemma bit_held_modifiers:
  "bit (held_modifiers s) n \<longleftrightarrow> (\<exists>u \<in> ks_held s. \<exists>b. modifier_bit u = Some b \<and> bit b n)"
  by (simp add: held_modifiers_def bit_fold_modifiers)

lemma modifier_bit_single: "modifier_bit u = Some b \<Longrightarrow> bit b n \<Longrightarrow> m AND b \<noteq> 0 \<Longrightarrow> bit m n"
proof -
  assume "modifier_bit u = Some b" "bit b n" "m AND b \<noteq> 0"
  then obtain i where b: "b = push_bit i 1" and n: "n = i"
    by (auto simp: modifier_bit_def bit_simps)
  from \<open>m AND b \<noteq> 0\<close> obtain k where "bit m k" "bit b k"
    by (auto simp: bit_eq_iff bit_and_iff)
  with b n show "bit m n" by (auto simp: bit_simps)
qed

lemma reconcile_modifiers_mask:
  "held_modifiers (snd (reconcile_modifiers s m)) AND m = held_modifiers (snd (reconcile_modifiers s m))"
proof (rule bit_word_eqI)
  fix n
  have "bit m n" if "bit (held_modifiers (snd (reconcile_modifiers s m))) n"
    using that modifier_bit_single [of _ _ n m]
    by (auto simp: bit_held_modifiers reconcile_modifiers_held)
  then show "bit (held_modifiers (snd (reconcile_modifiers s m)) AND m) n =
      bit (held_modifiers (snd (reconcile_modifiers s m))) n"
    by (auto simp: bit_and_iff)
qed

lemma release_order_split:
  "\<exists>as bs. release_order us = as @ bs \<and> (\<forall>u \<in> set as. \<not> is_modifier u) \<and> (\<forall>u \<in> set bs. is_modifier u)"
proof (intro exI conjI)
  let ?us = "release_order us"
  have s: "sorted (map (\<lambda>u. (is_modifier u, u)) ?us)" by (simp add: release_order_def)
  have mono: "is_modifier (?us ! i) \<le> is_modifier (?us ! j)" if "i \<le> j" "j < length ?us" for i j
    using sorted_nth_mono [OF s, of i j] that by (auto simp: less_eq_prod_def split: if_splits)
  show "?us = takeWhile (\<lambda>u. \<not> is_modifier u) ?us @ dropWhile (\<lambda>u. \<not> is_modifier u) ?us" by simp
  show "\<forall>u \<in> set (takeWhile (\<lambda>u. \<not> is_modifier u) ?us). \<not> is_modifier u" by (auto dest: set_takeWhileD)
  show "\<forall>u \<in> set (dropWhile (\<lambda>u. \<not> is_modifier u) ?us). is_modifier u"
  proof
    fix u assume "u \<in> set (dropWhile (\<lambda>u. \<not> is_modifier u) ?us)"
    then obtain i where i: "i < length (dropWhile (\<lambda>u. \<not> is_modifier u) ?us)"
      "u = dropWhile (\<lambda>u. \<not> is_modifier u) ?us ! i" by (auto simp: in_set_conv_nth)
    let ?k = "length (takeWhile (\<lambda>u. \<not> is_modifier u) ?us)"
    have k: "?k + i < length ?us" "u = ?us ! (?k + i)"
      using i by (simp_all add: dropWhile_eq_drop)
    then have "is_modifier (?us ! ?k)" using nth_length_takeWhile [of "\<lambda>u. \<not> is_modifier u" ?us] by simp
    with mono [of ?k "?k + i"] k show "is_modifier u" by simp
  qed
qed

subsection \<open>Properties\<close>

text \<open>A key state snapshot heals every lost event at once: performing the actions that reconciliation
  returns turns the keys that were down into exactly the keys of the snapshot, the tracker agrees, and
  every release comes before every press, so no key is pressed under a modifier that should be up.\<close>

theorem reconcile_heals:
  "run_actions (ks_held s) (fst (reconcile s ks)) = ks_held (snd (reconcile s ks)) \<and>
   ks_held (snd (reconcile s ks)) = set (take MAX_HELD_KEYS (filter is_valid_keyboard_usage ks)) \<and>
   (\<exists>rs ps. fst (reconcile s ks) = map Release rs @ map Press ps)"
proof -
  have "\<exists>rs ps. fst (reconcile s ks) = map Release rs @ map Press ps"
    unfolding reconcile_def Let_def fst_conv by blast
  then show ?thesis
    using reconcile_actions [of s ks] reconcile_held [of s ks] by (simp add: reconcile_target_def)
qed

text \<open>The modifier mask on an ordinary event can only let go of stuck modifiers: the actions are
  releases of held modifier keys, every other key stays as it was, and afterwards the held keys imply
  no modifier outside the mask.\<close>

theorem reconcile_modifiers_safe:
  "list_all (\<lambda>a. \<exists>u. a = Release u \<and> u \<in> ks_held s \<and> is_modifier u) (fst (reconcile_modifiers s m)) \<and>
   run_actions (ks_held s) (fst (reconcile_modifiers s m)) = ks_held (snd (reconcile_modifiers s m)) \<and>
   {u \<in> ks_held (snd (reconcile_modifiers s m)). \<not> is_modifier u} = {u \<in> ks_held s. \<not> is_modifier u} \<and>
   held_modifiers (snd (reconcile_modifiers s m)) AND m = held_modifiers (snd (reconcile_modifiers s m))"
proof (intro conjI)
  show "list_all (\<lambda>a. \<exists>u. a = Release u \<and> u \<in> ks_held s \<and> is_modifier u) (fst (reconcile_modifiers s m))"
    using reconcile_modifiers_releases by (auto simp: list_all_iff)
  show "{u \<in> ks_held (snd (reconcile_modifiers s m)). \<not> is_modifier u} = {u \<in> ks_held s. \<not> is_modifier u}"
    by (auto simp: reconcile_modifiers_held is_modifier_iff dest: modifier_bit_Some)
qed (rule reconcile_modifiers_actions reconcile_modifiers_mask)+

text \<open>Releasing everything leaves nothing pressed: the actions release each held key exactly once,
  ordinary keys before modifiers, and both the keys that were down and the tracker end up empty.\<close>

theorem release_all_complete:
  "\<exists>as bs. fst (key_release_all s) = map Release (as @ bs) \<and> distinct (as @ bs) \<and>
     set (as @ bs) = ks_held s \<and> list_all (\<lambda>u. \<not> is_modifier u) as \<and> list_all is_modifier bs \<and>
     run_actions (ks_held s) (fst (key_release_all s)) = {} \<and> ks_held (snd (key_release_all s)) = {}"
proof -
  obtain as bs where split: "release_order (sorted_list_of_set (ks_held s)) = as @ bs"
    "\<forall>u \<in> set as. \<not> is_modifier u" "\<forall>u \<in> set bs. is_modifier u"
    using release_order_split by blast
  have "distinct (as @ bs)" "set (as @ bs) = ks_held s"
    unfolding split(1) [symmetric] by (simp_all add: release_order_def)
  with split release_all_actions [of s] show ?thesis
    by (intro exI [of _ as] exI [of _ bs]) (simp add: key_release_all_def list_all_iff)
qed

text \<open>The release guard fires once, whatever happens first: an armed guard hands the release of all
  held keys to its sink (nothing when none is held), and neither a second explicit release nor the
  drop that follows does it again.\<close>

theorem release_guard_once:
  "let g' = release_now f g in
   guard_drop f g' = g' \<and> release_now f g' = g' \<and> \<not> gd_armed g' \<and>
   (if gd_armed g \<and> ks_held (gd_state g) \<noteq> {}
    then gd_sink g' = f (gd_sink g) (fst (key_release_all (gd_state g))) \<and> ks_held (gd_state g') = {}
    else gd_sink g' = gd_sink g)"
proof -
  have "fst (key_release_all st) = [] \<longleftrightarrow> ks_held st = {}" for st
    using length_release_all [of st] by (metis card_0_eq finite_u16 length_0_conv)
  then show ?thesis
    using release_all_actions(2) by (auto simp: release_now_def guard_drop_def Let_def case_prod_beta)
qed

end
