(* ===== verification/Rda_Caps.thy ===== *)
theory Rda_Caps
  imports Rda_Prelude
begin

text \<open>
  Capability negotiation of \<^verbatim>\<open>rda-proto/src/caps.rs\<close>: the advertised capability sets of two peers and
  the per-session permissions a host grants. A \<open>BTreeSet<String>\<close> is a set of strings (their UTF-8
  bytes), a \<open>Vec<String>\<close> a list.

  The facts that matter to the clients: an advertisement is bounded whatever the peer sends, a
  session may only use what both peers advertise, a grant can only narrow (\<open>clamp_to\<close> is the greatest
  lower bound in \<open>caps_le\<close>), and the wire names of a permission set read back as that set.
\<close>

subsection \<open>Advertised capabilities\<close>

definition MAX_CAPS :: nat where "MAX_CAPS = 64"
definition MAX_CAP_LEN :: nat where "MAX_CAP_LEN = 48"

definition VIDEO_H264 :: string where "VIDEO_H264 = ''v1.video.h264''"
definition VIDEO_AV1 :: string where "VIDEO_AV1 = ''v1.video.av1''"
definition VIDEO_HEVC :: string where "VIDEO_HEVC = ''v1.video.hevc''"
definition INPUT_HID :: string where "INPUT_HID = ''v1.input.hid''"

definition REQUIRED :: "string list" where
  "REQUIRED = [VIDEO_H264, INPUT_HID]"

type_synonym Capabilities = "string set"

definition caps_new :: Capabilities where
  "caps_new = {}"

definition caps_insert :: "Capabilities \<Rightarrow> string \<Rightarrow> Capabilities" where
  "caps_insert self cap =
     (if cap \<noteq> [] \<and> length cap \<le> MAX_CAP_LEN \<and> card self < MAX_CAPS then insert cap self else self)"

definition caps_has :: "Capabilities \<Rightarrow> string \<Rightarrow> bool" where
  "caps_has self cap \<longleftrightarrow> cap \<in> self"

definition caps_intersect :: "Capabilities \<Rightarrow> Capabilities \<Rightarrow> Capabilities" where
  "caps_intersect self other = self \<inter> other"

definition meets_required :: "Capabilities \<Rightarrow> bool" where
  "meets_required self = list_all (caps_has self) REQUIRED"

definition best_video_codec :: "Capabilities \<Rightarrow> Capabilities \<Rightarrow> string" where
  "best_video_codec self peer =
     (let both = caps_intersect self peer in
      if caps_has both VIDEO_AV1 then VIDEO_AV1
      else if caps_has both VIDEO_HEVC then VIDEO_HEVC
      else VIDEO_H264)"

definition caps_from_iter :: "string list \<Rightarrow> Capabilities" where
  "caps_from_iter names =
     set (take MAX_CAPS (filter (\<lambda>s. s \<noteq> [] \<and> length s \<le> MAX_CAP_LEN) names))"

text \<open>What every capability set of the program satisfies.\<close>

definition caps_wf :: "Capabilities \<Rightarrow> bool" where
  "caps_wf c \<longleftrightarrow> finite c \<and> card c \<le> MAX_CAPS \<and> (\<forall>s \<in> c. s \<noteq> [] \<and> length s \<le> MAX_CAP_LEN)"

lemma caps_wf_new: "caps_wf caps_new"
  by (simp add: caps_wf_def caps_new_def)

lemma caps_wf_from_iter: "caps_wf (caps_from_iter names)"
proof -
  let ?xs = "take MAX_CAPS (filter (\<lambda>s. s \<noteq> [] \<and> length s \<le> MAX_CAP_LEN) names)"
  have "length ?xs \<le> MAX_CAPS" by simp
  then have "card (set ?xs) \<le> MAX_CAPS"
    using card_length [of ?xs] by (rule order_trans [rotated])
  moreover have "set ?xs \<subseteq> {s. s \<noteq> [] \<and> length s \<le> MAX_CAP_LEN}"
    by (rule order_trans [OF set_take_subset]) auto
  ultimately show ?thesis
    unfolding caps_wf_def caps_from_iter_def by blast
qed

lemma caps_wf_insert: "caps_wf c \<Longrightarrow> caps_wf (caps_insert c s)"
  by (auto simp: caps_wf_def caps_insert_def card_insert_if)

lemma caps_wf_intersect: "caps_wf c \<Longrightarrow> caps_wf (caps_intersect c d)"
  by (auto simp: caps_wf_def caps_intersect_def intro: order_trans [OF card_mono])

lemma caps_from_iter_subset: "caps_from_iter names \<subseteq> set names"
  unfolding caps_from_iter_def by (rule order_trans [OF set_take_subset]) auto

text \<open>Nothing well-formed is lost from an advertisement of at most \<open>MAX_CAPS\<close> entries.\<close>

lemma caps_from_iter_complete:
  "length names \<le> MAX_CAPS \<Longrightarrow> s \<in> set names \<Longrightarrow> s \<noteq> [] \<Longrightarrow> length s \<le> MAX_CAP_LEN
   \<Longrightarrow> caps_has (caps_from_iter names) s"
proof -
  assume n: "length names \<le> MAX_CAPS" and s: "s \<in> set names" "s \<noteq> []" "length s \<le> MAX_CAP_LEN"
  let ?ok = "filter (\<lambda>s. s \<noteq> [] \<and> length s \<le> MAX_CAP_LEN) names"
  have "take MAX_CAPS ?ok = ?ok"
    using n length_filter_le order_trans by (intro take_all) blast
  with s show ?thesis by (simp add: caps_has_def caps_from_iter_def)
qed

lemma best_video_codec_mutual:
  assumes "meets_required self" "meets_required peer"
  shows "caps_has self (best_video_codec self peer) \<and> caps_has peer (best_video_codec self peer)"
  using assms
  by (auto simp: best_video_codec_def meets_required_def REQUIRED_def caps_has_def
      caps_intersect_def Let_def)

lemma best_video_codec_commute: "best_video_codec a b = best_video_codec b a"
  by (simp add: best_video_codec_def caps_intersect_def Int_commute)

subsection \<open>Session permissions\<close>

record SessionCaps =
  cap_view :: bool
  cap_input :: bool
  cap_clipboard :: bool
  cap_file :: bool
  cap_audio :: bool

definition session_caps_default :: SessionCaps where
  "session_caps_default = \<lparr>cap_view = False, cap_input = False, cap_clipboard = False,
     cap_file = False, cap_audio = False\<rparr>"

definition view_only :: SessionCaps where
  "view_only = session_caps_default\<lparr>cap_view := True\<rparr>"

fun from_names_step :: "SessionCaps \<Rightarrow> string \<Rightarrow> SessionCaps" where
  "from_names_step c n =
     (if n = ''view'' then c\<lparr>cap_view := True\<rparr>
      else if n = ''input'' then c\<lparr>cap_input := True\<rparr>
      else if n = ''clipboard'' then c\<lparr>cap_clipboard := True\<rparr>
      else if n = ''file'' then c\<lparr>cap_file := True\<rparr>
      else if n = ''audio'' then c\<lparr>cap_audio := True\<rparr>
      else c)"

definition from_names :: "string list \<Rightarrow> SessionCaps" where
  "from_names names = foldl from_names_step session_caps_default names"

definition to_names :: "SessionCaps \<Rightarrow> string list" where
  "to_names c =
     (if cap_view c then [''view''] else []) @
     (if cap_input c then [''input''] else []) @
     (if cap_clipboard c then [''clipboard''] else []) @
     (if cap_file c then [''file''] else []) @
     (if cap_audio c then [''audio''] else [])"

definition clamp_to :: "SessionCaps \<Rightarrow> SessionCaps \<Rightarrow> SessionCaps" where
  "clamp_to self granted =
     \<lparr>cap_view = (cap_view self \<and> cap_view granted),
      cap_input = (cap_input self \<and> cap_input granted),
      cap_clipboard = (cap_clipboard self \<and> cap_clipboard granted),
      cap_file = (cap_file self \<and> cap_file granted),
      cap_audio = (cap_audio self \<and> cap_audio granted)\<rparr>"

text \<open>The order in which a restriction goes down.\<close>

definition caps_le :: "SessionCaps \<Rightarrow> SessionCaps \<Rightarrow> bool" where
  "caps_le a b \<longleftrightarrow>
     (cap_view a \<longrightarrow> cap_view b) \<and> (cap_input a \<longrightarrow> cap_input b) \<and>
     (cap_clipboard a \<longrightarrow> cap_clipboard b) \<and> (cap_file a \<longrightarrow> cap_file b) \<and>
     (cap_audio a \<longrightarrow> cap_audio b)"

lemma caps_le_refl [simp]: "caps_le a a"
  by (simp add: caps_le_def)

lemma caps_le_trans: "caps_le a b \<Longrightarrow> caps_le b c \<Longrightarrow> caps_le a c"
  by (auto simp: caps_le_def)

lemma caps_le_antisym: "caps_le a b \<Longrightarrow> caps_le b a \<Longrightarrow> a = b"
  by (cases a; cases b) (auto simp: caps_le_def)

lemma clamp_to_le [simp]: "caps_le (clamp_to a b) a" "caps_le (clamp_to a b) b"
  by (auto simp: caps_le_def clamp_to_def)

lemma clamp_to_greatest: "caps_le c a \<Longrightarrow> caps_le c b \<Longrightarrow> caps_le c (clamp_to a b)"
  by (auto simp: caps_le_def clamp_to_def)

lemma caps_le_clamp_to_iff: "caps_le c (clamp_to a b) \<longleftrightarrow> caps_le c a \<and> caps_le c b"
  by (auto simp: caps_le_def clamp_to_def)

lemma clamp_to_idem [simp]: "clamp_to (clamp_to a b) b = clamp_to a b"
  by (simp add: clamp_to_def)

lemma from_names_to_names [simp]: "from_names (to_names c) = c"
  by (cases c) (simp add: from_names_def to_names_def session_caps_default_def)

text \<open>A permission is set exactly when its name was sent; every other name is ignored.\<close>

lemma from_names_fields:
  "cap_view (from_names ns) \<longleftrightarrow> ''view'' \<in> set ns"
  "cap_input (from_names ns) \<longleftrightarrow> ''input'' \<in> set ns"
  "cap_clipboard (from_names ns) \<longleftrightarrow> ''clipboard'' \<in> set ns"
  "cap_file (from_names ns) \<longleftrightarrow> ''file'' \<in> set ns"
  "cap_audio (from_names ns) \<longleftrightarrow> ''audio'' \<in> set ns"
proof -
  have "cap_view (foldl from_names_step c ns) \<longleftrightarrow> cap_view c \<or> ''view'' \<in> set ns"
    and "cap_input (foldl from_names_step c ns) \<longleftrightarrow> cap_input c \<or> ''input'' \<in> set ns"
    and "cap_clipboard (foldl from_names_step c ns) \<longleftrightarrow> cap_clipboard c \<or> ''clipboard'' \<in> set ns"
    and "cap_file (foldl from_names_step c ns) \<longleftrightarrow> cap_file c \<or> ''file'' \<in> set ns"
    and "cap_audio (foldl from_names_step c ns) \<longleftrightarrow> cap_audio c \<or> ''audio'' \<in> set ns" for c
    by (induction ns arbitrary: c) auto
  then show
    "cap_view (from_names ns) \<longleftrightarrow> ''view'' \<in> set ns"
    "cap_input (from_names ns) \<longleftrightarrow> ''input'' \<in> set ns"
    "cap_clipboard (from_names ns) \<longleftrightarrow> ''clipboard'' \<in> set ns"
    "cap_file (from_names ns) \<longleftrightarrow> ''file'' \<in> set ns"
    "cap_audio (from_names ns) \<longleftrightarrow> ''audio'' \<in> set ns"
    by (simp_all add: from_names_def session_caps_default_def)
qed

subsection \<open>Properties\<close>

text \<open>Codec negotiation is safe and symmetric: two peers that both meet the required capabilities
  choose a codec that both of them advertised, and each side computes the same choice.\<close>

theorem codec_negotiation:
  assumes "meets_required self" "meets_required peer"
  shows "caps_has self (best_video_codec self peer) \<and> caps_has peer (best_video_codec self peer) \<and>
    best_video_codec self peer = best_video_codec peer self"
  using best_video_codec_mutual [OF assms] best_video_codec_commute by blast

theorem codec_negotiation_witness:
  "let a = caps_from_iter [VIDEO_H264, INPUT_HID, VIDEO_AV1]; b = caps_from_iter [INPUT_HID, VIDEO_H264] in
   caps_has a (best_video_codec a b) \<and> caps_has b (best_video_codec a b) \<and>
   best_video_codec a b = best_video_codec b a"
  unfolding Let_def by (rule codec_negotiation) code_simp+

text \<open>Granting only narrows, and narrows no more than asked: what \<open>clamp_to\<close> leaves is the largest
  permission set below both the request and the grant.\<close>

theorem clamp_to_meet: "caps_le c (clamp_to a b) \<longleftrightarrow> caps_le c a \<and> caps_le c b"
  by (rule caps_le_clamp_to_iff)

text \<open>An advertisement of any length and content yields a bounded capability set: at most
  \<open>MAX_CAPS\<close> names, none empty or longer than \<open>MAX_CAP_LEN\<close>, and every operation keeps it so.\<close>

theorem capabilities_bounded:
  assumes "caps_wf c"
  shows "caps_wf (caps_from_iter names) \<and> caps_wf (caps_insert c s) \<and> caps_wf (caps_intersect c d)"
  using assms caps_wf_from_iter caps_wf_insert caps_wf_intersect by blast

theorem capabilities_bounded_witness:
  "caps_wf (caps_from_iter (replicate 100 [])) \<and> caps_wf (caps_insert caps_new VIDEO_AV1) \<and>
   caps_wf (caps_intersect caps_new caps_new)"
  using capabilities_bounded [OF caps_wf_new] by blast

end
