(* ===== verification/Rda_Primitives.thy ===== *)
theory Rda_Primitives
  imports Rda_Prelude
begin

text \<open>
  The third-party primitives the sources call: hashing (\<^verbatim>\<open>sha2\<close>, \<^verbatim>\<open>hkdf\<close>), signatures
  (\<^verbatim>\<open>ed25519-dalek\<close>), the password-authenticated key exchange (\<^verbatim>\<open>spake2\<close>) and text encodings
  (\<^verbatim>\<open>base64\<close>, \<^verbatim>\<open>data-encoding\<close>). None of them is code of this repository, so they are one parameter
  of the model, a record of functions; a definition that calls one takes the record as its first
  argument. What a property needs of them is a named hypothesis below, each a documented behaviour
  of the crate; a property states which of them it uses.
\<close>

record primitives =
  sha256 :: "u8 list \<Rightarrow> u8 list"
  hkdf_sha256 :: "u8 list \<Rightarrow> u8 list \<Rightarrow> u8 list \<Rightarrow> nat \<Rightarrow> u8 list"
    \<comment> \<open>salt, input key material, info, output length\<close>
  encode_symbols :: "string \<Rightarrow> u8 list \<Rightarrow> string"
    \<comment> \<open>\<open>data_encoding::Specification\<close> with these symbols and no padding\<close>
  b64_encode :: "u8 list \<Rightarrow> string"
  b64_decode :: "string \<Rightarrow> u8 list option"
  verifying_key :: "u8 list \<Rightarrow> u8 list"
    \<comment> \<open>\<open>SigningKey::verifying_key\<close>, on the raw bytes\<close>
  valid_key :: "u8 list \<Rightarrow> bool"
    \<comment> \<open>\<open>VerifyingKey::from_bytes\<close> succeeds\<close>
  ed_sign :: "u8 list \<Rightarrow> u8 list \<Rightarrow> u8 list"
  verify_strict :: "u8 list \<Rightarrow> u8 list \<Rightarrow> u8 list \<Rightarrow> bool"
    \<comment> \<open>key, message, signature\<close>
  spake_start_a :: "u8 list \<Rightarrow> u8 list \<Rightarrow> u8 list \<Rightarrow> u8 list \<Rightarrow> u8 list"
    \<comment> \<open>secret scalar, password, the two identities: the outbound message\<close>
  spake_start_b :: "u8 list \<Rightarrow> u8 list \<Rightarrow> u8 list \<Rightarrow> u8 list \<Rightarrow> u8 list"
  spake_finish_a :: "u8 list \<Rightarrow> u8 list \<Rightarrow> u8 list \<Rightarrow> u8 list \<Rightarrow> u8 list \<Rightarrow> u8 list option"
    \<comment> \<open>the same four and the peer's message: the derived key\<close>
  spake_finish_b :: "u8 list \<Rightarrow> u8 list \<Rightarrow> u8 list \<Rightarrow> u8 list \<Rightarrow> u8 list \<Rightarrow> u8 list option"

text \<open>The bytes of an ASCII literal, \<open>b"..."\<close>.\<close>

definition ascii :: "string \<Rightarrow> u8 list" where
  "ascii s = map (\<lambda>c. word_of_nat (of_char c)) s"

lemma length_ascii [simp]: "length (ascii s) = length s"
  by (simp add: ascii_def)

lemma ascii_append [simp]: "ascii (s @ t) = ascii s @ ascii t"
  by (simp add: ascii_def)

lemma inj_ascii: "inj ascii"
proof -
  have "inj (\<lambda>c. word_of_nat (of_char c) :: u8)"
  proof (rule injI)
    fix c d :: char
    assume "(word_of_nat (of_char c) :: u8) = word_of_nat (of_char d)"
    then have "unat (word_of_nat (of_char c) :: u8) = unat (word_of_nat (of_char d) :: u8)"
      by simp
    then show "c = d" by (simp add: unat_of_nat)
  qed
  then show ?thesis unfolding ascii_def by (rule inj_mapI)
qed

subsection \<open>Documented behaviour of the primitives\<close>

text \<open>A digest and a tag of SHA-256 have 32 bytes.\<close>

definition sha256_length :: "primitives \<Rightarrow> bool" where
  "sha256_length P \<longleftrightarrow> (\<forall>m. length (sha256 P m) = 32)"

text \<open>An encoding uses only its symbols, and eight bytes take thirteen base-32 symbols.\<close>

definition base32_symbols :: "primitives \<Rightarrow> bool" where
  "base32_symbols P \<longleftrightarrow>
     (\<forall>sy bs. set (encode_symbols P sy bs) \<subseteq> set sy) \<and>
     (\<forall>sy bs. length sy = 32 \<longrightarrow> length bs = 8 \<longrightarrow> length (encode_symbols P sy bs) = 13)"

text \<open>A signature verifies under the key of its signer.\<close>

definition signature_correct :: "primitives \<Rightarrow> bool" where
  "signature_correct P \<longleftrightarrow> (\<forall>sk m. verify_strict P (verifying_key P sk) m (ed_sign P sk m))"

text \<open>Decoding gives back what was encoded.\<close>

definition b64_roundtrip :: "primitives \<Rightarrow> bool" where
  "b64_roundtrip P \<longleftrightarrow> (\<forall>bs. b64_decode P (b64_encode P bs) = Some bs)"

text \<open>Two sides of a SPAKE2 exchange with the same password and identities derive the same key.\<close>

definition spake_agreement :: "primitives \<Rightarrow> bool" where
  "spake_agreement P \<longleftrightarrow>
     (\<forall>x y pw ia ib. \<exists>k. length k = 32 \<and>
        spake_finish_a P x pw ia ib (spake_start_b P y pw ia ib) = Some k \<and>
        spake_finish_b P y pw ia ib (spake_start_a P x pw ia ib) = Some k)"

end
