(* ===== verification/Rda_Ids.thy ===== *)
theory Rda_Ids
  imports Rda_Primitives
begin

text \<open>
  Device identifiers of \<^verbatim>\<open>rda-proto/src/ids.rs\<close>: parsing what a person transcribed, the grouped
  display form, and the derivation of an identifier from a public key. \<open>parse\<close> works on the code
  points of its argument; a \<open>DeviceId\<close> is the string it wraps. \<open>device_id_wf\<close> is the invariant of the
  type: twelve characters of the Crockford alphabet. Every constructor establishes it, and on such
  identifiers the display form parses back to the identifier.
\<close>

definition DEVID_DOMAIN :: "u8 list" where
  "DEVID_DOMAIN = ascii ''RDA-v1-devid''"

definition DEVICE_ID_LEN :: nat where
  "DEVICE_ID_LEN = 12"

definition crockford_symbols :: string where
  "crockford_symbols = ''0123456789ABCDEFGHJKMNPQRSTVWXYZ''"

datatype IdError = BadLength nat | BadCharacter nat | KeyMismatch

datatype DeviceId = DeviceId (as_str: string)

definition to_ascii_uppercase :: "nat \<Rightarrow> nat" where
  "to_ascii_uppercase ch = (if 97 \<le> ch \<and> ch \<le> 122 then ch - 32 else ch)"

text \<open>The \<open>match\<close> on one character: \<open>Inr\<close> the normalised character, \<open>Inl\<close> the rejected one.\<close>

definition normalise_char :: "nat \<Rightarrow> IdError + char" where
  "normalise_char ch =
     (let up = to_ascii_uppercase ch in
      if up = of_char CHR ''I'' \<or> up = of_char CHR ''L'' then Inr CHR ''1''
      else if up = of_char CHR ''O'' then Inr CHR ''0''
      else if (of_char CHR ''A'' \<le> up \<and> up \<le> of_char CHR ''H'')
           \<or> up = of_char CHR ''J'' \<or> up = of_char CHR ''K''
           \<or> up = of_char CHR ''M'' \<or> up = of_char CHR ''N''
           \<or> (of_char CHR ''P'' \<le> up \<and> up \<le> of_char CHR ''T'')
           \<or> (of_char CHR ''V'' \<le> up \<and> up \<le> of_char CHR ''Z'')
           \<or> (of_char CHR ''0'' \<le> up \<and> up \<le> of_char CHR ''9'')
        then Inr (char_of up)
      else Inl (BadCharacter up))"

text \<open>The loop over the characters, with the characters pushed so far.\<close>

fun parse_chars :: "nat list \<Rightarrow> string \<Rightarrow> IdError + string" where
  "parse_chars [] out = Inr out"
| "parse_chars (ch # chs) out =
     (if ch = of_char CHR ''-'' \<or> ch = of_char CHR '' '' then parse_chars chs out
      else bindE (normalise_char ch) (\<lambda>c. parse_chars chs (out @ [c])))"

definition device_id_parse :: "nat list \<Rightarrow> IdError + DeviceId" where
  "device_id_parse s =
     bindE (parse_chars s [])
       (\<lambda>out. if length out \<noteq> DEVICE_ID_LEN then Inl (BadLength (length out))
              else Inr (DeviceId out))"

text \<open>The display form. \<open>b[i..j]\<close> panics out of range; on a well-formed identifier all three slices
  are in range, and they are ASCII, so \<open>from_utf8\<close> succeeds.\<close>

definition grouped :: "DeviceId \<Rightarrow> string" where
  "grouped d = (let b = as_str d in
     take 4 b @ ''-'' @ take 4 (drop 4 b) @ ''-'' @ take 4 (drop 8 b))"

definition device_id_from_pubkey :: "primitives \<Rightarrow> u8 list \<Rightarrow> DeviceId" where
  "device_id_from_pubkey P pubkey =
     (let digest = sha256 P (DEVID_DOMAIN @ [0x00] @ pubkey);
          encoded = encode_symbols P crockford_symbols (take 8 digest)
      in DeviceId (take DEVICE_ID_LEN encoded))"

definition verify_against :: "primitives \<Rightarrow> DeviceId \<Rightarrow> u8 list \<Rightarrow> IdError + unit" where
  "verify_against P self pubkey =
     (if self = device_id_from_pubkey P pubkey then Inr () else Inl KeyMismatch)"

definition device_id_wf :: "DeviceId \<Rightarrow> bool" where
  "device_id_wf d \<longleftrightarrow>
     length (as_str d) = DEVICE_ID_LEN \<and> set (as_str d) \<subseteq> set crockford_symbols"

definition code_points :: "string \<Rightarrow> nat list" where
  "code_points s = map of_char s"

lemma code_points_simps [simp]:
  "code_points [] = []"
  "code_points (s @ t) = code_points s @ code_points t"
  by (simp_all add: code_points_def)

lemma code_points_Cons: "code_points (c # s) = of_char c # code_points s"
  by (simp add: code_points_def)

subsection \<open>Parsing\<close>

lemma normalise_char_symbol:
  assumes "c \<in> set crockford_symbols"
  shows "normalise_char (of_char c) = Inr c"
proof -
  have "list_all (\<lambda>c. normalise_char (of_char c) = Inr c) crockford_symbols"
    by code_simp
  then show ?thesis
    using assms by (simp add: list_all_iff)
qed

lemma symbol_not_separator:
  "c \<in> set crockford_symbols \<Longrightarrow> c \<noteq> CHR ''-'' \<and> c \<noteq> CHR '' ''"
  by (auto simp: crockford_symbols_def)

lemma parse_chars_append:
  "parse_chars (xs @ ys) out = bindE (parse_chars xs out) (parse_chars ys)"
  by (induction xs arbitrary: out) (auto simp: bindE_def split: sum.splits)

lemma parse_chars_symbols:
  "set s \<subseteq> set crockford_symbols \<Longrightarrow> parse_chars (code_points s) out = Inr (out @ s)"
proof (induction s arbitrary: out)
  case (Cons c s)
  then have "of_char c \<noteq> (of_char CHR ''-'' :: nat)" "of_char c \<noteq> (of_char CHR '' '' :: nat)"
    using symbol_not_separator [of c] unfolding of_char_eq_iff by simp_all
  then have "parse_chars (code_points (c # s)) out = parse_chars (code_points s) (out @ [c])"
    using Cons.prems normalise_char_symbol [of c]
    unfolding code_points_Cons parse_chars.simps by simp
  with Cons show ?case by simp
qed simp

text \<open>A normalised character is a symbol.\<close>

lemma normalise_char_range:
  assumes "normalise_char ch = Inr c"
  shows "c \<in> set crockford_symbols"
proof -
  let ?up = "to_ascii_uppercase ch"
  have "?up \<in> {65..72} \<union> {74, 75, 77, 78} \<union> {80..84} \<union> {86..90} \<union> {48..57} \<and> c = char_of ?up
      \<or> c = CHR ''1'' \<or> c = CHR ''0''"
    using assms by (auto simp: normalise_char_def Let_def split: if_splits)
  moreover have "\<forall>n \<in> {65..72} \<union> {74, 75, 77, 78} \<union> {80..84} \<union> {86..90} \<union> {48..57 :: nat}.
      char_of n \<in> set crockford_symbols"
    by code_simp
  moreover have "CHR ''0'' \<in> set crockford_symbols" "CHR ''1'' \<in> set crockford_symbols"
    by (simp_all add: crockford_symbols_def)
  ultimately show ?thesis by blast
qed

lemma parse_chars_range:
  "parse_chars xs out = Inr s \<Longrightarrow> set out \<subseteq> set crockford_symbols
   \<Longrightarrow> set s \<subseteq> set crockford_symbols"
proof (induction xs arbitrary: out)
  case (Cons ch xs)
  show ?case
  proof (cases "ch = of_char CHR ''-'' \<or> ch = of_char CHR '' ''")
    case True
    with Cons show ?thesis by simp
  next
    case False
    with Cons.prems obtain c where "normalise_char ch = Inr c" "parse_chars xs (out @ [c]) = Inr s"
      by (auto simp: bindE_eq_Inr)
    with Cons.IH [of "out @ [c]"] Cons.prems(2) normalise_char_range show ?thesis by simp
  qed
qed simp

lemma device_id_parse_wf: "device_id_parse s = Inr d \<Longrightarrow> device_id_wf d"
  using parse_chars_range [of s "[]"]
  by (auto simp: device_id_parse_def device_id_wf_def bindE_eq_Inr split: if_splits)

lemma device_id_parse_canonical:
  "device_id_wf d \<Longrightarrow> device_id_parse (code_points (as_str d)) = Inr d"
  by (cases d) (simp add: device_id_parse_def device_id_wf_def parse_chars_symbols)

lemma device_id_parse_grouped:
  assumes "device_id_wf d"
  shows "device_id_parse (code_points (grouped d)) = Inr d"
proof -
  let ?b = "as_str d"
  have sub: "set (take 4 ?b) \<subseteq> set crockford_symbols"
    "set (take 4 (drop 4 ?b)) \<subseteq> set crockford_symbols"
    "set (take 4 (drop 8 ?b)) \<subseteq> set crockford_symbols"
    using assms unfolding device_id_wf_def by (meson order_trans set_take_subset set_drop_subset)+
  have "take 4 ?b @ take 4 (drop 4 ?b) @ take 4 (drop 8 ?b) = ?b"
    using assms append_take_drop_id [of 4 ?b] append_take_drop_id [of 4 "drop 4 ?b"]
    by (simp add: device_id_wf_def DEVICE_ID_LEN_def take_all)
  moreover have "parse_chars (code_points (grouped d)) [] =
      Inr (take 4 ?b @ take 4 (drop 4 ?b) @ take 4 (drop 8 ?b))"
    unfolding grouped_def Let_def code_points_simps
    by (simp add: sub parse_chars_symbols parse_chars_append code_points_Cons)
  ultimately show ?thesis
    using assms by (cases d) (simp add: device_id_parse_def device_id_wf_def)
qed

text \<open>Lower case letters, hyphens and spaces, and the aliases \<open>I\<close>, \<open>L\<close> and \<open>O\<close> do not change the
  identifier that is read.\<close>

lemma normalise_char_alias:
  "normalise_char (of_char CHR ''I'') = normalise_char (of_char CHR ''1'')"
  "normalise_char (of_char CHR ''L'') = normalise_char (of_char CHR ''1'')"
  "normalise_char (of_char CHR ''O'') = normalise_char (of_char CHR ''0'')"
  by code_simp+

lemma normalise_char_case:
  "65 \<le> ch \<Longrightarrow> ch \<le> 90 \<Longrightarrow> normalise_char (ch + 32) = normalise_char ch"
  by (simp add: normalise_char_def to_ascii_uppercase_def)

lemma parse_chars_cong:
  "list_all2 (\<lambda>x y. x = y \<or> (65 \<le> y \<and> y \<le> 90 \<and> x = y + 32)) xs ys \<Longrightarrow>
   parse_chars xs out = parse_chars ys out"
  by (induction arbitrary: out rule: list_all2_induct) (auto simp: normalise_char_case)

subsection \<open>Derivation from a key\<close>

lemma device_id_from_pubkey_wf:
  assumes "base32_symbols P" "sha256_length P"
  shows "device_id_wf (device_id_from_pubkey P pk)"
proof -
  let ?e = "encode_symbols P crockford_symbols (take 8 (sha256 P (DEVID_DOMAIN @ [0] @ pk)))"
  have "length ?e = 13"
    using assms by (simp add: base32_symbols_def sha256_length_def crockford_symbols_def)
  moreover have "set (take DEVICE_ID_LEN ?e) \<subseteq> set crockford_symbols"
    using assms(1) unfolding base32_symbols_def by (meson order_trans set_take_subset)
  ultimately show ?thesis
    by (simp add: device_id_wf_def device_id_from_pubkey_def DEVICE_ID_LEN_def)
qed

lemma verify_against_iff: "verify_against P d pk = Inr () \<longleftrightarrow> d = device_id_from_pubkey P pk"
  by (simp add: verify_against_def)

subsection \<open>Property\<close>

text \<open>What a person reads off the screen and types back is the same identifier: every identifier
  that parses is twelve symbols of the Crockford alphabet, and both its plain and its grouped display
  form parse back to it.\<close>

theorem device_id_display_roundtrip:
  assumes "device_id_parse s = Inr d"
  shows "device_id_wf d \<and> device_id_parse (code_points (grouped d)) = Inr d \<and>
    device_id_parse (code_points (as_str d)) = Inr d"
  using device_id_parse_wf [OF assms] device_id_parse_grouped device_id_parse_canonical by blast

theorem device_id_display_roundtrip_witness:
  "device_id_parse (code_points ''abcd-efgh ilo9'') = Inr (DeviceId ''ABCDEFGH1109'') \<and>
   device_id_parse (code_points (grouped (DeviceId ''ABCDEFGH1109''))) = Inr (DeviceId ''ABCDEFGH1109'')"
proof -
  have "device_id_parse (code_points ''abcd-efgh ilo9'') = Inr (DeviceId ''ABCDEFGH1109'')"
    by code_simp
  from device_id_display_roundtrip [OF this] this show ?thesis by blast
qed

end
