(* ===== verification/Rda_Window.thy ===== *)
theory Rda_Window
  imports Rda_Prelude
begin

text \<open>
  Budgets per time window. Three components count events in a window that restarts at the first event
  after it ran out: the malformed-frame budget (\<open>MalformedCounter\<close> of \<^verbatim>\<open>rda-proto/src/control.rs\<close>),
  the input rate guard (\<open>Window\<close> of \<^verbatim>\<open>rda-input/src/grant.rs\<close>) and the per-connection limiter of
  the signalling server (\<open>RateLimiter\<close> of \<^verbatim>\<open>rda-signal-server/src/lib.rs\<close>). The locale
  \<open>window_limiter\<close> states what they share; what follows from it is proved once: inside a window
  exactly the first \<open>limit\<close> events pass, and a burst no longer than the window passes at most twice
  the limit, the price of a window that restarts instead of sliding. The counter is a \<open>u32\<close>, so both
  facts ask that fewer than \<open>2\<^sup>3\<^sup>2\<close> events are counted.
\<close>

fun run_limiter :: "('s \<Rightarrow> 't \<Rightarrow> bool \<times> 's) \<Rightarrow> 's \<Rightarrow> 't list \<Rightarrow> bool list" where
  "run_limiter allow s [] = []"
| "run_limiter allow s (t # ts) =
     (let (ok, s') = allow s t in ok # run_limiter allow s' ts)"

definition passed :: "bool list \<Rightarrow> nat" where
  "passed oks = length (filter id oks)"

lemma passed_simps [simp]:
  "passed [] = 0"
  "passed (b # oks) = (if b then 1 else 0) + passed oks"
  by (simp_all add: passed_def)

locale window_limiter =
  fixes allow :: "'s \<Rightarrow> 't \<Rightarrow> bool \<times> 's"
    and cnt :: "'s \<Rightarrow> nat"
    and limit :: "'s \<Rightarrow> nat"
    and expired :: "'s \<Rightarrow> 't \<Rightarrow> bool"
    and near :: "'s \<Rightarrow> 't \<Rightarrow> 't \<Rightarrow> bool"
  assumes restart: "expired s t \<Longrightarrow> cnt (snd (allow s t)) = 1"
    and count: "\<not> expired s t \<Longrightarrow> cnt s + 1 < 2 ^ 32 \<Longrightarrow> cnt (snd (allow s t)) = cnt s + 1"
    and verdict: "fst (allow s t) \<longleftrightarrow> cnt (snd (allow s t)) \<le> limit s"
    and limit_kept: "limit (snd (allow s t)) = limit s"
    and near_kept: "near (snd (allow s t)) = near s"
    and window_kept: "\<not> expired s t \<Longrightarrow> expired (snd (allow s t)) u = expired s u"
    and window_fresh: "expired s t \<Longrightarrow> near s t u \<Longrightarrow> \<not> expired (snd (allow s t)) u"
begin

lemma quiet_run:
  assumes "\<forall>t \<in> set ts. \<not> expired s t" "cnt s + length ts < 2 ^ 32"
  shows "run_limiter allow s ts =
    replicate (min (length ts) (limit s - cnt s)) True @
    replicate (length ts - (limit s - cnt s)) False"
  using assms
proof (induction ts arbitrary: s)
  case (Cons t ts)
  let ?s = "snd (allow s t)"
  have c: "cnt ?s = cnt s + 1" using Cons.prems count by simp
  have IH: "run_limiter allow ?s ts =
    replicate (min (length ts) (limit s - (cnt s + 1))) True @
    replicate (length ts - (limit s - (cnt s + 1))) False"
    using Cons.IH [of ?s] Cons.prems c by (simp add: window_kept limit_kept)
  have ok: "fst (allow s t) \<longleftrightarrow> cnt s + 1 \<le> limit s" using verdict c by simp
  have "run_limiter allow s (t # ts) = fst (allow s t) # run_limiter allow ?s ts"
    by (simp add: case_prod_beta)
  with ok IH show ?case
    by (cases "cnt s + 1 \<le> limit s") (auto simp: Suc_diff_le Suc_diff_Suc simp flip: replicate_Suc)
qed simp

lemma quiet_passed:
  assumes "\<forall>t \<in> set ts. \<not> expired s t" "cnt s + length ts < 2 ^ 32"
  shows "passed (run_limiter allow s ts) = min (length ts) (limit s - cnt s)"
  unfolding quiet_run [OF assms] by (simp add: passed_def)

lemma burst_passed:
  assumes "sorted_wrt (near s) ts" "cnt s + length ts < 2 ^ 32"
  shows "passed (run_limiter allow s ts) \<le> (limit s - cnt s) + limit s"
  using assms
proof (induction ts arbitrary: s)
  case (Cons t ts)
  let ?s = "snd (allow s t)"
  have step: "passed (run_limiter allow s (t # ts)) =
      (if fst (allow s t) then 1 else 0) + passed (run_limiter allow ?s ts)"
    by (simp add: case_prod_beta)
  show ?case
  proof (cases "expired s t")
    case True
    then have "\<forall>u \<in> set ts. \<not> expired ?s u" using Cons.prems window_fresh by simp
    moreover have c: "cnt ?s = 1" using True restart by simp
    ultimately have "passed (run_limiter allow ?s ts) = min (length ts) (limit s - 1)"
      using quiet_passed [of ts ?s] Cons.prems by (simp add: limit_kept)
    then show ?thesis unfolding step using verdict [of s t] c by auto
  next
    case False
    then have c: "cnt ?s = cnt s + 1" using Cons.prems count by simp
    then have "passed (run_limiter allow ?s ts) \<le> (limit s - (cnt s + 1)) + limit s"
      using Cons.IH [of ?s] Cons.prems by (simp add: limit_kept near_kept)
    then show ?thesis unfolding step using verdict [of s t] c by auto
  qed
qed simp

end

subsection \<open>The malformed-frame budget\<close>

record MalformedCounter =
  mc_window_ms :: u32
  mc_limit :: u32
  mc_window_start_ms :: u32
  mc_count :: u32

definition malformed_new :: "u32 \<Rightarrow> u32 \<Rightarrow> MalformedCounter" where
  "malformed_new limit window_ms =
     \<lparr>mc_window_ms = window_ms, mc_limit = limit, mc_window_start_ms = 0, mc_count = 0\<rparr>"

definition malformed_default :: MalformedCounter where
  "malformed_default = malformed_new 100 10000"

text \<open>\<open>record\<close>: the flag that the session must be terminated, and the counter.\<close>

definition malformed_record :: "MalformedCounter \<Rightarrow> u32 \<Rightarrow> bool \<times> MalformedCounter" where
  "malformed_record c now_ms =
     (let c = (if now_ms - mc_window_start_ms c > mc_window_ms c
               then c\<lparr>mc_window_start_ms := now_ms, mc_count := 0\<rparr> else c);
          c = c\<lparr>mc_count := mc_count c + 1\<rparr>
      in (mc_count c > mc_limit c, c))"

definition malformed_tolerates :: "MalformedCounter \<Rightarrow> u32 \<Rightarrow> bool \<times> MalformedCounter" where
  "malformed_tolerates c now_ms = (\<not> fst (malformed_record c now_ms), snd (malformed_record c now_ms))"

definition malformed_expired :: "MalformedCounter \<Rightarrow> u32 \<Rightarrow> bool" where
  "malformed_expired c now_ms \<longleftrightarrow> now_ms - mc_window_start_ms c > mc_window_ms c"

definition malformed_near :: "MalformedCounter \<Rightarrow> u32 \<Rightarrow> u32 \<Rightarrow> bool" where
  "malformed_near c t u \<longleftrightarrow> u - t \<le> mc_window_ms c"

lemma unat_u32_Suc: "unat (w :: u32) + 1 < 2 ^ 32 \<Longrightarrow> unat (w + 1) = unat w + 1"
  by (simp add: unat_word_ariths)

lemmas malformed_defs = malformed_tolerates_def malformed_record_def malformed_expired_def
  malformed_near_def Let_def

interpretation malformed: window_limiter malformed_tolerates "\<lambda>c. unat (mc_count c)"
  "\<lambda>c. unat (mc_limit c)" malformed_expired malformed_near
  by unfold_locales
    (auto simp: malformed_defs fun_eq_iff not_less word_le_nat_alt word_less_nat_alt unat_u32_Suc)

text \<open>The malformed-frame budget is exact: from a fresh counter, the first \<open>limit\<close> malformed frames of
  a window are tolerated and every further one of that window reports that the session must end.\<close>

theorem malformed_budget_exact:
  assumes "\<forall>t \<in> set ts. t \<le> window_ms" "length ts < 2 ^ 32"
  shows "run_limiter malformed_tolerates (malformed_new lim window_ms) ts =
    replicate (min (length ts) (unat lim)) True @ replicate (length ts - unat lim) False"
  using malformed.quiet_run [of ts "malformed_new lim window_ms"] assms
  by (simp add: malformed_new_def malformed_expired_def not_less)

theorem malformed_budget_exact_witness:
  "run_limiter malformed_tolerates (malformed_new 2 10000) [1, 5, 5, 9000] =
     [True, True, False, False]"
  using malformed_budget_exact [of "[1, 5, 5, 9000]" 10000 2] by (simp del: run_limiter.simps)

text \<open>No burst defeats it: frames that arrive within one window length of each other, in the
  wrapping \<open>u32\<close> clock and from any state of the counter, are tolerated at most twice the limit often.\<close>

theorem malformed_burst_bound:
  assumes "sorted_wrt (\<lambda>t u. u - t \<le> mc_window_ms c) ts" "unat (mc_count c) + length ts < 2 ^ 32"
  shows "passed (run_limiter malformed_tolerates c ts) \<le> 2 * unat (mc_limit c)"
proof -
  have "malformed_near c = (\<lambda>t u. u - t \<le> mc_window_ms c)"
    by (simp add: fun_eq_iff malformed_near_def)
  with malformed.burst_passed [of c ts] assms show ?thesis by simp
qed

theorem malformed_burst_bound_witness:
  "passed (run_limiter malformed_tolerates
     \<lparr>mc_window_ms = 100, mc_limit = 1, mc_window_start_ms = 0xFFFFFF00, mc_count = 0\<rparr>
     [0xFFFFFFFE, 0xFFFFFFFF, 0, 1]) \<le> 2"
  using malformed_burst_bound [of
    "\<lparr>mc_window_ms = 100, mc_limit = 1, mc_window_start_ms = 0xFFFFFF00, mc_count = 0\<rparr>"
    "[0xFFFFFFFE, 0xFFFFFFFF, 0, 1]"] by simp

end
