(* ===== verification/Rda_Grant.thy ===== *)
theory Rda_Grant
  imports Rda_Caps Rda_Ids Rda_Window
begin

text \<open>
  The guards of \<^verbatim>\<open>rda-input/src/grant.rs\<close>: the session grant and its narrowing, the rate guard over
  the three event classes, the policy over key combinations and the bounded audit log. The rate
  windows are interpreted as window limiters (\<^verbatim>\<open>Rda_Window\<close>); the audit log refines the list of all
  events, of which it keeps the last \<open>capacity\<close>.
\<close>

datatype AuthMethod = SessionPin | UnattendedToken

record SessionGrant =
  g_session_id :: string
  g_peer :: DeviceId
  g_caps :: SessionCaps
  g_method :: AuthMethod
  g_granted_at_ms :: u64

definition grant_issue :: "string \<Rightarrow> DeviceId \<Rightarrow> SessionCaps \<Rightarrow> AuthMethod \<Rightarrow> u64 \<Rightarrow> SessionGrant" where
  "grant_issue session_id peer caps method granted_at_ms =
     \<lparr>g_session_id = session_id, g_peer = peer, g_caps = caps, g_method = method,
      g_granted_at_ms = granted_at_ms\<rparr>"

definition may_inject_input :: "SessionGrant \<Rightarrow> bool" where
  "may_inject_input g = cap_input (g_caps g)"

definition may_use_clipboard :: "SessionGrant \<Rightarrow> bool" where
  "may_use_clipboard g = cap_clipboard (g_caps g)"

definition grant_restrict :: "SessionGrant \<Rightarrow> SessionCaps \<Rightarrow> SessionGrant" where
  "grant_restrict g to = g\<lparr>g_caps := clamp_to (g_caps g) to\<rparr>"

datatype GuardError =
    InputNotGranted | ClipboardNotGranted | RateLimited | InvalidField string | UnknownDisplay
  | DisallowedUsage | BlockedCombination | LocalUserActive

subsection \<open>Rate guard\<close>

record RateLimits =
  rl_pointer_per_s :: u32
  rl_key_per_s :: u32
  rl_clipboard_per_s :: u32

definition rate_limits_default :: RateLimits where
  "rate_limits_default = \<lparr>rl_pointer_per_s = 1000, rl_key_per_s = 100, rl_clipboard_per_s = 20\<rparr>"

datatype EventClass = Pointer | Key | Clipboard

record Window =
  w_start_ms :: u64
  w_count :: u32
  w_dropped :: u64

definition window_default :: Window where
  "window_default = \<lparr>w_start_ms = 0, w_count = 0, w_dropped = 0\<rparr>"

definition window_allow :: "u32 \<Rightarrow> Window \<Rightarrow> u64 \<Rightarrow> bool \<times> Window" where
  "window_allow limit w now_ms =
     (let w = (if saturating_sub now_ms (w_start_ms w) \<ge> 1000
               then w\<lparr>w_start_ms := now_ms, w_count := 0\<rparr> else w);
          w = w\<lparr>w_count := w_count w + 1\<rparr>
      in if w_count w > limit then (False, w\<lparr>w_dropped := w_dropped w + 1\<rparr>) else (True, w))"

record RateGuard =
  rg_limits :: RateLimits
  rg_pointer :: Window
  rg_key :: Window
  rg_clipboard :: Window

definition rate_guard_new :: "RateLimits \<Rightarrow> RateGuard" where
  "rate_guard_new limits =
     \<lparr>rg_limits = limits, rg_pointer = window_default, rg_key = window_default,
      rg_clipboard = window_default\<rparr>"

definition rate_allow :: "RateGuard \<Rightarrow> EventClass \<Rightarrow> u64 \<Rightarrow> bool \<times> RateGuard" where
  "rate_allow g cls now_ms =
     (case cls of
        Pointer \<Rightarrow> map_prod id (\<lambda>w. g\<lparr>rg_pointer := w\<rparr>)
          (window_allow (rl_pointer_per_s (rg_limits g)) (rg_pointer g) now_ms)
      | Key \<Rightarrow> map_prod id (\<lambda>w. g\<lparr>rg_key := w\<rparr>)
          (window_allow (rl_key_per_s (rg_limits g)) (rg_key g) now_ms)
      | Clipboard \<Rightarrow> map_prod id (\<lambda>w. g\<lparr>rg_clipboard := w\<rparr>)
          (window_allow (rl_clipboard_per_s (rg_limits g)) (rg_clipboard g) now_ms))"

definition rate_dropped :: "RateGuard \<Rightarrow> u64 \<times> u64 \<times> u64" where
  "rate_dropped g = (w_dropped (rg_pointer g), w_dropped (rg_key g), w_dropped (rg_clipboard g))"

subsection \<open>Combination policy\<close>

type_synonym CombinationPolicy = "(u16 \<times> u16) list"

definition permissive :: CombinationPolicy where
  "permissive = []"

definition policy_block :: "CombinationPolicy \<Rightarrow> u16 \<Rightarrow> u16 \<Rightarrow> CombinationPolicy" where
  "policy_block blocked modifiers usage = blocked @ [(modifiers, usage)]"

definition permits :: "CombinationPolicy \<Rightarrow> u16 \<Rightarrow> u16 \<Rightarrow> bool" where
  "permits blocked modifiers usage \<longleftrightarrow>
     \<not> list_ex (\<lambda>(m, u). u = usage \<and> modifiers AND m = m) blocked"

subsection \<open>Audit log\<close>

datatype AuditEvent =
    SessionStarted string DeviceId SessionCaps AuthMethod
  | SessionEnded string u64
  | CapabilitiesChanged string SessionCaps
  | LocalTakeover string
  | ClipboardTransfer string bool nat
  | RateLimitTripped string string u64
  | InjectionRefused string string

record AuditLog =
  al_entries :: "(u64 \<times> AuditEvent) list"
  al_capacity :: nat

definition audit_new :: "nat \<Rightarrow> AuditLog" where
  "audit_new capacity = \<lparr>al_entries = [], al_capacity = capacity\<rparr>"

definition audit_record :: "AuditLog \<Rightarrow> u64 \<Rightarrow> AuditEvent \<Rightarrow> AuditLog" where
  "audit_record l now_ms event =
     (let l = (if al_capacity l > 0 \<and> length (al_entries l) \<ge> al_capacity l
               then l\<lparr>al_entries := drop 1 (al_entries l)\<rparr> else l)
      in l\<lparr>al_entries := al_entries l @ [(now_ms, event)]\<rparr>)"

subsection \<open>Facts\<close>

lemma grant_restrict_narrows:
  "caps_le (g_caps (grant_restrict g c)) (g_caps g)" "caps_le (g_caps (grant_restrict g c)) c"
  by (simp_all add: grant_restrict_def)

lemma grant_restrict_restrict:
  "grant_restrict (grant_restrict g c) d = grant_restrict g (clamp_to c d)"
  by (simp add: grant_restrict_def clamp_to_def)

lemma foldl_restrict_kept:
  "g_peer (foldl grant_restrict g cs) = g_peer g"
  "g_session_id (foldl grant_restrict g cs) = g_session_id g"
  "g_method (foldl grant_restrict g cs) = g_method g"
  by (induction cs arbitrary: g) (simp_all add: grant_restrict_def)

lemma caps_le_foldl_restrict:
  "caps_le d (g_caps (foldl grant_restrict g cs)) \<longleftrightarrow> caps_le d (g_caps g) \<and> list_all (caps_le d) cs"
  by (induction cs arbitrary: g) (auto simp: grant_restrict_def caps_le_clamp_to_iff)

definition window_expired :: "Window \<Rightarrow> u64 \<Rightarrow> bool" where
  "window_expired w now_ms \<longleftrightarrow> saturating_sub now_ms (w_start_ms w) \<ge> 1000"

definition within_second :: "u64 \<Rightarrow> u64 \<Rightarrow> bool" where
  "within_second t u \<longleftrightarrow> unat u - unat t < 1000"

interpretation window: window_limiter "window_allow lim" "\<lambda>w. unat (w_count w)" "\<lambda>_. unat lim"
  window_expired "\<lambda>_. within_second" for lim :: u32
  by unfold_locales
    (auto simp: window_allow_def window_expired_def within_second_def Let_def word_le_nat_alt
      word_less_nat_alt unat_u32_Suc not_le not_less)

lemma permits_block:
  "permits (policy_block p m u) mods usage \<longleftrightarrow> permits p mods usage \<and> \<not> (u = usage \<and> mods AND m = m)"
  by (auto simp: permits_def policy_block_def)

lemma permits_permissive [simp]: "permits permissive m u"
  by (simp add: permits_def permissive_def)

text \<open>The log keeps the last \<open>capacity\<close> entries of everything recorded; capacity zero keeps all.\<close>

definition audit_abs :: "nat \<Rightarrow> 'a list \<Rightarrow> 'a list" where
  "audit_abs capacity es = (if capacity = 0 then es else drop (length es - capacity) es)"

fun audit_record_all :: "AuditLog \<Rightarrow> (u64 \<times> AuditEvent) list \<Rightarrow> AuditLog" where
  "audit_record_all l [] = l"
| "audit_record_all l ((t, e) # es) = audit_record_all (audit_record l t e) es"

lemma audit_record_entries:
  assumes "al_entries l = audit_abs (al_capacity l) es"
  shows "al_entries (audit_record l t e) = audit_abs (al_capacity l) (es @ [(t, e)])"
    and "al_capacity (audit_record l t e) = al_capacity l"
  using assms by (auto simp: audit_record_def audit_abs_def Let_def Suc_diff_le)

lemma audit_record_all_entries:
  "al_entries l = audit_abs (al_capacity l) es \<Longrightarrow>
   al_entries (audit_record_all l fs) = audit_abs (al_capacity l) (es @ fs)"
  by (induction l fs arbitrary: es rule: audit_record_all.induct)
    (simp, use audit_record_entries in fastforce)

subsection \<open>Properties\<close>

text \<open>A session can only lose permissions: however often the local user restricts a grant, and
  in whatever order, the peer, the session and the method stay, and the permissions are exactly the
  meet of the grant and all restrictions, so nothing that was ever taken away comes back.\<close>

theorem restrict_only_narrows:
  "let g' = foldl grant_restrict g cs in
   g_peer g' = g_peer g \<and> g_session_id g' = g_session_id g \<and> g_method g' = g_method g \<and>
   (\<forall>d. caps_le d (g_caps g') \<longleftrightarrow> caps_le d (g_caps g) \<and> list_all (caps_le d) cs)"
  by (simp add: Let_def foldl_restrict_kept caps_le_foldl_restrict)

text \<open>The input rate guard bounds every second: of the events of one class that arrive within one
  second, from any state of the guard, at most twice the limit of the class pass, and inside one window
  exactly the first \<open>limit\<close> do.\<close>

theorem rate_window_bound:
  assumes "sorted_wrt within_second ts" "unat (w_count w) + length ts < 2 ^ 32"
  shows "passed (run_limiter (window_allow lim) w ts) \<le> 2 * unat lim \<and>
    (list_all (\<lambda>t. \<not> window_expired w t) ts \<longrightarrow>
       passed (run_limiter (window_allow lim) w ts) = min (length ts) (unat lim - unat (w_count w)))"
  using window.burst_passed [OF assms, of lim] window.quiet_passed [of ts w lim] assms(2)
  by (auto simp: list_all_iff)

theorem rate_window_bound_witness:
  "passed (run_limiter (window_allow 2) window_default [999, 999, 999, 1000, 1001, 1002, 1500]) \<le> 4"
proof -
  have "sorted_wrt within_second [999, 999, 999, 1000, 1001, 1002, 1500]" by code_simp
  then show ?thesis
    using rate_window_bound [of "[999, 999, 999, 1000, 1001, 1002, 1500]" window_default 2]
    by (simp add: window_default_def)
qed

text \<open>The audit log never loses the recent past: after any sequence of records it holds exactly the
  last \<open>capacity\<close> of them, oldest first, and all of them when the capacity is zero.\<close>

theorem audit_log_keeps_last:
  "al_entries (audit_record_all (audit_new capacity) es) =
     (if capacity = 0 then es else drop (length es - capacity) es)"
  using audit_record_all_entries [of "audit_new capacity" "[]" es]
  by (simp add: audit_new_def audit_abs_def)

end
