(* ===== verification/Rda_Codec.thy ===== *)
theory Rda_Codec
  imports Rda_Wire
begin

text \<open>
  The control frame codec of \<^verbatim>\<open>rda-proto/src/control.rs\<close>: the 8-byte header, the payload of every
  message type, whole frames, the fragmentation of video frames and the malformed-frame budget.
  \<open>encode_payload\<close> and \<open>decode_payload\<close> have one definition per message type, as the two \<open>match\<close>
  expressions have one arm; the dispatching functions put the arms together.

  \<open>payload_wf\<close> is what the decoder guarantees of a payload. The decoder yields only such payloads
  (\<open>decode_payload_wf\<close>), and on them encoding is inverted by decoding (\<open>decode_encode_payload\<close>), so a
  frame that was decoded once is a fixed point of encoding and decoding.
\<close>

subsection \<open>Data\<close>

record Header =
  h_version :: u8
  h_flags :: u8
  h_msg_type :: u8
  h_sequence :: u16
  h_timestamp_ms :: u32

definition FLAG_MORE :: u8 where "FLAG_MORE = 0x1"
definition FLAG_SYNTHETIC :: u8 where "FLAG_SYNTHETIC = 0x2"

definition is_more :: "u8 \<Rightarrow> bool" where "is_more f \<longleftrightarrow> f AND FLAG_MORE \<noteq> 0"
definition is_synthetic :: "u8 \<Rightarrow> bool" where "is_synthetic f \<longleftrightarrow> f AND FLAG_SYNTHETIC \<noteq> 0"
definition with_synthetic :: "u8 \<Rightarrow> u8" where "with_synthetic f = f OR FLAG_SYNTHETIC"

record QosReport =
  qos_rtt_ms :: u16
  qos_jitter_ms :: u16
  qos_loss_permille :: u16
  qos_frames_decoded :: u16
  qos_frames_dropped :: u16
  qos_render_fps_q8 :: u16
  qos_playout_delay_ms :: u16
  qos_decode_time_us :: u16

datatype Payload =
    Ping u32                                              \<comment> \<open>token\<close>
  | Pong u32 u16                                          \<comment> \<open>token, host\_delay\_us\<close>
  | EndSession u16                                        \<comment> \<open>code\<close>
  | Error u16 rust_str                                    \<comment> \<open>code, message\<close>
  | MouseMove u8 u8 u16 u16 Modifiers                     \<comment> \<open>display\_id, flags, x\_norm, y\_norm, modifiers\<close>
  | MouseMoveRelative u16 u16 Modifiers u8                \<comment> \<open>dx, dy, modifiers, display\_id\<close>
  | MouseButton MouseButtonId KeyAction u16 u16 Modifiers u8 u8
      \<comment> \<open>button, action, x\_norm, y\_norm, modifiers, display\_id, click\_count\<close>
  | MouseWheel u16 u16 Modifiers u8 u8                    \<comment> \<open>delta\_v, delta\_h, modifiers, display\_id, flags\<close>
  | KeyEvent u16 u16 KeyAction u8 Modifiers               \<comment> \<open>usage\_page, usage\_id, action, flags, modifiers\<close>
  | KeyStateSync Modifiers bool "u16 list"                \<comment> \<open>modifiers, authoritative, pressed\<close>
  | TextInput bool bool rust_str                          \<comment> \<open>commit, preedit, text\<close>
  | RequestKeyframe KeyframeMode u8 u16                   \<comment> \<open>mode, ltr\_index, reason\<close>
  | LtrAck u8 u16                                         \<comment> \<open>ltr\_index, frame\_id\<close>
  | CursorUpdate u32 u16 u16 u8 bool                      \<comment> \<open>shape\_id, x\_norm, y\_norm, display\_id, visible\<close>
  | CursorShape u32 u16 u16 u16 u16 u8 "u8 list"
      \<comment> \<open>shape\_id, width, height, hotspot\_x, hotspot\_y, format, data\<close>
  | VideoFrame u32 u16 u16 u8 u8 u64 "u8 list"
      \<comment> \<open>frame\_id, fragment\_index, fragment\_count, kind, temporal\_layer, pts\_us, data\<close>
  | QosReport QosReport
  | Unknown u8 "u8 list"                                  \<comment> \<open>msg\_type, body\<close>

record ControlFrame =
  cf_header :: Header
  cf_payload :: Payload

subsection \<open>Header\<close>

definition header_new :: "MessageType \<Rightarrow> u16 \<Rightarrow> u32 \<Rightarrow> Header" where
  "header_new msg_type sequence timestamp_ms =
     \<lparr>h_version = PROTO_VERSION, h_flags = 0, h_msg_type = msg_code msg_type,
      h_sequence = sequence, h_timestamp_ms = timestamp_ms\<rparr>"

definition header_decode :: "u8 list \<Rightarrow> DecodeError + Header" where
  "header_decode buf =
     (if length buf < HEADER_LEN then Inl (Truncated HEADER_LEN (length buf))
      else
        (let version = drop_bit 4 (buf ! 0) in
         if version \<noteq> PROTO_VERSION then Inl (BadVersion version)
         else Inr \<lparr>h_version = version, h_flags = (buf ! 0) AND 0x0F, h_msg_type = buf ! 1,
                h_sequence = from_be_bytes16 (buf ! 2) (buf ! 3),
                h_timestamp_ms = from_be_bytes32 (buf ! 4) (buf ! 5) (buf ! 6) (buf ! 7)\<rparr>))"

definition header_encode :: "Header \<Rightarrow> u8 list" where
  "header_encode h =
     [push_bit 4 (h_version h) OR (h_flags h AND 0x0F), h_msg_type h]
     @ to_be_bytes16 (h_sequence h) @ to_be_bytes32 (h_timestamp_ms h)"

definition header_typed :: "Header \<Rightarrow> MessageType option" where
  "header_typed h = from_u8 (h_msg_type h)"

subsection \<open>Encoding a payload\<close>

fun payload_type :: "Payload \<Rightarrow> MessageType" where
  "payload_type (Ping _) = MessageType.Ping"
| "payload_type (Pong _ _) = MessageType.Pong"
| "payload_type (EndSession _) = MessageType.EndSession"
| "payload_type (Error _ _) = MessageType.Error"
| "payload_type (MouseMove _ _ _ _ _) = MessageType.MouseMove"
| "payload_type (MouseMoveRelative _ _ _ _) = MessageType.MouseMoveRelative"
| "payload_type (MouseButton _ _ _ _ _ _ _) = MessageType.MouseButton"
| "payload_type (MouseWheel _ _ _ _ _) = MessageType.MouseWheel"
| "payload_type (KeyEvent _ _ _ _ _) = MessageType.KeyEvent"
| "payload_type (KeyStateSync _ _ _) = MessageType.KeyStateSync"
| "payload_type (TextInput _ _ _) = MessageType.TextInput"
| "payload_type (RequestKeyframe _ _ _) = MessageType.RequestKeyframe"
| "payload_type (LtrAck _ _) = MessageType.LtrAck"
| "payload_type (CursorUpdate _ _ _ _ _) = MessageType.CursorUpdate"
| "payload_type (CursorShape _ _ _ _ _ _ _) = MessageType.CursorShape"
| "payload_type (VideoFrame _ _ _ _ _ _ _) = MessageType.VideoFrame"
| "payload_type (QosReport _) = MessageType.QosReport"
| "payload_type (Unknown _ _) = MessageType.Error"

definition u8_of_bool :: "bool \<Rightarrow> u8" where
  "u8_of_bool b = (if b then 1 else 0)"

text \<open>\<open>bytes.len() as u16\<close> and \<open>data.len() as u32\<close> cut the length to the width.\<close>

definition encode_error :: "u16 \<Rightarrow> rust_str \<Rightarrow> u8 list" where
  "encode_error code message =
     (let bytes = truncate_utf8 message 256
      in to_be_bytes16 code @ to_be_bytes16 (word_of_nat (length bytes)) @ bytes)"

definition encode_mouse_button ::
  "MouseButtonId \<Rightarrow> KeyAction \<Rightarrow> u16 \<Rightarrow> u16 \<Rightarrow> Modifiers \<Rightarrow> u8 \<Rightarrow> u8 \<Rightarrow> u8 list" where
  "encode_mouse_button button action x y modifiers display clicks =
     [button_code button] @ [action_code action] @ to_be_bytes16 x @ to_be_bytes16 y
     @ to_be_bytes16 modifiers @ [display] @ [clicks]"

definition encode_key_state_sync :: "Modifiers \<Rightarrow> bool \<Rightarrow> u16 list \<Rightarrow> u8 list" where
  "encode_key_state_sync modifiers authoritative pressed =
     (let n = min (length pressed) MAX_PRESSED_KEYS
      in to_be_bytes16 modifiers @ [word_of_nat n] @ [u8_of_bool authoritative]
         @ concat (map to_be_bytes16 (take n pressed)))"

definition encode_text_input :: "bool \<Rightarrow> bool \<Rightarrow> rust_str \<Rightarrow> u8 list" where
  "encode_text_input commit preedit text =
     (let bytes = truncate_utf8 text MAX_TEXT_INPUT;
          flags = u8_of_bool commit OR push_bit 1 (u8_of_bool preedit)
      in to_be_bytes16 (word_of_nat (length bytes)) @ [flags] @ [0] @ bytes)"

definition encode_cursor_shape ::
  "u32 \<Rightarrow> u16 \<Rightarrow> u16 \<Rightarrow> u16 \<Rightarrow> u16 \<Rightarrow> u8 \<Rightarrow> u8 list \<Rightarrow> u8 list" where
  "encode_cursor_shape shape_id width height hx hy format data =
     to_be_bytes32 shape_id @ to_be_bytes16 width @ to_be_bytes16 height @ to_be_bytes16 hx
     @ to_be_bytes16 hy @ [format] @ [0] @ to_be_bytes32 (word_of_nat (length data)) @ data"

definition encode_video_frame ::
  "u32 \<Rightarrow> u16 \<Rightarrow> u16 \<Rightarrow> u8 \<Rightarrow> u8 \<Rightarrow> u64 \<Rightarrow> u8 list \<Rightarrow> u8 list" where
  "encode_video_frame frame_id index count kind layer pts_us data =
     to_be_bytes32 frame_id @ to_be_bytes16 index @ to_be_bytes16 count @ [kind] @ [layer]
     @ to_be_bytes64 pts_us @ to_be_bytes32 (word_of_nat (length data)) @ data"

definition encode_qos :: "QosReport \<Rightarrow> u8 list" where
  "encode_qos q = concat (map to_be_bytes16
     [qos_rtt_ms q, qos_jitter_ms q, qos_loss_permille q, qos_frames_decoded q,
      qos_frames_dropped q, qos_render_fps_q8 q, qos_playout_delay_ms q, qos_decode_time_us q])"

fun encode_payload :: "Payload \<Rightarrow> u8 list" where
  "encode_payload (Ping token) = to_be_bytes32 token"
| "encode_payload (Pong token delay) = to_be_bytes32 token @ to_be_bytes16 delay @ [0, 0]"
| "encode_payload (EndSession code) = to_be_bytes16 code"
| "encode_payload (Error code message) = encode_error code message"
| "encode_payload (MouseMove display flags x y modifiers) =
     [display] @ [flags] @ to_be_bytes16 x @ to_be_bytes16 y @ to_be_bytes16 modifiers"
| "encode_payload (MouseMoveRelative dx dy modifiers display) =
     to_be_bytes16 dx @ to_be_bytes16 dy @ to_be_bytes16 modifiers @ [display] @ [0]"
| "encode_payload (MouseButton button action x y modifiers display clicks) =
     encode_mouse_button button action x y modifiers display clicks"
| "encode_payload (MouseWheel dv dh modifiers display flags) =
     to_be_bytes16 dv @ to_be_bytes16 dh @ to_be_bytes16 modifiers @ [display] @ [flags]"
| "encode_payload (KeyEvent page usage action flags modifiers) =
     to_be_bytes16 page @ to_be_bytes16 usage @ [action_code action] @ [flags]
     @ to_be_bytes16 modifiers"
| "encode_payload (KeyStateSync modifiers authoritative pressed) =
     encode_key_state_sync modifiers authoritative pressed"
| "encode_payload (TextInput commit preedit text) = encode_text_input commit preedit text"
| "encode_payload (RequestKeyframe mode ltr_index reason) =
     [mode_code mode] @ [ltr_index] @ to_be_bytes16 reason"
| "encode_payload (LtrAck ltr_index frame_id) = [ltr_index] @ [0] @ to_be_bytes16 frame_id"
| "encode_payload (CursorUpdate shape_id x y display visible) =
     to_be_bytes32 shape_id @ to_be_bytes16 x @ to_be_bytes16 y @ [display] @ [u8_of_bool visible]"
| "encode_payload (CursorShape shape_id width height hx hy format data) =
     encode_cursor_shape shape_id width height hx hy format data"
| "encode_payload (VideoFrame frame_id index count kind layer pts_us data) =
     encode_video_frame frame_id index count kind layer pts_us data"
| "encode_payload (QosReport q) = encode_qos q"
| "encode_payload (Unknown _ body) = body"

subsection \<open>Decoding a payload\<close>

definition decode_ping :: "Payload parser" where
  "decode_ping = rbind r_u32 (\<lambda>token. rret (Ping token))"

definition decode_pong :: "Payload parser" where
  "decode_pong = rbind r_u32 (\<lambda>token. rbind r_u16 (\<lambda>delay. rret (Pong token delay)))"

definition decode_end_session :: "Payload parser" where
  "decode_end_session = rbind r_u16 (\<lambda>code. rret (EndSession code))"

definition decode_error :: "Payload parser" where
  "decode_error =
     rbind r_u16 (\<lambda>code.
     rbind r_u16 (\<lambda>w. let len = unat w in
     if len > 256 then rfail (LengthCap ''message'' len 256) else
     rbind (r_take len) (\<lambda>raw.
     rbind (rlift (ok_or (from_utf8 raw) (InvalidText ''error message is not valid UTF-8'')))
       (\<lambda>message. rret (Error code message)))))"

definition decode_mouse_move :: "Payload parser" where
  "decode_mouse_move =
     rbind r_u8 (\<lambda>display. rbind r_u8 (\<lambda>flags. rbind r_u16 (\<lambda>x. rbind r_u16 (\<lambda>y.
     rbind r_u16 (\<lambda>modifiers. rret (MouseMove display flags x y modifiers))))))"

definition decode_mouse_move_relative :: "Payload parser" where
  "decode_mouse_move_relative =
     rbind r_i16 (\<lambda>dx. rbind r_i16 (\<lambda>dy. rbind r_u16 (\<lambda>modifiers. rbind r_u8 (\<lambda>display.
     rbind (skip_reserved 1) (\<lambda>_. rret (MouseMoveRelative dx dy modifiers display))))))"

definition decode_mouse_button :: "Payload parser" where
  "decode_mouse_button =
     rbind (rbind r_u8 (\<lambda>b. rlift (button_from_u8 b))) (\<lambda>button.
     rbind (rbind r_u8 (\<lambda>b. rlift (action_from_u8 b ''action'' False))) (\<lambda>action.
     rbind r_u16 (\<lambda>x. rbind r_u16 (\<lambda>y. rbind r_u16 (\<lambda>modifiers. rbind r_u8 (\<lambda>display.
     rbind r_u8 (\<lambda>clicks.
     if \<not> (1 \<le> clicks \<and> clicks \<le> 3) then rfail (InvalidField ''click_count'' (ucast clicks)) else
     rret (MouseButton button action x y modifiers display clicks))))))))"

definition decode_mouse_wheel :: "Payload parser" where
  "decode_mouse_wheel =
     rbind r_i16 (\<lambda>dv. rbind r_i16 (\<lambda>dh. rbind r_u16 (\<lambda>modifiers. rbind r_u8 (\<lambda>display.
     rbind r_u8 (\<lambda>flags. rret (MouseWheel dv dh modifiers display flags))))))"

definition decode_key_event :: "Payload parser" where
  "decode_key_event =
     rbind r_u16 (\<lambda>page. rbind r_u16 (\<lambda>usage.
     rbind (rbind r_u8 (\<lambda>b. rlift (action_from_u8 b ''action'' True))) (\<lambda>action.
     rbind r_u8 (\<lambda>flags. rbind r_u16 (\<lambda>modifiers.
     rbind (rlift (validate_usage page usage)) (\<lambda>_.
     rret (KeyEvent page usage action flags modifiers)))))))"

definition decode_key_state_sync :: "Payload parser" where
  "decode_key_state_sync =
     rbind r_u16 (\<lambda>modifiers. rbind r_u8 (\<lambda>n. let count = unat n in rbind r_u8 (\<lambda>flags.
     if count > MAX_PRESSED_KEYS then rfail (LengthCap ''count'' count MAX_PRESSED_KEYS) else
     rbind (r_repeat count r_pressed) (\<lambda>pressed.
     rret (KeyStateSync modifiers (flags AND 0x01 \<noteq> 0) pressed)))))"

definition decode_text_input :: "Payload parser" where
  "decode_text_input =
     rbind r_u16 (\<lambda>w. let len = unat w in rbind r_u8 (\<lambda>flags. rbind (skip_reserved 1) (\<lambda>_.
     if len = 0 \<or> len > MAX_TEXT_INPUT then rfail (LengthCap ''byte_len'' len MAX_TEXT_INPUT) else
     rbind (r_take len) (\<lambda>raw.
     rbind (rlift (ok_or (from_utf8 raw) (InvalidText ''text is not valid UTF-8''))) (\<lambda>text.
     if list_ex (\<lambda>c. is_control c \<and> c \<noteq> 0x09 \<and> c \<noteq> 0x0A) (chars text)
     then rfail (InvalidText ''text contains forbidden control characters'') else
     rret (TextInput (flags AND 0x01 \<noteq> 0) (flags AND 0x02 \<noteq> 0) text))))))"

definition keyframe_mode_from_u8 :: "u8 \<Rightarrow> DecodeError + KeyframeMode" where
  "keyframe_mode_from_u8 v =
     (if v = 0 then Inr Idr else if v = 1 then Inr Ltr
      else Inl (InvalidField ''mode'' (ucast v)))"

definition decode_request_keyframe :: "Payload parser" where
  "decode_request_keyframe =
     rbind r_u8 (\<lambda>mode_raw. rbind (rlift (keyframe_mode_from_u8 mode_raw)) (\<lambda>mode.
     rbind r_u8 (\<lambda>ltr_index. rbind r_u16 (\<lambda>reason. rret (RequestKeyframe mode ltr_index reason)))))"

definition decode_ltr_ack :: "Payload parser" where
  "decode_ltr_ack =
     rbind r_u8 (\<lambda>ltr_index. rbind (skip_reserved 1) (\<lambda>_. rbind r_u16 (\<lambda>frame_id.
     rret (LtrAck ltr_index frame_id))))"

definition decode_cursor_update :: "Payload parser" where
  "decode_cursor_update =
     rbind r_u32 (\<lambda>shape_id. rbind r_u16 (\<lambda>x. rbind r_u16 (\<lambda>y. rbind r_u8 (\<lambda>display.
     rbind r_u8 (\<lambda>flags. rret (CursorUpdate shape_id x y display (flags AND 0x01 \<noteq> 0)))))))"

definition decode_cursor_shape :: "Payload parser" where
  "decode_cursor_shape =
     rbind r_u32 (\<lambda>shape_id. rbind r_u16 (\<lambda>width. rbind r_u16 (\<lambda>height. rbind r_u16 (\<lambda>hx.
     rbind r_u16 (\<lambda>hy. rbind r_u8 (\<lambda>format. rbind (skip_reserved 1) (\<lambda>_.
     rbind r_u32 (\<lambda>w. let data_len = unat w in
     if width = 0 \<or> width > MAX_CURSOR_DIM then rfail (InvalidField ''width'' (ucast width)) else
     if height = 0 \<or> height > MAX_CURSOR_DIM then rfail (InvalidField ''height'' (ucast height)) else
     if hx \<ge> width then rfail (InvalidField ''hotspot_x'' (ucast hx)) else
     if hy \<ge> height then rfail (InvalidField ''hotspot_y'' (ucast hy)) else
     if data_len > MAX_CURSOR_DATA then rfail (LengthCap ''data_len'' data_len MAX_CURSOR_DATA) else
     if format = 0 \<and> data_len \<noteq> unat width * unat height * 4
     then rfail (LengthCap ''data_len'' data_len (unat width * unat height * 4)) else
     rbind (r_take data_len) (\<lambda>data.
     rret (CursorShape shape_id width height hx hy format data))))))))))"

definition decode_video_frame :: "Payload parser" where
  "decode_video_frame =
     rbind r_u32 (\<lambda>frame_id. rbind r_u16 (\<lambda>index. rbind r_u16 (\<lambda>count. rbind r_u8 (\<lambda>kind.
     rbind r_u8 (\<lambda>layer. rbind r_u32 (\<lambda>hi. rbind r_u32 (\<lambda>lo.
     let pts_us = push_bit 32 (ucast hi) OR ucast lo in
     rbind r_u32 (\<lambda>w. let len = unat w in
     if kind > 2 then rfail (InvalidField ''kind'' (ucast kind)) else
     if count = 0 \<or> count > MAX_VIDEO_FRAGMENTS
     then rfail (InvalidField ''fragment_count'' (ucast count)) else
     if index \<ge> count then rfail (InvalidField ''fragment_index'' (ucast index)) else
     if len > MAX_VIDEO_FRAGMENT then rfail (LengthCap ''data_len'' len MAX_VIDEO_FRAGMENT) else
     rbind (r_take len) (\<lambda>data.
     rret (VideoFrame frame_id index count kind layer pts_us data))))))))))"

definition decode_qos :: "Payload parser" where
  "decode_qos =
     rbind r_u16 (\<lambda>a. rbind r_u16 (\<lambda>b. rbind r_u16 (\<lambda>c. rbind r_u16 (\<lambda>d.
     rbind r_u16 (\<lambda>e. rbind r_u16 (\<lambda>f. rbind r_u16 (\<lambda>g. rbind r_u16 (\<lambda>h.
     rret (QosReport \<lparr>qos_rtt_ms = a, qos_jitter_ms = b, qos_loss_permille = c,
       qos_frames_decoded = d, qos_frames_dropped = e, qos_render_fps_q8 = f,
       qos_playout_delay_ms = g, qos_decode_time_us = h\<rparr>)))))))))"

definition decode_arm :: "MessageType \<Rightarrow> Payload parser option" where
  "decode_arm ty = (case ty of
     MessageType.Ping \<Rightarrow> Some decode_ping
   | MessageType.Pong \<Rightarrow> Some decode_pong
   | MessageType.EndSession \<Rightarrow> Some decode_end_session
   | MessageType.Error \<Rightarrow> Some decode_error
   | MessageType.MouseMove \<Rightarrow> Some decode_mouse_move
   | MessageType.MouseMoveRelative \<Rightarrow> Some decode_mouse_move_relative
   | MessageType.MouseButton \<Rightarrow> Some decode_mouse_button
   | MessageType.MouseWheel \<Rightarrow> Some decode_mouse_wheel
   | MessageType.KeyEvent \<Rightarrow> Some decode_key_event
   | MessageType.KeyStateSync \<Rightarrow> Some decode_key_state_sync
   | MessageType.TextInput \<Rightarrow> Some decode_text_input
   | MessageType.RequestKeyframe \<Rightarrow> Some decode_request_keyframe
   | MessageType.LtrAck \<Rightarrow> Some decode_ltr_ack
   | MessageType.CursorUpdate \<Rightarrow> Some decode_cursor_update
   | MessageType.CursorShape \<Rightarrow> Some decode_cursor_shape
   | MessageType.VideoFrame \<Rightarrow> Some decode_video_frame
   | MessageType.QosReport \<Rightarrow> Some decode_qos
   | _ \<Rightarrow> None)"

definition decode_payload :: "u8 \<Rightarrow> u8 list \<Rightarrow> DecodeError + Payload" where
  "decode_payload msg_type body =
     (case from_u8 msg_type of
        None \<Rightarrow> Inr (Unknown msg_type body)
      | Some ty \<Rightarrow>
          (case decode_arm ty of
             Some p \<Rightarrow> mapE fst (p (reader_new body))
           | None \<Rightarrow> Inr (Unknown msg_type body)))"

subsection \<open>Frames\<close>

definition frame_new :: "Payload \<Rightarrow> u16 \<Rightarrow> u32 \<Rightarrow> ControlFrame" where
  "frame_new payload sequence timestamp_ms =
     \<lparr>cf_header = \<lparr>h_version = PROTO_VERSION, h_flags = 0,
        h_msg_type = (case payload of Unknown msg_type _ \<Rightarrow> msg_type
                      | other \<Rightarrow> msg_code (payload_type other)),
        h_sequence = sequence, h_timestamp_ms = timestamp_ms\<rparr>,
      cf_payload = payload\<rparr>"

definition synthetic :: "ControlFrame \<Rightarrow> ControlFrame" where
  "synthetic f = f\<lparr>cf_header := (cf_header f)\<lparr>h_flags := with_synthetic (h_flags (cf_header f))\<rparr>\<rparr>"

definition frame_encode :: "ControlFrame \<Rightarrow> u8 list" where
  "frame_encode f = header_encode (cf_header f) @ encode_payload (cf_payload f)"

definition frame_decode :: "u8 list \<Rightarrow> DecodeError + ControlFrame" where
  "frame_decode buf =
     bindE (header_decode buf) (\<lambda>header.
       bindE (decode_payload (h_msg_type header) (drop HEADER_LEN buf)) (\<lambda>payload.
         Inr \<lparr>cf_header = header, cf_payload = payload\<rparr>))"

subsection \<open>What the decoder guarantees\<close>

definition text_ok :: "rust_str \<Rightarrow> bool" where
  "text_ok text \<longleftrightarrow> valid_utf8 text \<and>
     list_all (\<lambda>c. is_control c \<longrightarrow> c = 0x09 \<or> c = 0x0A) (chars text)"

fun payload_wf :: "Payload \<Rightarrow> bool" where
  "payload_wf (Error _ message) \<longleftrightarrow> valid_utf8 message \<and> length message \<le> 256"
| "payload_wf (MouseButton _ action _ _ _ _ clicks) \<longleftrightarrow> action \<noteq> Repeat \<and> 1 \<le> clicks \<and> clicks \<le> 3"
| "payload_wf (KeyEvent page usage _ _ _) \<longleftrightarrow> validate_usage page usage = Inr ()"
| "payload_wf (KeyStateSync _ _ pressed) \<longleftrightarrow> length pressed \<le> MAX_PRESSED_KEYS \<and>
     list_all (\<lambda>u. validate_usage USAGE_PAGE_KEYBOARD u = Inr ()) pressed"
| "payload_wf (TextInput _ _ text) \<longleftrightarrow> text \<noteq> [] \<and> length text \<le> MAX_TEXT_INPUT \<and> text_ok text"
| "payload_wf (CursorShape _ width height hx hy format data) \<longleftrightarrow>
     width \<noteq> 0 \<and> width \<le> MAX_CURSOR_DIM \<and> height \<noteq> 0 \<and> height \<le> MAX_CURSOR_DIM \<and>
     hx < width \<and> hy < height \<and> length data \<le> MAX_CURSOR_DATA \<and>
     (format = 0 \<longrightarrow> length data = unat width * unat height * 4)"
| "payload_wf (VideoFrame _ index count kind _ _ data) \<longleftrightarrow>
     kind \<le> 2 \<and> count \<noteq> 0 \<and> count \<le> MAX_VIDEO_FRAGMENTS \<and> index < count \<and>
     length data \<le> MAX_VIDEO_FRAGMENT"
| "payload_wf (Unknown msg_type _) \<longleftrightarrow> Option.bind (from_u8 msg_type) decode_arm = None"
| "payload_wf _ \<longleftrightarrow> True"

text \<open>The type code a frame with this payload carries.\<close>

definition payload_code :: "Payload \<Rightarrow> u8" where
  "payload_code p = (case p of Unknown msg_type _ \<Rightarrow> msg_type | _ \<Rightarrow> msg_code (payload_type p))"

definition frame_wf :: "ControlFrame \<Rightarrow> bool" where
  "frame_wf f \<longleftrightarrow>
     h_version (cf_header f) = PROTO_VERSION \<and> h_flags (cf_header f) < 16 \<and>
     h_msg_type (cf_header f) = payload_code (cf_payload f) \<and> payload_wf (cf_payload f)"

subsection \<open>The decoder yields well-formed payloads\<close>

lemma from_utf8_Some [simp]: "from_utf8 bs = Some t \<longleftrightarrow> t = bs \<and> valid_utf8 bs"
  by (auto simp: from_utf8_def)

lemma r_take_Inr:
  "r_take n r = Inr (bs, r') \<Longrightarrow> length bs = n"
  by (auto simp: r_take_def remaining_def split: if_splits)

lemma text_ok_iff:
  "valid_utf8 t \<Longrightarrow>
   text_ok t \<longleftrightarrow> \<not> list_ex (\<lambda>c. is_control c \<and> c \<noteq> 0x09 \<and> c \<noteq> 0x0A) (chars t)"
  by (auto simp: text_ok_def list_all_iff list_ex_iff)

lemmas decode_arm_defs = decode_ping_def decode_pong_def decode_end_session_def decode_error_def
  decode_mouse_move_def decode_mouse_move_relative_def decode_mouse_button_def
  decode_mouse_wheel_def decode_key_event_def decode_key_state_sync_def decode_text_input_def
  decode_request_keyframe_def decode_ltr_ack_def decode_cursor_update_def decode_cursor_shape_def
  decode_video_frame_def decode_qos_def

lemma decode_error_wf:
  "decode_error r = Inr (p, r') \<Longrightarrow> payload_wf p \<and> payload_type p = MessageType.Error"
  by (auto simp: decode_error_def Let_def rbind_Inr dest!: r_take_Inr split: if_splits)

lemma decode_mouse_button_wf:
  "decode_mouse_button r = Inr (p, r') \<Longrightarrow> payload_wf p \<and> payload_type p = MessageType.MouseButton"
  by (auto simp: decode_mouse_button_def rbind_Inr dest!: action_from_u8_ok split: if_splits)

lemma decode_key_event_wf:
  "decode_key_event r = Inr (p, r') \<Longrightarrow> payload_wf p \<and> payload_type p = MessageType.KeyEvent"
  by (auto simp: decode_key_event_def rbind_Inr)

lemma decode_key_state_sync_wf:
  "decode_key_state_sync r = Inr (p, r') \<Longrightarrow>
   payload_wf p \<and> payload_type p = MessageType.KeyStateSync"
  by (auto simp: decode_key_state_sync_def Let_def rbind_Inr dest!: f_pressed.dec_list_ok
      split: if_splits)

lemma decode_text_input_wf:
  "decode_text_input r = Inr (p, r') \<Longrightarrow> payload_wf p \<and> payload_type p = MessageType.TextInput"
  by (auto simp: decode_text_input_def Let_def rbind_Inr text_ok_iff dest!: r_take_Inr
      split: if_splits)

lemma decode_cursor_shape_wf:
  "decode_cursor_shape r = Inr (p, r') \<Longrightarrow> payload_wf p \<and> payload_type p = MessageType.CursorShape"
  by (auto simp: decode_cursor_shape_def Let_def rbind_Inr not_less not_le dest!: r_take_Inr
      split: if_splits)

lemma decode_video_frame_wf:
  "decode_video_frame r = Inr (p, r') \<Longrightarrow> payload_wf p \<and> payload_type p = MessageType.VideoFrame"
  by (auto simp: decode_video_frame_def Let_def rbind_Inr not_less not_le dest!: r_take_Inr
      split: if_splits)

lemma decode_plain_wf:
  "decode_ping r = Inr (p, r') \<Longrightarrow> payload_wf p \<and> payload_type p = MessageType.Ping"
  "decode_pong r = Inr (p, r') \<Longrightarrow> payload_wf p \<and> payload_type p = MessageType.Pong"
  "decode_end_session r = Inr (p, r') \<Longrightarrow> payload_wf p \<and> payload_type p = MessageType.EndSession"
  "decode_mouse_move r = Inr (p, r') \<Longrightarrow> payload_wf p \<and> payload_type p = MessageType.MouseMove"
  "decode_mouse_move_relative r = Inr (p, r') \<Longrightarrow>
     payload_wf p \<and> payload_type p = MessageType.MouseMoveRelative"
  "decode_mouse_wheel r = Inr (p, r') \<Longrightarrow> payload_wf p \<and> payload_type p = MessageType.MouseWheel"
  "decode_request_keyframe r = Inr (p, r') \<Longrightarrow>
     payload_wf p \<and> payload_type p = MessageType.RequestKeyframe"
  "decode_ltr_ack r = Inr (p, r') \<Longrightarrow> payload_wf p \<and> payload_type p = MessageType.LtrAck"
  "decode_cursor_update r = Inr (p, r') \<Longrightarrow>
     payload_wf p \<and> payload_type p = MessageType.CursorUpdate"
  "decode_qos r = Inr (p, r') \<Longrightarrow> payload_wf p \<and> payload_type p = MessageType.QosReport"
  by (auto simp: decode_arm_defs rbind_Inr)

lemmas decode_arms_wf = decode_plain_wf decode_error_wf decode_mouse_button_wf decode_key_event_wf
  decode_key_state_sync_wf decode_text_input_wf decode_cursor_shape_wf decode_video_frame_wf

lemma decode_arm_wf:
  assumes "decode_arm ty = Some a" "a r = Inr (p, r')"
  shows "payload_wf p \<and> payload_type p = ty \<and> (\<forall>t b. p \<noteq> Unknown t b)"
proof -
  have "payload_wf p \<and> payload_type p = ty"
    using assms by (cases ty; clarsimp simp: decode_arm_def; blast dest: decode_arms_wf)
  moreover have "\<forall>t b. p \<noteq> Unknown t b"
  proof (intro allI notI)
    fix t b assume u: "p = Unknown t b"
    with \<open>payload_wf p \<and> payload_type p = ty\<close> have "ty = MessageType.Error" by simp
    with assms u show False
      by (auto simp: decode_arm_def decode_error_def Let_def rbind_Inr split: if_splits)
  qed
  ultimately show ?thesis by blast
qed

lemma payload_code_typed: "\<forall>t b. p \<noteq> Unknown t b \<Longrightarrow> payload_code p = msg_code (payload_type p)"
  by (cases p) (simp_all add: payload_code_def)

lemma decode_payload_wf:
  assumes "decode_payload msg_type body = Inr p"
  shows "payload_wf p \<and> payload_code p = msg_type"
proof (cases "Option.bind (from_u8 msg_type) decode_arm")
  case None
  then have "p = Unknown msg_type body"
    using assms by (auto simp: decode_payload_def split: option.splits)
  with None show ?thesis by (simp add: payload_code_def)
next
  case (Some a)
  then obtain ty where ty: "from_u8 msg_type = Some ty" "decode_arm ty = Some a"
    by (auto simp: Option.bind_eq_Some_conv)
  with assms obtain r' where "a (reader_new body) = Inr (p, r')"
    by (auto simp: decode_payload_def mapE_def split: sum.splits)
  from decode_arm_wf [OF ty(2) this] ty(1) show ?thesis
    using payload_code_typed [of p] msg_code_from_u8 by auto
qed

subsection \<open>Decoding inverts encoding\<close>

lemma unat_word_of_nat_len:
  "n < 65536 \<Longrightarrow> unat (word_of_nat n :: u16) = n"
  "n < 4294967296 \<Longrightarrow> unat (word_of_nat n :: u32) = n"
  "n < 256 \<Longrightarrow> unat (word_of_nat n :: u8) = n"
  by (simp_all add: unat_of_nat)

lemma u8_of_bool_bits [simp]:
  "(u8_of_bool b AND 1 \<noteq> 0) = b"
  "((u8_of_bool b OR push_bit 1 (u8_of_bool c)) AND 1 \<noteq> 0) = b"
  "((u8_of_bool b OR push_bit 1 (u8_of_bool c)) AND 2 \<noteq> 0) = c"
  by (cases b; cases c; simp add: u8_of_bool_def)+

lemma to_be_bytes64_split:
  "to_be_bytes64 q @ cs =
     to_be_bytes32 (ucast (drop_bit 32 q)) @ to_be_bytes32 (ucast q) @ cs"
proof -
  have "(ucast (drop_bit n (ucast (drop_bit 32 q) :: u32)) :: u8) = ucast (drop_bit (n + 32) q)"
    if "n \<le> 24" for n
    using that by (intro bit_word_eqI) (auto simp: bit_simps ac_simps)
  moreover have "(ucast (drop_bit n (ucast q :: u32)) :: u8) = ucast (drop_bit n q)"
    if "n \<le> 24" for n
    using that by (intro bit_word_eqI) (auto simp: bit_simps)
  moreover have "(ucast (ucast (drop_bit 32 q) :: u32) :: u8) = ucast (drop_bit 32 q)"
    "(ucast (ucast q :: u32) :: u8) = ucast q"
    by (intro bit_word_eqI, auto simp: bit_simps)+
  ultimately show ?thesis
    by (simp add: to_be_bytes64_def to_be_bytes32_def)
qed

lemma pts_join: "push_bit 32 (ucast (ucast (drop_bit 32 q) :: u32)) OR ucast (ucast q :: u32) = (q :: u64)"
  (is "?lhs = q")
proof (rule bit_word_eqI)
  fix n assume "n < LENGTH(64)"
  then consider "n < 32" | "32 \<le> n" "n < 64" by fastforce
  then show "bit ?lhs n = bit q n"
    by cases (auto simp: bit_simps)
qed

lemma parses_rret_eq: "x = y \<Longrightarrow> parses (rret x) [] y"
  by (simp add: parses_rret)

lemmas parses_rules = parses_then parses_last parses_button parses_action parses_rret_eq

lemma parses_plain:
  "parses decode_ping (encode_payload (Ping t)) (Ping t)"
  "parses decode_end_session (encode_payload (EndSession c)) (EndSession c)"
  "parses decode_mouse_move (encode_payload (MouseMove d f x y m)) (MouseMove d f x y m)"
  "parses decode_mouse_move_relative (encode_payload (MouseMoveRelative dx dy m d))
     (MouseMoveRelative dx dy m d)"
  "parses decode_mouse_wheel (encode_payload (MouseWheel dv dh m d f)) (MouseWheel dv dh m d f)"
  "parses decode_ltr_ack (encode_payload (LtrAck l w)) (LtrAck l w)"
  unfolding decode_arm_defs encode_payload.simps append.simps by (intro parses_rules refl)+

lemma parses_pong: "\<exists>r'. decode_pong (reader_new (encode_payload (Pong t d))) = Inr (Pong t d, r')"
proof -
  have "parses decode_pong (to_be_bytes32 t @ to_be_bytes16 d) (Pong t d)"
    unfolding decode_pong_def by (intro parses_rules refl)
  then show ?thesis
    by (simp add: parses_def reader_new_def)
qed

lemma parses_error:
  assumes "payload_wf (Error c m)"
  shows "parses decode_error (encode_payload (Error c m)) (Error c m)"
proof -
  define w where "w = (word_of_nat (length m) :: u16)"
  have m: "unat w = length m" "length m \<le> 256" "valid_utf8 m"
    using assms by (simp_all add: w_def unat_word_of_nat_len)
  show ?thesis
    unfolding decode_error_def encode_payload.simps encode_error_def Let_def
      truncate_utf8_id [OF m(2)] w_def [symmetric]
    by (intro parses_rules parses_if_fail) (simp_all add: m not_less from_utf8_def)
qed

lemma parses_mouse_button:
  assumes "payload_wf (MouseButton b a x y m d n)"
  shows "parses decode_mouse_button (encode_payload (MouseButton b a x y m d n)) (MouseButton b a x y m d n)"
  unfolding decode_mouse_button_def encode_payload.simps encode_mouse_button_def append.simps
  using assms by (intro parses_rules parses_if_fail) simp_all

lemma parses_key_event:
  assumes "payload_wf (KeyEvent pg u a f m)"
  shows "parses decode_key_event (encode_payload (KeyEvent pg u a f m)) (KeyEvent pg u a f m)"
  unfolding decode_key_event_def encode_payload.simps append.simps
  using assms by (intro parses_rules) simp_all

lemma parses_key_state_sync:
  assumes "payload_wf (KeyStateSync m a ks)"
  shows "parses decode_key_state_sync (encode_payload (KeyStateSync m a ks)) (KeyStateSync m a ks)"
proof -
  define n where "n = (word_of_nat (length ks) :: u8)"
  have ks: "length ks \<le> 32" "list_all (\<lambda>u. validate_usage USAGE_PAGE_KEYBOARD u = Inr ()) ks"
    using assms by (simp_all add: limit_defs)
  then have n: "unat n = length ks"
    by (simp add: n_def unat_word_of_nat_len)
  have min: "min (length ks) MAX_PRESSED_KEYS = length ks"
    using ks(1) by (simp add: limit_defs)
  have "parses (rbind (r_repeat (unat n) r_pressed)
      (\<lambda>pressed. rret (KeyStateSync m (u8_of_bool a AND 0x01 \<noteq> 0) pressed)))
      (concat (map to_be_bytes16 ks)) (KeyStateSync m a ks)"
    unfolding n by (rule parses_bind [OF f_pressed.dec_enc_list [OF ks(2)] parses_rret_eq]) simp_all
  then show ?thesis
    unfolding decode_key_state_sync_def encode_payload.simps encode_key_state_sync_def Let_def
      append.simps min take_all [OF le_refl] n_def [symmetric]
    using ks(1) by (intro parses_rules parses_if_fail) (simp_all add: n limit_defs)
qed

lemma parses_text_input:
  assumes "payload_wf (TextInput c pe t)"
  shows "parses decode_text_input (encode_payload (TextInput c pe t)) (TextInput c pe t)"
proof -
  define w where "w = (word_of_nat (length t) :: u16)"
  have t: "length t \<le> MAX_TEXT_INPUT" "text_ok t" "t \<noteq> []" "valid_utf8 t"
    using assms by (simp_all add: text_ok_def)
  then have w: "unat w = length t"
    by (simp add: w_def unat_word_of_nat_len limit_defs)
  define fl where "fl = u8_of_bool c OR push_bit 1 (u8_of_bool pe)"
  have fl: "(fl AND 1 \<noteq> 0) = c" "(fl AND 2 \<noteq> 0) = pe"
    unfolding fl_def by (rule u8_of_bool_bits)+
  show ?thesis
    unfolding decode_text_input_def encode_payload.simps encode_text_input_def Let_def
      truncate_utf8_id [OF t(1)] append.simps w_def [symmetric] fl_def [symmetric]
    using t text_ok_iff [of t]
    by (intro parses_rules parses_if_fail) (simp_all only: fl w, simp_all add: from_utf8_def)
qed

lemma parses_request_keyframe:
  "parses decode_request_keyframe (encode_payload (RequestKeyframe k l w)) (RequestKeyframe k l w)"
proof -
  have k: "keyframe_mode_from_u8 (mode_code k) = Inr k"
    by (cases k) (simp_all add: keyframe_mode_from_u8_def)
  show ?thesis
    unfolding decode_request_keyframe_def encode_payload.simps append.simps
    by (intro parses_rules) (rule k, rule refl)
qed

lemma parses_cursor_update:
  "parses decode_cursor_update (encode_payload (CursorUpdate i x y d v)) (CursorUpdate i x y d v)"
  unfolding decode_cursor_update_def encode_payload.simps append.simps
  by (intro parses_rules) simp

lemma parses_cursor_shape:
  assumes "payload_wf (CursorShape i w h hx hy f d)"
  shows "parses decode_cursor_shape (encode_payload (CursorShape i w h hx hy f d))
    (CursorShape i w h hx hy f d)"
proof -
  define l where "l = (word_of_nat (length d) :: u32)"
  have "length d \<le> MAX_CURSOR_DATA" using assms by simp
  then have l: "unat l = length d"
    by (simp add: l_def unat_word_of_nat_len limit_defs)
  show ?thesis
    unfolding decode_cursor_shape_def encode_payload.simps encode_cursor_shape_def Let_def
      append.simps l_def [symmetric]
    using assms by (intro parses_rules parses_if_fail) (auto simp: l not_less not_le)
qed

lemma parses_video_frame:
  assumes "payload_wf (VideoFrame i x n k l p d)"
  shows "parses decode_video_frame (encode_payload (VideoFrame i x n k l p d))
    (VideoFrame i x n k l p d)"
proof -
  define w where "w = (word_of_nat (length d) :: u32)"
  have "length d \<le> MAX_VIDEO_FRAGMENT" using assms by simp
  then have w: "unat w = length d"
    by (simp add: w_def unat_word_of_nat_len limit_defs)
  show ?thesis
    unfolding decode_video_frame_def encode_payload.simps encode_video_frame_def Let_def
      append.simps to_be_bytes64_split w_def [symmetric]
    using assms by (intro parses_rules parses_if_fail) (auto simp: not_less not_le w pts_join)
qed

lemma qos_collapse:
  "\<lparr>qos_rtt_ms = qos_rtt_ms q, qos_jitter_ms = qos_jitter_ms q,
    qos_loss_permille = qos_loss_permille q, qos_frames_decoded = qos_frames_decoded q,
    qos_frames_dropped = qos_frames_dropped q, qos_render_fps_q8 = qos_render_fps_q8 q,
    qos_playout_delay_ms = qos_playout_delay_ms q, qos_decode_time_us = qos_decode_time_us q\<rparr> = q"
  by (cases q) simp

lemma parses_qos: "parses decode_qos (encode_payload (QosReport q)) (QosReport q)"
  unfolding decode_qos_def encode_payload.simps encode_qos_def list.map concat.simps append_Nil2
  by (intro parses_rules) (simp add: qos_collapse)

lemmas parses_payloads = parses_plain parses_error parses_mouse_button parses_key_event
  parses_key_state_sync parses_text_input parses_request_keyframe parses_cursor_update
  parses_cursor_shape parses_video_frame parses_qos

lemma decode_payload_parses:
  assumes "from_u8 t = Some ty" "decode_arm ty = Some a" "parses a bs p"
  shows "decode_payload t bs = Inr p"
  using parses_new [OF assms(3)] assms(1,2) by (auto simp: decode_payload_def mapE_def)

lemma parses_arm:
  assumes "payload_wf p" "\<forall>t d. p \<noteq> Pong t d" "\<forall>t b. p \<noteq> Unknown t b"
  shows "\<exists>a. decode_arm (payload_type p) = Some a \<and> parses a (encode_payload p) p"
  using assms
  by (cases p) (simp_all add: decode_arm_def parses_payloads del: encode_payload.simps payload_wf.simps)

lemma decode_encode_payload:
  assumes "payload_wf p"
  shows "decode_payload (payload_code p) (encode_payload p) = Inr p"
proof -
  consider (pong) t d where "p = Pong t d" | (unknown) t b where "p = Unknown t b"
    | (other) "\<forall>t d. p \<noteq> Pong t d" "\<forall>t b. p \<noteq> Unknown t b"
    by metis
  then show ?thesis
  proof cases
    case pong
    then have "from_u8 (payload_code p) = Some MessageType.Pong"
      by (simp add: payload_code_def from_u8_eq_Some)
    with pong parses_pong [of t d] show ?thesis
      by (auto simp: decode_payload_def decode_arm_def mapE_def simp del: encode_payload.simps)
  next
    case unknown
    then show ?thesis using assms
      by (auto simp: decode_payload_def payload_code_def split: option.splits)
  next
    case other
    from parses_arm [OF assms other] obtain a
      where "decode_arm (payload_type p) = Some a" "parses a (encode_payload p) p" by blast
    then show ?thesis
      using payload_code_typed [OF other(2)] decode_payload_parses from_u8_msg_code by metis
  qed
qed

subsection \<open>Header\<close>

lemma header_encode_Cons:
  "header_encode h @ bs =
     (push_bit 4 (h_version h) OR (h_flags h AND 0x0F)) # h_msg_type h #
     ucast (drop_bit 8 (h_sequence h)) # ucast (h_sequence h) #
     ucast (drop_bit 24 (h_timestamp_ms h)) # ucast (drop_bit 16 (h_timestamp_ms h)) #
     ucast (drop_bit 8 (h_timestamp_ms h)) # ucast (h_timestamp_ms h) # bs"
  by (simp add: header_encode_def to_be_bytes16_def to_be_bytes32_def)

lemma length_header_encode [simp]: "length (header_encode h) = HEADER_LEN"
  by (simp add: header_encode_def HEADER_LEN_def)

lemma nibble_mask: "(f :: u8) AND 0x0F = take_bit 4 f"
  by (simp add: take_bit_eq_mask mask_eq_exp_minus_1)

lemma version_nibble: "drop_bit 4 (push_bit 4 (1 :: u8) OR (f AND 0x0F)) = 1"
proof -
  have "drop_bit 4 (f AND 0x0F) = (0 :: u8)"
    unfolding nibble_mask by (rule bit_word_eqI) (auto simp: bit_simps)
  then show ?thesis by (simp add: drop_bit_or)
qed

lemma flag_nibble: "(push_bit 4 (v :: u8) OR (f AND 0x0F)) AND 0x0F = f AND 0x0F"
  unfolding nibble_mask by (rule bit_word_eqI) (auto simp: bit_simps)

lemma flags_lt_16: "(f :: u8) AND 0x0F < 16"
  unfolding nibble_mask word_less_nat_alt
  using take_bit_nat_less_exp [of 4 "unat f"] by (simp add: unsigned_take_bit_eq)

lemma flags_mask_id: "f < 16 \<Longrightarrow> (f :: u8) AND 0x0F = f"
  unfolding nibble_mask word_less_nat_alt
  by (subst word_unat_eq_iff) (simp add: unsigned_take_bit_eq take_bit_nat_eq_self)

lemma header_decode_encode:
  assumes "h_version h = PROTO_VERSION" "h_flags h < 16"
  shows "header_decode (header_encode h @ bs) = Inr h"
proof -
  define b where "b = push_bit 4 (1 :: u8) OR (h_flags h AND 0x0F)"
  have b: "drop_bit 4 b = 1" "b AND 0x0F = h_flags h"
    unfolding b_def version_nibble flag_nibble using assms(2) by (simp_all add: flags_mask_id)
  show ?thesis
    unfolding header_encode_Cons assms(1) PROTO_VERSION_def b_def [symmetric]
    using assms(1) by (simp add: header_decode_def b HEADER_LEN_def PROTO_VERSION_def)
qed

lemma header_decode_wf:
  "header_decode buf = Inr h \<Longrightarrow> h_version h = PROTO_VERSION \<and> h_flags h < 16"
  by (auto simp: header_decode_def Let_def flags_lt_16 split: if_splits)

lemma first_byte_nibbles: "push_bit 4 (drop_bit 4 b) OR ((b AND 0x0F) AND 0x0F) = (b :: u8)"
  unfolding nibble_mask by (rule bit_word_eqI) (auto simp: bit_simps)

lemma header_encode_decode:
  assumes "HEADER_LEN \<le> length buf" "drop_bit 4 (buf ! 0) = PROTO_VERSION"
  shows "\<exists>h. header_decode buf = Inr h \<and> h_msg_type h = buf ! 1 \<and> header_encode h = take HEADER_LEN buf"
proof -
  obtain b0 b1 b2 b3 b4 b5 b6 b7 bs where buf: "buf = b0 # b1 # b2 # b3 # b4 # b5 # b6 # b7 # bs"
    using assms(1) by (auto simp: HEADER_LEN_def numeral_eq_Suc Suc_le_length_iff)
  have "push_bit 4 PROTO_VERSION OR ((b0 AND 0x0F) AND 0x0F) = b0"
    using first_byte_nibbles [of b0] assms(2) buf by simp
  with assms(2) buf show ?thesis
    by (simp add: header_decode_def header_encode_def HEADER_LEN_def)
qed

subsection \<open>Frames\<close>

lemma frame_decode_encode_wf:
  assumes "frame_wf f"
  shows "frame_decode (frame_encode f) = Inr f"
  using assms decode_encode_payload [of "cf_payload f"]
  by (simp add: frame_decode_def frame_encode_def frame_wf_def header_decode_encode)

lemma frame_decode_wf: "frame_decode buf = Inr f \<Longrightarrow> frame_wf f"
  by (auto simp: frame_decode_def frame_wf_def bindE_eq_Inr dest!: header_decode_wf decode_payload_wf)

lemma frame_new_wf: "payload_wf p \<Longrightarrow> frame_wf (frame_new p seq ts)"
  by (simp add: frame_wf_def frame_new_def payload_code_def split: Payload.split)

lemma synthetic_wf:
  assumes "frame_wf f"
  shows "frame_wf (synthetic f)"
proof -
  have "h_flags (cf_header f) AND 0x0F = h_flags (cf_header f)"
    using assms by (intro flags_mask_id) (simp add: frame_wf_def)
  then have "with_synthetic (h_flags (cf_header f)) AND 0x0F = with_synthetic (h_flags (cf_header f))"
    by (simp add: with_synthetic_def FLAG_SYNTHETIC_def bit.conj_disj_distrib2)
  with flags_lt_16 [of "with_synthetic (h_flags (cf_header f))"] assms show ?thesis
    by (simp add: frame_wf_def synthetic_def)
qed

subsection \<open>Properties of the codec\<close>

text \<open>C4. Every well-formed frame survives the wire: decoding the bytes that \<open>ControlFrame::encode\<close>
  produces gives back exactly the frame, header and payload, for all message types.\<close>

theorem frame_decode_encode:
  assumes "h_version (cf_header f) = PROTO_VERSION" "h_flags (cf_header f) < 16"
    and "h_msg_type (cf_header f) = payload_code (cf_payload f)" "payload_wf (cf_payload f)"
  shows "frame_decode (frame_encode f) = Inr f"
  using assms by (intro frame_decode_encode_wf) (simp add: frame_wf_def)

theorem frame_decode_encode_witness:
  "frame_decode (frame_encode (synthetic (frame_new (KeyEvent 7 4 Down 0 LEFT_SHIFT) 65535 12))) =
     Inr (synthetic (frame_new (KeyEvent 7 4 Down 0 LEFT_SHIFT) 65535 12))"
  by (rule frame_decode_encode) code_simp+



text \<open>Forward compatibility: a frame of a type this build does not know, or whose body it leaves
  opaque, is not an error. It decodes to \<open>Unknown\<close> with its body, and encoding it reproduces the
  received bytes exactly.\<close>

theorem unknown_frames_preserved:
  assumes "HEADER_LEN \<le> length buf" "drop_bit 4 (buf ! 0) = PROTO_VERSION"
    and "Option.bind (from_u8 (buf ! 1)) decode_arm = None"
  shows "\<exists>f. frame_decode buf = Inr f \<and> cf_payload f = Unknown (buf ! 1) (drop HEADER_LEN buf) \<and>
    frame_encode f = buf"
proof -
  obtain h where h: "header_decode buf = Inr h" "h_msg_type h = buf ! 1"
    "header_encode h = take HEADER_LEN buf"
    using header_encode_decode [OF assms(1,2)] by blast
  then have "decode_payload (h_msg_type h) (drop HEADER_LEN buf) =
      Inr (Unknown (buf ! 1) (drop HEADER_LEN buf))"
    using assms(3) by (auto simp: decode_payload_def split: option.splits)
  with h show ?thesis
    by (simp add: frame_decode_def frame_encode_def)
qed

theorem unknown_frames_preserved_witness:
  "\<exists>f. frame_decode [0x13, 0xEE, 1, 2, 3, 4, 5, 6, 7] = Inr f \<and>
     cf_payload f = Unknown 0xEE [7] \<and> frame_encode f = [0x13, 0xEE, 1, 2, 3, 4, 5, 6, 7]"
proof -
  let ?buf = "[0x13, 0xEE, 1, 2, 3, 4, 5, 6, 7] :: u8 list"
  have "HEADER_LEN \<le> length ?buf" "drop_bit 4 (?buf ! 0) = PROTO_VERSION"
    "Option.bind (from_u8 (?buf ! 1)) decode_arm = None"
    by code_simp+
  from unknown_frames_preserved [OF this] show ?thesis by (simp add: HEADER_LEN_def)
qed

text \<open>A sender cannot make its own messages undecodable by sending too much text: an error message
  of any length arrives as its longest code-point-aligned prefix of at most 256 bytes.\<close>

theorem long_error_message_arrives:
  assumes "valid_utf8 message"
  shows "frame_decode (frame_encode (frame_new (Error code message) seq ts)) =
    Inr (frame_new (Error code (truncate_utf8 message 256)) seq ts)"
proof -
  have wf: "payload_wf (Error code (truncate_utf8 message 256))"
    using assms by (simp add: valid_utf8_truncate_utf8 length_truncate_utf8)
  have "frame_encode (frame_new (Error code message) seq ts) =
      frame_encode (frame_new (Error code (truncate_utf8 message 256)) seq ts)"
    by (simp add: frame_encode_def frame_new_def encode_error_def truncate_utf8_id length_truncate_utf8)
  with frame_decode_encode_wf [OF frame_new_wf [OF wf]] show ?thesis by simp
qed

theorem long_error_message_arrives_witness:
  "frame_decode (frame_encode (frame_new (Error 7 (replicate 300 0x61)) 0 0)) =
     Inr (frame_new (Error 7 (truncate_utf8 (replicate 300 0x61) 256)) 0 0)"
  by (rule long_error_message_arrives) code_simp

end
