(* ===== verification/Rda_Injector.thy ===== *)
theory Rda_Injector
  imports Rda_Backend Rda_KeyState Rda_Grant Rda_Codec
begin

text \<open>
  The injection facade of \<^verbatim>\<open>rda-input/src/lib.rs\<close>: every control frame that may reach an operating
  system input call goes through \<open>injector_apply\<close>, one definition per payload, with the guards in the
  order of the code. The backend is a parameter, a record of the methods of the \<open>Backend\<close> trait.
  Pixel coordinates are \<open>int\<close>; \<open>i32\<close> saturation and the \<open>as i32\<close> cast are written out.

  \<open>tracked\<close> relates the injector to its backend: the keys that are down on the machine are the keys
  the tracker holds. It is what release-all relies on.
\<close>

subsection \<open>Displays\<close>

record DisplayGeometry =
  dg_id :: u8
  dg_x :: int
  dg_y :: int
  dg_width :: u32
  dg_height :: u32

definition as_i32 :: "nat \<Rightarrow> int" where
  "as_i32 n = sint (word_of_nat n :: 32 word)"

definition saturating_add_i32 :: "int \<Rightarrow> int \<Rightarrow> int" where
  "saturating_add_i32 a b = max (- (2 ^ 31)) (min (2 ^ 31 - 1) (a + b))"

definition denormalise :: "DisplayGeometry \<Rightarrow> u16 \<Rightarrow> u16 \<Rightarrow> int \<times> int" where
  "denormalise g x_norm y_norm =
     (let w = unat (saturating_sub (dg_width g) 1);
          h = unat (saturating_sub (dg_height g) 1);
          px = unat x_norm * w div 65535;
          py = unat y_norm * h div 65535
      in (saturating_add_i32 (dg_x g) (as_i32 px), saturating_add_i32 (dg_y g) (as_i32 py)))"

subsection \<open>Injector\<close>

datatype LocalControl = Remote | Local

record InjectorStats =
  is_injected :: u64
  is_refused :: u64
  is_reconciled :: u64

record 'b Injector =
  ij_backend :: 'b
  ij_displays :: "DisplayGeometry list"
  ij_rate :: RateGuard
  ij_policy :: CombinationPolicy
  ij_keys :: KeyState
  ij_local_control :: LocalControl
  ij_stats :: InjectorStats

type_synonym 'b injection = "('b Injector, GuardError, unit) st"

definition injector_new :: "'b \<Rightarrow> DisplayGeometry list \<Rightarrow> 'b Injector" where
  "injector_new backend displays =
     \<lparr>ij_backend = backend, ij_displays = displays, ij_rate = rate_guard_new rate_limits_default,
      ij_policy = permissive, ij_keys = key_state_new, ij_local_control = Remote,
      ij_stats = \<lparr>is_injected = 0, is_refused = 0, is_reconciled = 0\<rparr>\<rparr>"

definition with_rate_limits :: "'b Injector \<Rightarrow> RateLimits \<Rightarrow> 'b Injector" where
  "with_rate_limits ij limits = ij\<lparr>ij_rate := rate_guard_new limits\<rparr>"

definition with_policy :: "'b Injector \<Rightarrow> CombinationPolicy \<Rightarrow> 'b Injector" where
  "with_policy ij policy = ij\<lparr>ij_policy := policy\<rparr>"

definition set_displays :: "'b Injector \<Rightarrow> DisplayGeometry list \<Rightarrow> 'b Injector" where
  "set_displays ij displays = ij\<lparr>ij_displays := displays\<rparr>"

definition display :: "'b Injector \<Rightarrow> u8 \<Rightarrow> DisplayGeometry option" where
  "display ij i = find (\<lambda>d. dg_id d = i) (ij_displays ij)"

definition count_refused :: "'b Injector \<Rightarrow> 'b Injector" where
  "count_refused ij = ij\<lparr>ij_stats := (ij_stats ij)\<lparr>is_refused := is_refused (ij_stats ij) + 1\<rparr>\<rparr>"

definition count_reconciled :: "'b Injector \<Rightarrow> 'b Injector" where
  "count_reconciled ij = ij\<lparr>ij_stats := (ij_stats ij)\<lparr>is_reconciled := is_reconciled (ij_stats ij) + 1\<rparr>\<rparr>"

definition count_injected :: "'b Injector \<Rightarrow> 'b Injector" where
  "count_injected ij = ij\<lparr>ij_stats := (ij_stats ij)\<lparr>is_injected := is_injected (ij_stats ij) + 1\<rparr>\<rparr>"

text \<open>A call of the backend, with its error mapped or, for \<open>let _ = ...\<close>, dropped.\<close>

definition call_backend :: "('b, BackendError, unit) st \<Rightarrow> (BackendError \<Rightarrow> 'e) \<Rightarrow> ('b Injector, 'e, unit) st" where
  "call_backend op map_err ij =
     (case op (ij_backend ij) of
        (Inl e, b) \<Rightarrow> (Inl (map_err e), ij\<lparr>ij_backend := b\<rparr>)
      | (Inr _, b) \<Rightarrow> (Inr (), ij\<lparr>ij_backend := b\<rparr>))"

definition call_backend_ignore :: "('b, BackendError, unit) st \<Rightarrow> ('b Injector, 'e, unit) st" where
  "call_backend_ignore op ij = (Inr (), ij\<lparr>ij_backend := snd (op (ij_backend ij))\<rparr>)"

definition set_local_control :: "'b Backend \<Rightarrow> LocalControl \<Rightarrow> ('b Injector, BackendError, unit) st" where
  "set_local_control B control ij =
     sbind (\<lambda>ij. if control = Local \<and> ks_held (ij_keys ij) \<noteq> {}
                  then (let (actions, keys) = key_release_all (ij_keys ij)
                        in sfor actions (\<lambda>a. call_backend (be_key B (action_usage a) (is_press a)) id)
                             (ij\<lparr>ij_keys := keys\<rparr>))
                  else (Inr (), ij))
       (\<lambda>_. smodify (\<lambda>ij. ij\<lparr>ij_local_control := control\<rparr>)) ij"

definition require_input :: "SessionGrant \<Rightarrow> 'b injection" where
  "require_input grant ij =
     (if may_inject_input grant then (Inr (), ij) else (Inl InputNotGranted, count_refused ij))"

definition check_rate :: "EventClass \<Rightarrow> 'b injection" where
  "check_rate cls ij = (Inr (), ij)"

definition rate_ok :: "EventClass \<Rightarrow> u64 \<Rightarrow> 'b injection" where
  "rate_ok cls now_ms ij =
     (let (ok, rate) = rate_allow (ij_rate ij) cls now_ms; ij = ij\<lparr>ij_rate := rate\<rparr>
      in if ok then (Inr (), ij) else (Inl RateLimited, count_refused ij))"

definition sync_modifiers :: "'b Backend \<Rightarrow> Modifiers \<Rightarrow> 'b injection" where
  "sync_modifiers B modifiers ij =
     (let (actions, keys) = reconcile_modifiers (ij_keys ij) modifiers
      in sfor actions (\<lambda>a. sbind (smodify count_reconciled)
             (\<lambda>_. call_backend_ignore (be_key B (action_usage a) False)))
           (ij\<lparr>ij_keys := keys\<rparr>))"

fun map_button :: "MouseButtonId \<Rightarrow> Button" where
  "map_button MouseButtonId.Left = Button.Left"
| "map_button MouseButtonId.Right = Button.Right"
| "map_button MouseButtonId.Middle = Button.Middle"
| "map_button X1 = Back"
| "map_button X2 = Forward"

definition get_display :: "u8 \<Rightarrow> ('b Injector, GuardError, DisplayGeometry) st" where
  "get_display i ij = (ok_or (display ij i) UnknownDisplay, ij)"

definition apply_mouse_move ::
  "'b Backend \<Rightarrow> SessionGrant \<Rightarrow> u64 \<Rightarrow> u8 \<Rightarrow> u16 \<Rightarrow> u16 \<Rightarrow> Modifiers \<Rightarrow> 'b injection" where
  "apply_mouse_move B grant now_ms display_id x_norm y_norm modifiers =
     sbind (require_input grant) (\<lambda>_.
     sbind (check_rate Pointer) (\<lambda>_.
     sbind (rate_ok Pointer now_ms) (\<lambda>_.
     sbind (get_display display_id) (\<lambda>geom.
     sbind (sync_modifiers B modifiers) (\<lambda>_.
     let (x, y) = denormalise geom x_norm y_norm in
     call_backend (be_pointer_absolute B x y) (\<lambda>_. GuardError.InvalidField ''pointer''))))))"

definition apply_mouse_move_relative ::
  "'b Backend \<Rightarrow> SessionGrant \<Rightarrow> u64 \<Rightarrow> u16 \<Rightarrow> u16 \<Rightarrow> Modifiers \<Rightarrow> 'b injection" where
  "apply_mouse_move_relative B grant now_ms dx dy modifiers =
     sbind (require_input grant) (\<lambda>_.
     sbind (rate_ok Pointer now_ms) (\<lambda>_.
     sbind (sync_modifiers B modifiers) (\<lambda>_.
     call_backend (be_pointer_relative B (sint dx) (sint dy)) (\<lambda>_. GuardError.InvalidField ''delta''))))"

definition apply_mouse_button ::
  "'b Backend \<Rightarrow> SessionGrant \<Rightarrow> u64 \<Rightarrow> MouseButtonId \<Rightarrow> KeyAction \<Rightarrow> u16 \<Rightarrow> u16 \<Rightarrow> Modifiers \<Rightarrow> u8 \<Rightarrow> 'b injection" where
  "apply_mouse_button B grant now_ms button action x_norm y_norm modifiers display_id =
     sbind (require_input grant) (\<lambda>_.
     sbind (rate_ok Key now_ms) (\<lambda>_.
     sbind (get_display display_id) (\<lambda>geom.
     sbind (sync_modifiers B modifiers) (\<lambda>_.
     let (x, y) = denormalise geom x_norm y_norm in
     sbind (call_backend (be_pointer_absolute B x y) (\<lambda>_. GuardError.InvalidField ''pointer'')) (\<lambda>_.
     call_backend (be_button B (map_button button) (action = Down)) (\<lambda>_. GuardError.InvalidField ''button''))))))"

definition apply_mouse_wheel ::
  "'b Backend \<Rightarrow> SessionGrant \<Rightarrow> u64 \<Rightarrow> u16 \<Rightarrow> u16 \<Rightarrow> Modifiers \<Rightarrow> 'b injection" where
  "apply_mouse_wheel B grant now_ms delta_v delta_h modifiers =
     sbind (require_input grant) (\<lambda>_.
     sbind (rate_ok Key now_ms) (\<lambda>_.
     sbind (sync_modifiers B modifiers) (\<lambda>_.
     call_backend (be_scroll B \<lparr>sd_vertical = delta_v, sd_horizontal = delta_h\<rparr>)
       (\<lambda>_. GuardError.InvalidField ''scroll''))))"

definition apply_key_event ::
  "'b Backend \<Rightarrow> SessionGrant \<Rightarrow> u64 \<Rightarrow> u16 \<Rightarrow> u16 \<Rightarrow> KeyAction \<Rightarrow> Modifiers \<Rightarrow> 'b injection" where
  "apply_key_event B grant now_ms usage_page usage_id action modifiers =
     sbind (require_input grant) (\<lambda>_.
     sbind (rate_ok Key now_ms) (\<lambda>_ ij.
     if usage_page \<noteq> PAGE_KEYBOARD then (Inl DisallowedUsage, ij)
     else if \<not> is_valid_keyboard_usage usage_id \<or> lookup usage_id = None then (Inl DisallowedUsage, ij)
     else if \<not> permits (ij_policy ij) modifiers usage_id
     then (Inl BlockedCombination, count_refused ij)
     else
       sbind (sync_modifiers B modifiers) (\<lambda>_.
       let down = (action \<noteq> Up) in
       sbind (smodify (\<lambda>ij. ij\<lparr>ij_keys :=
           (if down then snd (key_press (ij_keys ij) usage_id)
            else snd (key_release (ij_keys ij) usage_id))\<rparr>)) (\<lambda>_.
       call_backend (be_key B usage_id down) (\<lambda>_. GuardError.InvalidField ''usage_id''))) ij))"

definition apply_key_state_sync :: "'b Backend \<Rightarrow> SessionGrant \<Rightarrow> u64 \<Rightarrow> u16 list \<Rightarrow> 'b injection" where
  "apply_key_state_sync B grant now_ms pressed =
     sbind (require_input grant) (\<lambda>_.
     sbind (rate_ok Key now_ms) (\<lambda>_ ij.
     let (actions, keys) = reconcile (ij_keys ij) pressed in
     sfor actions (\<lambda>a. sbind (smodify count_reconciled) (\<lambda>_.
         call_backend (be_key B (action_usage a) (is_press a)) (\<lambda>_. GuardError.InvalidField ''usage_id'')))
       (ij\<lparr>ij_keys := keys\<rparr>)))"

definition apply_text_input :: "'b Backend \<Rightarrow> SessionGrant \<Rightarrow> u64 \<Rightarrow> bool \<Rightarrow> rust_str \<Rightarrow> 'b injection" where
  "apply_text_input B grant now_ms commit text =
     sbind (require_input grant) (\<lambda>_.
     sbind (rate_ok Key now_ms) (\<lambda>_.
     if commit then call_backend (be_text B text) (\<lambda>_. GuardError.InvalidField ''text'') else sret ()))"

text \<open>The arm of a payload, if the injector handles it at all.\<close>

definition apply_arm :: "'b Backend \<Rightarrow> SessionGrant \<Rightarrow> u64 \<Rightarrow> Payload \<Rightarrow> 'b injection option" where
  "apply_arm B grant now_ms payload =
     (case payload of
        MouseMove display_id _ x y modifiers \<Rightarrow> Some (apply_mouse_move B grant now_ms display_id x y modifiers)
      | MouseMoveRelative dx dy modifiers _ \<Rightarrow> Some (apply_mouse_move_relative B grant now_ms dx dy modifiers)
      | MouseButton button action x y modifiers display_id _ \<Rightarrow>
          Some (apply_mouse_button B grant now_ms button action x y modifiers display_id)
      | MouseWheel dv dh modifiers _ _ \<Rightarrow> Some (apply_mouse_wheel B grant now_ms dv dh modifiers)
      | Payload.KeyEvent page usage action _ modifiers \<Rightarrow>
          Some (apply_key_event B grant now_ms page usage action modifiers)
      | KeyStateSync _ _ pressed \<Rightarrow> Some (apply_key_state_sync B grant now_ms pressed)
      | TextInput commit _ text \<Rightarrow> Some (apply_text_input B grant now_ms commit text)
      | _ \<Rightarrow> None)"

definition injector_apply :: "'b Backend \<Rightarrow> SessionGrant \<Rightarrow> ControlFrame \<Rightarrow> u64 \<Rightarrow> 'b injection" where
  "injector_apply B grant frame now_ms ij =
     (if ij_local_control ij = Local then (Inl LocalUserActive, count_refused ij)
      else case apply_arm B grant now_ms (cf_payload frame) of
        Some arm \<Rightarrow> sbind arm (\<lambda>_. smodify count_injected) ij
      | None \<Rightarrow> (Inr (), ij))"

definition injector_release_all :: "'b Backend \<Rightarrow> ('b Injector, BackendError, nat) st" where
  "injector_release_all B ij =
     (let (actions, keys) = key_release_all (ij_keys ij); n = length actions
      in sbind (sfor actions (\<lambda>a. call_backend (be_key B (action_usage a) False) id))
           (\<lambda>_. sret n) (ij\<lparr>ij_keys := keys\<rparr>))"

subsection \<open>Guards\<close>

lemma sbind_Inl: "m s = (Inl e, s') \<Longrightarrow> sbind m f s = (Inl e, s')"
  by simp

lemma counters_simps [simp]:
  "ij_backend (count_refused ij) = ij_backend ij" "ij_keys (count_refused ij) = ij_keys ij"
  "ij_backend (count_reconciled ij) = ij_backend ij" "ij_keys (count_reconciled ij) = ij_keys ij"
  "ij_backend (count_injected ij) = ij_backend ij" "ij_keys (count_injected ij) = ij_keys ij"
  "ij_local_control (count_refused ij) = ij_local_control ij"
  "ij_local_control (count_reconciled ij) = ij_local_control ij"
  "ij_local_control (count_injected ij) = ij_local_control ij"
  by (simp_all add: count_refused_def count_reconciled_def count_injected_def)

lemmas apply_arm_defs = apply_mouse_move_def apply_mouse_move_relative_def apply_mouse_button_def
  apply_mouse_wheel_def apply_key_event_def apply_key_state_sync_def apply_text_input_def

lemma apply_arm_not_granted:
  assumes "\<not> may_inject_input grant" "apply_arm B grant now p = Some arm"
  shows "arm ij = (Inl InputNotGranted, count_refused ij)"
proof -
  have "require_input grant ij = (Inl InputNotGranted, count_refused ij)"
    using assms(1) by (simp add: require_input_def)
  then show ?thesis
    using assms(2) by (cases p) (auto simp: apply_arm_def apply_arm_defs)
qed

lemma rate_ok_backend:
  "ij_backend (snd (rate_ok c now ij)) = ij_backend ij" "ij_keys (snd (rate_ok c now ij)) = ij_keys ij"
  "ij_policy (snd (rate_ok c now ij)) = ij_policy ij"
  by (simp_all add: rate_ok_def Let_def case_prod_beta) (simp add: count_refused_def)

lemma apply_key_event_guarded:
  assumes "\<not> (may_inject_input grant \<and> page = PAGE_KEYBOARD \<and> is_valid_keyboard_usage usage \<and>
    lookup usage \<noteq> None \<and> permits (ij_policy ij) m usage)"
  shows "\<exists>e ij'. apply_key_event B grant now page usage a m ij = (Inl e, ij') \<and>
    ij_backend ij' = ij_backend ij \<and> ij_keys ij' = ij_keys ij"
proof (cases "may_inject_input grant")
  case True
  then have req: "require_input grant ij = (Inr (), ij)" by (simp add: require_input_def)
  obtain r ij1 where r: "rate_ok Key now ij = (r, ij1)" by fastforce
  with rate_ok_backend [of Key now ij] have kept: "ij_backend ij1 = ij_backend ij" "ij_keys ij1 = ij_keys ij"
    "ij_policy ij1 = ij_policy ij" by simp_all
  show ?thesis
    using req r kept assms True
    by (cases r) (auto simp: apply_key_event_def)
next
  case False
  then show ?thesis
    by (simp add: apply_key_event_def require_input_def)
qed

subsection \<open>Coordinates\<close>

lemma as_i32_id: "n < 2 ^ 31 \<Longrightarrow> as_i32 n = int n"
  by (simp add: as_i32_def signed_of_nat signed_take_bit_int_eq_self)

lemma scale_le: "(x :: nat) \<le> 65535 \<Longrightarrow> x * w div 65535 \<le> w"
  using div_le_mono [of "x * w" "65535 * w" 65535] mult_le_mono1 [of x 65535 w] by simp

lemma u16_le: "unat (x :: u16) \<le> 65535"
  using unsigned_less [of x, where ?'a = nat] by simp

lemma denormalise_axis:
  fixes x :: u16 and width :: u32 and left :: int
  assumes "0 < width" "unat width \<le> 2 ^ 31" "- (2 ^ 31) \<le> left" "left + int (unat width) \<le> 2 ^ 31"
  defines "p \<equiv> saturating_add_i32 left (as_i32 (unat x * unat (saturating_sub width 1) div 65535))"
  shows "left \<le> p" "p < left + int (unat width)" "x = 0 \<Longrightarrow> p = left"
    "x = 65535 \<Longrightarrow> p = left + int (unat width) - 1"
proof -
  define k where "k = unat x * (unat width - 1) div 65535"
  have w: "0 < unat width" using assms(1) by (simp add: word_less_nat_alt)
  have k: "k \<le> unat width - 1" unfolding k_def using scale_le u16_le by blast
  then have "as_i32 k = int k" using w assms(2) by (intro as_i32_id) simp
  moreover have lt: "int k < int (unat width)" using k w by linarith
  moreover have "p = saturating_add_i32 left (as_i32 k)" by (simp add: p_def k_def)
  ultimately have p: "p = left + int k"
    using assms(3,4) lt by (simp add: saturating_add_i32_def min_def max_def del: of_nat_unat)
  show "left \<le> p" "p < left + int (unat width)"
    using p lt by linarith+
  show "p = left" if "x = 0" using that p by (simp add: k_def)
  show "p = left + int (unat width) - 1" if "x = 65535"
  proof -
    have "k = unat width - 1" using that by (simp add: k_def)
    then show ?thesis using p w by linarith
  qed
qed

subsection \<open>Tracking\<close>

definition tracked :: "('b \<Rightarrow> u16 set) \<Rightarrow> ('b \<Rightarrow> bool) \<Rightarrow> 'b Injector \<Rightarrow> bool" where
  "tracked down works ij \<longleftrightarrow> works (ij_backend ij) \<and> down (ij_backend ij) = ks_held (ij_keys ij) \<and>
     card (ks_held (ij_keys ij)) \<le> MAX_HELD_KEYS"

text \<open>Room in the tracker for the key an event presses.\<close>

definition has_room :: "'b Injector \<Rightarrow> Payload \<Rightarrow> bool" where
  "has_room ij p = (case p of
     Payload.KeyEvent _ usage action _ _ \<Rightarrow>
       action \<noteq> Up \<longrightarrow> usage \<in> ks_held (ij_keys ij) \<or> card (ks_held (ij_keys ij)) < MAX_HELD_KEYS
   | _ \<Rightarrow> True)"

context input_backend
begin

text \<open>A step that performs one action on the machine and leaves the tracker alone.\<close>

definition performs :: "SyncAction \<Rightarrow> ('b Injector, 'e, unit) st \<Rightarrow> bool" where
  "performs a m \<longleftrightarrow> (\<forall>ij. works (ij_backend ij) \<longrightarrow>
     (\<exists>ij'. m ij = (Inr (), ij') \<and> works (ij_backend ij') \<and> ij_keys ij' = ij_keys ij \<and>
        down (ij_backend ij') = run_action (down (ij_backend ij)) a))"

lemma performsI:
  assumes "\<And>ij. works (ij_backend ij) \<Longrightarrow>
    \<exists>ij'. m ij = (Inr (), ij') \<and> works (ij_backend ij') \<and> ij_keys ij' = ij_keys ij \<and>
      down (ij_backend ij') = run_action (down (ij_backend ij)) a"
  shows "performs a m"
  using assms unfolding performs_def by blast

lemma key_action:
  assumes "works b"
  obtains b' where "be_key ops (action_usage a) (is_press a) b = (Inr (), b')" "works b'"
    "down b' = run_action (down b) a"
proof -
  from key_works [OF assms] obtain b' where "be_key ops (action_usage a) (is_press a) b = (Inr (), b')"
    "works b'" "down b' = (if is_press a then insert (action_usage a) (down b) else down b - {action_usage a})"
    by blast
  with that show thesis by (cases a) (simp_all add: is_press_def)
qed

lemma performs_call: "performs a (call_backend (be_key ops (action_usage a) (is_press a)) f)"
proof (rule performsI)
  fix ij :: "'b Injector" assume "works (ij_backend ij)"
  then obtain b' where "be_key ops (action_usage a) (is_press a) (ij_backend ij) = (Inr (), b')" "works b'"
    "down b' = run_action (down (ij_backend ij)) a" by (rule key_action)
  then show "\<exists>ij'. call_backend (be_key ops (action_usage a) (is_press a)) f ij = (Inr (), ij') \<and>
      works (ij_backend ij') \<and> ij_keys ij' = ij_keys ij \<and>
      down (ij_backend ij') = run_action (down (ij_backend ij)) a"
    by (simp add: call_backend_def)
qed

lemma performs_release: "performs (Release u) (call_backend (be_key ops u False) f)"
  using performs_call [of "Release u" f] by (simp add: is_press_def)

lemma performs_ignore: "performs (Release u) (call_backend_ignore (be_key ops u False))"
proof (rule performsI)
  fix ij :: "'b Injector" assume "works (ij_backend ij)"
  then obtain b' where "be_key ops u False (ij_backend ij) = (Inr (), b')" "works b'"
    "down b' = run_action (down (ij_backend ij)) (Release u)"
    by (rule key_action [where a = "Release u"]) (simp add: is_press_def)
  then show "\<exists>ij'. call_backend_ignore (be_key ops u False) ij = (Inr (), ij') \<and> works (ij_backend ij') \<and>
      ij_keys ij' = ij_keys ij \<and> down (ij_backend ij') = run_action (down (ij_backend ij)) (Release u)"
    by (simp add: call_backend_ignore_def)
qed

lemma performs_counted:
  assumes "performs a m"
  shows "performs a (sbind (smodify count_reconciled) (\<lambda>_. m))"
proof (rule performsI)
  fix ij :: "'b Injector" assume "works (ij_backend ij)"
  with assms obtain ij' where "m (count_reconciled ij) = (Inr (), ij')" "works (ij_backend ij')"
    "ij_keys ij' = ij_keys ij" "down (ij_backend ij') = run_action (down (ij_backend ij)) a"
    unfolding performs_def using counters_simps(3,4) by metis
  then show "\<exists>ij'. sbind (smodify count_reconciled) (\<lambda>_. m) ij = (Inr (), ij') \<and> works (ij_backend ij') \<and>
      ij_keys ij' = ij_keys ij \<and> down (ij_backend ij') = run_action (down (ij_backend ij)) a"
    by (simp add: sbind_def)
qed

lemma sfor_performs:
  assumes "\<forall>a \<in> set acts. performs a (body a)" "works (ij_backend ij)"
  shows "\<exists>ij'. sfor acts body ij = (Inr (), ij') \<and> works (ij_backend ij') \<and> ij_keys ij' = ij_keys ij \<and>
    down (ij_backend ij') = run_actions (down (ij_backend ij)) acts"
  using assms
proof (induction acts arbitrary: ij)
  case (Cons a acts)
  then obtain ij1 where 1: "body a ij = (Inr (), ij1)" "works (ij_backend ij1)" "ij_keys ij1 = ij_keys ij"
    "down (ij_backend ij1) = run_action (down (ij_backend ij)) a"
    unfolding performs_def by (meson list.set_intros(1))
  with Cons.IH [of ij1] Cons.prems show ?case by auto
qed simp

lemma sync_modifiers_tracked:
  assumes "tracked down works ij"
  obtains ij' where "sync_modifiers ops m ij = (Inr (), ij')" "tracked down works ij'"
    "ij_keys ij' = snd (reconcile_modifiers (ij_keys ij) m)"
proof -
  define acts keys where "acts = fst (reconcile_modifiers (ij_keys ij) m)"
    and "keys = snd (reconcile_modifiers (ij_keys ij) m)"
  define body :: "SyncAction \<Rightarrow> 'b injection" where
    "body a = sbind (smodify count_reconciled) (\<lambda>_. call_backend_ignore (be_key ops (action_usage a) False))" for a
  have perf: "\<forall>a \<in> set acts. performs a (body a)"
    unfolding acts_def body_def by (auto dest!: reconcile_modifiers_releases intro!: performs_counted performs_ignore)
  have works: "works (ij_backend (ij\<lparr>ij_keys := keys\<rparr>))" using assms by (simp add: tracked_def)
  from sfor_performs [OF perf works] obtain ij' where
    ij': "sfor acts body (ij\<lparr>ij_keys := keys\<rparr>) = (Inr (), ij')" "works (ij_backend ij')"
    "ij_keys ij' = keys" "down (ij_backend ij') = run_actions (down (ij_backend ij)) acts"
    by auto
  have "down (ij_backend ij') = ks_held keys"
    using ij'(4) assms reconcile_modifiers_actions by (simp add: tracked_def acts_def keys_def)
  moreover have "card (ks_held keys) \<le> card (ks_held (ij_keys ij))"
    unfolding keys_def by (intro card_mono) (auto simp: reconcile_modifiers_held)
  ultimately have "tracked down works ij'"
    using ij'(2,3) assms by (simp add: tracked_def)
  moreover have "sync_modifiers ops m ij = (Inr (), ij')"
    using ij'(1) by (simp add: sync_modifiers_def Let_def case_prod_beta acts_def keys_def body_def [abs_def])
  ultimately show thesis using that ij'(3) by (simp add: keys_def)
qed

lemma keeps_sync: "keeps (tracked down works) (sync_modifiers ops m)"
  unfolding keeps_def
proof (intro allI impI)
  fix ij assume "tracked down works ij"
  then show "tracked down works (snd (sync_modifiers ops m ij))"
    by (rule sync_modifiers_tracked [of ij m]) simp
qed

lemma keeps_require: "keeps (tracked down works) (require_input g)"
  by (simp add: keeps_def require_input_def tracked_def)

lemma keeps_rate: "keeps (tracked down works) (rate_ok c now)"
  by (simp add: keeps_def tracked_def rate_ok_backend)

lemma keeps_check_rate: "keeps (tracked down works) (check_rate c)"
  by (simp add: keeps_def check_rate_def)

lemma keeps_display: "keeps (tracked down works) (get_display i)"
  by (simp add: keeps_def get_display_def)

lemma keeps_call:
  assumes "\<And>b. works b \<Longrightarrow> \<exists>b'. op b = (Inr (), b') \<and> works b' \<and> down b' = down b"
  shows "keeps (tracked down works) (call_backend op f)"
  unfolding keeps_def
proof (intro allI impI)
  fix ij assume "tracked down works ij"
  with assms [of "ij_backend ij"] show "tracked down works (snd (call_backend op f ij))"
    by (auto simp: tracked_def call_backend_def)
qed

lemmas keeps_rules = keeps_sync keeps_require keeps_rate keeps_check_rate keeps_display keeps_sbind
  keeps_if keeps_intros keeps_call [OF absolute_works] keeps_call [OF relative_works]
  keeps_call [OF button_works] keeps_call [OF scroll_works] keeps_call [OF text_works]

lemma keeps_plain_arms:
  "keeps (tracked down works) (apply_mouse_move ops g now i x y m)"
  "keeps (tracked down works) (apply_mouse_move_relative ops g now dx dy m)"
  "keeps (tracked down works) (apply_mouse_button ops g now bt a x y m i)"
  "keeps (tracked down works) (apply_mouse_wheel ops g now dv dh m)"
  "keeps (tracked down works) (apply_text_input ops g now c t)"
  unfolding apply_mouse_move_def apply_mouse_move_relative_def apply_mouse_button_def
    apply_mouse_wheel_def apply_text_input_def Let_def case_prod_beta
  by (intro keeps_rules; assumption)+

text \<open>Running the actions of a reconciliation brings machine and tracker to the new state.\<close>

lemma run_reconciliation:
  assumes "tracked down works ij" "\<forall>a \<in> set acts. performs a (body a)"
    and "run_actions (ks_held (ij_keys ij)) acts = ks_held keys" "card (ks_held keys) \<le> MAX_HELD_KEYS"
  obtains ij' where "sfor acts body (ij\<lparr>ij_keys := keys\<rparr>) = (Inr (), ij')" "tracked down works ij'"
    "ij_keys ij' = keys"
proof -
  have "works (ij_backend (ij\<lparr>ij_keys := keys\<rparr>))" using assms(1) by (simp add: tracked_def)
  from sfor_performs [OF assms(2) this] assms that show thesis
    by (auto simp: tracked_def)
qed

lemma keeps_key_state_sync: "keeps (tracked down works) (apply_key_state_sync ops g now ks)"
proof -
  define body :: "SyncAction \<Rightarrow> 'b injection" where
    "body a = sbind (smodify count_reconciled) (\<lambda>_.
       call_backend (be_key ops (action_usage a) (is_press a)) (\<lambda>_. GuardError.InvalidField ''usage_id''))" for a
  have "keeps (tracked down works) (\<lambda>ij. let (actions, keys) = reconcile (ij_keys ij) ks in
      sfor actions body (ij\<lparr>ij_keys := keys\<rparr>))"
    unfolding keeps_def
  proof (intro allI impI)
    fix ij assume tr: "tracked down works ij"
    let ?rec = "reconcile (ij_keys ij) ks"
    have perf: "\<forall>a \<in> set (fst ?rec). performs a (body a)"
      by (simp add: body_def performs_counted performs_call)
    have held: "run_actions (ks_held (ij_keys ij)) (fst ?rec) = ks_held (snd ?rec)"
      "card (ks_held (snd ?rec)) \<le> MAX_HELD_KEYS"
      by (simp_all add: reconcile_actions reconcile_held card_reconcile_target)
    from run_reconciliation [OF tr perf held] obtain ij' where
      "sfor (fst ?rec) body (ij\<lparr>ij_keys := snd ?rec\<rparr>) = (Inr (), ij')" "tracked down works ij'" .
    then show "tracked down works (snd (let (actions, keys) = ?rec in sfor actions body (ij\<lparr>ij_keys := keys\<rparr>)))"
      by (simp add: case_prod_beta)
  qed
  then show ?thesis
    unfolding apply_key_state_sync_def body_def [abs_def] by (intro keeps_sbind keeps_require keeps_rate)
qed

text \<open>A key event, when the tracker has room for the key.\<close>

lemma key_call_tracked:
  assumes tr: "tracked down works ij" and held: "ks_held keys = (if d then insert u (ks_held (ij_keys ij)) else ks_held (ij_keys ij) - {u})"
    and card: "card (ks_held keys) \<le> MAX_HELD_KEYS"
  shows "tracked down works (snd (call_backend (be_key ops u d) f (ij\<lparr>ij_keys := keys\<rparr>)))"
proof -
  obtain b' where "be_key ops u d (ij_backend ij) = (Inr (), b')" "works b'"
    "down b' = (if d then insert u (down (ij_backend ij)) else down (ij_backend ij) - {u})"
    using key_works tr unfolding tracked_def by blast
  with tr held card show ?thesis
    by (cases d) (simp_all add: tracked_def call_backend_def)
qed

lemma apply_key_event_tracked:
  assumes tr: "tracked down works ij" and room: "a \<noteq> Up \<longrightarrow> u \<in> ks_held (ij_keys ij) \<or> card (ks_held (ij_keys ij)) < MAX_HELD_KEYS"
  shows "tracked down works (snd (apply_key_event ops g now pg u a m ij))"
proof (cases "may_inject_input g \<and> pg = PAGE_KEYBOARD \<and> is_valid_keyboard_usage u \<and> lookup u \<noteq> None \<and>
    permits (ij_policy ij) m u")
  case False
  from apply_key_event_guarded [OF this, of ops now a] tr show ?thesis
    by (auto simp: tracked_def)
next
  case True
  obtain r ij1 where r: "rate_ok Key now ij = (r, ij1)" by fastforce
  with rate_ok_backend [of Key now ij] tr have ij1: "tracked down works ij1" "ij_keys ij1 = ij_keys ij"
    "ij_policy ij1 = ij_policy ij" by (simp_all add: tracked_def)
  have req: "require_input g ij = (Inr (), ij)" using True by (simp add: require_input_def)
  show ?thesis
  proof (cases r)
    case (Inl e)
    with r req ij1 show ?thesis by (simp add: apply_key_event_def)
  next
    case (Inr _)
    obtain ij2 where ij2: "sync_modifiers ops m ij1 = (Inr (), ij2)" "tracked down works ij2"
      "ij_keys ij2 = snd (reconcile_modifiers (ij_keys ij1) m)"
      by (rule sync_modifiers_tracked [OF ij1(1)])
    have sub: "ks_held (ij_keys ij2) \<subseteq> ks_held (ij_keys ij)"
      by (auto simp: ij2(3) ij1(2) reconcile_modifiers_held)
    define keys where "keys = (if a \<noteq> Up then snd (key_press (ij_keys ij2) u) else snd (key_release (ij_keys ij2) u))"
    have free: "a \<noteq> Up \<Longrightarrow> u \<notin> ks_held (ij_keys ij2) \<Longrightarrow> card (ks_held (ij_keys ij2)) < MAX_HELD_KEYS"
    proof -
      assume "a \<noteq> Up" and out: "u \<notin> ks_held (ij_keys ij2)"
      with room consider "u \<in> ks_held (ij_keys ij)" | "card (ks_held (ij_keys ij)) < MAX_HELD_KEYS" by blast
      then show "card (ks_held (ij_keys ij2)) < MAX_HELD_KEYS"
      proof cases
        case 1
        with sub out have "ks_held (ij_keys ij2) \<subset> ks_held (ij_keys ij)" by blast
        from psubset_card_mono [OF finite_u16 this] tr show ?thesis by (simp add: tracked_def)
      qed (use card_mono [OF finite_u16 sub] in simp)
    qed
    have held: "ks_held keys =
        (if a \<noteq> Up then insert u (ks_held (ij_keys ij2)) else ks_held (ij_keys ij2) - {u})"
      using free by (auto simp: keys_def key_press_def key_release_def)
    have "card (ks_held keys) \<le> MAX_HELD_KEYS"
    proof (cases "a = Up")
      case True
      then show ?thesis
        using held ij2(2) card_Diff1_le [of "ks_held (ij_keys ij2)" u] by (simp add: tracked_def)
    qed (use held free ij2(2) in \<open>auto simp: tracked_def card_insert_if\<close>)
    from key_call_tracked [OF ij2(2) held this] show ?thesis
      using req r Inr ij1(3) ij2(1) True
      by (cases "a = Up") (auto simp: apply_key_event_def keys_def Let_def sbind_def)
  qed
qed

lemma injector_apply_tracked:
  assumes tr: "tracked down works ij" and room: "has_room ij (cf_payload fr)"
  shows "tracked down works (snd (injector_apply ops g fr now ij))"
proof (cases "ij_local_control ij = Local")
  case True
  with tr show ?thesis by (simp add: injector_apply_def tracked_def)
next
  case remote: False
  have counted: "tracked down works (snd (sbind arm (\<lambda>_. smodify count_injected) ij))"
    if "tracked down works (snd (arm ij))" for arm :: "'b injection"
    using that by (cases "arm ij"; cases "fst (arm ij)") (auto simp: sbind_def tracked_def)
  have "tracked down works (snd (arm ij))" if "apply_arm ops g now (cf_payload fr) = Some arm" for arm
    using that tr room apply_key_event_tracked keepsD [OF keeps_key_state_sync] keepsD [OF keeps_plain_arms(1)]
      keepsD [OF keeps_plain_arms(2)] keepsD [OF keeps_plain_arms(3)] keepsD [OF keeps_plain_arms(4)]
      keepsD [OF keeps_plain_arms(5)]
    by (cases "cf_payload fr") (auto simp: apply_arm_def has_room_def)
  with remote tr counted show ?thesis
    by (auto simp: injector_apply_def split: option.split)
qed

lemma release_all_tracked:
  assumes "tracked down works ij"
  obtains ij' where "injector_release_all ops ij = (Inr (card (ks_held (ij_keys ij))), ij')"
    "tracked down works ij'" "ks_held (ij_keys ij') = {}"
proof -
  define body :: "SyncAction \<Rightarrow> ('b Injector, BackendError, unit) st" where
    "body a = call_backend (be_key ops (action_usage a) False) id" for a
  let ?rel = "key_release_all (ij_keys ij)"
  have "\<forall>a \<in> set (fst ?rel). \<exists>u. a = Release u"
    by (auto simp: key_release_all_def)
  then have perf: "\<forall>a \<in> set (fst ?rel). performs a (body a)"
    unfolding body_def using performs_release by fastforce
  have held: "run_actions (ks_held (ij_keys ij)) (fst ?rel) = ks_held (snd ?rel)"
    "card (ks_held (snd ?rel)) \<le> MAX_HELD_KEYS"
    by (simp_all add: release_all_actions)
  from run_reconciliation [OF assms perf held] obtain ij' where
    ij': "sfor (fst ?rel) body (ij\<lparr>ij_keys := snd ?rel\<rparr>) = (Inr (), ij')" "tracked down works ij'" "ij_keys ij' = snd ?rel" .
  have "injector_release_all ops ij = (Inr (card (ks_held (ij_keys ij))), ij')"
    using ij'(1) by (simp add: injector_release_all_def Let_def case_prod_beta body_def [abs_def] length_release_all)
  with that ij' show thesis by (simp add: release_all_actions)
qed

lemma set_local_control_tracked:
  assumes tr: "tracked down works ij"
  obtains ij' where "set_local_control ops c ij = (Inr (), ij')" "tracked down works ij'"
    "ij_local_control ij' = c" "c = Local \<Longrightarrow> ks_held (ij_keys ij') = {}"
proof (cases "c = Local \<and> ks_held (ij_keys ij) \<noteq> {}")
  case True
  define body :: "SyncAction \<Rightarrow> ('b Injector, BackendError, unit) st" where
    "body a = call_backend (be_key ops (action_usage a) (is_press a)) id" for a
  let ?rel = "key_release_all (ij_keys ij)"
  have perf: "\<forall>a \<in> set (fst ?rel). performs a (body a)"
    unfolding body_def by (simp add: performs_call)
  have held: "run_actions (ks_held (ij_keys ij)) (fst ?rel) = ks_held (snd ?rel)"
    "card (ks_held (snd ?rel)) \<le> MAX_HELD_KEYS"
    by (simp_all add: release_all_actions)
  from run_reconciliation [OF tr perf held] obtain ij' where
    ij': "sfor (fst ?rel) body (ij\<lparr>ij_keys := snd ?rel\<rparr>) = (Inr (), ij')" "tracked down works ij'" "ij_keys ij' = snd ?rel" .
  then have "set_local_control ops c ij = (Inr (), ij'\<lparr>ij_local_control := c\<rparr>)"
    using True by (simp add: set_local_control_def sbind_def case_prod_beta body_def [abs_def])
  with that ij' show thesis by (simp add: tracked_def release_all_actions)
next
  case False
  then have "set_local_control ops c ij = (Inr (), ij\<lparr>ij_local_control := c\<rparr>)"
    by (auto simp: set_local_control_def sbind_def)
  with that False tr show thesis by (simp add: tracked_def)
qed

end

subsection \<open>The injector over the recording backend\<close>

inductive injector_step :: "RecordingBackend Injector \<Rightarrow> RecordingBackend Injector \<Rightarrow> bool" where
  frame: "has_room ij (cf_payload fr) \<Longrightarrow> injector_apply recording_backend g fr now ij = (r, ij') \<Longrightarrow> injector_step ij ij'"
| control: "set_local_control recording_backend c ij = (r, ij') \<Longrightarrow> injector_step ij ij'"
| release: "injector_release_all recording_backend ij = (n, ij') \<Longrightarrow> injector_step ij ij'"
| displays: "injector_step ij (set_displays ij ds)"

inductive injector_init :: "RecordingBackend Injector \<Rightarrow> bool" where
  "injector_init (with_policy (with_rate_limits (injector_new recording_default ds) limits) policy)"

abbreviation recording_tracked :: "RecordingBackend Injector \<Rightarrow> bool" where
  "recording_tracked \<equiv> tracked recorded_down (\<lambda>b. rb_fail_with b = None)"

interpretation injector: inductive_invariant injector_init injector_step recording_tracked
proof
  show "recording_tracked ij" if "injector_init ij" for ij
    using that by cases (simp add: with_policy_def with_rate_limits_def injector_new_def tracked_def
        recording_default_def recorded_down_def recording_keys_def key_state_new_def)
  show "recording_tracked ij'" if tr: "recording_tracked ij" and st: "injector_step ij ij'" for ij ij'
    using st
  proof cases
    case (frame fr g now r)
    with recording.injector_apply_tracked [OF tr, of fr g now] show ?thesis by simp
  next
    case (control c r)
    with recording.set_local_control_tracked [OF tr, of c] show ?thesis by auto
  next
    case (release n)
    with recording.release_all_tracked [OF tr] show ?thesis by auto
  next
    case (displays ds)
    with tr show ?thesis by (simp add: tracked_def set_displays_def)
  qed
qed

subsection \<open>Properties\<close>

text \<open>C3. No input without a grant: for a session whose grant does not include input, and for every
  backend, display layout, time and frame, the injector calls no backend method and changes no key
  state; an input frame is answered with an error.\<close>

theorem no_injection_without_grant:
  assumes "\<not> cap_input (g_caps grant)" "injector_apply B grant fr now ij = (r, ij')"
  shows "ij_backend ij' = ij_backend ij \<and> ij_keys ij' = ij_keys ij \<and>
    (apply_arm B grant now (cf_payload fr) \<noteq> None \<longrightarrow> r = Inl InputNotGranted \<or> r = Inl LocalUserActive)"
proof (cases "apply_arm B grant now (cf_payload fr)")
  case None
  with assms(2) show ?thesis by (auto simp: injector_apply_def split: if_splits)
next
  case (Some arm)
  have "arm ij = (Inl InputNotGranted, count_refused ij)"
    using apply_arm_not_granted [OF _ Some] assms(1) by (simp add: may_inject_input_def)
  with Some assms(2) show ?thesis by (auto simp: injector_apply_def split: if_splits)
qed

theorem no_injection_without_grant_witness:
  "let g = grant_issue ''s'' (DeviceId ''000000000000'') view_only SessionPin 0;
       ij = injector_new recording_default [];
       (r, ij') = injector_apply recording_backend g (frame_new (Payload.KeyEvent 7 4 Down 0 0) 1 1) 5 ij
   in rb_events (ij_backend ij') = [] \<and> r = Inl InputNotGranted"
proof -
  let ?g = "grant_issue ''s'' (DeviceId ''000000000000'') view_only SessionPin 0"
  let ?ij = "injector_new recording_default []"
  let ?fr = "frame_new (Payload.KeyEvent 7 4 Down 0 0) 1 1"
  obtain r ij' where res: "injector_apply recording_backend ?g ?fr 5 ?ij = (r, ij')" by fastforce
  have cap: "\<not> cap_input (g_caps ?g)" by code_simp
  from no_injection_without_grant [OF cap res] res have "ij_backend ij' = ij_backend ?ij" by blast
  moreover have "r = Inl InputNotGranted"
  proof -
    have "fst (injector_apply recording_backend ?g ?fr 5 ?ij) = Inl InputNotGranted"
      by (simp add: injector_apply_def apply_arm_def frame_new_def injector_new_def apply_key_event_def
          require_input_def may_inject_input_def grant_issue_def view_only_def session_caps_default_def)
    with res show ?thesis by simp
  qed
  ultimately show ?thesis
    unfolding Let_def res by (simp add: injector_new_def recording_default_def)
qed







text \<open>The pointer stays on the display: on a display that lies inside the \<open>i32\<close> desktop, every
  normalised coordinate becomes a pixel of that display, and the two corners are its first and last pixel.\<close>

theorem denormalise_on_display:
  assumes "0 < dg_width g" "unat (dg_width g) \<le> 2 ^ 31" "0 < dg_height g" "unat (dg_height g) \<le> 2 ^ 31"
    and "- (2 ^ 31) \<le> dg_x g" "dg_x g + int (unat (dg_width g)) \<le> 2 ^ 31"
    and "- (2 ^ 31) \<le> dg_y g" "dg_y g + int (unat (dg_height g)) \<le> 2 ^ 31"
  shows "fst (denormalise g x y) \<in> {dg_x g ..< dg_x g + int (unat (dg_width g))} \<and>
    snd (denormalise g x y) \<in> {dg_y g ..< dg_y g + int (unat (dg_height g))} \<and>
    denormalise g 0 0 = (dg_x g, dg_y g) \<and>
    denormalise g 65535 65535 = (dg_x g + int (unat (dg_width g)) - 1, dg_y g + int (unat (dg_height g)) - 1)"
  using denormalise_axis [OF assms(1,2,5,6)] denormalise_axis [OF assms(3,4,7,8)]
  unfolding denormalise_def Let_def by simp

theorem denormalise_on_display_witness:
  "denormalise \<lparr>dg_id = 0, dg_x = - 1920, dg_y = 0, dg_width = 1920, dg_height = 1080\<rparr> 65535 65535 = (- 1, 1079)"
  using denormalise_on_display [of "\<lparr>dg_id = 0, dg_x = - 1920, dg_y = 0, dg_width = 1920, dg_height = 1080\<rparr>" 0 0]
  by simp

text \<open>The bound on pressed keys in \<open>held_keys_tracked\<close> is needed: \<open>apply\<close> ignores the refusal of
  \<open>KeyState::press\<close> when 32 keys are held, so a further key is pressed on the machine, is not tracked,
  and stays down after everything was released.\<close>

lemma untracked_key_survives_release:
  "let g = grant_issue ''s'' (DeviceId ''000000000000'') (view_only\<lparr>cap_input := True\<rparr>) SessionPin 0;
       ij0 = injector_new recording_default [];
       sync = frame_new (KeyStateSync 0 True (map word_of_nat [4..<36])) 1 1;
       press = frame_new (Payload.KeyEvent 7 0x28 Down 0 0) 2 2;
       ij1 = snd (injector_apply recording_backend g sync 5 ij0);
       (r, ij2) = injector_apply recording_backend g press 6 ij1;
       ij3 = snd (injector_release_all recording_backend ij2)
   in r = Inr () \<and> 0x28 \<in> recorded_down (ij_backend ij3)"
  by code_simp

end
