(* ===== verification/Rda_BTree.thy ===== *)
theory Rda_BTree
  imports Main
begin

text \<open>
  \<open>std::collections::BTreeMap\<close> as the sources use it: an ordered map, modelled by the association list
  that iterating it yields, keys strictly ascending. \<open>min_by_key\<close> of an iterator returns the first
  element with the least key. The locale \<open>ordered_map\<close> is the contract the client components rely on;
  their proofs use only its laws and the size facts that follow from them.
\<close>

type_synonym ('k, 'v) btree = "('k \<times> 'v) list"

fun bt_insert :: "'k::linorder \<Rightarrow> 'v \<Rightarrow> ('k, 'v) btree \<Rightarrow> ('k, 'v) btree" where
  "bt_insert k v [] = [(k, v)]"
| "bt_insert k v ((k', v') # m) =
     (if k < k' then (k, v) # (k', v') # m
      else if k = k' then (k, v) # m
      else (k', v') # bt_insert k v m)"

definition bt_remove :: "'k \<Rightarrow> ('k, 'v) btree \<Rightarrow> ('k, 'v) btree" where
  "bt_remove k m = filter (\<lambda>(k', _). k' \<noteq> k) m"

definition bt_inv :: "('k::linorder, 'v) btree \<Rightarrow> bool" where
  "bt_inv m \<longleftrightarrow> sorted_wrt (<) (map fst m)"

fun min_by_key :: "('a \<Rightarrow> 'b::linorder) \<Rightarrow> 'a list \<Rightarrow> 'a option" where
  "min_by_key f [] = None"
| "min_by_key f (x # xs) =
     (case min_by_key f xs of None \<Rightarrow> Some x | Some y \<Rightarrow> if f y < f x then Some y else Some x)"

subsection \<open>The contract\<close>

locale ordered_map =
  fixes lookup :: "'m \<Rightarrow> 'k \<Rightarrow> 'v option"
    and insert :: "'k \<Rightarrow> 'v \<Rightarrow> 'm \<Rightarrow> 'm"
    and remove :: "'k \<Rightarrow> 'm \<Rightarrow> 'm"
    and entries :: "'m \<Rightarrow> ('k \<times> 'v) list"
    and inv :: "'m \<Rightarrow> bool"
  assumes lookup_insert: "inv m \<Longrightarrow> lookup (insert k v m) = (lookup m)(k \<mapsto> v)"
    and lookup_remove: "inv m \<Longrightarrow> lookup (remove k m) = (lookup m)(k := None)"
    and inv_insert: "inv m \<Longrightarrow> inv (insert k v m)"
    and inv_remove: "inv m \<Longrightarrow> inv (remove k m)"
    and map_of_entries: "inv m \<Longrightarrow> map_of (entries m) = lookup m"
    and distinct_entries: "inv m \<Longrightarrow> distinct (map fst (entries m))"
begin

lemma length_entries: "inv m \<Longrightarrow> length (entries m) = card (dom (lookup m))"
  using distinct_card [OF distinct_entries] map_of_entries
  by (metis dom_map_of_conv_image_fst length_map list.set_map)

lemma finite_dom_lookup: "inv m \<Longrightarrow> finite (dom (lookup m))"
  using map_of_entries by (metis finite_dom_map_of)

lemma length_insert:
  "inv m \<Longrightarrow> length (entries (insert k v m)) =
     (if lookup m k = None then Suc (length (entries m)) else length (entries m))"
  by (auto simp: length_entries inv_insert lookup_insert finite_dom_lookup card_insert_if)

lemma length_remove:
  "inv m \<Longrightarrow> length (entries (remove k m)) =
     (if lookup m k = None then length (entries m) else length (entries m) - 1)"
  by (cases "k \<in> dom (lookup m)")
    (auto simp: length_entries inv_remove lookup_remove finite_dom_lookup card_Diff_singleton)

end

subsection \<open>Sorted association lists implement it\<close>

lemma set_bt_insert: "set (map fst (bt_insert k v m)) = insert k (set (map fst m))"
  by (induction k v m rule: bt_insert.induct) auto

lemma bt_inv_insert: "bt_inv m \<Longrightarrow> bt_inv (bt_insert k v m)"
proof (induction k v m rule: bt_insert.induct)
  case (2 k v k' v' m)
  then show ?case
    using set_bt_insert [of k v m] by (auto simp: bt_inv_def simp del: set_map)
qed (simp add: bt_inv_def)

lemma bt_inv_remove: "bt_inv m \<Longrightarrow> bt_inv (bt_remove k m)"
  by (induction m) (auto simp: bt_inv_def bt_remove_def)

lemma bt_inv_distinct: "bt_inv m \<Longrightarrow> distinct (map fst m)"
  unfolding bt_inv_def by (induction m) auto

lemma map_of_bt_insert: "bt_inv m \<Longrightarrow> map_of (bt_insert k v m) = (map_of m)(k \<mapsto> v)"
  by (induction k v m rule: bt_insert.induct) (auto simp: bt_inv_def fun_eq_iff)

lemma map_of_bt_remove: "map_of (bt_remove k m) = (map_of m)(k := None)"
  by (induction m) (auto simp: bt_remove_def fun_eq_iff)

interpretation bt: ordered_map map_of bt_insert bt_remove "\<lambda>m. m" bt_inv
  by unfold_locales
    (simp_all add: map_of_bt_insert map_of_bt_remove bt_inv_insert bt_inv_remove bt_inv_distinct)

lemma set_bt_insert_entries:
  "bt_inv m \<Longrightarrow> set (bt_insert k v m) = insert (k, v) {e \<in> set m. fst e \<noteq> k}"
proof (induction k v m rule: bt_insert.induct)
  case (2 k v k' v' m)
  then have "\<forall>e \<in> set m. k' < fst e" by (auto simp: bt_inv_def)
  with 2 show ?case by (auto simp: bt_inv_def)
qed simp

lemma bt_insert_same: "bt_inv m \<Longrightarrow> map_of m k = Some v \<Longrightarrow> bt_insert k v m = m"
  by (induction k v m rule: bt_insert.induct)
    (fastforce simp: bt_inv_def dest: map_of_SomeD split: if_splits)+

lemma bt_insert_twice: "bt_insert k v (bt_insert k u m) = bt_insert k v m"
  by (induction k u m rule: bt_insert.induct) auto

lemma bt_remove_insert: "bt_inv m \<Longrightarrow> bt_remove k (bt_insert k v m) = bt_remove k m"
  by (induction k v m rule: bt_insert.induct) (auto simp: bt_inv_def bt_remove_def)

lemma set_bt_remove: "set (bt_remove k m) = {e \<in> set m. fst e \<noteq> k}"
  by (auto simp: bt_remove_def)

lemma bt_inv_filter: "bt_inv m \<Longrightarrow> bt_inv (filter P m)"
  by (induction m) (auto simp: bt_inv_def)

lemma bt_remove_all: "fold bt_remove ks m = filter (\<lambda>(k, _). k \<notin> set ks) m"
  by (induction ks arbitrary: m) (auto simp: bt_remove_def intro!: filter_cong)

lemma map_of_bt_filter:
  "bt_inv m \<Longrightarrow> map_of (filter P m) k = (case map_of m k of None \<Rightarrow> None
     | Some v \<Rightarrow> if P (k, v) then Some v else None)"
  by (induction m) (auto simp: bt_inv_def map_of_eq_None_iff split: option.splits dest: map_of_SomeD)

subsection \<open>First minimum\<close>

lemma min_by_key_eq_None [simp]: "min_by_key f xs = None \<longleftrightarrow> xs = []"
  by (cases xs) (auto split: option.splits)

lemma min_by_key_in_set: "min_by_key f xs = Some x \<Longrightarrow> x \<in> set xs"
  by (induction xs arbitrary: x) (auto split: option.splits if_splits)

lemma min_by_key_least: "min_by_key f xs = Some x \<Longrightarrow> y \<in> set xs \<Longrightarrow> f x \<le> f y"
  by (induction xs arbitrary: x y) (fastforce split: option.splits if_splits)+

end
