(* ===== verification/Rda_Fragments.thy ===== *)
theory Rda_Fragments
  imports Rda_Codec Rda_BTree
begin

text \<open>
  Video frames on the wire: \<open>Payload::fragment_video\<close> of \<^verbatim>\<open>rda-proto/src/control.rs\<close> splits a
  compressed frame, and the \<open>Reassembler\<close> of \<^verbatim>\<open>rda-decode/src/reassembly.rs\<close> puts frames back together
  from fragments that arrive late, twice, out of order or never. \<open>reassembler_accept\<close> returns \<open>None\<close>
  where the code would panic (indexing a slot out of range); every other outcome is
  \<open>Some (frame option, reassembler)\<close>.

  \<open>reassembler_wf\<close> is the invariant of the reachable states: at most sixteen frames in flight, none of
  them complete, each with its filled slots counted, all keyed in order.
\<close>

subsection \<open>Fragmentation\<close>

function chunks :: "nat \<Rightarrow> 'a list \<Rightarrow> 'a list list" where
  "chunks n xs = (if xs = [] \<or> n = 0 then [] else take n xs # chunks n (drop n xs))"
  by pat_completeness auto
termination by (relation "measure (\<lambda>(n, xs). length xs)") auto

declare chunks.simps [simp del]

definition video_chunks :: "u8 list \<Rightarrow> u8 list list" where
  "video_chunks data = (if data = [] then [[]] else chunks MAX_VIDEO_FRAGMENT data)"

definition fragment_video :: "u32 \<Rightarrow> u8 \<Rightarrow> u8 \<Rightarrow> u64 \<Rightarrow> u8 list \<Rightarrow> Payload list" where
  "fragment_video frame_id kind temporal_layer pts_us data =
     (let cs = video_chunks data; fragment_count = word_of_nat (length cs)
      in map (\<lambda>(i, chunk). VideoFrame frame_id (word_of_nat i) fragment_count kind temporal_layer
                pts_us chunk) (enumerate 0 cs))"

subsection \<open>Reassembler\<close>

datatype FrameKind = Keyframe | Delta | LtrRecovery

record EncodedFrame =
  ef_data :: "u8 list"
  ef_kind :: FrameKind
  ef_pts_us :: u64
  ef_sequence :: u64
  ef_temporal_layer :: u8
  ef_ltr_index :: "u8 option"
  ef_qp :: "u8 option"

definition FRAGMENT_TIMEOUT_MS :: u64 where "FRAGMENT_TIMEOUT_MS = 400"
definition MAX_PARTIAL_FRAMES :: nat where "MAX_PARTIAL_FRAMES = 16"

record ReassemblyStats =
  rs_fragments :: u64
  rs_completed :: u64
  rs_incomplete :: u64
  rs_stale :: u64
  rs_inconsistent :: u64

record Partial =
  pt_kind :: u8
  pt_temporal_layer :: u8
  pt_pts_us :: u64
  pt_slots :: "u8 list option list"
  pt_filled :: nat
  pt_first_seen_ms :: u64

text \<open>\<open>Iterator::flatten\<close> over options.\<close>

primrec flatten_options :: "'a option list \<Rightarrow> 'a list" where
  "flatten_options [] = []"
| "flatten_options (s # ss) = (case s of None \<Rightarrow> [] | Some x \<Rightarrow> [x]) @ flatten_options ss"

definition partial_is_complete :: "Partial \<Rightarrow> bool" where
  "partial_is_complete p \<longleftrightarrow> pt_filled p = length (pt_slots p)"

definition frame_kind_of :: "u8 \<Rightarrow> FrameKind" where
  "frame_kind_of k = (if k = 1 then Keyframe else if k = 2 then LtrRecovery else Delta)"

definition assemble :: "Partial \<Rightarrow> EncodedFrame" where
  "assemble p =
     \<lparr>ef_data = concat (flatten_options (pt_slots p)), ef_kind = frame_kind_of (pt_kind p),
      ef_pts_us = pt_pts_us p, ef_sequence = 0, ef_temporal_layer = pt_temporal_layer p,
      ef_ltr_index = None, ef_qp = None\<rparr>"

record Reassembler =
  ra_partials :: "(u32, Partial) btree"
  ra_stats :: ReassemblyStats

definition reassembler_new :: Reassembler where
  "reassembler_new = \<lparr>ra_partials = [],
     ra_stats = \<lparr>rs_fragments = 0, rs_completed = 0, rs_incomplete = 0, rs_stale = 0, rs_inconsistent = 0\<rparr>\<rparr>"

definition in_flight :: "Reassembler \<Rightarrow> nat" where
  "in_flight r = length (ra_partials r)"

definition drop_partial :: "u32 \<Rightarrow> Reassembler \<Rightarrow> Reassembler" where
  "drop_partial frame_id r = r\<lparr>ra_partials := bt_remove frame_id (ra_partials r),
     ra_stats := (ra_stats r)\<lparr>rs_incomplete := rs_incomplete (ra_stats r) + 1\<rparr>\<rparr>"

definition reassembler_expire :: "u64 \<Rightarrow> Reassembler \<Rightarrow> Reassembler" where
  "reassembler_expire now_ms r =
     (let expired = map fst (filter
            (\<lambda>(_, p). saturating_sub now_ms (pt_first_seen_ms p) > FRAGMENT_TIMEOUT_MS) (ra_partials r))
      in fold drop_partial expired r)"

text \<open>The loop that enforces the cap.\<close>

function enforce_cap :: "Reassembler \<Rightarrow> Reassembler" where
  "enforce_cap r =
     (if length (ra_partials r) > MAX_PARTIAL_FRAMES then
        (case min_by_key (\<lambda>(_, p). pt_first_seen_ms p) (ra_partials r) of
           Some (oldest, _) \<Rightarrow> enforce_cap (drop_partial oldest r)
         | None \<Rightarrow> r)
      else r)"
  by pat_completeness auto
termination
proof (relation "measure (\<lambda>r. length (ra_partials r))", simp)
  fix r :: Reassembler and x oldest p
  assume "min_by_key (\<lambda>(_, p). pt_first_seen_ms p) (ra_partials r) = Some x" "(oldest, p) = x"
  then have "(oldest, p) \<in> set (ra_partials r)"
    by (auto dest: min_by_key_in_set)
  then show "(drop_partial oldest r, r) \<in> measure (\<lambda>r. length (ra_partials r))"
    by (auto simp: drop_partial_def bt_remove_def length_filter_less)
qed

declare enforce_cap.simps [simp del]

definition count_stat :: "(ReassemblyStats \<Rightarrow> ReassemblyStats) \<Rightarrow> Reassembler \<Rightarrow> Reassembler" where
  "count_stat f r = r\<lparr>ra_stats := f (ra_stats r)\<rparr>"

text \<open>The entry of a frame, made from its first fragment where there is none.\<close>

definition partial_entry ::
  "u32 \<Rightarrow> u16 \<Rightarrow> u8 \<Rightarrow> u8 \<Rightarrow> u64 \<Rightarrow> u64 \<Rightarrow> Reassembler \<Rightarrow> Partial" where
  "partial_entry frame_id count kind layer pts_us now_ms r =
     (case map_of (ra_partials r) frame_id of
        Some p \<Rightarrow> p
      | None \<Rightarrow> \<lparr>pt_kind = kind, pt_temporal_layer = layer, pt_pts_us = pts_us,
           pt_slots = replicate (unat count) None, pt_filled = 0, pt_first_seen_ms = now_ms\<rparr>)"

definition fill_slot :: "nat \<Rightarrow> u8 list \<Rightarrow> Partial \<Rightarrow> Partial" where
  "fill_slot i data p = p\<lparr>pt_slots := (pt_slots p)[i := Some data], pt_filled := pt_filled p + 1\<rparr>"

text \<open>Filing one fragment, after expiry and the single-fragment shortcut.\<close>

definition file_fragment ::
  "u32 \<Rightarrow> u16 \<Rightarrow> u16 \<Rightarrow> u8 \<Rightarrow> u8 \<Rightarrow> u64 \<Rightarrow> u8 list \<Rightarrow> u64 \<Rightarrow> Reassembler
   \<Rightarrow> (EncodedFrame option \<times> Reassembler) option" where
  "file_fragment frame_id index count kind layer pts_us data now_ms r =
     (let entry = partial_entry frame_id count kind layer pts_us now_ms r;
          r = r\<lparr>ra_partials := bt_insert frame_id entry (ra_partials r)\<rparr>
      in
      if length (pt_slots entry) \<noteq> unat count \<or> pt_pts_us entry \<noteq> pts_us
      then Some (None, count_stat (\<lambda>s. s\<lparr>rs_inconsistent := rs_inconsistent s + 1\<rparr>) r)
      else if unat index \<ge> length (pt_slots entry) then None
      else if pt_slots entry ! unat index \<noteq> None
      then Some (None, count_stat (\<lambda>s. s\<lparr>rs_stale := rs_stale s + 1\<rparr>) r)
      else
        (let entry = fill_slot (unat index) data entry;
             r = r\<lparr>ra_partials := bt_insert frame_id entry (ra_partials r)\<rparr>
         in
         if partial_is_complete entry
         then Some (Some (assemble entry),
                    count_stat (\<lambda>s. s\<lparr>rs_completed := rs_completed s + 1\<rparr>)
                      (r\<lparr>ra_partials := bt_remove frame_id (ra_partials r)\<rparr>))
         else Some (None, enforce_cap r)))"

definition reassembler_accept ::
  "Reassembler \<Rightarrow> Payload \<Rightarrow> u64 \<Rightarrow> (EncodedFrame option \<times> Reassembler) option" where
  "reassembler_accept r payload now_ms =
     (case payload of
        VideoFrame frame_id index count kind layer pts_us data \<Rightarrow>
          (let r = reassembler_expire now_ms r;
               r = count_stat (\<lambda>s. s\<lparr>rs_fragments := rs_fragments s + 1\<rparr>) r
           in
           if count = 1 \<and> map_of (ra_partials r) frame_id = None
           then Some (Some (assemble \<lparr>pt_kind = kind, pt_temporal_layer = layer, pt_pts_us = pts_us,
                        pt_slots = [Some data], pt_filled = 1, pt_first_seen_ms = now_ms\<rparr>),
                      count_stat (\<lambda>s. s\<lparr>rs_completed := rs_completed s + 1\<rparr>) r)
           else file_fragment frame_id index count kind layer pts_us data now_ms r)
      | _ \<Rightarrow> Some (None, r))"

text \<open>Feeding a sequence of timed payloads; \<open>None\<close> if one of them panics.\<close>

fun accept_all ::
  "Reassembler \<Rightarrow> (Payload \<times> u64) list \<Rightarrow> (EncodedFrame option list \<times> Reassembler) option" where
  "accept_all r [] = Some ([], r)"
| "accept_all r ((p, t) # ps) =
     (case reassembler_accept r p t of
        None \<Rightarrow> None
      | Some (out, r') \<Rightarrow> map_option (\<lambda>(outs, r''). (out # outs, r'')) (accept_all r' ps))"

subsection \<open>Chunks\<close>

lemma concat_chunks: "0 < n \<Longrightarrow> concat (chunks n xs) = xs"
  by (induction n xs rule: chunks.induct) (subst chunks.simps, auto)

lemma chunks_bound: "c \<in> set (chunks n xs) \<Longrightarrow> length c \<le> n \<and> c \<noteq> []"
  by (induction n xs rule: chunks.induct) (subst (asm) (2) chunks.simps, auto split: if_splits)

lemma length_chunks: "0 < n \<Longrightarrow> length (chunks n xs) = (length xs + n - 1) div n"
proof (induction n xs rule: chunks.induct)
  case (1 n xs)
  show ?case
  proof (cases "xs = []")
    case False
    then have "length (chunks n xs) = Suc ((length xs - n + n - 1) div n)"
      using 1 by (subst chunks.simps) simp
    also have "\<dots> = (length xs + n - 1) div n"
    proof (cases "n \<le> length xs")
      case True
      then have "length xs + n - 1 = (length xs - n + n - 1) + n" using 1(2) by simp
      then show ?thesis using 1(2) by (metis div_add_self2 Suc_eq_plus1 less_numeral_extra(3))
    next
      case F: False
      then have "(length xs + n - 1) div n = 1"
        using \<open>xs \<noteq> []\<close> 1(2) by (cases xs) (auto intro!: div_nat_eqI)
      with F 1(2) show ?thesis by simp
    qed
    finally show ?thesis .
  qed (use 1 in \<open>simp add: chunks.simps\<close>)
qed

lemma concat_video_chunks: "concat (video_chunks data) = data"
  by (simp add: video_chunks_def concat_chunks MAX_VIDEO_FRAGMENT_def)

lemma video_chunks_bound: "c \<in> set (video_chunks data) \<Longrightarrow> length c \<le> MAX_VIDEO_FRAGMENT"
  by (auto simp: video_chunks_def dest: chunks_bound split: if_splits)

lemma length_video_chunks:
  assumes "length data \<le> MAX_VIDEO_FRAME"
  shows "0 < length (video_chunks data)" "length (video_chunks data) \<le> 128"
proof -
  have "(length data + 16383) div 16384 \<le> 128"
    using assms by (simp add: MAX_VIDEO_FRAME_def)
  then show "length (video_chunks data) \<le> 128"
    by (auto simp: video_chunks_def length_chunks MAX_VIDEO_FRAGMENT_def)
  show "0 < length (video_chunks data)"
    by (auto simp: video_chunks_def MAX_VIDEO_FRAGMENT_def chunks.simps)
qed

subsection \<open>Invariant\<close>

definition filled_slots :: "'a option list \<Rightarrow> nat" where
  "filled_slots ss = length (filter (\<lambda>s. s \<noteq> None) ss)"

definition partial_wf :: "Partial \<Rightarrow> bool" where
  "partial_wf p \<longleftrightarrow> pt_filled p = filled_slots (pt_slots p) \<and> pt_filled p < length (pt_slots p)"

definition reassembler_wf :: "Reassembler \<Rightarrow> bool" where
  "reassembler_wf r \<longleftrightarrow> bt_inv (ra_partials r) \<and> length (ra_partials r) \<le> MAX_PARTIAL_FRAMES \<and>
     (\<forall>(_, p) \<in> set (ra_partials r). partial_wf p)"

lemma count_stat_partials [simp]: "ra_partials (count_stat f r) = ra_partials r"
  by (simp add: count_stat_def)

lemma drop_partial_partials [simp]: "ra_partials (drop_partial i r) = bt_remove i (ra_partials r)"
  by (simp add: drop_partial_def)

lemma fold_drop_partials: "ra_partials (fold drop_partial ks r) = fold bt_remove ks (ra_partials r)"
  by (induction ks arbitrary: r) auto

text \<open>Expiry keeps exactly the frames inside the horizon.\<close>

lemma expire_partials:
  assumes "bt_inv (ra_partials r)"
  shows "ra_partials (reassembler_expire now r) =
    filter (\<lambda>(_, p). saturating_sub now (pt_first_seen_ms p) \<le> FRAGMENT_TIMEOUT_MS) (ra_partials r)"
proof -
  let ?late = "\<lambda>(_ :: u32, p). saturating_sub now (pt_first_seen_ms p) > FRAGMENT_TIMEOUT_MS"
  define ks where "ks = map fst (filter ?late (ra_partials r))"
  have late: "k \<in> set ks \<longleftrightarrow> ?late (k, p)" if "(k, p) \<in> set (ra_partials r)" for k p
    using that bt_inv_distinct [OF assms] by (force simp: ks_def dest: eq_key_imp_eq_value)
  show ?thesis
    unfolding reassembler_expire_def Let_def fold_drop_partials bt_remove_all ks_def [symmetric]
    using late by (intro filter_cong refl) (auto simp: not_less)
qed

lemma filled_slots_update:
  "i < length ss \<Longrightarrow> ss ! i = None \<Longrightarrow> filled_slots (ss[i := Some d]) = Suc (filled_slots ss)"
  by (induction ss arbitrary: i) (auto simp: filled_slots_def nth_Cons split: nat.splits)

lemma filled_slots_le: "filled_slots ss \<le> length ss"
  by (simp add: filled_slots_def)

lemma filled_slots_replicate [simp]: "filled_slots (replicate n None) = 0"
  by (simp add: filled_slots_def)

lemma filled_slots_full: "filled_slots ss = length ss \<Longrightarrow> s \<in> set ss \<Longrightarrow> s \<noteq> None"
  unfolding filled_slots_def by (metis (mono_tags, lifting) filter_id_conv length_filter_less nat_neq_iff)

lemma enforce_cap_wf:
  assumes "bt_inv (ra_partials r)" "\<forall>(_, p) \<in> set (ra_partials r). partial_wf p"
  shows "reassembler_wf (enforce_cap r)"
  using assms
proof (induction r rule: enforce_cap.induct)
  case (1 r)
  show ?case
  proof (cases "length (ra_partials r) > MAX_PARTIAL_FRAMES")
    case True
    then obtain k p where kp: "min_by_key (\<lambda>(_, p). pt_first_seen_ms p) (ra_partials r) = Some (k, p)"
      by (metis list.size(3) min_by_key_eq_None not_less_zero option.exhaust surj_pair)
    have "reassembler_wf (enforce_cap (drop_partial k r))"
      using "1.IH" [OF True kp refl] "1.prems"
      by (auto simp: bt_inv_remove set_bt_remove)
    with True kp show ?thesis by (subst enforce_cap.simps) simp
  next
    case False
    with "1.prems" show ?thesis by (subst enforce_cap.simps) (simp add: reassembler_wf_def)
  qed
qed

lemma enforce_cap_id:
  "length (ra_partials r) \<le> MAX_PARTIAL_FRAMES \<Longrightarrow> enforce_cap r = r"
  by (subst enforce_cap.simps) simp

lemma expire_wf: "reassembler_wf r \<Longrightarrow> reassembler_wf (reassembler_expire now r)"
  unfolding reassembler_wf_def
  by (auto simp: expire_partials bt_inv_filter intro: order_trans [OF length_filter_le])

lemma count_stat_wf [simp]: "reassembler_wf (count_stat f r) = reassembler_wf r"
  by (simp add: reassembler_wf_def)

lemma partial_entry_wf:
  assumes "reassembler_wf r" "count \<noteq> 0"
  shows "partial_wf (partial_entry i count k l p now r)"
  using assms
  by (auto simp: partial_entry_def partial_wf_def reassembler_wf_def unat_gt_0
      split: option.splits dest: map_of_SomeD)

text \<open>Filing a fragment: the reassembler keeps its invariant and does not panic on an index the decoder
  lets through. The four outcomes are told apart by what they do to the frame's entry.\<close>

lemma reinsert_entry:
  assumes "reassembler_wf r" "map_of (ra_partials r) i = Some e"
  shows "r\<lparr>ra_partials := bt_insert i e (ra_partials r)\<rparr> = r"
  using assms by (simp add: reassembler_wf_def bt_insert_same)

lemma file_fragment_cases:
  fixes i x n k l p d now r
  defines "e \<equiv> partial_entry i n k l p now r"
  assumes wf: "reassembler_wf r" and idx: "x < n"
  shows "(map_of (ra_partials r) i = Some e \<and> (length (pt_slots e) \<noteq> unat n \<or> pt_pts_us e \<noteq> p) \<and>
      (\<exists>f. file_fragment i x n k l p d now r = Some (None, count_stat f r)))
    \<or> (length (pt_slots e) = unat n \<and> pt_pts_us e = p \<and> map_of (ra_partials r) i = Some e \<and>
      pt_slots e ! unat x \<noteq> None \<and>
      (\<exists>f. file_fragment i x n k l p d now r = Some (None, count_stat f r)))
    \<or> (length (pt_slots e) = unat n \<and> pt_pts_us e = p \<and> pt_slots e ! unat x = None \<and>
      partial_is_complete (fill_slot (unat x) d e) \<and>
      (\<exists>f. file_fragment i x n k l p d now r = Some (Some (assemble (fill_slot (unat x) d e)),
         count_stat f (r\<lparr>ra_partials := bt_remove i (ra_partials r)\<rparr>))))
    \<or> (length (pt_slots e) = unat n \<and> pt_pts_us e = p \<and> pt_slots e ! unat x = None \<and>
      \<not> partial_is_complete (fill_slot (unat x) d e) \<and>
      file_fragment i x n k l p d now r = Some (None,
         enforce_cap (r\<lparr>ra_partials := bt_insert i (fill_slot (unat x) d e) (ra_partials r)\<rparr>)))"
proof (cases "map_of (ra_partials r) i")
  case None
  then have e: "pt_slots e = replicate (unat n) None" "pt_pts_us e = p"
    by (simp_all add: e_def partial_entry_def)
  have "bt_inv (ra_partials r)" using wf by (simp add: reassembler_wf_def)
  with e idx show ?thesis
    by (auto simp: file_fragment_def Let_def e_def [symmetric] word_less_nat_alt bt_insert_twice
        bt_remove_insert not_le)
next
  case (Some q)
  then have q: "map_of (ra_partials r) i = Some e" by (simp add: e_def partial_entry_def)
  have "bt_inv (ra_partials r)" using wf by (simp add: reassembler_wf_def)
  with q idx show ?thesis
    by (auto simp: file_fragment_def Let_def e_def [symmetric] word_less_nat_alt bt_insert_twice
        bt_remove_insert not_le reinsert_entry [OF wf q] bt_insert_same)
qed

lemma file_fragment_wf:
  assumes wf: "reassembler_wf r" and idx: "x < n"
  shows "\<exists>out r'. file_fragment i x n k l p d now r = Some (out, r') \<and> reassembler_wf r'"
proof -
  let ?e = "partial_entry i n k l p now r"
  have "n \<noteq> 0" using idx by auto
  then have e: "partial_wf ?e" using partial_entry_wf [OF wf] by blast
  have remove: "reassembler_wf (r\<lparr>ra_partials := bt_remove i (ra_partials r)\<rparr>)"
    using wf by (auto simp: reassembler_wf_def bt_inv_remove set_bt_remove bt.length_remove)
  have insert: "reassembler_wf (enforce_cap (r\<lparr>ra_partials := bt_insert i q (ra_partials r)\<rparr>))"
    if "partial_wf q" for q
    using that wf by (intro enforce_cap_wf) (auto simp: reassembler_wf_def bt_inv_insert set_bt_insert_entries)
  have "partial_wf (fill_slot (unat x) d ?e)"
    if "length (pt_slots ?e) = unat n" "pt_slots ?e ! unat x = None"
      "\<not> partial_is_complete (fill_slot (unat x) d ?e)"
    using that e idx filled_slots_le [of "(pt_slots ?e)[unat x := Some d]"]
    by (auto simp: partial_wf_def fill_slot_def partial_is_complete_def filled_slots_update word_less_nat_alt)
  with file_fragment_cases [OF wf idx, of i k l p now d] insert remove wf show ?thesis
    by auto
qed

lemma reassembler_accept_wf:
  assumes "reassembler_wf r" "payload_wf p"
  shows "\<exists>out r'. reassembler_accept r p now = Some (out, r') \<and> reassembler_wf r'"
proof (cases "\<exists>i x n k l t d. p = VideoFrame i x n k l t d")
  case True
  then obtain i x n k l t d where p: "p = VideoFrame i x n k l t d" by blast
  with assms(2) have "x < n" by simp
  with expire_wf [OF assms(1), of now] show ?thesis
    unfolding p reassembler_accept_def Let_def by (auto intro!: file_fragment_wf)
qed (use assms in \<open>auto simp: reassembler_accept_def split: Payload.split\<close>)

inductive reassembler_step :: "Reassembler \<Rightarrow> Reassembler \<Rightarrow> bool" where
  accept: "payload_wf p \<Longrightarrow> reassembler_accept r p now = Some (out, r') \<Longrightarrow> reassembler_step r r'"

interpretation reassembler: inductive_invariant "\<lambda>r. r = reassembler_new" reassembler_step reassembler_wf
proof
  show "reassembler_wf s" if "s = reassembler_new" for s
    using that by (simp add: reassembler_wf_def reassembler_new_def bt_inv_def)
  show "reassembler_wf r'" if "reassembler_wf r" "reassembler_step r r'" for r r'
    using that(2,1) by cases (metis reassembler_accept_wf option.inject prod.inject)
qed

subsection \<open>No splicing\<close>

text \<open>Every filled slot holds a fragment that was received for that frame, at that place, with that
  fragment count and presentation time.\<close>

definition received :: "Payload set \<Rightarrow> u32 \<Rightarrow> nat \<Rightarrow> nat \<Rightarrow> u64 \<Rightarrow> u8 list \<Rightarrow> bool" where
  "received H frame_id i n pts d \<longleftrightarrow>
     (\<exists>x c k l. VideoFrame frame_id x c k l pts d \<in> H \<and> unat x = i \<and> unat c = n)"

definition slots_received :: "Payload set \<Rightarrow> u32 \<Rightarrow> Partial \<Rightarrow> bool" where
  "slots_received H frame_id p \<longleftrightarrow>
     (\<forall>i < length (pt_slots p). \<forall>d. pt_slots p ! i = Some d \<longrightarrow>
        received H frame_id i (length (pt_slots p)) (pt_pts_us p) d)"

definition partials_received :: "Payload set \<Rightarrow> Reassembler \<Rightarrow> bool" where
  "partials_received H r \<longleftrightarrow> (\<forall>(i, p) \<in> set (ra_partials r). slots_received H i p)"

definition genuine :: "Payload set \<Rightarrow> EncodedFrame \<Rightarrow> bool" where
  "genuine H f \<longleftrightarrow>
     (\<exists>frame_id ds. ds \<noteq> [] \<and> ef_data f = concat ds \<and>
        (\<forall>i < length ds. received H frame_id i (length ds) (ef_pts_us f) (ds ! i)))"

lemma slots_received_mono: "slots_received H i p \<Longrightarrow> H \<subseteq> H' \<Longrightarrow> slots_received H' i p"
  unfolding slots_received_def received_def by blast

lemma partials_received_mono: "partials_received H r \<Longrightarrow> H \<subseteq> H' \<Longrightarrow> partials_received H' r"
  unfolding partials_received_def using slots_received_mono by blast

lemma received_mono: "received H i x n p d \<Longrightarrow> H \<subseteq> H' \<Longrightarrow> received H' i x n p d"
  unfolding received_def by blast

lemma genuine_mono: "genuine H f \<Longrightarrow> H \<subseteq> H' \<Longrightarrow> genuine H' f"
  unfolding genuine_def using received_mono by metis

lemma flatten_options_full:
  "\<forall>s \<in> set ss. s \<noteq> None \<Longrightarrow> flatten_options ss = map the ss"
  by (induction ss) auto

lemma genuine_assemble:
  assumes "slots_received H i p" "\<forall>s \<in> set (pt_slots p). s \<noteq> None" "pt_slots p \<noteq> []"
  shows "genuine H (assemble p)"
  unfolding genuine_def
proof (intro exI conjI allI impI)
  show "map the (pt_slots p) \<noteq> []" using assms(3) by simp
  show "ef_data (assemble p) = concat (map the (pt_slots p))"
    using assms(2) by (simp add: assemble_def flatten_options_full)
  fix j assume j: "j < length (map the (pt_slots p))"
  then have "pt_slots p ! j = Some (the (pt_slots p ! j))" using assms(2) by force
  with j assms(1) show "received H i j (length (map the (pt_slots p))) (ef_pts_us (assemble p))
      (map the (pt_slots p) ! j)"
    by (simp add: slots_received_def assemble_def)
qed

lemma enforce_cap_subset: "set (ra_partials (enforce_cap r)) \<subseteq> set (ra_partials r)"
proof (induction r rule: enforce_cap.induct)
  case (1 r)
  show ?case
  proof (cases "min_by_key (\<lambda>(_, p). pt_first_seen_ms p) (ra_partials r)")
    case (Some e)
    obtain k q where e: "e = (k, q)" by fastforce
    show ?thesis
    proof (cases "length (ra_partials r) > MAX_PARTIAL_FRAMES")
      case True
      with "1.IH" [OF True Some e [symmetric]] Some e show ?thesis
        by (subst enforce_cap.simps) (auto simp: set_bt_remove)
    qed (simp add: enforce_cap.simps [of r])
  qed (simp add: enforce_cap.simps [of r])
qed

lemma partials_received_subset:
  "partials_received H r \<Longrightarrow> set (ra_partials r') \<subseteq> set (ra_partials r) \<Longrightarrow> partials_received H r'"
  unfolding partials_received_def by blast

lemma slots_received_fill:
  assumes "slots_received H i e" "received H i x (length (pt_slots e)) (pt_pts_us e) d"
  shows "slots_received H i (fill_slot x d e)"
  unfolding slots_received_def
proof (intro allI impI)
  fix j c assume "j < length (pt_slots (fill_slot x d e))" "pt_slots (fill_slot x d e) ! j = Some c"
  with assms show "received H i j (length (pt_slots (fill_slot x d e))) (pt_pts_us (fill_slot x d e)) c"
    by (cases "j = x") (auto simp: fill_slot_def slots_received_def)
qed

lemma slots_received_entry:
  assumes "partials_received H r"
  shows "slots_received H i (partial_entry i n k l p now r)"
  using assms
  by (auto simp: partial_entry_def partials_received_def slots_received_def
      split: option.splits dest!: map_of_SomeD)

lemma file_fragment_received:
  assumes wf: "reassembler_wf r" and idx: "x < n" and rcv: "partials_received H r"
    and mem: "VideoFrame i x n k l p d \<in> H"
    and res: "file_fragment i x n k l p d now r = Some (out, r')"
  shows "partials_received H r' \<and> (\<forall>f. out = Some f \<longrightarrow> genuine H f)"
proof -
  let ?e = "partial_entry i n k l p now r"
  let ?f = "fill_slot (unat x) d ?e"
  have fill: "slots_received H i ?f" if "length (pt_slots ?e) = unat n" "pt_pts_us ?e = p"
    using that slots_received_entry [OF rcv] mem by (intro slots_received_fill) (auto simp: received_def)
  have full: "genuine H (assemble ?f)"
    if e: "length (pt_slots ?e) = unat n" "pt_pts_us ?e = p" "pt_slots ?e ! unat x = None"
      and c: "partial_is_complete ?f"
  proof (rule genuine_assemble [OF fill [OF e(1,2)]])
    have "n \<noteq> 0" using idx by auto
    then have "partial_wf ?e" by (rule partial_entry_wf [OF wf])
    with e idx have "pt_filled ?f = filled_slots (pt_slots ?f)"
      by (simp add: partial_wf_def fill_slot_def filled_slots_update word_less_nat_alt)
    with c show "\<forall>s \<in> set (pt_slots ?f). s \<noteq> None"
      using filled_slots_full by (auto simp: partial_is_complete_def)
    show "pt_slots ?f \<noteq> []"
      using e(1) idx by (auto simp: fill_slot_def word_less_nat_alt)
  qed
  have insert: "partials_received H (enforce_cap (r\<lparr>ra_partials := bt_insert i ?f (ra_partials r)\<rparr>))"
    if "slots_received H i ?f"
    using that rcv wf
    by (intro partials_received_subset [OF _ enforce_cap_subset])
      (auto simp: partials_received_def reassembler_wf_def set_bt_insert_entries)
  have keep: "partials_received H (count_stat g r)"
    "partials_received H (count_stat g (r\<lparr>ra_partials := bt_remove i (ra_partials r)\<rparr>))" for g
    using rcv by (auto simp: partials_received_def set_bt_remove)
  from file_fragment_cases [OF wf idx, of i k l p now d] res show ?thesis
    using fill full insert keep by auto
qed

lemma reassembler_accept_received:
  assumes wf: "reassembler_wf r" "payload_wf p" and rcv: "partials_received H r" and mem: "p \<in> H"
    and res: "reassembler_accept r p now = Some (out, r')"
  shows "partials_received H r' \<and> (\<forall>f. out = Some f \<longrightarrow> genuine H f)"
proof (cases "\<exists>i x n k l t d. p = VideoFrame i x n k l t d")
  case True
  then obtain i x n k l t d where p: "p = VideoFrame i x n k l t d" by blast
  let ?r = "reassembler_expire now r"
  have x: "x < n" using wf(2) p by simp
  have rcv': "partials_received H ?r"
    using rcv wf(1) by (rule_tac partials_received_subset) (auto simp: expire_partials reassembler_wf_def)
  have single: "genuine H (assemble \<lparr>pt_kind = k, pt_temporal_layer = l, pt_pts_us = t,
      pt_slots = [Some d], pt_filled = 1, pt_first_seen_ms = now\<rparr>)" if n: "n = 1"
  proof -
    have "received H i 0 1 t d"
      unfolding received_def using x mem p n
      by (intro exI [of _ x] exI [of _ "1 :: u16"] exI [of _ k] exI [of _ l]) (simp add: word_less_nat_alt)
    then show ?thesis
      by (intro genuine_assemble [where i = i]) (auto simp: slots_received_def)
  qed
  have filed: "partials_received H r' \<and> (\<forall>f. out = Some f \<longrightarrow> genuine H f)"
    if "file_fragment i x n k l t d now (count_stat g ?r) = Some (out, r')" for g
    using file_fragment_received [OF _ x _ _ that] expire_wf [OF wf(1)] rcv' mem p
    by (simp add: partials_received_def)
  from res p show ?thesis
    using single filed rcv' by (auto simp: reassembler_accept_def Let_def partials_received_def split: if_splits)
qed (use assms in \<open>auto simp: reassembler_accept_def split: Payload.splits\<close>)

lemma accept_all_received:
  assumes "reassembler_wf r" "\<forall>(p, _) \<in> set ps. payload_wf p" "partials_received H r"
    and "fst ` set ps \<subseteq> H" "accept_all r ps = Some (outs, r')"
  shows "\<forall>f. Some f \<in> set outs \<longrightarrow> genuine H f"
  using assms
proof (induction ps arbitrary: r outs)
  case (Cons e ps)
  obtain p t where e: "e = (p, t)" by fastforce
  from Cons.prems(5) e obtain out r1 outs1 where
    1: "reassembler_accept r p t = Some (out, r1)" "accept_all r1 ps = Some (outs1, r')" "outs = out # outs1"
    by (auto split: option.splits)
  have p: "payload_wf p" "p \<in> H" using Cons.prems e by auto
  have "reassembler_wf r1"
    using reassembler_accept_wf [OF Cons.prems(1) p(1), of t] 1(1) by auto
  moreover note rcv = reassembler_accept_received [OF Cons.prems(1) p(1) Cons.prems(3) p(2) 1(1)]
  ultimately have "\<forall>f. Some f \<in> set outs1 \<longrightarrow> genuine H f"
    using Cons.IH [of r1 outs1] Cons.prems 1(2) by auto
  with rcv 1(3) show ?case by auto
qed simp

subsection \<open>Any order, with duplicates\<close>

text \<open>The entry of a frame of which the fragments \<open>got\<close> have arrived.\<close>

definition frame_partial :: "u8 \<Rightarrow> u8 \<Rightarrow> u64 \<Rightarrow> u8 list list \<Rightarrow> u64 \<Rightarrow> nat set \<Rightarrow> Partial" where
  "frame_partial kind layer pts cs t0 got =
     \<lparr>pt_kind = kind, pt_temporal_layer = layer, pt_pts_us = pts,
      pt_slots = map (\<lambda>i. if i \<in> got then Some (cs ! i) else None) [0..<length cs],
      pt_filled = card got, pt_first_seen_ms = t0\<rparr>"

lemma frame_partial_fill:
  assumes "i < length cs" "i \<notin> got" "finite got"
  shows "fill_slot i (cs ! i) (frame_partial k l p cs t0 got) = frame_partial k l p cs t0 (insert i got)"
  using assms by (auto simp: frame_partial_def fill_slot_def nth_list_update intro!: nth_equalityI)

lemma frame_partial_complete:
  "partial_is_complete (frame_partial k l p cs t0 got) \<longleftrightarrow> card got = length cs"
  by (simp add: partial_is_complete_def frame_partial_def)

lemma assemble_frame_partial:
  "ef_data (assemble (frame_partial k l p cs t0 {0..<length cs})) = concat cs"
proof -
  have "map (\<lambda>i. if i \<in> {0..<length cs} then Some (cs ! i) else None) [0..<length cs] = map Some cs"
    by (rule nth_equalityI) auto
  moreover have "flatten_options (map Some cs) = cs"
    using flatten_options_full [of "map Some cs"] by (simp add: comp_def)
  ultimately show ?thesis by (simp add: assemble_def frame_partial_def)
qed

definition nth_fragment :: "u32 \<Rightarrow> u8 \<Rightarrow> u8 \<Rightarrow> u64 \<Rightarrow> u8 list list \<Rightarrow> nat \<Rightarrow> Payload" where
  "nth_fragment i k l p cs j =
     VideoFrame i (word_of_nat j) (word_of_nat (length cs)) k l p (cs ! j)"

lemma nth_fragment_video:
  "j < length (video_chunks data) \<Longrightarrow>
   fragment_video i k l p data ! j = nth_fragment i k l p (video_chunks data) j"
  by (simp add: fragment_video_def nth_fragment_def Let_def nth_enumerate_eq)

lemma length_fragment_video: "length (fragment_video i k l p data) = length (video_chunks data)"
  by (simp add: fragment_video_def Let_def)

lemma expire_keeps:
  assumes "bt_inv (ra_partials r)" "map_of (ra_partials r) i = Some q"
    "saturating_sub now (pt_first_seen_ms q) \<le> FRAGMENT_TIMEOUT_MS"
  shows "map_of (ra_partials (reassembler_expire now r)) i = Some q"
  using assms by (simp add: expire_partials map_of_bt_filter)

lemma expire_absent:
  assumes "bt_inv (ra_partials r)" "map_of (ra_partials r) i = None"
  shows "map_of (ra_partials (reassembler_expire now r)) i = None"
  using assms by (simp add: expire_partials map_of_bt_filter)

lemma expire_in_flight: "reassembler_wf r \<Longrightarrow> in_flight (reassembler_expire now r) \<le> in_flight r"
  by (simp add: reassembler_wf_def in_flight_def expire_partials)

lemma frame_partial_empty:
  "length cs = unat n \<Longrightarrow> map_of (ra_partials r) i = None \<Longrightarrow>
   partial_entry i n k l p now r = frame_partial k l p cs now {}"
  by (auto simp: partial_entry_def frame_partial_def intro!: nth_equalityI)

text \<open>One more fragment of a frame, filed into a reassembler that either has no entry for the frame
  and room for one, or has the entry of the fragments \<open>got\<close>.\<close>

lemma file_nth_fragment:
  fixes r cs j got k l p t0
  defines "e \<equiv> frame_partial k l p cs t0 got"
  assumes wf: "reassembler_wf r" and n: "length cs = unat n" and x: "unat x = j" "j < length cs"
    and entry: "partial_entry i n k l p now r = e"
    and room: "map_of (ra_partials r) i = Some e \<or> in_flight r < MAX_PARTIAL_FRAMES"
    and got: "got \<subseteq> {0..<length cs}" "got = {} \<or> map_of (ra_partials r) i = Some e"
  shows "\<exists>r'. file_fragment i x n k l p (cs ! j) now r =
      Some (if j \<notin> got \<and> insert j got = {0..<length cs}
            then Some (assemble (frame_partial k l p cs t0 (insert j got))) else None, r') \<and>
    reassembler_wf r' \<and>
    (insert j got \<noteq> {0..<length cs} \<longrightarrow>
       map_of (ra_partials r') i = Some (frame_partial k l p cs t0 (insert j got)))"
proof -
  have inv: "bt_inv (ra_partials r)" using wf by (simp add: reassembler_wf_def)
  have e: "length (pt_slots e) = unat n" "pt_pts_us e = p"
    "pt_slots e ! unat x = (if j \<in> got then Some (cs ! j) else None)"
    using n x by (simp_all add: e_def frame_partial_def)
  have xn: "x < n" using x n by (simp add: word_less_nat_alt)
  obtain out r' where res: "file_fragment i x n k l p (cs ! j) now r = Some (out, r')" "reassembler_wf r'"
    using file_fragment_wf [OF wf xn] by blast
  have "insert j got \<subseteq> {0..<length cs}" using x(2) got(1) by simp
  then have full: "card (insert j got) = length cs \<longleftrightarrow> insert j got = {0..<length cs}"
    using card_subset_eq [of "{0..<length cs}" "insert j got"] by fastforce
  show ?thesis
  proof (cases "j \<in> got")
    case True
    with got(2) have m: "map_of (ra_partials r) i = Some e" by auto
    from file_fragment_cases [OF wf xn, of i k l p now "cs ! j"] obtain f where
      "file_fragment i x n k l p (cs ! j) now r = Some (None, count_stat f r)"
      unfolding entry by (simp add: e True) metis
    with wf m True show ?thesis by (simp add: e_def insert_absorb)
  next
    case False
    have fin: "finite got" using got(1) finite_subset by blast
    have fill: "fill_slot (unat x) (cs ! j) e = frame_partial k l p cs t0 (insert j got)"
      using frame_partial_fill [OF x(2) False fin] x(1) by (simp add: e_def)
    have "length (bt_insert i q (ra_partials r)) \<le> MAX_PARTIAL_FRAMES" for q
      using room wf by (auto simp: bt.length_insert inv reassembler_wf_def in_flight_def)
    then have cap: "enforce_cap (r\<lparr>ra_partials := bt_insert i q (ra_partials r)\<rparr>) =
        r\<lparr>ra_partials := bt_insert i q (ra_partials r)\<rparr>" for q
      by (simp add: enforce_cap_id)
    note outcome = file_fragment_cases [OF wf xn, of i k l p now "cs ! j",
        unfolded entry fill cap frame_partial_complete full]
    show ?thesis
    proof (cases "insert j got = {0..<length cs}")
      case True
      with outcome have "\<exists>r'. file_fragment i x n k l p (cs ! j) now r =
          Some (Some (assemble (frame_partial k l p cs t0 (insert j got))), r')"
        by (simp add: e False) metis
      with True False res show ?thesis by simp
    next
      case F: False
      with outcome have "file_fragment i x n k l p (cs ! j) now r = Some (None, r\<lparr>ra_partials :=
          bt_insert i (frame_partial k l p cs t0 (insert j got)) (ra_partials r)\<rparr>)"
        by (simp add: e False)
      moreover from this res have "r' = r\<lparr>ra_partials :=
          bt_insert i (frame_partial k l p cs t0 (insert j got)) (ra_partials r)\<rparr>" by simp
      ultimately show ?thesis
        using F False res(2) by (simp add: map_of_bt_insert inv)
    qed
  qed
qed

lemma accept_nth_fragment:
  assumes wf: "reassembler_wf r" and cs: "2 \<le> length cs" "length cs \<le> 128" and j: "j < length cs"
    and st: "(got = {} \<and> map_of (ra_partials r) i = None \<and> in_flight r < MAX_PARTIAL_FRAMES \<and> t = t0) \<or>
      map_of (ra_partials r) i = Some (frame_partial k l p cs t0 got)"
    and got: "got \<subseteq> {0..<length cs}" and time: "saturating_sub t t0 \<le> FRAGMENT_TIMEOUT_MS"
  shows "\<exists>r'. reassembler_accept r (nth_fragment i k l p cs j) t =
      Some (if j \<notin> got \<and> insert j got = {0..<length cs}
            then Some (assemble (frame_partial k l p cs t0 (insert j got))) else None, r') \<and>
    reassembler_wf r' \<and>
    (insert j got \<noteq> {0..<length cs} \<longrightarrow>
       map_of (ra_partials r') i = Some (frame_partial k l p cs t0 (insert j got)))"
proof -
  define n x :: u16 where "n = word_of_nat (length cs)" and "x = word_of_nat j"
  have nx: "length cs = unat n" "unat x = j"
    using cs j by (simp_all add: n_def x_def unat_of_nat)
  then have n1: "n \<noteq> 1" using cs(1) by auto
  define r1 where "r1 = count_stat (\<lambda>s. s\<lparr>rs_fragments := rs_fragments s + 1\<rparr>) (reassembler_expire t r)"
  have inv: "bt_inv (ra_partials r)" using wf by (simp add: reassembler_wf_def)
  have wf1: "reassembler_wf r1" using expire_wf [OF wf] by (simp add: r1_def)
  have st1: "(got = {} \<and> map_of (ra_partials r1) i = None \<and> in_flight r1 < MAX_PARTIAL_FRAMES \<and> t = t0) \<or>
      map_of (ra_partials r1) i = Some (frame_partial k l p cs t0 got)"
    using st expire_absent [OF inv, of i t] expire_in_flight [OF wf, of t] time
      expire_keeps [OF inv, of i "frame_partial k l p cs t0 got" t]
    by (auto simp: r1_def in_flight_def frame_partial_def)
  have entry: "partial_entry i n k l p t r1 = frame_partial k l p cs t0 got"
    using st1 frame_partial_empty [OF nx(1), of r1 i k l p t] by (auto simp: partial_entry_def)
  have acc: "reassembler_accept r (nth_fragment i k l p cs j) t =
      file_fragment i x n k l p (cs ! j) t r1"
    using n1 by (simp add: reassembler_accept_def nth_fragment_def r1_def Let_def flip: n_def x_def)
  show ?thesis
    unfolding acc by (rule file_nth_fragment [OF wf1 nx j entry _ got]) (use st1 in blast)+
qed

lemma accept_all_append:
  "accept_all r (ps @ qs) = Option.bind (accept_all r ps) (\<lambda>(outs, r1).
     map_option (\<lambda>(outs', r2). (outs @ outs', r2)) (accept_all r1 qs))"
  by (induction ps arbitrary: r)
    (auto split: option.splits simp: Option.bind_def map_option_case case_prod_beta split: prod.splits)

lemma accept_all_incomplete:
  assumes "reassembler_wf r" "2 \<le> length cs" "length cs \<le> 128"
    and "map_of (ra_partials r) i = Some (frame_partial k l p cs t0 got)"
    and "got \<union> fst ` set js \<subset> {0..<length cs}"
    and "\<forall>(_, t) \<in> set js. saturating_sub t t0 \<le> FRAGMENT_TIMEOUT_MS"
  shows "\<exists>r'. accept_all r (map (\<lambda>(j, t). (nth_fragment i k l p cs j, t)) js) =
      Some (replicate (length js) None, r') \<and> reassembler_wf r' \<and>
      map_of (ra_partials r') i = Some (frame_partial k l p cs t0 (got \<union> fst ` set js))"
  using assms
proof (induction js arbitrary: r got)
  case (Cons e js)
  obtain j t where e: "e = (j, t)" by fastforce
  have j: "j < length cs" "got \<subseteq> {0..<length cs}" "insert j got \<noteq> {0..<length cs}"
    "saturating_sub t t0 \<le> FRAGMENT_TIMEOUT_MS"
    using Cons.prems(5,6) e by auto
  obtain r1 where r1: "reassembler_accept r (nth_fragment i k l p cs j) t = Some (None, r1)"
    "reassembler_wf r1" "map_of (ra_partials r1) i = Some (frame_partial k l p cs t0 (insert j got))"
    using accept_nth_fragment [OF Cons.prems(1,2,3) j(1) disjI2 [OF Cons.prems(4)] j(2,4)] j(3) by auto
  have "insert j got \<union> fst ` set js \<subset> {0..<length cs}"
    using Cons.prems(5) e by auto
  from Cons.IH [OF r1(2) Cons.prems(2,3) r1(3) this] Cons.prems(6) r1(1) e show ?case
    by auto
qed auto

definition frame_of :: "u8 \<Rightarrow> u8 \<Rightarrow> u64 \<Rightarrow> u8 list \<Rightarrow> EncodedFrame" where
  "frame_of kind layer pts data =
     \<lparr>ef_data = data, ef_kind = frame_kind_of kind, ef_pts_us = pts, ef_sequence = 0,
      ef_temporal_layer = layer, ef_ltr_index = None, ef_qp = None\<rparr>"

lemma assemble_complete:
  "assemble (frame_partial k l p (video_chunks d) t0 {0..<length (video_chunks d)}) = frame_of k l p d"
  using assemble_frame_partial [of k l p "video_chunks d" t0]
  by (simp add: frame_of_def concat_video_chunks assemble_def frame_partial_def)

lemma accept_single:
  assumes "reassembler_wf r" "map_of (ra_partials r) i = None" "length (video_chunks d) = 1"
  shows "\<exists>r'. reassembler_accept r (nth_fragment i k l p (video_chunks d) 0) t = Some (Some (frame_of k l p d), r')"
proof -
  obtain c where c: "video_chunks d = [c]" using assms(3) by (auto simp: length_Suc_conv)
  then have "c = d" using concat_video_chunks [of d] by simp
  with c show ?thesis
    using expire_absent [OF _ assms(2), of t] assms(1)
    by (simp add: reassembler_accept_def nth_fragment_def Let_def reassembler_wf_def assemble_def frame_of_def)
qed

text \<open>All fragments but \<open>j\<close>, in any order and with repetitions, then \<open>j\<close>.\<close>

lemma accept_all_complete:
  assumes wf: "reassembler_wf r" and room: "map_of (ra_partials r) i = None" "in_flight r < MAX_PARTIAL_FRAMES"
    and len: "length d \<le> MAX_VIDEO_FRAME" and js: "fst ` set js = {0..<length (video_chunks d)} - {j}"
    and j: "j < length (video_chunks d)"
    and time: "\<forall>u \<in> set (map snd js @ [t]). saturating_sub u (hd (map snd js @ [t])) \<le> FRAGMENT_TIMEOUT_MS"
  shows "\<exists>r'. accept_all r (map (\<lambda>(j, t). (nth_fragment i k l p (video_chunks d) j, t)) (js @ [(j, t)])) =
    Some (replicate (length js) None @ [Some (frame_of k l p d)], r')"
proof (cases js)
  case Nil
  then have "{0..<length (video_chunks d)} = {j}" using js j by auto
  then have "card {0..<length (video_chunks d)} = 1" by simp
  then have "length (video_chunks d) = 1" "j = 0" using j by simp_all
  with accept_single [OF wf room(1), of d k l p t] Nil show ?thesis by auto
next
  case (Cons e js')
  obtain j0 t0 where e: "e = (j0, t0)" by fastforce
  define cs where "cs = video_chunks d"
  have "j0 \<in> fst ` set js" using Cons e by simp
  then have j0: "j0 < length cs" "j0 \<noteq> j" unfolding js by (simp_all add: cs_def)
  then have two: "2 \<le> length cs" "length cs \<le> 128"
    using j length_video_chunks [OF len] by (auto simp: cs_def)
  have "{j0} \<noteq> {0..<length cs}" using j j0(2) by (auto simp: cs_def)
  then obtain r1 where r1: "reassembler_accept r (nth_fragment i k l p cs j0) t0 = Some (None, r1)"
    "reassembler_wf r1" "map_of (ra_partials r1) i = Some (frame_partial k l p cs t0 {j0})"
    using accept_nth_fragment [OF wf two j0(1), of "{}" i t0 t0 k l p] room by auto
  have jm: "j \<in> {0..<length cs}" using j by (simp add: cs_def)
  have sub: "{j0} \<union> fst ` set js' = {0..<length cs} - {j}" using js Cons e by (simp add: cs_def)
  have "{j0} \<union> fst ` set js' \<subset> {0..<length cs}" unfolding sub using jm by blast
  moreover have "\<forall>(_, t) \<in> set js'. saturating_sub t t0 \<le> FRAGMENT_TIMEOUT_MS"
    using time Cons e by auto
  ultimately obtain r2 where r2: "accept_all r1 (map (\<lambda>(j, t). (nth_fragment i k l p cs j, t)) js') =
      Some (replicate (length js') None, r2)" "reassembler_wf r2"
    "map_of (ra_partials r2) i = Some (frame_partial k l p cs t0 ({0..<length cs} - {j}))"
    using accept_all_incomplete [OF r1(2) two r1(3), of js'] unfolding sub by blast
  have ins: "insert j ({0..<length cs} - {j}) = {0..<length cs}" using jm by blast
  have "saturating_sub t t0 \<le> FRAGMENT_TIMEOUT_MS" using time Cons e by simp
  then obtain r3 where r3: "reassembler_accept r2 (nth_fragment i k l p cs j) t =
      Some (if j \<notin> {0..<length cs} - {j} \<and> insert j ({0..<length cs} - {j}) = {0..<length cs}
        then Some (assemble (frame_partial k l p cs t0 (insert j ({0..<length cs} - {j})))) else None, r3)"
    using accept_nth_fragment [OF r2(2) two _ disjI2 [OF r2(3)] Diff_subset, of j t] j
    unfolding cs_def by blast
  have "reassembler_accept r2 (nth_fragment i k l p cs j) t = Some (Some (frame_of k l p d), r3)"
    using r3 unfolding ins by (simp add: assemble_complete cs_def)
  with r1(1) r2(1) show ?thesis
    unfolding Cons e cs_def [symmetric] by (simp add: accept_all_append)
qed

subsection \<open>Properties\<close>

text \<open>C6. Reassembly gives back the frame: cut a frame of at most \<open>MAX_VIDEO_FRAME\<close> bytes into fragments
  and deliver them in any order, any of them any number of times, within the fragment timeout of the
  first, to a reassembler in any reachable state that has room for one more frame. Nothing is produced
  until the last missing fragment arrives, and then exactly the original frame is.\<close>

theorem reassembly_any_order:
  assumes "reach (\<lambda>r. r = reassembler_new) reassembler_step r"
    and "map_of (ra_partials r) frame_id = None" "in_flight r < MAX_PARTIAL_FRAMES"
    and "length data \<le> MAX_VIDEO_FRAME"
    and "fst ` set js = {0..<length (fragment_video frame_id kind layer pts data)} - {j}"
    and "j < length (fragment_video frame_id kind layer pts data)"
    and "\<forall>u \<in> set (map snd js @ [t]). saturating_sub u (hd (map snd js @ [t])) \<le> FRAGMENT_TIMEOUT_MS"
  shows "\<exists>r'. accept_all r (map (\<lambda>(j, t). (fragment_video frame_id kind layer pts data ! j, t)) (js @ [(j, t)]))
    = Some (replicate (length js) None @ [Some (frame_of kind layer pts data)], r')"
proof -
  have "\<forall>e \<in> set (js @ [(j, t)]). fst e < length (video_chunks data)"
  proof
    fix e assume "e \<in> set (js @ [(j, t)])"
    then have "fst e \<in> insert j (fst ` set js)" by auto
    then show "fst e < length (video_chunks data)"
      using assms(6) unfolding assms(5) by (auto simp: length_fragment_video)
  qed
  then have eq: "map (\<lambda>(j, t). (fragment_video frame_id kind layer pts data ! j, t)) (js @ [(j, t)]) =
      map (\<lambda>(j, t). (nth_fragment frame_id kind layer pts (video_chunks data) j, t)) (js @ [(j, t)])"
    by (intro map_cong refl) (auto simp: nth_fragment_video)
  show ?thesis
    unfolding eq using assms reassembler.reach_inv [OF assms(1)]
    by (intro accept_all_complete) (simp_all add: length_fragment_video)
qed

theorem reassembly_any_order_witness:
  "\<exists>r'. accept_all reassembler_new
     (map (\<lambda>(j, t). (fragment_video 7 1 0 99 (replicate 20000 5) ! j, t)) ([(1, 1000), (1, 1001)] @ [(0, 1400)])) =
     Some (replicate 2 None @ [Some (frame_of 1 0 99 (replicate 20000 5))], r')"
proof -
  let ?fs = "fragment_video 7 1 0 99 (replicate 20000 5)"
  let ?js = "[(1, 1000), (1, 1001)] :: (nat \<times> u64) list"
  have init: "reach (\<lambda>r. r = reassembler_new) reassembler_step reassembler_new"
    by (rule reach_init) simp
  have room: "map_of (ra_partials reassembler_new) 7 = None" "in_flight reassembler_new < MAX_PARTIAL_FRAMES"
    by (simp_all add: reassembler_new_def in_flight_def MAX_PARTIAL_FRAMES_def)
  have len: "length (replicate 20000 (5 :: u8)) \<le> MAX_VIDEO_FRAME" by (simp add: MAX_VIDEO_FRAME_def)
  have "length ?fs = 2"
    by (simp add: length_fragment_video video_chunks_def length_chunks MAX_VIDEO_FRAGMENT_def)
  then have js: "fst ` set ?js = {0..<length ?fs} - {0}" "0 < length ?fs"
    by auto
  have time: "\<forall>u \<in> set (map snd ?js @ [1400]). saturating_sub u (hd (map snd ?js @ [1400])) \<le> FRAGMENT_TIMEOUT_MS"
    by code_simp
  have two: "length ?js = 2" by simp
  from reassembly_any_order [OF init room len js time] show ?thesis unfolding two .
qed

text \<open>C7. Two frames are never spliced together: whatever well-formed payloads arrive in whatever order,
  a frame that comes out is the concatenation, in index order, of fragments that were all received for
  one frame id, with the same fragment count and the same presentation time, none missing.\<close>

theorem reassembly_no_splicing:
  assumes "\<forall>(p, _) \<in> set ps. payload_wf p" "accept_all reassembler_new ps = Some (outs, r')"
    and "Some f \<in> set outs"
  shows "\<exists>frame_id ds. ds \<noteq> [] \<and> ef_data f = concat ds \<and>
    (\<forall>i < length ds. \<exists>x c k l. VideoFrame frame_id x c k l (ef_pts_us f) (ds ! i) \<in> fst ` set ps \<and>
       unat x = i \<and> unat c = length ds)"
proof -
  have "reassembler_wf reassembler_new" by (rule reassembler.inv_init) simp
  from accept_all_received [OF this assms(1) _ subset_refl assms(2)] assms(3)
  have "genuine (fst ` set ps) f"
    by (simp add: partials_received_def reassembler_new_def)
  then show ?thesis unfolding genuine_def received_def .
qed

theorem reassembly_no_splicing_witness:
  "\<exists>frame_id ds. ds \<noteq> [] \<and> ef_data (frame_of 0 0 9 [1, 2]) = concat ds \<and>
    (\<forall>i < length ds. \<exists>x c k l. VideoFrame frame_id x c k l (ef_pts_us (frame_of 0 0 9 [1, 2])) (ds ! i)
       \<in> {VideoFrame 4 1 2 0 0 9 [2], VideoFrame 4 0 2 0 0 8 [7], VideoFrame 4 0 2 0 0 9 [1]} \<and>
       unat x = i \<and> unat c = length ds)"
proof -
  let ?ps = "[(VideoFrame 4 1 2 0 0 9 [2], 0), (VideoFrame 4 0 2 0 0 8 [7], 1), (VideoFrame 4 0 2 0 0 9 [1], 2)]"
  have "map_option fst (accept_all reassembler_new ?ps) = Some [None, None, Some (frame_of 0 0 9 [1, 2])]"
    by code_simp
  then obtain r' where r': "accept_all reassembler_new ?ps = Some ([None, None, Some (frame_of 0 0 9 [1, 2])], r')"
    by (rule map_option_fst_SomeE)
  have wf: "\<forall>(p, _) \<in> set ?ps. payload_wf p" by (simp add: MAX_VIDEO_FRAGMENTS_eq limit_defs)
  have mem: "Some (frame_of 0 0 9 [1, 2]) \<in> set [None, None, Some (frame_of 0 0 9 [1, 2])]" by simp
  from reassembly_no_splicing [OF wf r' mem] show ?thesis
    unfolding list.set image_insert fst_conv image_empty .
qed

text \<open>C19. Memory is bounded and decoded traffic cannot crash the receiver: in every reachable state at
  most sixteen frames are in flight, none with more slots filled than it has, and every payload the
  decoder lets through is handled without an out-of-range index.\<close>

theorem reassembler_bounded:
  assumes "reach (\<lambda>r. r = reassembler_new) reassembler_step r" "frame_decode buf = Inr fr"
  shows "in_flight r \<le> 16 \<and> list_all (\<lambda>(_, p). pt_filled p < length (pt_slots p)) (ra_partials r) \<and>
    (\<exists>out r'. reassembler_accept r (cf_payload fr) now = Some (out, r') \<and> in_flight r' \<le> 16)"
proof -
  have wf: "reassembler_wf r" by (rule reassembler.reach_inv [OF assms(1)])
  have "payload_wf (cf_payload fr)"
    using frame_decode_wf [OF assms(2)] by (simp add: frame_wf_def)
  from reassembler_accept_wf [OF wf this, of now] obtain out r'
    where "reassembler_accept r (cf_payload fr) now = Some (out, r')" "reassembler_wf r'"
    by auto
  with wf show ?thesis
    by (auto simp: reassembler_wf_def in_flight_def MAX_PARTIAL_FRAMES_def partial_wf_def list_all_iff)
qed

theorem reassembler_bounded_witness:
  "\<exists>out r'. reassembler_accept reassembler_new (Ping 0xDEADBEEF) 5 = Some (out, r') \<and> in_flight r' \<le> 16"
proof -
  have "frame_decode [0x1F, 0x06, 0, 1, 0, 0, 0, 2, 0xDE, 0xAD, 0xBE, 0xEF] =
      Inr \<lparr>cf_header = \<lparr>h_version = 1, h_flags = 15, h_msg_type = 6, h_sequence = 1, h_timestamp_ms = 2\<rparr>,
           cf_payload = Ping 0xDEADBEEF\<rparr>"
    by code_simp
  from reassembler_bounded [OF reach_init [of "\<lambda>r. r = reassembler_new", OF refl] this, of 5]
  show ?thesis by simp
qed

end
