(* ===== verification/Rda_Float.thy ===== *)
theory Rda_Float
  imports Complex_Main Rda_Prelude "HOL-Library.Log_Nat"
begin

text \<open>
  The \<open>f64\<close> arithmetic of the telemetry and rate-control code and the \<open>f32\<close> arithmetic of the viewer. A finite double is the rational number it
  stands for; every operation is the exact rational operation followed by \<open>f64_round\<close>, rounding to the
  nearest number with a 53-bit (\<open>f32\<close>: 24-bit) significand, ties to even, as IEEE 754 prescribes. Subnormal numbers,
  infinities and NaN do not occur: the values are counts, milliseconds, bit rates and ratios of these,
  and no divisor is zero.

  The facts the clients use: rounding is monotone and exact on the integers up to \<open>2^53\<close>, so a bound by
  an integer survives rounding; a cast to \<open>u32\<close> truncates and saturates.
\<close>

type_synonym f64 = rat
type_synonym f32 = rat

subsection \<open>Rounding\<close>

definition exponent2 :: "rat \<Rightarrow> int" where
  "exponent2 x =
     (let (p, q) = quotient_of x; k = bitlen p - bitlen q
      in if 2 powi k \<le> x then k else k - 1)"

definition round_half_even :: "rat \<Rightarrow> int" where
  "round_half_even x =
     (let f = \<lfloor>x\<rfloor>; d = x - of_int f
      in if d < 1 / 2 then f else if d > 1 / 2 then f + 1 else if even f then f else f + 1)"

text \<open>Rounding to \<open>p\<close> significant bits: 53 for \<open>f64\<close>, 24 for \<open>f32\<close>.\<close>

definition fp_round_pos :: "nat \<Rightarrow> rat \<Rightarrow> rat" where
  "fp_round_pos p x = (let u = 2 powi (exponent2 x - (int p - 1)) in of_int (round_half_even (x / u)) * u)"

definition fp_round :: "nat \<Rightarrow> rat \<Rightarrow> rat" where
  "fp_round p x = (if x = 0 then 0 else if x < 0 then - fp_round_pos p (- x) else fp_round_pos p x)"

definition f64_round :: "rat \<Rightarrow> f64" where "f64_round x = fp_round 53 x"
definition f32_round :: "rat \<Rightarrow> f32" where "f32_round x = fp_round 24 x"

subsection \<open>Operations\<close>

definition f64_add :: "f64 \<Rightarrow> f64 \<Rightarrow> f64" where "f64_add a b = f64_round (a + b)"
definition f64_sub :: "f64 \<Rightarrow> f64 \<Rightarrow> f64" where "f64_sub a b = f64_round (a - b)"
definition f64_mul :: "f64 \<Rightarrow> f64 \<Rightarrow> f64" where "f64_mul a b = f64_round (a * b)"
definition f64_div :: "f64 \<Rightarrow> f64 \<Rightarrow> f64" where "f64_div a b = f64_round (a / b)"

definition f32_sub :: "f32 \<Rightarrow> f32 \<Rightarrow> f32" where "f32_sub a b = f32_round (a - b)"
definition f32_mul :: "f32 \<Rightarrow> f32 \<Rightarrow> f32" where "f32_mul a b = f32_round (a * b)"
definition f32_div :: "f32 \<Rightarrow> f32 \<Rightarrow> f32" where "f32_div a b = f32_round (a / b)"

text \<open>\<open>f64::from\<close> of an integer of at most 32 bits, which is exact, and a decimal literal.\<close>

definition f64_of :: "'a::len word \<Rightarrow> f64" where "f64_of w = of_int (uint w)"
definition f64_lit :: "rat \<Rightarrow> f64" where "f64_lit x = f64_round x"

text \<open>\<open>as u32\<close>: towards zero, saturating. \<open>f64::round\<close>: half away from zero.\<close>

definition as_u32 :: "f64 \<Rightarrow> u32" where
  "as_u32 x = (if x < 0 then 0 else if x \<ge> 2 ^ 32 then - 1 else word_of_int \<lfloor>x\<rfloor>)"

definition f64_nearest :: "f64 \<Rightarrow> f64" where
  "f64_nearest x = (if x < 0 then - of_int \<lfloor>- x + 1 / 2\<rfloor> else of_int \<lfloor>x + 1 / 2\<rfloor>)"

subsection \<open>The exponent\<close>

lemma exponent2_bounds:
  assumes "0 < x"
  shows "2 powi (exponent2 x) \<le> x" "x < 2 powi (exponent2 x + 1)"
proof -
  obtain p q where pq: "quotient_of x = (p, q)" by fastforce
  then have x: "x = of_int p / of_int q" "q > 0"
    by (simp_all add: quotient_of_div quotient_of_denom_pos)
  with assms have p: "p > 0" by (simp add: zero_less_divide_iff)
  define a b where "a = floorlog 2 (nat p)" and "b = floorlog 2 (nat q)"
  have bp: "2 ^ (a - 1) \<le> nat p" "nat p < 2 ^ a" "2 ^ (b - 1) \<le> nat q" "nat q < 2 ^ b"
    using floorlog_bounds [of "nat p" 2] floorlog_bounds [of "nat q" 2] p x(2) by (simp_all add: a_def b_def)
  have ab: "a > 0" "b > 0"
    using p x(2) floorlog_eq_zero_iff [of 2 "nat p"] floorlog_eq_zero_iff [of 2 "nat q"]
    by (simp_all add: a_def b_def)
  have "int (2 ^ (a - 1)) \<le> p" "p < int (2 ^ a)" "int (2 ^ (b - 1)) \<le> q" "q < int (2 ^ b)"
    using bp p x(2) by linarith+
  then have rp: "2 ^ (a - 1) \<le> rat_of_int p" "rat_of_int p < 2 ^ a" "2 ^ (b - 1) \<le> rat_of_int q" "rat_of_int q < 2 ^ b"
    unfolding of_int_le_iff [where ?'a = rat, symmetric] of_int_less_iff [where ?'a = rat, symmetric] by simp_all
  have "x < 2 ^ a / 2 ^ (b - 1)" 
    unfolding x(1) using rp p x(2) by (intro frac_less) auto
  moreover have "2 ^ (a - 1) / 2 ^ b < x"
    unfolding x(1) using rp p x(2) by (intro frac_less2) auto
  moreover have "(2::rat) ^ a / 2 ^ (b - 1) = 2 powi (int a - int b + 1)"
    using ab by (simp add: power_int_diff power_int_add power_diff)
  moreover have "(2::rat) ^ (a - 1) / 2 ^ b = 2 powi (int a - int b - 1)"
    using ab by (simp add: power_int_diff power_int_add power_diff)
  ultimately have *: "2 powi (int a - int b - 1) < x" "x < 2 powi (int a - int b + 1)" by simp_all
  show "2 powi (exponent2 x) \<le> x" "x < 2 powi (exponent2 x + 1)"
    using * unfolding exponent2_def pq by (auto simp: Let_def bitlen_def simp flip: a_def b_def)
qed

subsection \<open>Rounding is monotone\<close>

lemma round_half_even_of_int [simp]: "round_half_even (of_int n) = n"
  by (simp add: round_half_even_def)

lemma round_half_even_mono:
  assumes "x \<le> y"
  shows "round_half_even x \<le> round_half_even y"
proof (cases "\<lfloor>x\<rfloor> = \<lfloor>y\<rfloor>")
  case True
  with assms show ?thesis unfolding round_half_even_def Let_def by auto
next
  case False
  then have "\<lfloor>x\<rfloor> + 1 \<le> \<lfloor>y\<rfloor>" using floor_mono [OF assms] by linarith
  moreover have "round_half_even x \<le> \<lfloor>x\<rfloor> + 1" "\<lfloor>y\<rfloor> \<le> round_half_even y"
    by (simp_all add: round_half_even_def Let_def)
  ultimately show ?thesis by linarith
qed

lemma round_half_even_le: "x \<le> of_int n \<Longrightarrow> round_half_even x \<le> n"
  using round_half_even_mono [of x "of_int n"] by simp

lemma round_half_even_ge: "of_int n \<le> x \<Longrightarrow> n \<le> round_half_even x"
  using round_half_even_mono [of "of_int n" x] by simp

lemma exponent2_mono:
  assumes "0 < x" "x \<le> y"
  shows "exponent2 x \<le> exponent2 y"
proof (rule ccontr)
  assume "\<not> exponent2 x \<le> exponent2 y"
  then have "(2 :: rat) powi (exponent2 y + 1) \<le> 2 powi (exponent2 x)"
    by (intro power_int_increasing) auto
  with exponent2_bounds [OF assms(1)] exponent2_bounds [of y] assms show False by linarith
qed

text \<open>A positive precision; the rounding of both formats is an instance.\<close>

locale precision =
  fixes p :: nat
  assumes p_pos: "0 < p"
begin

lemma fp_round_pos_bounds:
  assumes "0 < x"
  shows "2 powi (exponent2 x) \<le> fp_round_pos p x" "fp_round_pos p x \<le> 2 powi (exponent2 x + 1)"
proof -
  let ?u = "2 powi (exponent2 x - (int p - 1)) :: rat"
  have u: "?u > 0" by simp
  have pp: "int p = int (p - 1) + 1" using p_pos by simp
  have eq: "2 powi (exponent2 x) = of_int (2 ^ (p - 1)) * ?u" "2 powi (exponent2 x + 1) = of_int (2 * 2 ^ (p - 1)) * ?u"
    unfolding pp by (simp_all add: power_int_diff power_int_add)
  have "of_int (2 ^ (p - 1)) \<le> x / ?u" "x / ?u \<le> of_int (2 * 2 ^ (p - 1))"
    using exponent2_bounds [OF assms] u unfolding eq by (simp_all add: pos_le_divide_eq pos_divide_le_eq)
  then have "2 ^ (p - 1) \<le> round_half_even (x / ?u)" "round_half_even (x / ?u) \<le> 2 * 2 ^ (p - 1)"
    by (blast intro: round_half_even_ge round_half_even_le)+
  then have "of_int (2 ^ (p - 1)) * ?u \<le> of_int (round_half_even (x / ?u)) * ?u"
    "of_int (round_half_even (x / ?u)) * ?u \<le> of_int (2 * 2 ^ (p - 1)) * ?u"
    using u by (intro mult_right_mono; simp only: of_int_le_iff less_imp_le)+
  then show "2 powi (exponent2 x) \<le> fp_round_pos p x" "fp_round_pos p x \<le> 2 powi (exponent2 x + 1)"
    unfolding eq fp_round_pos_def Let_def by simp_all
qed

lemma fp_round_pos_mono:
  assumes "0 < x" "x \<le> y"
  shows "fp_round_pos p x \<le> fp_round_pos p y"
proof (cases "exponent2 x = exponent2 y")
  case True
  let ?u = "2 powi (exponent2 y - (int p - 1)) :: rat"
  have "x / ?u \<le> y / ?u" using assms(2) by (intro divide_right_mono) auto
  then show ?thesis
    unfolding fp_round_pos_def Let_def True
    by (intro mult_right_mono) (simp_all add: round_half_even_mono)
next
  case False
  then have "exponent2 x + 1 \<le> exponent2 y" using exponent2_mono [OF assms] by linarith
  then have "(2 :: rat) powi (exponent2 x + 1) \<le> 2 powi (exponent2 y)"
    by (intro power_int_increasing) auto
  with fp_round_pos_bounds [OF assms(1)] fp_round_pos_bounds [of y] assms show ?thesis by linarith
qed

lemma fp_round_pos_pos: "0 < x \<Longrightarrow> 0 < fp_round_pos p x"
  using fp_round_pos_bounds(1) [of x] by (rule less_le_trans [rotated]) simp_all

lemma fp_round_mono: "x \<le> y \<Longrightarrow> fp_round p x \<le> fp_round p y"
  using fp_round_pos_mono [of x y] fp_round_pos_mono [of "- y" "- x"] fp_round_pos_pos [of y]
    fp_round_pos_pos [of "- x"]
  by (auto simp: fp_round_def)

lemma fp_round_0 [simp]: "fp_round p 0 = 0"
  by (simp add: fp_round_def)

lemma fp_round_pos_iff: "0 < fp_round p x \<longleftrightarrow> 0 < x"
  using fp_round_pos_pos [of x] fp_round_pos_pos [of "- x"] by (auto simp: fp_round_def)

text \<open>A number with at most \<open>p\<close> significant bits is its own rounding; integers are such numbers.\<close>

lemma fp_round_of_int:
  assumes "\<bar>n\<bar> < 2 ^ p"
  shows "fp_round p (of_int n) = of_int n"
proof -
  have pos: "fp_round_pos p (of_int m) = of_int m" if "0 < m" "m < 2 ^ p" for m :: int
  proof -
    let ?e = "exponent2 (of_int m)"
    have "rat_of_int m < of_int (2 ^ p)" using that(2) by (simp only: of_int_less_iff)
    then have "rat_of_int m < 2 powi int p" by (simp only: of_int_power of_int_numeral power_int_of_nat)
    with exponent2_bounds(1) [of "of_int m"] that(1) have "(2 :: rat) powi ?e < 2 powi int p"
      by (meson le_less_trans of_int_0_less_iff)
    then have "\<not> (int p \<le> ?e)" using power_int_increasing [of "int p" ?e "2 :: rat"] by (auto simp: not_less)
    then have k: "?e - (int p - 1) = - int (nat (int p - 1 - ?e))" by simp
    define k where "k = nat (int p - 1 - ?e)"
    have "of_int m / 2 powi (- int k) = rat_of_int (m * 2 ^ k)"
      by (simp add: power_int_minus divide_inverse)
    then show ?thesis
      unfolding fp_round_pos_def Let_def k k_def [symmetric] by (simp only: round_half_even_of_int) (simp add: power_int_minus)
  qed
  show ?thesis
    using pos [of n] pos [of "- n"] assms by (cases n "0 :: int" rule: linorder_cases) (auto simp: fp_round_def)
qed

lemma fp_round_le_int: "x \<le> of_int n \<Longrightarrow> \<bar>n\<bar> < 2 ^ p \<Longrightarrow> fp_round p x \<le> of_int n"
  using fp_round_mono [of x "of_int n"] by (simp add: fp_round_of_int)

lemma fp_round_ge_int: "of_int n \<le> x \<Longrightarrow> \<bar>n\<bar> < 2 ^ p \<Longrightarrow> of_int n \<le> fp_round p x"
  using fp_round_mono [of "of_int n" x] by (simp add: fp_round_of_int)

end

interpretation p53: precision 53 by unfold_locales simp
interpretation p24: precision 24 by unfold_locales simp

lemmas f64_round_mono = p53.fp_round_mono [folded f64_round_def]
lemmas f64_round_of_int = p53.fp_round_of_int [folded f64_round_def]
lemmas f64_round_le_int = p53.fp_round_le_int [folded f64_round_def]
lemmas f64_round_ge_int = p53.fp_round_ge_int [folded f64_round_def]
lemmas f32_round_mono = p24.fp_round_mono [folded f32_round_def]
lemmas f32_round_of_int = p24.fp_round_of_int [folded f32_round_def]
lemmas f32_round_le_int = p24.fp_round_le_int [folded f32_round_def]
lemmas f32_round_ge_int = p24.fp_round_ge_int [folded f32_round_def]
lemmas f32_round_pos_iff = p24.fp_round_pos_iff [folded f32_round_def]

subsection \<open>Casts\<close>

lemma f64_of_nat: "f64_of w = of_nat (unat w)"
  by (simp add: f64_of_def)

lemma f64_of_nonneg: "0 \<le> f64_of w"
  by (simp only: f64_of_nat of_nat_0_le_iff)

lemma f64_of_floor: "\<lfloor>of_nat (unat n) :: rat\<rfloor> = uint n" "(0 :: rat) \<le> of_nat (unat n)"
  by (metis floor_of_nat uint_nat) (rule of_nat_0_le_iff)

lemma as_u32_le: "x \<le> of_nat (unat n) \<Longrightarrow> as_u32 x \<le> n"
proof -
  assume le: "x \<le> of_nat (unat n)"
  have "unat n < 2 ^ 32" using unsigned_less [of n, where ?'a = nat] by simp
  then have "rat_of_nat (unat n) < of_nat (2 ^ 32)" by (simp only: of_nat_less_iff)
  with le have "x < 2 ^ 32" by simp
  moreover have "\<lfloor>x\<rfloor> \<le> uint n" using floor_mono [OF le] unfolding f64_of_floor .
  ultimately show ?thesis
    using unsigned_less [of n, where ?'a = int]
    by (auto simp: as_u32_def word_le_def unsigned_of_int not_less take_bit_int_eq_self)
qed

lemma as_u32_ge: "of_nat (unat n) \<le> x \<Longrightarrow> n \<le> as_u32 x"
proof -
  assume ge: "of_nat (unat n) \<le> x"
  then have "uint n \<le> \<lfloor>x\<rfloor>" "0 \<le> x"
    using floor_mono [OF ge] order_trans [OF f64_of_floor(2) ge] unfolding f64_of_floor by blast+
  moreover have "\<lfloor>x\<rfloor> < 2 ^ 32" if "x < 2 ^ 32" using that by (simp add: floor_less_iff)
  moreover have "n \<le> - 1" by simp
  ultimately show ?thesis
    by (cases "x < 2 ^ 32") (auto simp: as_u32_def word_le_def [of n "word_of_int _"] unsigned_of_int take_bit_int_eq_self not_less)
qed

lemma f64_of_round [simp]: "f64_round (f64_of (w :: u32)) = f64_of w"
proof -
  have "uint w < 2 ^ 32" using unsigned_less [of w, where ?'a = int] by simp
  then have "\<bar>uint w\<bar> < 2 ^ 53" by simp
  from f64_round_of_int [OF this] show ?thesis by (simp add: f64_of_nat)
qed

lemma as_u32_f64_of [simp]: "as_u32 (f64_of w) = w"
  by (rule order.antisym) (auto simp: f64_of_nat intro: as_u32_le as_u32_ge)

lemma f64_of_mono: "a \<le> b \<Longrightarrow> f64_of a \<le> f64_of b"
  by (simp only: f64_of_nat word_le_nat_alt of_nat_le_iff)

text \<open>A computation whose exact value lies between two 32-bit integers still does after rounding and
  truncation.\<close>

lemma as_u32_round_le: "x \<le> f64_of (n :: u32) \<Longrightarrow> as_u32 (f64_round x) \<le> n"
  using f64_round_mono [of x "f64_of n"] by (intro as_u32_le [folded f64_of_nat]) simp

lemma as_u32_round_ge: "f64_of (n :: u32) \<le> x \<Longrightarrow> n \<le> as_u32 (f64_round x)"
  using f64_round_mono [of "f64_of n" x] by (intro as_u32_ge [folded f64_of_nat]) simp

end
