(* ===== verification/Rda_Telemetry.thy ===== *)
theory Rda_Telemetry
  imports Rda_Float Rda_Codec
begin

text \<open>
  The link telemetry of \<^verbatim>\<open>rda-telemetry/src/lib.rs\<close>: round-trip, loss and jitter estimators over sliding
  windows, loss counting from wire sequence numbers, the loss-based bandwidth estimator, and the policy
  decisions on retransmission, forward error correction and the quality ladder. A clock reading is an
  argument of every operation, as in the source. Ratios are \<open>f64\<close> values of \<^verbatim>\<open>Rda_Float\<close>. The textual
  status line \<open>LinkTelemetry::summary\<close> and the drop rate of \<open>FrameStats\<close>, which only display reads, are left
  out.
\<close>

definition LOSS_WINDOW_MS :: u64 where "LOSS_WINDOW_MS = 2000"
definition JITTER_WINDOW_MS :: u64 where "JITTER_WINDOW_MS = 10000"
definition MIN_RTT_WINDOW_MS :: u64 where "MIN_RTT_WINDOW_MS = 10000"

subsection \<open>Round-trip time\<close>

record RttEstimator =
  rtt_srtt_ms :: "f64 option"
  rtt_rttvar_ms :: f64
  rtt_latest :: u32
  rtt_min_samples :: "(u64 \<times> u32) list"

definition rtt_new :: RttEstimator where
  "rtt_new = \<lparr>rtt_srtt_ms = None, rtt_rttvar_ms = 0, rtt_latest = 0, rtt_min_samples = []\<rparr>"

text \<open>The loop \<open>while let Some(front) ... pop_front\<close> over a time-stamped window.\<close>

definition expire :: "u64 \<Rightarrow> u64 \<Rightarrow> (u64 \<times> 'a) list \<Rightarrow> (u64 \<times> 'a) list" where
  "expire window now_ms = dropWhile (\<lambda>(t, _). saturating_sub now_ms t > window)"

definition rtt_sample :: "u32 \<Rightarrow> u64 \<Rightarrow> RttEstimator \<Rightarrow> RttEstimator" where
  "rtt_sample rtt_ms now_ms e =
     (let r = f64_of rtt_ms;
          e = e\<lparr>rtt_latest := rtt_ms\<rparr>;
          e = (case rtt_srtt_ms e of
                 None \<Rightarrow> e\<lparr>rtt_srtt_ms := Some r, rtt_rttvar_ms := f64_div r 2\<rparr>
               | Some srtt \<Rightarrow>
                   e\<lparr>rtt_rttvar_ms := f64_add (f64_mul (3 / 4) (rtt_rttvar_ms e)) (f64_mul (1 / 4) \<bar>f64_sub srtt r\<bar>),
                     rtt_srtt_ms := Some (f64_add (f64_mul (7 / 8) srtt) (f64_mul (1 / 8) r))\<rparr>)
      in e\<lparr>rtt_min_samples := expire MIN_RTT_WINDOW_MS now_ms (rtt_min_samples e @ [(now_ms, rtt_ms)])\<rparr>)"

definition rtt_smoothed_ms :: "RttEstimator \<Rightarrow> u32 option" where
  "rtt_smoothed_ms e = map_option (\<lambda>v. as_u32 (f64_nearest v)) (rtt_srtt_ms e)"

definition rtt_variance_ms :: "RttEstimator \<Rightarrow> u32" where
  "rtt_variance_ms e = as_u32 (f64_nearest (rtt_rttvar_ms e))"

definition rtt_min_ms :: "RttEstimator \<Rightarrow> u32 option" where
  "rtt_min_ms e = (case map snd (rtt_min_samples e) of [] \<Rightarrow> None | x # xs \<Rightarrow> Some (fold min xs x))"

definition queueing_delay_ms :: "RttEstimator \<Rightarrow> u32" where
  "queueing_delay_ms e =
     (case (rtt_smoothed_ms e, rtt_min_ms e) of (Some s, Some m) \<Rightarrow> saturating_sub s m | _ \<Rightarrow> 0)"

subsection \<open>Loss\<close>

record LossEstimator =
  le_events :: "(u64 \<times> u32 \<times> u32) list"
  le_total_received :: u64
  le_total_lost :: u64

definition loss_new :: LossEstimator where
  "loss_new = \<lparr>le_events = [], le_total_received = 0, le_total_lost = 0\<rparr>"

definition loss_sample :: "u32 \<Rightarrow> u32 \<Rightarrow> u64 \<Rightarrow> LossEstimator \<Rightarrow> LossEstimator" where
  "loss_sample received lost now_ms e =
     e\<lparr>le_events := expire LOSS_WINDOW_MS now_ms (le_events e @ [(now_ms, received, lost)]),
       le_total_received := le_total_received e + ucast received,
       le_total_lost := le_total_lost e + ucast lost\<rparr>"

definition window_counts :: "LossEstimator \<Rightarrow> u64 \<times> u64" where
  "window_counts e = foldl (\<lambda>(r, l) (_, rr, ll). (r + ucast rr, l + ucast ll)) (0, 0) (le_events e)"

definition permille :: "LossEstimator \<Rightarrow> u16" where
  "permille e =
     (let (recv, lost) = window_counts e; total = recv + lost
      in if total = 0 then 0 else ucast (min (lost * 1000 div total) 1000))"

definition loss_fraction :: "LossEstimator \<Rightarrow> f64" where
  "loss_fraction e = f64_div (f64_of (permille e)) 1000"

subsection \<open>Jitter samples\<close>

record JitterEstimator =
  je_samples :: "(u64 \<times> u32) list"
  je_smoothed :: f64

definition jitter_new :: JitterEstimator where
  "jitter_new = \<lparr>je_samples = [], je_smoothed = 0\<rparr>"

definition jitter_sample :: "u32 \<Rightarrow> u64 \<Rightarrow> JitterEstimator \<Rightarrow> JitterEstimator" where
  "jitter_sample deviation_ms now_ms e =
     e\<lparr>je_smoothed := f64_add (je_smoothed e) (f64_div (f64_sub (f64_of deviation_ms) (je_smoothed e)) 16),
       je_samples := expire JITTER_WINDOW_MS now_ms (je_samples e @ [(now_ms, deviation_ms)])\<rparr>"

definition jitter_smoothed_ms :: "JitterEstimator \<Rightarrow> u32" where
  "jitter_smoothed_ms e = as_u32 (f64_nearest (je_smoothed e))"

definition percentile_index :: "f64 \<Rightarrow> nat \<Rightarrow> nat" where
  "percentile_index p n = nat \<lfloor>f64_nearest (f64_mul (f64_round (of_nat (n - 1))) (min (max p 0) 1))\<rfloor>"

definition percentile_ms :: "f64 \<Rightarrow> JitterEstimator \<Rightarrow> u32" where
  "percentile_ms p e =
     (if je_samples e = [] then 0
      else let v = sort (map snd (je_samples e)) in v ! percentile_index p (length v))"

definition percentile95_ms :: "JitterEstimator \<Rightarrow> u32" where
  "percentile95_ms = percentile_ms (f64_lit (95 / 100))"

subsection \<open>Sequence tracking\<close>

definition MAX_REORDER :: u16 where "MAX_REORDER = 256"

record SequenceTracker =
  sq_highest :: "u16 option"
  sq_received :: u32
  sq_lost :: u32

definition sequence_tracker_new :: SequenceTracker where
  "sequence_tracker_new = \<lparr>sq_highest = None, sq_received = 0, sq_lost = 0\<rparr>"

definition observe :: "u16 \<Rightarrow> SequenceTracker \<Rightarrow> SequenceTracker" where
  "observe sequence t =
     (let t = t\<lparr>sq_received := sq_received t + 1\<rparr> in
      case sq_highest t of
        None \<Rightarrow> t\<lparr>sq_highest := Some sequence\<rparr>
      | Some highest \<Rightarrow>
          let advance = sequence - highest in
          if advance = 0 then t
          else if advance \<le> MAX_REORDER
          then t\<lparr>sq_lost := sq_lost t + ucast (advance - 1), sq_highest := Some sequence\<rparr>
          else if highest - sequence \<le> MAX_REORDER
          then t\<lparr>sq_lost := saturating_sub (sq_lost t) 1\<rparr>
          else t\<lparr>sq_highest := Some sequence\<rparr>)"

definition take_counts :: "SequenceTracker \<Rightarrow> (u32 \<times> u32) \<times> SequenceTracker" where
  "take_counts t = ((sq_received t, sq_lost t), t\<lparr>sq_received := 0, sq_lost := 0\<rparr>)"

subsection \<open>Bandwidth estimation\<close>

definition MIN_BITRATE_BPS :: u32 where "MIN_BITRATE_BPS = 150000"
definition MAX_BITRATE_BPS :: u32 where "MAX_BITRATE_BPS = 12000000"
definition BITRATE_UPDATE_INTERVAL_MS :: u64 where "BITRATE_UPDATE_INTERVAL_MS = 250"

definition clamp :: "'a::linorder \<Rightarrow> 'a \<Rightarrow> 'a \<Rightarrow> 'a" where
  "clamp lo hi x = (if x < lo then lo else if x > hi then hi else x)"

record BitrateEstimator =
  be_estimate_bps :: u32
  be_last_update_ms :: "u64 option"
  be_delay_pressure :: bool
  be_last_playout_ms :: "u32 option"

definition bitrate_new :: "u32 \<Rightarrow> BitrateEstimator" where
  "bitrate_new initial_bps =
     \<lparr>be_estimate_bps = clamp MIN_BITRATE_BPS MAX_BITRATE_BPS initial_bps, be_last_update_ms = None,
      be_delay_pressure = False, be_last_playout_ms = None\<rparr>"

definition observe_delay :: "u32 \<Rightarrow> BitrateEstimator \<Rightarrow> BitrateEstimator" where
  "observe_delay playout_delay_ms e =
     (let e = (case be_last_playout_ms e of
                 None \<Rightarrow> e
               | Some previous \<Rightarrow>
                   e\<lparr>be_delay_pressure :=
                       playout_delay_ms > previous + 20 \<and> playout_delay_ms * 5 > previous * 6\<rparr>)
      in e\<lparr>be_last_playout_ms := Some playout_delay_ms\<rparr>)"

definition next_rate :: "f64 \<Rightarrow> BitrateEstimator \<Rightarrow> f64" where
  "next_rate loss e =
     (let current = f64_of (be_estimate_bps e) in
      if loss > f64_lit (10 / 100) then f64_mul current (max (f64_sub 1 (f64_mul (1 / 2) loss)) (1 / 2))
      else if loss < f64_lit (2 / 100) \<and> \<not> be_delay_pressure e then f64_mul current (f64_lit (105 / 100))
      else current)"

definition bitrate_update :: "f64 \<Rightarrow> u64 \<Rightarrow> BitrateEstimator \<Rightarrow> BitrateEstimator" where
  "bitrate_update loss now_ms e =
     (if (case be_last_update_ms e of
            None \<Rightarrow> False
          | Some prev \<Rightarrow> saturating_sub now_ms prev < BITRATE_UPDATE_INTERVAL_MS)
      then e
      else e\<lparr>be_last_update_ms := Some now_ms,
             be_estimate_bps := clamp MIN_BITRATE_BPS MAX_BITRATE_BPS (as_u32 (next_rate loss e))\<rparr>)"

subsection \<open>The aggregate and its report\<close>

record FrameStats =
  fs_decoded :: u64
  fs_dropped :: u64
  fs_skipped_discardable :: u64
  fs_keyframes :: u64

record LinkTelemetry =
  lt_rtt :: RttEstimator
  lt_loss :: LossEstimator
  lt_jitter :: JitterEstimator
  lt_frames :: FrameStats
  lt_bwe_bps :: u32
  lt_playout_delay_ms :: u32
  lt_relayed :: bool

definition link_telemetry_new :: LinkTelemetry where
  "link_telemetry_new =
     \<lparr>lt_rtt = rtt_new, lt_loss = loss_new, lt_jitter = jitter_new,
      lt_frames = \<lparr>fs_decoded = 0, fs_dropped = 0, fs_skipped_discardable = 0, fs_keyframes = 0\<rparr>,
      lt_bwe_bps = 0, lt_playout_delay_ms = 0, lt_relayed = False\<rparr>"

definition to_qos_report :: "LinkTelemetry \<Rightarrow> QosReport" where
  "to_qos_report t =
     \<lparr>qos_rtt_ms = ucast (min (case rtt_smoothed_ms (lt_rtt t) of None \<Rightarrow> 0 | Some v \<Rightarrow> v) 0xFFFF),
      qos_jitter_ms = ucast (min (percentile95_ms (lt_jitter t)) 0xFFFF),
      qos_loss_permille = permille (lt_loss t),
      qos_frames_decoded = ucast (min (fs_decoded (lt_frames t)) 0xFFFF),
      qos_frames_dropped = ucast (min (fs_dropped (lt_frames t)) 0xFFFF),
      qos_render_fps_q8 = 0,
      qos_playout_delay_ms = ucast (min (lt_playout_delay_ms t) 0xFFFF),
      qos_decode_time_us = 0\<rparr>"

subsection \<open>Retransmission\<close>

definition RTX_PROCESSING_SLACK_MS :: u32 where "RTX_PROCESSING_SLACK_MS = 5"

datatype NackDecision = Send | TooLate | Discardable

definition saturating_add :: "'a::len word \<Rightarrow> 'a word \<Rightarrow> 'a word" where
  "saturating_add a b = (if a + b < a then - 1 else a + b)"

definition should_nack :: "RttEstimator \<Rightarrow> JitterEstimator \<Rightarrow> u32 \<Rightarrow> bool \<Rightarrow> bool \<Rightarrow> NackDecision" where
  "should_nack rtt jitter ms_until_playout is_reference discardable =
     (if discardable \<and> \<not> is_reference then Discardable
      else
        let rtt_ms = (case rtt_smoothed_ms rtt of None \<Rightarrow> 0 | Some v \<Rightarrow> v);
            jitter_allowance = percentile95_ms jitter div 2;
            cost = rtt_ms + RTX_PROCESSING_SLACK_MS + jitter_allowance;
            deadline = (if is_reference then saturating_add ms_until_playout rtt_ms else ms_until_playout)
        in if cost < deadline then Send else TooLate)"

subsection \<open>Forward error correction\<close>

record FecSchedule =
  fec_base_layer_pct :: u8
  fec_enhancement_pct :: u8
  fec_reference_bonus_pct :: u8

definition approximate_overhead :: "FecSchedule \<Rightarrow> f64" where
  "approximate_overhead s =
     f64_div (f64_add (f64_mul (f64_of (fec_base_layer_pct s)) (f64_lit (6 / 10)))
                      (f64_mul (f64_of (fec_enhancement_pct s)) (f64_lit (4 / 10)))) 100"

definition fec :: "u8 \<Rightarrow> u8 \<Rightarrow> FecSchedule" where
  "fec base enh = \<lparr>fec_base_layer_pct = base, fec_enhancement_pct = enh, fec_reference_bonus_pct = 20\<rparr>"

definition fec_schedule :: "f64 \<Rightarrow> FecSchedule" where
  "fec_schedule loss =
     (let pct = f64_mul loss 100 in
      if pct < 1 / 2 then fec 0 0
      else if pct < 2 then fec 15 0
      else if pct < 5 then fec 30 10
      else if pct < 10 then fec 50 20
      else fec 60 0)"

subsection \<open>The quality ladder\<close>

record LadderRung =
  lr_rung :: u8
  lr_fps :: u8
  lr_scale_pct :: u8
  lr_temporal_layers :: u8
  lr_stills_only :: bool

definition ladder_rung :: "u8 \<Rightarrow> u8 \<Rightarrow> u8 \<Rightarrow> u8 \<Rightarrow> bool \<Rightarrow> LadderRung" where
  "ladder_rung r f s l st = \<lparr>lr_rung = r, lr_fps = f, lr_scale_pct = s, lr_temporal_layers = l, lr_stills_only = st\<rparr>"

definition LADDER :: "LadderRung list" where
  "LADDER =
     [ladder_rung 0 60 100 3 False, ladder_rung 1 60 100 3 False, ladder_rung 2 30 100 2 False,
      ladder_rung 3 30 75 2 False, ladder_rung 4 20 60 2 False, ladder_rung 5 12 50 1 False,
      ladder_rung 6 5 40 1 False, ladder_rung 7 1 40 1 True]"

definition bandwidth_rung :: "u32 \<Rightarrow> nat" where
  "bandwidth_rung bwe_bps =
     (let mbps = f64_div (f64_of bwe_bps) 1000000 in
      if mbps \<ge> 8 then 0
      else if mbps \<ge> 4 then 1
      else if mbps \<ge> 5 / 2 then 2
      else if mbps \<ge> 3 / 2 then 3
      else if mbps \<ge> f64_lit (8 / 10) then 4
      else if mbps \<ge> f64_lit (4 / 10) then 5
      else 6)"

definition select_rung :: "u32 \<Rightarrow> f64 \<Rightarrow> LadderRung" where
  "select_rung bwe_bps loss =
     (if loss > 1 / 4 then LADDER ! 7
      else if loss > f64_lit (15 / 100) then LADDER ! 6
      else LADDER ! bandwidth_rung bwe_bps)"

record LadderController =
  lc_current :: u8
  lc_pending :: "(u8 \<times> u64) option"
  lc_demote_after_ms :: u64
  lc_promote_after_ms :: u64

definition ladder_controller_new :: LadderController where
  "ladder_controller_new =
     \<lparr>lc_current = 0, lc_pending = None, lc_demote_after_ms = 2000, lc_promote_after_ms = 10000\<rparr>"

definition ladder_advance :: "u8 \<Rightarrow> u64 \<Rightarrow> LadderController \<Rightarrow> LadderController" where
  "ladder_advance target now_ms c =
     (if target = lc_current c then c\<lparr>lc_pending := None\<rparr>
      else
        let required = (if target > lc_current c then lc_demote_after_ms c else lc_promote_after_ms c) in
        case lc_pending c of
          Some (pending_target, since) \<Rightarrow>
            if pending_target = target
            then if saturating_sub now_ms since \<ge> required
                 then c\<lparr>lc_current := target, lc_pending := None\<rparr> else c
            else c\<lparr>lc_pending := Some (target, now_ms)\<rparr>
        | None \<Rightarrow> c\<lparr>lc_pending := Some (target, now_ms)\<rparr>)"

definition ladder_current :: "LadderController \<Rightarrow> LadderRung" where
  "ladder_current c = LADDER ! unat (lc_current c)"

definition ladder_update :: "u32 \<Rightarrow> f64 \<Rightarrow> u64 \<Rightarrow> LadderController \<Rightarrow> LadderRung \<times> LadderController" where
  "ladder_update bwe_bps loss now_ms c =
     (let c = ladder_advance (lr_rung (select_rung bwe_bps loss)) now_ms c in (ladder_current c, c))"

subsection \<open>Percentiles\<close>

lemma percentile95_empty [simp]: "je_samples e = [] \<Longrightarrow> percentile95_ms e = 0"
  by (simp add: percentile95_ms_def percentile_ms_def)

lemma f64_nearest_le: "x \<le> of_int n \<Longrightarrow> 0 \<le> x \<Longrightarrow> f64_nearest x \<le> of_int n"
proof -
  assume "x \<le> of_int n" "0 \<le> x"
  moreover have "\<lfloor>x + 1 / 2\<rfloor> \<le> n" using \<open>x \<le> of_int n\<close> by (simp add: floor_le_iff)
  ultimately show ?thesis by (simp add: f64_nearest_def)
qed

text \<open>The index of a percentile is in range: reading the sorted samples never panics.\<close>

lemma percentile_index_less:
  assumes "0 < n" "n \<le> 2 ^ 53"
  shows "percentile_index p n < n"
proof -
  let ?q = "min (max p 0) 1 :: rat" and ?m = "int (n - 1)"
  have m: "\<bar>?m\<bar> < 2 ^ 53" using assms by simp
  then have r: "f64_round (of_nat (n - 1)) = of_int ?m" using f64_round_of_int [of ?m] by simp
  have q: "0 \<le> ?q" "?q \<le> 1" by auto
  have "of_int ?m * ?q \<le> of_int ?m" using q by (simp add: mult_left_le)
  moreover have "0 \<le> of_int ?m * ?q" using q by simp
  ultimately have "f64_mul (of_int ?m) ?q \<le> of_int ?m" "of_int 0 \<le> f64_mul (of_int ?m) ?q"
    unfolding f64_mul_def using m by (blast intro: f64_round_le_int, intro f64_round_ge_int) auto
  then have "f64_nearest (f64_mul (of_int ?m) ?q) \<le> of_int ?m" by (intro f64_nearest_le) auto
  then have "\<lfloor>f64_nearest (f64_mul (of_int ?m) ?q)\<rfloor> \<le> ?m" by (metis floor_mono floor_of_int)
  then show ?thesis unfolding percentile_index_def r using assms(1) by linarith
qed

subsection \<open>Loss counting\<close>

lemma permille_le: "permille e \<le> 1000"
proof -
  have "(ucast (min x 1000) :: u16) \<le> 1000" for x :: u64
  proof -
    have "unat (min x 1000) \<le> 1000" by (simp add: min_def word_le_nat_alt)
    then show ?thesis by (simp add: word_le_nat_alt unsigned_ucast_eq take_bit_nat_eq_self)
  qed
  then show ?thesis by (simp add: permille_def Let_def split: prod.split)
qed

text \<open>A stream of packets with their true, unbounded numbers, as the tracker sees it.\<close>

definition observe_all :: "nat list \<Rightarrow> SequenceTracker \<Rightarrow> SequenceTracker" where
  "observe_all ns t = fold (\<lambda>n. observe (word_of_nat n)) ns t"

text \<open>Every packet is new, none precedes the first, and each is within the reorder window of the newest
  before it.\<close>

fun plausible :: "nat \<Rightarrow> nat \<Rightarrow> nat set \<Rightarrow> nat list \<Rightarrow> bool" where
  "plausible first newest seen [] = True"
| "plausible first newest seen (n # ns) \<longleftrightarrow>
     first \<le> n \<and> n \<notin> seen \<and> n \<le> newest + 256 \<and> newest \<le> n + 256 \<and>
     plausible first (max newest n) (insert n seen) ns"

definition tracks :: "nat \<Rightarrow> nat \<Rightarrow> nat set \<Rightarrow> SequenceTracker \<Rightarrow> bool" where
  "tracks first newest seen t \<longleftrightarrow>
     finite seen \<and> seen \<subseteq> {first..newest} \<and> newest \<in> seen \<and> sq_highest t = Some (word_of_nat newest) \<and>
     sq_received t = word_of_nat (card seen) \<and> sq_lost t = word_of_nat (Suc newest - first - card seen) \<and>
     newest - first < 2 ^ 32"

lemma word_sub_of_nat: "b \<le> a \<Longrightarrow> (word_of_nat a - word_of_nat b :: 'a::len word) = word_of_nat (a - b)"
  by (simp add: of_nat_diff)

lemma unat_small16: "n < 65536 \<Longrightarrow> unat (word_of_nat n :: u16) = n"
  by (simp add: unat_of_nat take_bit_nat_eq_self)

lemma unat_small32: "n < 2 ^ 32 \<Longrightarrow> unat (word_of_nat n :: u32) = n"
  by (simp add: unat_of_nat take_bit_nat_eq_self)

lemma saturating_dec:
  assumes "0 < k" "k < 2 ^ 32"
  shows "saturating_sub (word_of_nat k :: u32) 1 = word_of_nat (k - 1)"
  by (rule word_unat_eq_iff [THEN iffD2]) (simp only: unat_saturating_sub unat_small32 [OF assms(2)]
    unat_small32 [of "k - 1"] unat_1 assms less_imp_diff_less)

lemma tracks_observe:
  assumes t: "tracks first newest seen t" and n: "first \<le> n" "n \<notin> seen" "n \<le> newest + 256" "newest \<le> n + 256"
    and small: "max newest n - first < 2 ^ 32"
  shows "tracks first (max newest n) (insert n seen) (observe (word_of_nat n) t)"
proof -
  have f: "finite seen" "seen \<subseteq> {first..newest}" "newest \<in> seen" using t by (auto simp: tracks_def)
  have ne: "n \<noteq> newest" using f(3) n(2) by blast
  have card: "card (insert n seen) = Suc (card seen)" using f(1) n(2) by simp
  have le: "card seen \<le> Suc newest - first"
    using card_mono [OF finite_atLeastAtMost f(2)] by simp
  show ?thesis
  proof (cases "newest < n")
    case True
    then obtain d where d: "n = newest + d" "0 < d" "d \<le> 256" using n(3) by (metis add_le_cancel_left less_imp_add_positive)
    have adv: "word_of_nat n - word_of_nat newest = (word_of_nat d :: u16)" using d(1) by simp
    have u: "unat (word_of_nat d :: u16) = d" using d(3) by (simp add: unat_small16)
    have "word_of_nat d \<noteq> (0 :: u16)" "word_of_nat d \<le> MAX_REORDER"
      using u d by (auto simp: MAX_REORDER_def word_le_nat_alt unat_eq_0 [symmetric])
    moreover have "ucast (word_of_nat d - 1 :: u16) = (word_of_nat (d - 1) :: u32)"
    proof -
      have "(word_of_nat d - 1 :: u16) = word_of_nat (d - 1)" using word_sub_of_nat [of 1 d, where ?'a = 16] d(2) by simp
      moreover have "(ucast (word_of_nat (d - 1) :: u16) :: u32) = word_of_nat (d - 1)"
        using d(3) by (intro word_unat_eq_iff [THEN iffD2]) (simp add: unsigned_ucast_eq unat_of_nat take_bit_nat_eq_self)
      ultimately show ?thesis by simp
    qed
    moreover have "Suc n - first - Suc (card seen) = (Suc newest - first - card seen) + (d - 1)"
      using d le n(1) f(2,3) by (auto simp: subset_iff)
    ultimately show ?thesis
      using t f d(1) True small n(1) card adv
      by (auto simp: tracks_def observe_def Let_def algebra_simps max_def)
  next
    case False
    then obtain d where d: "newest = n + d" "0 < d" "d \<le> 256" using n(4) ne
      by (metis add_le_cancel_left less_imp_add_positive linorder_neqE_nat)
    have adv: "word_of_nat n - word_of_nat newest = (- word_of_nat d :: u16)" "word_of_nat newest - word_of_nat n = (word_of_nat d :: u16)"
      using d(1) by simp_all
    have u: "unat (word_of_nat d :: u16) = d" using d(3) by (simp add: unat_small16)
    have neg: "(- word_of_nat d :: u16) = word_of_nat (65536 - d)"
      using word_sub_of_nat [of d 65536, where ?'a = 16] d(3) by simp
    have "unat (- word_of_nat d :: u16) = 65536 - d" unfolding neg using d(2) by (intro unat_small16) simp
    then have "- word_of_nat d \<noteq> (0 :: u16)" "\<not> - word_of_nat d \<le> MAX_REORDER" "word_of_nat d \<le> MAX_REORDER"
      using u d by (auto simp: MAX_REORDER_def word_le_nat_alt unat_eq_0 [symmetric])
    moreover have "card seen < Suc newest - first"
    proof -
      have "seen \<subset> {first..newest}" using f(2) n(1,2) d(1) by auto
      from psubset_card_mono [OF finite_atLeastAtMost this] show ?thesis by simp
    qed
    moreover from this have "saturating_sub (word_of_nat (Suc newest - first - card seen) :: u32) 1 =
        word_of_nat (Suc newest - first - Suc (card seen))"
    proof -
      have "0 < card seen" using f(1,3) by (auto simp: card_gt_0_iff)
      then have "Suc newest - first - card seen < 2 ^ 32" using small d(1) by simp
      with \<open>card seen < Suc newest - first\<close> saturating_dec [of "Suc newest - first - card seen"]
      show ?thesis by simp
    qed
    ultimately show ?thesis
      using t f d(1) False n(1) card adv
      by (auto simp: tracks_def observe_def Let_def max_def)
  qed
qed

lemma tracks_observe_all:
  "tracks first newest seen t \<Longrightarrow> plausible first newest seen ns \<Longrightarrow>
     Max (set (newest # ns)) - first < 2 ^ 32 \<Longrightarrow>
     tracks first (Max (set (newest # ns))) (seen \<union> set ns) (observe_all ns t)"
proof (induction ns arbitrary: newest seen t)
  case Nil
  then show ?case by (simp add: observe_all_def)
next
  case (Cons n ns)
  have mx: "Max (set (max newest n # ns)) = Max (set (newest # n # ns))"
    by (cases "ns = []") (simp_all add: max.assoc)
  have "max newest n \<le> Max (set (max newest n # ns))" by (intro Max_ge) auto
  then have small: "max newest n - first < 2 ^ 32" using Cons.prems(3) mx by linarith
  from Cons.prems(2) have n: "first \<le> n" "n \<notin> seen" "n \<le> newest + 256" "newest \<le> n + 256"
    "plausible first (max newest n) (insert n seen) ns" by auto
  from Cons.IH [OF tracks_observe [OF Cons.prems(1) n(1-4) small] n(5)] Cons.prems(3)
  show ?case by (simp add: observe_all_def mx del: set_simps Max_insert) (simp add: insert_commute)
qed

subsection \<open>The bandwidth estimate\<close>

definition bitrate_ok :: "BitrateEstimator \<Rightarrow> bool" where
  "bitrate_ok e \<longleftrightarrow> MIN_BITRATE_BPS \<le> be_estimate_bps e \<and> be_estimate_bps e \<le> MAX_BITRATE_BPS"

lemma clamp_bounds: "lo \<le> hi \<Longrightarrow> lo \<le> clamp lo hi x" "lo \<le> hi \<Longrightarrow> clamp lo hi x \<le> hi"
  by (auto simp: clamp_def)

lemma clamp_id: "lo \<le> x \<Longrightarrow> x \<le> hi \<Longrightarrow> clamp lo hi x = x"
  by (auto simp: clamp_def not_less)

lemma clamp_le: "lo \<le> x \<Longrightarrow> y \<le> x \<Longrightarrow> clamp lo hi y \<le> x"
  by (auto simp: clamp_def)

lemma clamp_ge: "x \<le> hi \<Longrightarrow> x \<le> y \<Longrightarrow> x \<le> clamp lo hi y"
  by (auto simp: clamp_def)

lemma bitrate_range: "MIN_BITRATE_BPS \<le> MAX_BITRATE_BPS"
  by (simp add: MIN_BITRATE_BPS_def MAX_BITRATE_BPS_def)

lemma bitrate_ok_keeps:
  "bitrate_ok (bitrate_new b)"
  "bitrate_ok e \<Longrightarrow> bitrate_ok (observe_delay d e)"
  "bitrate_ok e \<Longrightarrow> bitrate_ok (bitrate_update loss now e)"
  by (auto simp: bitrate_ok_def bitrate_new_def observe_delay_def bitrate_update_def Let_def clamp_bounds bitrate_range
    split: option.split)

lemma f64_of_div2: "f64_of ((n :: u32) div 2) \<le> f64_of n * (1 / 2)"
proof -
  have "2 * (unat n div 2) \<le> unat n" by simp
  then have "rat_of_nat (2 * (unat n div 2)) \<le> rat_of_nat (unat n)" by (simp only: of_nat_le_iff)
  then show ?thesis unfolding f64_of_nat by (simp add: unat_div)
qed

text \<open>A cut keeps at least half of the rate and never raises it.\<close>

lemma next_rate_cut:
  assumes "0 \<le> loss" "loss > f64_lit (10 / 100)"
  shows "be_estimate_bps e div 2 \<le> as_u32 (next_rate loss e)" "as_u32 (next_rate loss e) \<le> be_estimate_bps e"
proof -
  let ?c = "f64_of (be_estimate_bps e)" and ?m = "max (f64_sub 1 (f64_mul (1 / 2) loss)) (1 / 2)"
  have nr: "next_rate loss e = f64_round (?c * ?m)"
    using assms(2) by (simp add: next_rate_def f64_mul_def Let_def)
  have c: "0 \<le> ?c" by (rule f64_of_nonneg)
  have "0 \<le> f64_mul (1 / 2) loss"
    using f64_round_ge_int [of 0 "1 / 2 * loss"] assms(1) by (simp add: f64_mul_def)
  then have "f64_sub 1 (f64_mul (1 / 2) loss) \<le> 1"
    using f64_round_le_int [of "1 - f64_mul (1 / 2) loss" 1] by (simp add: f64_sub_def)
  then have m: "1 / 2 \<le> ?m" "?m \<le> 1" by auto
  have "?c * (1 / 2) \<le> ?c * ?m" using m(1) c by (rule mult_left_mono)
  with f64_of_div2 have "f64_of (be_estimate_bps e div 2) \<le> ?c * ?m" by (rule order_trans)
  then show "be_estimate_bps e div 2 \<le> as_u32 (next_rate loss e)" unfolding nr by (rule as_u32_round_ge)
  have "?c * ?m \<le> ?c" using m(2) c by (simp only: mult_left_le)
  then show "as_u32 (next_rate loss e) \<le> be_estimate_bps e" unfolding nr by (rule as_u32_round_le)
qed

lemma next_rate_raise:
  assumes "\<not> loss > f64_lit (10 / 100)"
  shows "be_estimate_bps e \<le> as_u32 (next_rate loss e)"
    and "loss \<ge> f64_lit (2 / 100) \<or> be_delay_pressure e \<Longrightarrow> as_u32 (next_rate loss e) = be_estimate_bps e"
proof -
  let ?c = "f64_of (be_estimate_bps e)"
  have c: "0 \<le> ?c" by (rule f64_of_nonneg)
  have lit: "1 \<le> f64_lit (105 / 100)" using f64_round_ge_int [of 1 "105 / 100"] by (simp add: f64_lit_def)
  have "?c \<le> ?c * f64_lit (105 / 100)" using mult_left_mono [OF lit c] by simp
  then have "be_estimate_bps e \<le> as_u32 (f64_mul ?c (f64_lit (105 / 100)))"
    unfolding f64_mul_def by (rule as_u32_round_ge)
  then show "be_estimate_bps e \<le> as_u32 (next_rate loss e)"
    using assms by (simp add: next_rate_def Let_def)
  show "as_u32 (next_rate loss e) = be_estimate_bps e" if "loss \<ge> f64_lit (2 / 100) \<or> be_delay_pressure e"
    using that assms by (auto simp: next_rate_def Let_def not_less)
qed

subsection \<open>The ladder controller\<close>

text \<open>A run of updates, each with its bandwidth estimate, loss and clock reading.\<close>

type_synonym ladder_input = "u32 \<times> f64 \<times> u64"

definition recommends :: "ladder_input \<Rightarrow> u8" where
  "recommends u = (case u of (bwe, loss, _) \<Rightarrow> lr_rung (select_rung bwe loss))"

definition input_time :: "ladder_input \<Rightarrow> u64" where
  "input_time u = snd (snd u)"

fun ladder_run :: "ladder_input list \<Rightarrow> LadderController \<Rightarrow> LadderController" where
  "ladder_run [] c = c"
| "ladder_run ((bwe, loss, now) # us) c = ladder_run us (snd (ladder_update bwe loss now c))"

lemma ladder_run_append: "ladder_run (us @ vs) c = ladder_run vs (ladder_run us c)"
  by (induction us c rule: ladder_run.induct) simp_all

lemma ladder_run_snoc: "ladder_run (us @ [u]) c = ladder_advance (recommends u) (input_time u) (ladder_run us c)"
  by (cases u) (simp add: ladder_run_append recommends_def input_time_def ladder_update_def Let_def)

lemma select_rung_in: "select_rung bwe loss \<in> set LADDER"
proof -
  have "bandwidth_rung bwe < 8" by (simp add: bandwidth_rung_def Let_def)
  moreover have "length LADDER = 8" by (simp add: LADDER_def)
  ultimately show ?thesis unfolding select_rung_def by (simp del: One_nat_def)
qed

lemma select_rung_le: "lr_rung (select_rung bwe loss) \<le> 7"
proof -
  have "list_all (\<lambda>r. lr_rung r \<le> 7) LADDER" by (simp add: LADDER_def ladder_rung_def)
  with select_rung_in show ?thesis unfolding list_all_iff by blast
qed

text \<open>What is pending was recommended at every update since the time noted with it.\<close>

definition sustained :: "u8 \<Rightarrow> u64 \<Rightarrow> ladder_input list \<Rightarrow> bool" where
  "sustained target since us \<longleftrightarrow>
     (\<exists>xs y ys. us = xs @ y # ys \<and> input_time y = since \<and> (\<forall>u \<in> set (y # ys). recommends u = target))"

lemma sustained_snoc: "sustained t s us \<Longrightarrow> recommends u = t \<Longrightarrow> sustained t s (us @ [u])"
proof -
  assume "sustained t s us" "recommends u = t"
  then obtain xs y ys where "us = xs @ y # ys" "input_time y = s" "\<forall>u \<in> set (y # ys). recommends u = t"
    unfolding sustained_def by blast
  with \<open>recommends u = t\<close> show ?thesis
    unfolding sustained_def by (intro exI [of _ xs] exI [of _ y] exI [of _ "ys @ [u]"]) auto
qed

lemma sustained_start: "recommends u = t \<Longrightarrow> sustained t (input_time u) (us @ [u])"
  unfolding sustained_def by (intro exI [of _ us] exI [of _ u] exI [of _ "[]"]) simp

definition ladder_ok :: "ladder_input list \<Rightarrow> LadderController \<Rightarrow> bool" where
  "ladder_ok us c \<longleftrightarrow>
     lc_current c \<le> 7 \<and> lc_demote_after_ms c = 2000 \<and> lc_promote_after_ms c = 10000 \<and>
     (case lc_pending c of None \<Rightarrow> True | Some (t, s) \<Rightarrow> sustained t s us)"

lemma ladder_ok_run: "ladder_ok us (ladder_run us ladder_controller_new)"
proof (induction us rule: rev_induct)
  case Nil
  show ?case by (simp add: ladder_ok_def ladder_controller_new_def)
next
  case (snoc u us)
  have "recommends u \<le> 7" by (simp add: recommends_def select_rung_le split: prod.split)
  with snoc show ?case
    unfolding ladder_run_snoc ladder_ok_def ladder_advance_def Let_def
    by (auto split: option.splits if_splits intro: sustained_snoc sustained_start)
qed

subsection \<open>Properties\<close>

text \<open>C36. Loss is counted exactly. Let the packets that arrive, by their true numbers, be pairwise
  different, none before the first, each within \<open>MAX_REORDER\<close> of the newest before it, in any order; the
  tracker sees only their low sixteen bits, which wrap. Then it has counted as received exactly the
  packets that came and as lost exactly the numbers between the first and the newest that did not.\<close>

theorem loss_counting_exact:
  assumes "plausible n n {n} ns" and "Max (set (n # ns)) - n < 2 ^ 32"
  shows "unat (sq_lost (observe_all (n # ns) sequence_tracker_new)) = card ({n..Max (set (n # ns))} - set (n # ns)) \<and>
    sq_received (observe_all (n # ns) sequence_tracker_new) = word_of_nat (card (set (n # ns)))"
proof -
  let ?M = "Max (set (n # ns))" and ?t = "observe_all (n # ns) sequence_tracker_new"
  have start: "tracks n n {n} (observe (word_of_nat n) sequence_tracker_new)"
    by (simp add: tracks_def observe_def sequence_tracker_new_def)
  from tracks_observe_all [OF start assms]
  have tr: "tracks n ?M (set (n # ns)) ?t" by (simp add: observe_all_def)
  then have sub: "set (n # ns) \<subseteq> {n..?M}" by (simp only: tracks_def)
  have "card ({n..?M} - set (n # ns)) = Suc ?M - n - card (set (n # ns))"
    using sub by (subst card_Diff_subset) auto
  moreover have "0 < card (set (n # ns))" by (simp add: card_gt_0_iff)
  ultimately have "unat (word_of_nat (Suc ?M - n - card (set (n # ns))) :: u32) = card ({n..?M} - set (n # ns))"
    using assms(2) by (subst unat_small32) linarith+
  with tr show ?thesis by (simp only: tracks_def)
qed

theorem loss_counting_exact_witness:
  "unat (sq_lost (observe_all [65534, 65537, 65535, 65540] sequence_tracker_new)) =
     card ({65534..65540} - {65534, 65537, 65535, 65540 :: nat})"
proof -
  have "plausible 65534 65534 {65534} [65537, 65535, 65540]" by simp
  moreover have "Max (set [65534, 65537, 65535, 65540 :: nat]) = 65540" by simp
  ultimately show ?thesis
    using loss_counting_exact [of 65534 "[65537, 65535, 65540]"] by simp
qed

text \<open>The bandwidth estimate reacts as documented and stays in range: within 250 ms of the last change it
  does not move; above ten percent loss it falls, to no less than half in one step; between two and ten
  percent, or while the receiver's buffer grows, it holds; otherwise it never falls. It never leaves
  150 kbit/s to 12 Mbit/s. The rounding of the floating-point products is accounted for.\<close>

theorem bitrate_reaction:
  fixes e :: BitrateEstimator and loss :: f64 and now :: u64
  defines "e' \<equiv> bitrate_update loss now e"
  assumes "MIN_BITRATE_BPS \<le> be_estimate_bps e" "be_estimate_bps e \<le> MAX_BITRATE_BPS" and "0 \<le> loss"
  shows "MIN_BITRATE_BPS \<le> be_estimate_bps e' \<and> be_estimate_bps e' \<le> MAX_BITRATE_BPS \<and>
    (if (\<exists>prev. be_last_update_ms e = Some prev \<and> saturating_sub now prev < 250) then e' = e
     else if loss > f64_lit (10 / 100)
     then be_estimate_bps e div 2 \<le> be_estimate_bps e' \<and> be_estimate_bps e' \<le> be_estimate_bps e
     else if loss \<ge> f64_lit (2 / 100) \<or> be_delay_pressure e then be_estimate_bps e' = be_estimate_bps e
     else be_estimate_bps e \<le> be_estimate_bps e')"
proof (cases "\<exists>prev. be_last_update_ms e = Some prev \<and> saturating_sub now prev < 250")
  case True
  then have "e' = e" by (auto simp: e'_def bitrate_update_def BITRATE_UPDATE_INTERVAL_MS_def)
  with True assms show ?thesis by simp
next
  case False
  then have e': "be_estimate_bps e' = clamp MIN_BITRATE_BPS MAX_BITRATE_BPS (as_u32 (next_rate loss e))"
    by (auto simp: e'_def bitrate_update_def BITRATE_UPDATE_INTERVAL_MS_def split: option.splits)
  have half: "be_estimate_bps e div 2 \<le> MAX_BITRATE_BPS"
    using assms(3) by (simp add: word_le_nat_alt unat_div)
  show ?thesis
    unfolding e' using False assms next_rate_cut [of loss e] next_rate_raise [of loss e] half
    by (auto simp: clamp_bounds bitrate_range clamp_id intro: clamp_le clamp_ge)
qed

theorem bitrate_reaction_witness:
  "be_estimate_bps (bitrate_new 1000000) div 2 \<le> be_estimate_bps (bitrate_update (1 / 2) 5 (bitrate_new 1000000)) \<and>
   be_estimate_bps (bitrate_update (1 / 2) 5 (bitrate_new 1000000)) \<le> be_estimate_bps (bitrate_new 1000000)"
proof -
  have ok: "MIN_BITRATE_BPS \<le> be_estimate_bps (bitrate_new 1000000)" "be_estimate_bps (bitrate_new 1000000) \<le> MAX_BITRATE_BPS"
    "be_last_update_ms (bitrate_new 1000000) = None"
    by (simp_all add: bitrate_new_def MIN_BITRATE_BPS_def MAX_BITRATE_BPS_def clamp_def)
  have "f64_lit (10 / 100) < 1 / 2" by code_simp
  with bitrate_reaction [OF ok(1,2), of "1 / 2" 5] ok(3) show ?thesis by simp
qed

text \<open>The ladder does not oscillate: in any run of updates, when the rung in force changes, the new rung
  was recommended at every update over the last two seconds, or ten seconds when quality is to rise,
  and the rung in force is always one of the eight.\<close>

theorem ladder_hysteresis:
  assumes "lc_current (ladder_run (us @ [u]) ladder_controller_new) \<noteq> lc_current (ladder_run us ladder_controller_new)"
  shows "(\<exists>xs y ys. us = xs @ y # ys \<and>
      list_all (\<lambda>v. recommends v = lc_current (ladder_run (us @ [u]) ladder_controller_new)) (y # ys @ [u]) \<and>
      saturating_sub (input_time u) (input_time y) \<ge>
        (if lc_current (ladder_run (us @ [u]) ladder_controller_new) > lc_current (ladder_run us ladder_controller_new)
         then 2000 else 10000)) \<and>
    ladder_current (ladder_run (us @ [u]) ladder_controller_new) \<in> set LADDER"
proof -
  let ?c = "ladder_run us ladder_controller_new" and ?c' = "ladder_run (us @ [u]) ladder_controller_new"
  have ok: "ladder_ok us ?c" by (rule ladder_ok_run)
  have c': "?c' = ladder_advance (recommends u) (input_time u) ?c" by (rule ladder_run_snoc)
  then obtain since where p: "lc_pending ?c = Some (recommends u, since)" "lc_current ?c' = recommends u"
    "saturating_sub (input_time u) since \<ge>
      (if recommends u > lc_current ?c then lc_demote_after_ms ?c else lc_promote_after_ms ?c)"
    using assms by (auto simp: ladder_advance_def Let_def split: if_splits option.splits)
  moreover from ok p(1) obtain xs y ys where "us = xs @ y # ys" "input_time y = since"
    "\<forall>v \<in> set (y # ys). recommends v = recommends u"
    by (auto simp: ladder_ok_def sustained_def)
  ultimately have "\<exists>xs y ys. us = xs @ y # ys \<and> list_all (\<lambda>v. recommends v = lc_current ?c') (y # ys @ [u]) \<and>
      saturating_sub (input_time u) (input_time y) \<ge> (if lc_current ?c' > lc_current ?c then 2000 else 10000)"
    using ok by (intro exI [of _ xs] exI [of _ y] exI [of _ ys]) (auto simp: ladder_ok_def list_all_iff)
  moreover have le7: "lc_current ?c' \<le> 7" using ladder_ok_run [of "us @ [u]"] by (simp add: ladder_ok_def)
  have "unat (lc_current ?c') < length LADDER" using le7 by (simp add: LADDER_def word_le_nat_alt)
  then have "ladder_current ?c' \<in> set LADDER" unfolding ladder_current_def by (rule nth_mem)
  ultimately show ?thesis by blast
qed

theorem ladder_hysteresis_witness:
  "ladder_current (ladder_run ([(300000, 0, 1000)] @ [(300000, 0, 3000)]) ladder_controller_new) \<in> set LADDER \<and>
   lc_current (ladder_run [(300000, 0, 1000), (300000, 0, 3000)] ladder_controller_new) = 6"
proof -
  have "lc_current (ladder_run [(300000, 0, 1000), (300000, 0, 3000)] ladder_controller_new) = 6"
    "lc_current (ladder_run [(300000, 0, 1000)] ladder_controller_new) = 0"
    by code_simp+
  then show ?thesis using ladder_hysteresis [of "[(300000, 0, 1000)]" "(300000, 0, 3000)"] by simp
qed

end
