(* ===== verification/Rda_Jitter.thy ===== *)
theory Rda_Jitter
  imports Rda_Fragments Rda_Telemetry "HOL-Library.Multiset"
begin

text \<open>
  The de-jitter buffer of \<^verbatim>\<open>rda-decode/src/jitter.rs\<close>, over the windowed jitter samples of the telemetry.

  The two \<open>while\<close> loops are partial functions into \<open>option\<close>; that they always return is a theorem, and the
  operations that run them are stated over what they return.
\<close>

subsection \<open>The buffer\<close>

definition MIN_TARGET_MS :: u32 where "MIN_TARGET_MS = 15"
definition MAX_TARGET_MS :: u32 where "MAX_TARGET_MS = 200"
definition DECAY_MS_PER_S :: u32 where "DECAY_MS_PER_S = 5"
definition MAX_QUEUED_FRAMES :: nat where "MAX_QUEUED_FRAMES = 120"
definition CATCHUP_SLACK_MS :: u64 where "CATCHUP_SLACK_MS = 100"
definition STALE_AFTER_MS :: u64 where "STALE_AFTER_MS = 500"

datatype PlayoutDecision = Play EncodedFrame | Wait | Starved

record Queued =
  qd_frame :: EncodedFrame
  qd_arrived_ms :: u64
  qd_due_ms :: u64

record JitterStats =
  js_accepted :: u64
  js_played :: u64
  js_dropped_late :: u64
  js_dropped_overflow :: u64
  js_dropped_reordered :: u64
  js_starvations :: u64

record JitterBuffer =
  jb_queue :: "Queued list"
  jb_target_ms :: u32
  jb_jitter :: JitterEstimator
  jb_last_arrival_ms :: "u64 option"
  jb_last_pts_us :: "u64 option"
  jb_last_played_pts_us :: "u64 option"
  jb_last_decay_ms :: u64
  jb_empty_since_ms :: "u64 option"
  jb_stats :: JitterStats

definition is_discardable :: "EncodedFrame \<Rightarrow> bool" where
  "is_discardable f \<longleftrightarrow> ef_temporal_layer f > 0 \<and> ef_ltr_index f = None \<and> ef_kind f = Delta"

definition jitter_buffer_new :: JitterBuffer where
  "jitter_buffer_new =
     \<lparr>jb_queue = [], jb_target_ms = MIN_TARGET_MS, jb_jitter = jitter_new, jb_last_arrival_ms = None,
      jb_last_pts_us = None, jb_last_played_pts_us = None, jb_last_decay_ms = 0,
      jb_empty_since_ms = None,
      jb_stats = \<lparr>js_accepted = 0, js_played = 0, js_dropped_late = 0, js_dropped_overflow = 0,
        js_dropped_reordered = 0, js_starvations = 0\<rparr>\<rparr>"

text \<open>\<open>(arrival_gap - pts_gap).unsigned_abs() as u32\<close>, both gaps as \<open>i64\<close>.\<close>

definition deviation :: "u64 \<Rightarrow> u64 \<Rightarrow> u32" where
  "deviation arrival_gap pts_gap = word_of_int \<bar>sint (arrival_gap - pts_gap)\<bar>"

definition measure_jitter :: "u64 \<Rightarrow> u64 \<Rightarrow> JitterBuffer \<Rightarrow> JitterBuffer" where
  "measure_jitter pts_us now_ms b =
     (let b = (case (jb_last_arrival_ms b, jb_last_pts_us b) of
                 (Some prev_arrival, Some prev_pts) \<Rightarrow>
                   let arrival_gap = saturating_sub now_ms prev_arrival;
                       pts_gap = saturating_sub pts_us prev_pts div 1000
                   in b\<lparr>jb_jitter := jitter_sample (min (deviation arrival_gap pts_gap) 1000) now_ms (jb_jitter b)\<rparr>
               | _ \<Rightarrow> b)
      in b\<lparr>jb_last_arrival_ms := Some now_ms, jb_last_pts_us := Some pts_us\<rparr>)"

definition adapt_target :: "u64 \<Rightarrow> JitterBuffer \<Rightarrow> JitterBuffer" where
  "adapt_target now_ms b =
     (let observed = percentile95_ms (jb_jitter b);
          b = (if observed > jb_target_ms b
               then b\<lparr>jb_target_ms := min observed MAX_TARGET_MS, jb_last_decay_ms := now_ms\<rparr>
               else if saturating_sub now_ms (jb_last_decay_ms b) \<ge> 1000
               then let seconds = (now_ms - jb_last_decay_ms b) div 1000;
                        decay = ucast (min (ucast DECAY_MS_PER_S * seconds) 0xFFFFFFFF :: u64) :: u32
                    in b\<lparr>jb_target_ms := max (saturating_sub (jb_target_ms b) decay) MIN_TARGET_MS,
                         jb_last_decay_ms := now_ms\<rparr>
               else b)
      in b\<lparr>jb_target_ms := min (max (jb_target_ms b) MIN_TARGET_MS) MAX_TARGET_MS\<rparr>)"

text \<open>\<open>Iterator::position\<close>.\<close>

fun position :: "('a \<Rightarrow> bool) \<Rightarrow> 'a list \<Rightarrow> nat option" where
  "position P [] = None"
| "position P (x # xs) = (if P x then Some 0 else map_option Suc (position P xs))"

definition position_or :: "('a \<Rightarrow> bool) \<Rightarrow> 'a list \<Rightarrow> nat \<Rightarrow> nat" where
  "position_or P xs d = (case position P xs of None \<Rightarrow> d | Some i \<Rightarrow> i)"

text \<open>The loop that lifts the deadlines after the inserted frame to at least \<open>due\<close>.\<close>

fun lift_due :: "u64 \<Rightarrow> Queued list \<Rightarrow> Queued list" where
  "lift_due due [] = []"
| "lift_due due (q # qs) =
     (let q = q\<lparr>qd_due_ms := max (qd_due_ms q) due\<rparr> in q # lift_due (qd_due_ms q) qs)"

definition queue_insert :: "EncodedFrame \<Rightarrow> u64 \<Rightarrow> u32 \<Rightarrow> Queued list \<Rightarrow> Queued list" where
  "queue_insert frame now_ms target_ms queue =
     (let position = position_or (\<lambda>q. ef_pts_us (qd_frame q) > ef_pts_us frame) queue (length queue);
          due_ms = now_ms + ucast target_ms;
          due_ms = (if position > 0 then max due_ms (qd_due_ms (queue ! (position - 1))) else due_ms)
      in take position queue
         @ \<lparr>qd_frame = frame, qd_arrived_ms = now_ms, qd_due_ms = due_ms\<rparr>
         # lift_due due_ms (drop position queue))"

definition remove_at :: "nat \<Rightarrow> 'a list \<Rightarrow> 'a list" where
  "remove_at i xs = take i xs @ drop (Suc i) xs"

partial_function (option) enforce_capacity :: "JitterBuffer \<Rightarrow> JitterBuffer option" where
  "enforce_capacity b =
     (if length (jb_queue b) > MAX_QUEUED_FRAMES
      then enforce_capacity
        (b\<lparr>jb_queue := remove_at (position_or (\<lambda>q. is_discardable (qd_frame q)) (jb_queue b) 0) (jb_queue b),
           jb_stats := (jb_stats b)\<lparr>js_dropped_overflow := js_dropped_overflow (jb_stats b) + 1\<rparr>\<rparr>)
      else Some b)"

definition push :: "EncodedFrame \<Rightarrow> u64 \<Rightarrow> JitterBuffer \<Rightarrow> (bool \<times> JitterBuffer) option" where
  "push frame now_ms b =
     (let b = b\<lparr>jb_stats := (jb_stats b)\<lparr>js_accepted := js_accepted (jb_stats b) + 1\<rparr>\<rparr>;
          b = measure_jitter (ef_pts_us frame) now_ms b
      in if (case jb_last_played_pts_us b of None \<Rightarrow> False | Some played \<Rightarrow> ef_pts_us frame \<le> played)
         then Some (False,
           b\<lparr>jb_stats := (jb_stats b)\<lparr>js_dropped_reordered := js_dropped_reordered (jb_stats b) + 1\<rparr>\<rparr>)
         else let b = adapt_target now_ms b;
                  b = b\<lparr>jb_queue := queue_insert frame now_ms (jb_target_ms b) (jb_queue b),
                        jb_empty_since_ms := None\<rparr>
              in map_option (\<lambda>b. (True, b)) (enforce_capacity b))"

definition drop_front :: "JitterBuffer \<Rightarrow> JitterBuffer" where
  "drop_front b =
     b\<lparr>jb_queue := tl (jb_queue b),
       jb_stats := (jb_stats b)\<lparr>js_dropped_late := js_dropped_late (jb_stats b) + 1\<rparr>\<rparr>"

partial_function (option) catch_up :: "u64 \<Rightarrow> JitterBuffer \<Rightarrow> JitterBuffer option" where
  "catch_up now_ms b =
     (if length (jb_queue b) > 1 \<and> now_ms > qd_due_ms (jb_queue b ! 0) + CATCHUP_SLACK_MS
         \<and> qd_due_ms (jb_queue b ! 1) \<le> now_ms
      then catch_up now_ms (drop_front b) else Some b)"

definition drop_stale :: "u64 \<Rightarrow> JitterBuffer \<Rightarrow> JitterBuffer" where
  "drop_stale now_ms b =
     (case jb_queue b of
        [] \<Rightarrow> b
      | front # _ \<Rightarrow> if now_ms > qd_due_ms front + STALE_AFTER_MS then drop_front b else b)"

definition poll_empty :: "u64 \<Rightarrow> JitterBuffer \<Rightarrow> PlayoutDecision \<times> JitterBuffer" where
  "poll_empty now_ms b =
     (case jb_empty_since_ms b of
        None \<Rightarrow> (Wait, b\<lparr>jb_empty_since_ms := Some now_ms\<rparr>)
      | Some since \<Rightarrow>
          if saturating_sub now_ms since > 500
          then (Starved, b\<lparr>jb_empty_since_ms := Some now_ms,
                 jb_stats := (jb_stats b)\<lparr>js_starvations := js_starvations (jb_stats b) + 1\<rparr>\<rparr>)
          else (Wait, b))"

definition poll :: "u64 \<Rightarrow> JitterBuffer \<Rightarrow> (PlayoutDecision \<times> JitterBuffer) option" where
  "poll now_ms b =
     map_option (\<lambda>b.
       let b = drop_stale now_ms b in
       case jb_queue b of
         [] \<Rightarrow> poll_empty now_ms b
       | front # rest \<Rightarrow>
           if now_ms < qd_due_ms front then (Wait, b)
           else (Play (qd_frame front),
                 b\<lparr>jb_queue := rest, jb_last_played_pts_us := Some (ef_pts_us (qd_frame front)),
                   jb_stats := (jb_stats b)\<lparr>js_played := js_played (jb_stats b) + 1\<rparr>\<rparr>))
       (catch_up now_ms b)"

definition jitter_reset :: "JitterBuffer \<Rightarrow> JitterBuffer" where
  "jitter_reset b =
     b\<lparr>jb_queue := [], jb_last_played_pts_us := None, jb_last_arrival_ms := None, jb_last_pts_us := None,
       jb_empty_since_ms := None\<rparr>"

definition oldest_age_ms :: "u64 \<Rightarrow> JitterBuffer \<Rightarrow> u32" where
  "oldest_age_ms now_ms b =
     (case jb_queue b of [] \<Rightarrow> 0 | q # _ \<Rightarrow> ucast (saturating_sub now_ms (qd_arrived_ms q)))"

subsection \<open>The loops return\<close>

definition dropped :: "JitterBuffer \<Rightarrow> u64" where
  "dropped b = js_dropped_late (jb_stats b) + js_dropped_overflow (jb_stats b) + js_dropped_reordered (jb_stats b)"

text \<open>What every frame in the buffer satisfies, and the book-keeping of frames.\<close>

abbreviation pts :: "Queued \<Rightarrow> u64" where
  "pts q \<equiv> ef_pts_us (qd_frame q)"

definition queue_ok :: "u64 option \<Rightarrow> Queued list \<Rightarrow> bool" where
  "queue_ok played qs \<longleftrightarrow>
     sorted (map pts qs) \<and> sorted (map qd_due_ms qs) \<and>
     (case played of None \<Rightarrow> True | Some p \<Rightarrow> list_all (\<lambda>q. p \<le> pts q) qs)"

text \<open>Of the frames accepted, \<open>cleared\<close> went with a reset and the others were played, dropped or wait.\<close>

definition balanced :: "nat \<Rightarrow> JitterBuffer \<Rightarrow> bool" where
  "balanced cleared b \<longleftrightarrow>
     js_accepted (jb_stats b) =
       js_played (jb_stats b) + dropped b + word_of_nat (length (jb_queue b)) + word_of_nat cleared"

definition queued_frames :: "JitterBuffer \<Rightarrow> EncodedFrame multiset" where
  "queued_frames b = mset (map qd_frame (jb_queue b))"

definition jitter_wf :: "JitterBuffer \<Rightarrow> bool" where
  "jitter_wf b \<longleftrightarrow>
     queue_ok (jb_last_played_pts_us b) (jb_queue b) \<and>
     MIN_TARGET_MS \<le> jb_target_ms b \<and> jb_target_ms b \<le> MAX_TARGET_MS"

lemma take_drop_middle: "i \<le> j \<Longrightarrow> xs = take i xs @ drop i (take j xs) @ drop j xs"
  by (metis append_take_drop_id append_assoc min.absorb1 take_take)

lemma sorted_take_drop: "sorted (xs :: u64 list) \<Longrightarrow> i \<le> j \<Longrightarrow> sorted (take i xs @ drop j xs)"
proof -
  assume xs: "sorted xs" and ij: "i \<le> j"
  have "sorted (take i xs @ drop i (take j xs) @ drop j xs)"
    using xs take_drop_middle [OF ij, of xs] by simp
  then show ?thesis unfolding sorted_append by auto
qed

lemma queue_ok_subseq: "queue_ok p qs \<Longrightarrow> i \<le> j \<Longrightarrow> queue_ok p (take i qs @ drop j qs)"
proof -
  assume ok: "queue_ok p qs" and ij: "i \<le> j"
  have srt: "sorted (map f (take i qs @ drop j qs))" if "sorted (map f qs)" for f :: "Queued \<Rightarrow> u64"
    using sorted_take_drop [OF that ij] by (simp only: map_append take_map drop_map)
  have low: "list_all P (take i qs @ drop j qs)" if "list_all P qs" for P
    using that by (auto simp: list_all_iff dest: in_set_takeD in_set_dropD)
  from ok have "sorted (map pts qs)" "sorted (map qd_due_ms qs)"
    "case p of None \<Rightarrow> True | Some t \<Rightarrow> list_all (\<lambda>q. t \<le> pts q) qs"
    unfolding queue_ok_def by blast+
  then show ?thesis
    unfolding queue_ok_def using srt low by (cases p) (simp_all only: option.case simp_thms)
qed

lemma queue_ok_tl: "queue_ok p qs \<Longrightarrow> queue_ok p (tl qs)"
  using queue_ok_subseq [of p qs 0 1] by (simp add: drop_Suc)

lemma position_less: "position P xs = Some i \<Longrightarrow> i < length xs"
  by (induction xs arbitrary: i) (auto split: if_splits)

lemma position_or_less: "xs \<noteq> [] \<Longrightarrow> position_or P xs 0 < length xs"
  by (auto simp: position_or_def position_less split: option.splits)

lemma length_remove_at: "i < length xs \<Longrightarrow> length (remove_at i xs) = length xs - 1"
  by (simp add: remove_at_def)

text \<open>Only the queue and the counters of drops change, and no frame is lost from the books.\<close>

definition same_but_drops :: "JitterBuffer \<Rightarrow> JitterBuffer \<Rightarrow> bool" where
  "same_but_drops b b' \<longleftrightarrow>
     jb_target_ms b' = jb_target_ms b \<and> jb_last_played_pts_us b' = jb_last_played_pts_us b \<and>
     (\<forall>n. balanced n b \<longrightarrow> balanced n b') \<and>
     queued_frames b' \<subseteq># queued_frames b \<and>
     (\<forall>p. queue_ok p (jb_queue b) \<longrightarrow> queue_ok p (jb_queue b'))"

lemma same_but_drops_refl [simp]: "same_but_drops b b"
  by (simp add: same_but_drops_def)

lemma same_but_drops_trans: "same_but_drops a b \<Longrightarrow> same_but_drops b c \<Longrightarrow> same_but_drops a c"
  unfolding same_but_drops_def by (auto intro: subset_mset.order_trans)

lemma mset_remove_at: "mset (map f (remove_at i xs)) \<subseteq># mset (map f xs)"
proof -
  have "xs = take i xs @ drop i (take (Suc i) xs) @ drop (Suc i) xs" by (rule take_drop_middle) simp
  then have "mset xs = mset (take i xs) + mset (drop i (take (Suc i) xs)) + mset (drop (Suc i) xs)"
    by (metis mset_append add.assoc)
  then have "mset (remove_at i xs) \<subseteq># mset xs" by (simp add: remove_at_def)
  then show ?thesis by (metis image_mset_subseteq_mono mset_map)
qed

lemma same_but_drops_remove:
  assumes "i < length (jb_queue b)"
  shows "same_but_drops b (b\<lparr>jb_queue := remove_at i (jb_queue b),
    jb_stats := (jb_stats b)\<lparr>js_dropped_overflow := js_dropped_overflow (jb_stats b) + 1\<rparr>\<rparr>)"
proof -
  obtain n where n: "length (jb_queue b) = Suc n" "length (remove_at i (jb_queue b)) = n"
    using assms length_remove_at [OF assms] by (cases "length (jb_queue b)") auto
  then show ?thesis
    using queue_ok_subseq [of _ "jb_queue b" i "Suc i"]
    by (auto simp: same_but_drops_def balanced_def dropped_def queued_frames_def
      mset_remove_at [simplified] algebra_simps simp flip: remove_at_def)
qed

lemma same_but_drops_front: "jb_queue b \<noteq> [] \<Longrightarrow> same_but_drops b (drop_front b)"
  by (cases "jb_queue b")
    (auto simp: same_but_drops_def drop_front_def balanced_def dropped_def queued_frames_def algebra_simps
      dest: queue_ok_tl)

lemma enforce_capacity_returns:
  "\<exists>b'. enforce_capacity b = Some b' \<and> same_but_drops b b' \<and>
     length (jb_queue b') = min (length (jb_queue b)) MAX_QUEUED_FRAMES"
proof (induction "length (jb_queue b)" arbitrary: b rule: less_induct)
  case less
  show ?case
  proof (cases "length (jb_queue b) > MAX_QUEUED_FRAMES")
    case False
    then show ?thesis by (subst enforce_capacity.simps) simp
  next
    case True
    let ?i = "position_or (\<lambda>q. is_discardable (qd_frame q)) (jb_queue b) 0"
    let ?b = "b\<lparr>jb_queue := remove_at ?i (jb_queue b),
      jb_stats := (jb_stats b)\<lparr>js_dropped_overflow := js_dropped_overflow (jb_stats b) + 1\<rparr>\<rparr>"
    have i: "?i < length (jb_queue b)" using True by (intro position_or_less) auto
    have len: "length (jb_queue ?b) = length (jb_queue b) - 1" using length_remove_at [OF i] by simp
    with True have "length (jb_queue ?b) < length (jb_queue b)" by simp
    from less [OF this] obtain b' where "enforce_capacity ?b = Some b'" "same_but_drops ?b b'"
      "length (jb_queue b') = min (length (jb_queue ?b)) MAX_QUEUED_FRAMES" by blast
    moreover have "enforce_capacity b = enforce_capacity ?b"
      using True by (subst enforce_capacity.simps) simp
    ultimately show ?thesis
      using same_but_drops_remove [OF i] True len by (auto intro: same_but_drops_trans)
  qed
qed

lemma catch_up_returns:
  "\<exists>b'. catch_up now b = Some b' \<and> same_but_drops b b' \<and> length (jb_queue b') \<le> length (jb_queue b) \<and>
     \<not> (length (jb_queue b') > 1 \<and> now > qd_due_ms (jb_queue b' ! 0) + CATCHUP_SLACK_MS \<and>
        qd_due_ms (jb_queue b' ! 1) \<le> now)"
proof (induction "length (jb_queue b)" arbitrary: b rule: less_induct)
  case less
  show ?case
  proof (cases "length (jb_queue b) > 1 \<and> now > qd_due_ms (jb_queue b ! 0) + CATCHUP_SLACK_MS \<and>
      qd_due_ms (jb_queue b ! 1) \<le> now")
    case False
    then show ?thesis by (subst catch_up.simps) (auto simp del: One_nat_def)
  next
    case True
    then have ne: "jb_queue b \<noteq> []" "length (jb_queue (drop_front b)) < length (jb_queue b)"
      by (auto simp: drop_front_def)
    have "catch_up now b = catch_up now (drop_front b)"
      using True by (subst catch_up.simps) simp
    moreover from less [OF ne(2)] obtain b' where b': "catch_up now (drop_front b) = Some b'"
      "same_but_drops (drop_front b) b'" "length (jb_queue b') \<le> length (jb_queue (drop_front b))"
      "\<not> (length (jb_queue b') > 1 \<and> now > qd_due_ms (jb_queue b' ! 0) + CATCHUP_SLACK_MS \<and>
        qd_due_ms (jb_queue b' ! 1) \<le> now)" by blast
    moreover have "same_but_drops b b'" using same_but_drops_front [OF ne(1)] b'(2) by (rule same_but_drops_trans)
    moreover have "length (jb_queue b') \<le> length (jb_queue b)" using b'(3) ne(2) by linarith
    ultimately show ?thesis by auto
  qed
qed

subsection \<open>Insertion\<close>

lemma lift_due_pts: "map pts (lift_due due qs) = map pts qs"
  by (induction due qs rule: lift_due.induct) (simp_all add: Let_def)

lemma length_lift_due [simp]: "length (lift_due due qs) = length qs"
  by (induction due qs rule: lift_due.induct) (simp_all add: Let_def)

lemma lift_due_sorted:
  "sorted (map qd_due_ms (lift_due due qs)) \<and> (\<forall>q \<in> set (lift_due due qs). due \<le> qd_due_ms q)"
  by (induction due qs rule: lift_due.induct) (auto simp: Let_def intro: order_trans max.cobounded2)

lemma position_None: "position P xs = None \<Longrightarrow> x \<in> set xs \<Longrightarrow> \<not> P x"
  by (induction xs) (auto split: if_splits)

lemma position_Some_before: "position P xs = Some i \<Longrightarrow> x \<in> set (take i xs) \<Longrightarrow> \<not> P x"
  by (induction xs arbitrary: i) (auto split: if_splits simp: take_Cons')

lemma position_Some_at: "position P xs = Some i \<Longrightarrow> P (xs ! i)"
  by (induction xs arbitrary: i) (auto split: if_splits)

lemma queue_insert_split:
  fixes frame qs
  defines "i \<equiv> position_or (\<lambda>q. pts q > ef_pts_us frame) qs (length qs)"
  assumes "sorted (map pts qs)"
  shows "\<forall>q \<in> set (take i qs). pts q \<le> ef_pts_us frame" "\<forall>q \<in> set (drop i qs). ef_pts_us frame \<le> pts q"
    and "i \<le> length qs"
proof -
  let ?P = "\<lambda>q. pts q > ef_pts_us frame"
  have "(\<forall>q \<in> set (take i qs). pts q \<le> ef_pts_us frame) \<and> (\<forall>q \<in> set (drop i qs). ef_pts_us frame \<le> pts q) \<and>
      i \<le> length qs"
  proof (cases "position ?P qs")
    case None
    then show ?thesis using position_None [OF None] by (auto simp: i_def position_or_def not_less)
  next
    case (Some k)
    then have k: "k < length qs" "pts (qs ! k) > ef_pts_us frame" "i = k"
      using position_less position_Some_at [OF Some] by (auto simp: i_def position_or_def)
    have "ef_pts_us frame \<le> pts q" if q: "q \<in> set (drop k qs)" for q
    proof -
      from q obtain j where "j < length qs" "k \<le> j" "q = qs ! j"
        by (auto simp: in_set_conv_nth) (metis add.commute le_add2 less_diff_conv)
      with k sorted_nth_mono [OF assms(2), of k j] show ?thesis by simp
    qed
    then show ?thesis using position_Some_before [OF Some] k by (auto simp: not_less)
  qed
  then show "\<forall>q \<in> set (take i qs). pts q \<le> ef_pts_us frame" "\<forall>q \<in> set (drop i qs). ef_pts_us frame \<le> pts q"
    "i \<le> length qs" by auto
qed

lemma length_queue_insert [simp]: "length (queue_insert frame now target qs) = Suc (length qs)"
  using position_less [of "\<lambda>q. pts q > ef_pts_us frame" qs]
  by (auto simp: queue_insert_def Let_def position_or_def min_def split: option.split)

lemma queue_ok_insert:
  assumes "queue_ok p qs" "case p of None \<Rightarrow> True | Some t \<Rightarrow> t \<le> ef_pts_us frame"
  shows "queue_ok p (queue_insert frame now target qs)"
proof -
  define i where "i = position_or (\<lambda>q. pts q > ef_pts_us frame) qs (length qs)"
  define due where "due = (if i > 0 then max (now + ucast target) (qd_due_ms (qs ! (i - 1))) else now + ucast target)"
  let ?q = "\<lparr>qd_frame = frame, qd_arrived_ms = now, qd_due_ms = due\<rparr>"
  have ins: "queue_insert frame now target qs = take i qs @ ?q # lift_due due (drop i qs)"
    by (simp add: queue_insert_def Let_def i_def due_def)
  have srt: "sorted (map pts qs)" "sorted (map qd_due_ms qs)" using assms(1) by (simp_all add: queue_ok_def)
  note sp = queue_insert_split [OF srt(1), of frame, folded i_def]
  have pts': "map pts (queue_insert frame now target qs) = map pts (take i qs) @ ef_pts_us frame # map pts (drop i qs)"
    by (simp add: ins lift_due_pts)
  have "sorted (map pts (take i qs))" "sorted (map pts (drop i qs))"
    using srt(1) by (simp_all add: sorted_wrt_take sorted_wrt_drop flip: take_map drop_map)
  then have "sorted (map pts (queue_insert frame now target qs))"
    unfolding pts' using sp(1,2) by (fastforce simp: sorted_append)
  moreover have "qd_due_ms q \<le> due" if q: "q \<in> set (take i qs)" for q
  proof -
    from q obtain j where j: "j < i" "j < length qs" "q = qs ! j" by (auto simp: in_set_conv_nth)
    then have "qd_due_ms q \<le> qd_due_ms (qs ! (i - 1))"
      using sorted_nth_mono [OF srt(2), of j "i - 1"] sp(3) by simp
    with j(1) show ?thesis by (simp add: due_def le_max_iff_disj)
  qed
  moreover have "sorted (map qd_due_ms (take i qs))"
    using srt(2) by (simp add: sorted_wrt_take flip: take_map)
  ultimately have "sorted (map qd_due_ms (queue_insert frame now target qs))"
    "sorted (map pts (queue_insert frame now target qs))"
    unfolding ins using lift_due_sorted [of due "drop i qs"]
    by (auto simp: sorted_append intro: order_trans)
  moreover have "list_all (\<lambda>q. t \<le> pts q) (queue_insert frame now target qs)" if "p = Some t" for t
  proof -
    have "list_all ((\<le>) t) (map pts (queue_insert frame now target qs))"
      unfolding pts' using assms that by (auto simp: queue_ok_def list_all_iff dest: in_set_takeD in_set_dropD)
    then show ?thesis by (simp add: list_all_iff)
  qed
  ultimately show ?thesis by (auto simp: queue_ok_def split: option.split)
qed

lemma mset_lift_due: "mset (map qd_frame (lift_due due qs)) = mset (map qd_frame qs)"
  by (induction due qs rule: lift_due.induct) (simp_all add: Let_def)

lemma mset_queue_insert:
  "mset (map qd_frame (queue_insert frame now target qs)) = add_mset frame (mset (map qd_frame qs))"
proof -
  have "mset (map qd_frame (take i qs)) + mset (map qd_frame (drop i qs)) = mset (map qd_frame qs)" for i
    by (metis append_take_drop_id map_append mset_append)
  then show ?thesis
    unfolding queue_insert_def Let_def by (simp add: mset_lift_due [simplified])
qed

subsection \<open>The operations\<close>

lemma adapt_target_frame [simp]:
  "jb_queue (adapt_target now b) = jb_queue b"
  "jb_last_played_pts_us (adapt_target now b) = jb_last_played_pts_us b"
  "jb_stats (adapt_target now b) = jb_stats b"
  by (simp_all add: adapt_target_def Let_def)

lemma adapt_target_bounds:
  "MIN_TARGET_MS \<le> jb_target_ms (adapt_target now b)" "jb_target_ms (adapt_target now b) \<le> MAX_TARGET_MS"
proof -
  have "\<exists>t. jb_target_ms (adapt_target now b) = min (max t MIN_TARGET_MS) MAX_TARGET_MS"
    unfolding adapt_target_def Let_def by simp blast
  moreover have "MIN_TARGET_MS \<le> MAX_TARGET_MS" by (simp add: MIN_TARGET_MS_def MAX_TARGET_MS_def)
  ultimately show "MIN_TARGET_MS \<le> jb_target_ms (adapt_target now b)"
    "jb_target_ms (adapt_target now b) \<le> MAX_TARGET_MS"
    by (auto simp: le_max_iff_disj)
qed

lemma measure_jitter_frame [simp]:
  "jb_queue (measure_jitter pts_us now b) = jb_queue b"
  "jb_last_played_pts_us (measure_jitter pts_us now b) = jb_last_played_pts_us b"
  "jb_stats (measure_jitter pts_us now b) = jb_stats b"
  "jb_target_ms (measure_jitter pts_us now b) = jb_target_ms b"
  by (simp_all add: measure_jitter_def Let_def split: option.split)

text \<open>The two outcomes of \<open>push\<close>, over the part of the state the books and the order rest on.\<close>

definition superseded :: "EncodedFrame \<Rightarrow> JitterBuffer \<Rightarrow> bool" where
  "superseded frame b \<longleftrightarrow>
     (case jb_last_played_pts_us b of None \<Rightarrow> False | Some played \<Rightarrow> ef_pts_us frame \<le> played)"

lemma push_superseded:
  assumes "superseded frame b"
  obtains b' where "push frame now b = Some (False, b')"
    "jb_queue b' = jb_queue b" "jb_last_played_pts_us b' = jb_last_played_pts_us b"
    "jb_target_ms b' = jb_target_ms b"
    "jb_stats b' = (jb_stats b)\<lparr>js_accepted := js_accepted (jb_stats b) + 1,
       js_dropped_reordered := js_dropped_reordered (jb_stats b) + 1\<rparr>"
  using assms by (simp add: push_def Let_def superseded_def)

lemma push_queued:
  assumes "\<not> superseded frame b"
  obtains b\<^sub>0 b' where "push frame now b = Some (True, b')" "same_but_drops b\<^sub>0 b'"
    "length (jb_queue b') = min (Suc (length (jb_queue b))) MAX_QUEUED_FRAMES"
    "jb_queue b\<^sub>0 = queue_insert frame now (jb_target_ms b\<^sub>0) (jb_queue b)"
    "jb_last_played_pts_us b\<^sub>0 = jb_last_played_pts_us b"
    "MIN_TARGET_MS \<le> jb_target_ms b\<^sub>0" "jb_target_ms b\<^sub>0 \<le> MAX_TARGET_MS"
    "jb_stats b\<^sub>0 = (jb_stats b)\<lparr>js_accepted := js_accepted (jb_stats b) + 1\<rparr>"
proof -
  define c where "c = adapt_target now (measure_jitter (ef_pts_us frame) now
    (b\<lparr>jb_stats := (jb_stats b)\<lparr>js_accepted := js_accepted (jb_stats b) + 1\<rparr>\<rparr>))"
  define b\<^sub>0 where "b\<^sub>0 = c\<lparr>jb_queue := queue_insert frame now (jb_target_ms c) (jb_queue c),
    jb_empty_since_ms := None\<rparr>"
  obtain b' where b': "enforce_capacity b\<^sub>0 = Some b'" "same_but_drops b\<^sub>0 b'"
    "length (jb_queue b') = min (length (jb_queue b\<^sub>0)) MAX_QUEUED_FRAMES"
    using enforce_capacity_returns by blast
  have "push frame now b = Some (True, b')"
    using assms b'(1) by (simp add: push_def Let_def superseded_def c_def b\<^sub>0_def)
  with b'(2,3) show thesis
    by (intro that [of b' b\<^sub>0]) (simp_all add: b\<^sub>0_def c_def adapt_target_bounds)
qed

text \<open>The outcomes of \<open>poll\<close>: the front frame is played, or none is.\<close>

lemma drop_stale_drops: "same_but_drops b (drop_stale now b)"
  by (auto simp: drop_stale_def same_but_drops_front split: list.split)

lemma length_drop_stale: "length (jb_queue (drop_stale now b)) \<le> length (jb_queue b)"
  by (auto simp: drop_stale_def drop_front_def split: list.split)

lemma poll_cases:
  obtains (play) b\<^sub>0 front rest b' where "poll now b = Some (Play (qd_frame front), b')" "same_but_drops b b\<^sub>0"
      "jb_queue b\<^sub>0 = front # rest" "length (jb_queue b\<^sub>0) \<le> length (jb_queue b)" "qd_due_ms front \<le> now"
      "b' = b\<^sub>0\<lparr>jb_queue := rest, jb_last_played_pts_us := Some (pts front),
         jb_stats := (jb_stats b\<^sub>0)\<lparr>js_played := js_played (jb_stats b\<^sub>0) + 1\<rparr>\<rparr>"
  | (idle) d b' where "poll now b = Some (d, b')" "same_but_drops b b'" "d = Wait \<or> d = Starved"
      "length (jb_queue b') \<le> length (jb_queue b)"
proof -
  obtain c where c: "catch_up now b = Some c" "same_but_drops b c" "length (jb_queue c) \<le> length (jb_queue b)"
    using catch_up_returns by blast
  define b\<^sub>0 where "b\<^sub>0 = drop_stale now c"
  have b\<^sub>0: "same_but_drops b b\<^sub>0" "length (jb_queue b\<^sub>0) \<le> length (jb_queue b)"
    using same_but_drops_trans [OF c(2) drop_stale_drops] length_drop_stale [of now c] c(3)
    by (auto simp: b\<^sub>0_def)
  show thesis
  proof (cases "jb_queue b\<^sub>0")
    case Nil
    have "same_but_drops b\<^sub>0 (snd (poll_empty now b\<^sub>0))" "jb_queue (snd (poll_empty now b\<^sub>0)) = []"
      using Nil by (auto simp: poll_empty_def same_but_drops_def balanced_def dropped_def queued_frames_def split: option.split)
    moreover have "fst (poll_empty now b\<^sub>0) \<in> {Wait, Starved}" by (simp add: poll_empty_def split: option.split)
    moreover have "poll now b = Some (poll_empty now b\<^sub>0)"
      using c(1) Nil by (simp add: poll_def Let_def flip: b\<^sub>0_def)
    ultimately show thesis
      using b\<^sub>0 by (cases "poll_empty now b\<^sub>0") (auto intro!: idle intro: same_but_drops_trans)
  next
    case (Cons front rest)
    show thesis
    proof (cases "now < qd_due_ms front")
      case True
      then have "poll now b = Some (Wait, b\<^sub>0)"
        using c(1) Cons by (simp add: poll_def Let_def flip: b\<^sub>0_def)
      then show thesis using b\<^sub>0 by (rule_tac idle) auto
    next
      case False
      then show thesis
        using b\<^sub>0 c(1) Cons by (intro play [of front _ b\<^sub>0 rest]) (simp_all add: poll_def Let_def not_less flip: b\<^sub>0_def)
    qed
  qed
qed

subsection \<open>Runs of the buffer\<close>

text \<open>A run with its history since the last reset: the frames pushed, the frames played, and the number
  of frames that resets discarded.\<close>

record playout_run =
  run_pushed :: "EncodedFrame list"
  run_played :: "EncodedFrame list"
  run_cleared :: nat
  run_buffer :: JitterBuffer

definition run_start :: playout_run where
  "run_start = \<lparr>run_pushed = [], run_played = [], run_cleared = 0, run_buffer = jitter_buffer_new\<rparr>"

fun played_by :: "PlayoutDecision \<Rightarrow> EncodedFrame list" where
  "played_by (Play f) = [f]"
| "played_by _ = []"

inductive jitter_step :: "playout_run \<Rightarrow> playout_run \<Rightarrow> bool" where
  step_push: "push frame now (run_buffer r) = Some (accepted, b) \<Longrightarrow>
    jitter_step r (r\<lparr>run_pushed := run_pushed r @ [frame], run_buffer := b\<rparr>)"
| step_poll: "poll now (run_buffer r) = Some (decision, b) \<Longrightarrow>
    jitter_step r (r\<lparr>run_played := run_played r @ played_by decision, run_buffer := b\<rparr>)"
| step_reset: "jitter_step r (r\<lparr>run_pushed := [], run_played := [],
    run_cleared := run_cleared r + length (jb_queue (run_buffer r)), run_buffer := jitter_reset (run_buffer r)\<rparr>)"

inductive_cases jitter_stepE: "jitter_step r r'"

definition watermark_ok :: "EncodedFrame list \<Rightarrow> u64 option \<Rightarrow> bool" where
  "watermark_ok played mark \<longleftrightarrow>
     sorted (map ef_pts_us played) \<and>
     (case mark of None \<Rightarrow> played = [] | Some p \<Rightarrow> list_all (\<lambda>f. ef_pts_us f \<le> p) played)"

definition run_ok :: "playout_run \<Rightarrow> bool" where
  "run_ok r \<longleftrightarrow>
     jitter_wf (run_buffer r) \<and> length (jb_queue (run_buffer r)) \<le> MAX_QUEUED_FRAMES \<and>
     watermark_ok (run_played r) (jb_last_played_pts_us (run_buffer r)) \<and>
     mset (run_played r) + queued_frames (run_buffer r) \<subseteq># mset (run_pushed r) \<and>
     balanced (run_cleared r) (run_buffer r)"

lemma same_but_drops_keeps:
  assumes "same_but_drops b b'"
  shows "jitter_wf b \<Longrightarrow> jitter_wf b'" "balanced n b \<Longrightarrow> balanced n b'"
    "watermark_ok fs (jb_last_played_pts_us b) \<Longrightarrow> watermark_ok fs (jb_last_played_pts_us b')"
    "m + queued_frames b \<subseteq># M \<Longrightarrow> m + queued_frames b' \<subseteq># M"
  using assms unfolding same_but_drops_def jitter_wf_def
  by (auto intro: subset_mset.order_trans subset_mset.add_left_mono)

lemma run_ok_push:
  assumes ok: "run_ok r" and push: "push frame now (run_buffer r) = Some (accepted, b)"
  shows "run_ok (r\<lparr>run_pushed := run_pushed r @ [frame], run_buffer := b\<rparr>)"
proof (cases "superseded frame (run_buffer r)")
  case True
  then obtain b' where "b = b'" "jb_queue b' = jb_queue (run_buffer r)"
    "jb_last_played_pts_us b' = jb_last_played_pts_us (run_buffer r)"
    "jb_target_ms b' = jb_target_ms (run_buffer r)"
    "jb_stats b' = (jb_stats (run_buffer r))\<lparr>js_accepted := js_accepted (jb_stats (run_buffer r)) + 1,
       js_dropped_reordered := js_dropped_reordered (jb_stats (run_buffer r)) + 1\<rparr>"
    using push by (elim push_superseded [where now = now]) auto
  then show ?thesis
    using ok by (auto simp: run_ok_def jitter_wf_def balanced_def dropped_def queued_frames_def algebra_simps
      intro: subset_mset.order_trans)
next
  case False
  let ?b = "run_buffer r"
  from False obtain b\<^sub>0 where b\<^sub>0: "same_but_drops b\<^sub>0 b"
    "length (jb_queue b) = min (Suc (length (jb_queue ?b))) MAX_QUEUED_FRAMES"
    "jb_queue b\<^sub>0 = queue_insert frame now (jb_target_ms b\<^sub>0) (jb_queue ?b)"
    "jb_last_played_pts_us b\<^sub>0 = jb_last_played_pts_us ?b"
    "MIN_TARGET_MS \<le> jb_target_ms b\<^sub>0" "jb_target_ms b\<^sub>0 \<le> MAX_TARGET_MS"
    "jb_stats b\<^sub>0 = (jb_stats ?b)\<lparr>js_accepted := js_accepted (jb_stats ?b) + 1\<rparr>"
    using push by (elim push_queued [where now = now]) auto
  have "queue_ok (jb_last_played_pts_us ?b) (jb_queue b\<^sub>0)"
    unfolding b\<^sub>0(3) using ok False
    by (intro queue_ok_insert) (auto simp: run_ok_def jitter_wf_def superseded_def split: option.splits)
  then have "jitter_wf b\<^sub>0" using b\<^sub>0 by (simp add: jitter_wf_def)
  moreover have "balanced (run_cleared r) b\<^sub>0"
    using ok b\<^sub>0(3,7) by (simp add: run_ok_def balanced_def dropped_def algebra_simps)
  moreover have "mset (run_played r) + queued_frames b\<^sub>0 \<subseteq># mset (run_pushed r @ [frame])"
    using ok b\<^sub>0(3) mset_queue_insert [of frame now "jb_target_ms b\<^sub>0" "jb_queue ?b"]
    by (simp add: run_ok_def queued_frames_def)
  moreover have "watermark_ok (run_played r) (jb_last_played_pts_us b\<^sub>0)"
    using ok b\<^sub>0(4) by (simp add: run_ok_def)
  ultimately show ?thesis
    using same_but_drops_keeps [OF b\<^sub>0(1)] b\<^sub>0(2) by (simp add: run_ok_def)
qed

lemma run_ok_poll:
  assumes ok: "run_ok r" and poll: "poll now (run_buffer r) = Some (decision, b)"
  shows "run_ok (r\<lparr>run_played := run_played r @ played_by decision, run_buffer := b\<rparr>)"
proof (cases rule: poll_cases [of now "run_buffer r"])
  case (play b\<^sub>0 front rest b')
  then have d: "decision = Play (qd_frame front)" "b = b'" using poll by auto
  note kept = same_but_drops_keeps [OF play(2)]
  have wf: "jitter_wf b\<^sub>0" "balanced (run_cleared r) b\<^sub>0" "watermark_ok (run_played r) (jb_last_played_pts_us b\<^sub>0)"
    "mset (run_played r) + queued_frames b\<^sub>0 \<subseteq># mset (run_pushed r)"
    "length (jb_queue b\<^sub>0) \<le> MAX_QUEUED_FRAMES"
    using ok kept play(4) by (auto simp: run_ok_def)
  have "jitter_wf b'" using wf(1) play(3,6) by (simp add: jitter_wf_def queue_ok_def list_all_iff)
  moreover have "watermark_ok (run_played r @ [qd_frame front]) (jb_last_played_pts_us b')"
    using wf(1,3) play(3,6)
    by (cases "jb_last_played_pts_us b\<^sub>0")
      (auto simp: jitter_wf_def queue_ok_def watermark_ok_def list_all_iff sorted_append)
  moreover have "balanced (run_cleared r) b'"
    using wf(2) play(3,6) by (simp add: balanced_def dropped_def algebra_simps)
  moreover have "mset (run_played r @ [qd_frame front]) + queued_frames b' \<subseteq># mset (run_pushed r)"
    using wf(4) play(3,6) by (simp add: queued_frames_def)
  ultimately show ?thesis using d wf(5) play(3,6) by (simp add: run_ok_def)
next
  case (idle d b')
  then have "played_by decision = []" "b = b'" using poll by auto
  then show ?thesis
    using ok same_but_drops_keeps [OF idle(2)] idle(4) by (auto simp: run_ok_def)
qed

lemma run_ok_reset:
  "run_ok r \<Longrightarrow> run_ok (r\<lparr>run_pushed := [], run_played := [],
     run_cleared := run_cleared r + length (jb_queue (run_buffer r)), run_buffer := jitter_reset (run_buffer r)\<rparr>)"
  by (simp add: run_ok_def jitter_reset_def jitter_wf_def queue_ok_def balanced_def dropped_def queued_frames_def
    watermark_ok_def)

interpretation playout: inductive_invariant "\<lambda>r. r = run_start" jitter_step run_ok
proof unfold_locales
  show "run_ok s" if "s = run_start" for s
    using that by (simp add: run_start_def run_ok_def jitter_buffer_new_def jitter_wf_def queue_ok_def
      watermark_ok_def queued_frames_def balanced_def dropped_def MIN_TARGET_MS_def MAX_TARGET_MS_def)
  show "run_ok t" if "run_ok s" "jitter_step s t" for s t
    using that(2,1) by cases (auto intro: run_ok_push run_ok_poll run_ok_reset)
qed

subsection \<open>Properties\<close>

text \<open>C21. Both loops of the buffer end: \<open>push\<close> and \<open>poll\<close> return on every buffer and every time, \<open>push\<close> leaves at
  most \<open>MAX_QUEUED_FRAMES\<close> frames when it queues one (and the queue as it was when it refuses), and \<open>poll\<close>
  never leaves more frames than it found.
\<close>

theorem playout_operations_return:
  "(\<exists>accepted b'. push frame now b = Some (accepted, b') \<and>
      (if accepted then length (jb_queue b') = min (Suc (length (jb_queue b))) MAX_QUEUED_FRAMES
       else jb_queue b' = jb_queue b)) \<and>
   (\<exists>decision b'. poll now b = Some (decision, b') \<and> length (jb_queue b') \<le> length (jb_queue b))"
proof
  show "\<exists>accepted b'. push frame now b = Some (accepted, b') \<and>
      (if accepted then length (jb_queue b') = min (Suc (length (jb_queue b))) MAX_QUEUED_FRAMES
       else jb_queue b' = jb_queue b)"
    by (cases "superseded frame b")
      (auto elim!: push_superseded [where now = now] push_queued [where now = now])
  show "\<exists>decision b'. poll now b = Some (decision, b') \<and> length (jb_queue b') \<le> length (jb_queue b)"
    by (cases rule: poll_cases [of now b]) auto
qed

text \<open>C20. In every run of pushes, polls and resets: since the last reset the frames were played in timestamp order,
  each at most as often as it was pushed; the queue is in timestamp order with non-decreasing deadlines and
  holds at most 120 frames; the playout delay stays between 15 and 200 ms; and, apart from the frames a reset
  discarded, the counters account for every frame accepted as played, dropped for one of the three reasons
  or still waiting.
\<close>

theorem playout_in_order:
  assumes "reach (\<lambda>r. r = run_start) jitter_step r"
  shows "sorted (map ef_pts_us (run_played r)) \<and>
    mset (run_played r) \<subseteq># mset (run_pushed r) \<and>
    sorted (map pts (jb_queue (run_buffer r))) \<and> sorted (map qd_due_ms (jb_queue (run_buffer r))) \<and>
    length (jb_queue (run_buffer r)) \<le> 120 \<and>
    15 \<le> jb_target_ms (run_buffer r) \<and> jb_target_ms (run_buffer r) \<le> 200 \<and>
    js_accepted (jb_stats (run_buffer r)) =
      js_played (jb_stats (run_buffer r)) + js_dropped_late (jb_stats (run_buffer r)) +
      js_dropped_overflow (jb_stats (run_buffer r)) + js_dropped_reordered (jb_stats (run_buffer r)) +
      word_of_nat (length (jb_queue (run_buffer r))) + word_of_nat (run_cleared r)"
proof -
  have ok: "run_ok r" using assms by (rule playout.reach_inv)
  then have "mset (run_played r) \<subseteq># mset (run_pushed r)"
    unfolding run_ok_def by (meson mset_subset_eq_add_left subset_mset.order_trans)
  with ok show ?thesis
    by (simp add: run_ok_def watermark_ok_def jitter_wf_def queue_ok_def balanced_def dropped_def
      MIN_TARGET_MS_def MAX_TARGET_MS_def MAX_QUEUED_FRAMES_def algebra_simps)
qed

text \<open>One frame pushed at 1000 ms is due after the minimum delay and played at 1020 ms.\<close>

definition one_frame :: EncodedFrame where
  "one_frame = \<lparr>ef_data = [1], ef_kind = Keyframe, ef_pts_us = 40, ef_sequence = 1, ef_temporal_layer = 0,
     ef_ltr_index = None, ef_qp = None\<rparr>"

definition one_frame_run :: playout_run where
  "one_frame_run =
     (case push one_frame 1000 jitter_buffer_new of
        None \<Rightarrow> run_start
      | Some (_, b) \<Rightarrow>
          (case poll 1020 b of
             None \<Rightarrow> run_start
           | Some (d, b') \<Rightarrow>
               \<lparr>run_pushed = [one_frame], run_played = played_by d, run_cleared = 0, run_buffer = b'\<rparr>))"

lemma one_frame_run_reach: "reach (\<lambda>r. r = run_start) jitter_step one_frame_run"
proof -
  obtain a b where b: "push one_frame 1000 jitter_buffer_new = Some (a, b)"
    by (cases "superseded one_frame jitter_buffer_new")
      (auto elim!: push_superseded [where now = 1000] push_queued [where now = 1000])
  obtain d b' where b': "poll 1020 b = Some (d, b')" by (cases rule: poll_cases [of 1020 b]) auto
  have "reach (\<lambda>r. r = run_start) jitter_step (run_start\<lparr>run_pushed := [one_frame], run_buffer := b\<rparr>)"
    using step_push [of one_frame 1000 run_start a b] b
      reach_step [OF reach_init [of "\<lambda>r. r = run_start" run_start jitter_step]]
    by (simp add: run_start_def)
  moreover have "jitter_step (run_start\<lparr>run_pushed := [one_frame], run_buffer := b\<rparr>) one_frame_run"
    using step_poll [of 1020 "run_start\<lparr>run_pushed := [one_frame], run_buffer := b\<rparr>" d b'] b b'
    by (simp add: run_start_def one_frame_run_def)
  ultimately show ?thesis by (rule reach_step)
qed

lemma one_frame_run_eval: "run_played one_frame_run = [one_frame]" "jb_queue (run_buffer one_frame_run) = []"
  by (simp_all add: one_frame_run_def push_def poll_def jitter_new_def measure_jitter_def adapt_target_def jitter_buffer_new_def
    one_frame_def queue_insert_def position_or_def drop_stale_def
    enforce_capacity.simps catch_up.simps Let_def MIN_TARGET_MS_def MAX_TARGET_MS_def DECAY_MS_PER_S_def
    MAX_QUEUED_FRAMES_def STALE_AFTER_MS_def saturating_sub_def)

theorem playout_in_order_witness:
  "run_played one_frame_run = [one_frame] \<and> mset (run_played one_frame_run) \<subseteq># mset (run_pushed one_frame_run) \<and>
   15 \<le> jb_target_ms (run_buffer one_frame_run) \<and> length (jb_queue (run_buffer one_frame_run)) \<le> 120"
  using playout_in_order [OF one_frame_run_reach] one_frame_run_eval by simp

end
