(* ===== verification/Rda_Identity.thy ===== *)
theory Rda_Identity
  imports Rda_Ids Rda_BTree "HOL-Library.Char_ord" "HOL-Library.List_Lexorder"
begin

text \<open>
  Device identities of \<^verbatim>\<open>rda-crypto/src/identity.rs\<close>: the signing identity, the public half a peer
  pins, and the trust-on-first-use address book; with them the base64 helpers of
  \<^verbatim>\<open>rda-crypto/src/lib.rs\<close>. Keys, messages and signatures are their bytes; Ed25519, SHA-256 and base64
  are the parameter \<open>P\<close>. A \<open>BTreeMap<DeviceId, [u8; 32]>\<close> is the ordered map of \<^verbatim>\<open>Rda_BTree\<close>, with
  \<open>DeviceId\<close> ordered as the derived \<open>Ord\<close> orders it, by its string.

  Both constructors keep \<open>device_id = device_id_from_pubkey(key)\<close>, and the address book only ever holds
  such pairs; \<open>book\<close> proves it inductive.
\<close>

subsection \<open>Base64\<close>

definition encode_b64 :: "primitives \<Rightarrow> u8 list \<Rightarrow> string" where
  "encode_b64 P bytes = b64_encode P bytes"

definition decode_b64 :: "primitives \<Rightarrow> string \<Rightarrow> u8 list option" where
  "decode_b64 P s = b64_decode P s"

definition decode_b64_array :: "primitives \<Rightarrow> nat \<Rightarrow> string \<Rightarrow> u8 list option" where
  "decode_b64_array P n s =
     Option.bind (decode_b64 P s) (\<lambda>v. if length v = n then Some v else None)"

subsection \<open>Identities\<close>

datatype IdentityError = MalformedKey | BadSignature | IdMismatch | BadKeyLength nat

record Identity =
  id_signing_key :: "u8 list"
  id_device_id :: DeviceId

record PublicIdentity =
  pi_key :: "u8 list"
  pi_device_id :: DeviceId

definition from_signing_key :: "primitives \<Rightarrow> u8 list \<Rightarrow> Identity" where
  "from_signing_key P sk =
     \<lparr>id_signing_key = sk, id_device_id = device_id_from_pubkey P (verifying_key P sk)\<rparr>"

text \<open>\<open>rnd\<close> is what the operating system's generator returned.\<close>

definition identity_generate :: "primitives \<Rightarrow> u8 list \<Rightarrow> Identity" where
  "identity_generate P rnd = from_signing_key P rnd"

definition from_secret_bytes :: "primitives \<Rightarrow> u8 list \<Rightarrow> IdentityError + Identity" where
  "from_secret_bytes P bytes =
     (if length bytes \<noteq> 32 then Inl (BadKeyLength (length bytes))
      else Inr (from_signing_key P bytes))"

definition secret_bytes_for_keystore :: "Identity \<Rightarrow> u8 list" where
  "secret_bytes_for_keystore i = id_signing_key i"

definition public :: "primitives \<Rightarrow> Identity \<Rightarrow> PublicIdentity" where
  "public P i = \<lparr>pi_key = verifying_key P (id_signing_key i), pi_device_id = id_device_id i\<rparr>"

definition identity_sign :: "primitives \<Rightarrow> Identity \<Rightarrow> u8 list \<Rightarrow> u8 list" where
  "identity_sign P i message = ed_sign P (id_signing_key i) message"

definition public_from_bytes :: "primitives \<Rightarrow> u8 list \<Rightarrow> IdentityError + PublicIdentity" where
  "public_from_bytes P bytes =
     (if valid_key P bytes
      then Inr \<lparr>pi_key = bytes, pi_device_id = device_id_from_pubkey P bytes\<rparr>
      else Inl MalformedKey)"

definition public_from_b64 :: "primitives \<Rightarrow> string \<Rightarrow> IdentityError + PublicIdentity" where
  "public_from_b64 P s =
     bindE (ok_or (decode_b64_array P 32 s) MalformedKey) (public_from_bytes P)"

definition public_to_b64 :: "primitives \<Rightarrow> PublicIdentity \<Rightarrow> string" where
  "public_to_b64 P p = encode_b64 P (pi_key p)"

definition public_verify :: "primitives \<Rightarrow> PublicIdentity \<Rightarrow> u8 list \<Rightarrow> u8 list \<Rightarrow> IdentityError + unit" where
  "public_verify P p message signature =
     (if verify_strict P (pi_key p) message signature then Inr () else Inl BadSignature)"

definition check_claims :: "PublicIdentity \<Rightarrow> DeviceId \<Rightarrow> IdentityError + unit" where
  "check_claims p claimed = (if pi_device_id p = claimed then Inr () else Inl IdMismatch)"

subsection \<open>The order of device identifiers\<close>

instantiation DeviceId :: linorder
begin

definition less_eq_DeviceId :: "DeviceId \<Rightarrow> DeviceId \<Rightarrow> bool" where
  "less_eq_DeviceId a b \<longleftrightarrow> as_str a \<le> as_str b"

definition less_DeviceId :: "DeviceId \<Rightarrow> DeviceId \<Rightarrow> bool" where
  "less_DeviceId a b \<longleftrightarrow> as_str a < as_str b"

instance
  by standard (auto simp: less_eq_DeviceId_def less_DeviceId_def DeviceId.expand)

end

subsection \<open>Address book\<close>

type_synonym AddressBook = "(DeviceId, u8 list) btree"

datatype PeerTrust = FirstContact | Known | KeyChanged

definition address_book_new :: AddressBook where
  "address_book_new = []"

definition check_and_pin :: "AddressBook \<Rightarrow> PublicIdentity \<Rightarrow> PeerTrust \<times> AddressBook" where
  "check_and_pin book peer =
     (case map_of book (pi_device_id peer) of
        None \<Rightarrow> (FirstContact, bt_insert (pi_device_id peer) (pi_key peer) book)
      | Some pinned \<Rightarrow> (if pinned = pi_key peer then Known else KeyChanged, book))"

definition book_check :: "AddressBook \<Rightarrow> PublicIdentity \<Rightarrow> PeerTrust" where
  "book_check book peer =
     (case map_of book (pi_device_id peer) of
        None \<Rightarrow> FirstContact
      | Some pinned \<Rightarrow> if pinned = pi_key peer then Known else KeyChanged)"

definition repin :: "AddressBook \<Rightarrow> PublicIdentity \<Rightarrow> AddressBook" where
  "repin book peer = bt_insert (pi_device_id peer) (pi_key peer) book"

definition forget :: "AddressBook \<Rightarrow> DeviceId \<Rightarrow> bool \<times> AddressBook" where
  "forget book device_id = (map_of book device_id \<noteq> None, bt_remove device_id book)"

definition book_len :: "AddressBook \<Rightarrow> nat" where
  "book_len book = length book"

definition book_is_empty :: "AddressBook \<Rightarrow> bool" where
  "book_is_empty book \<longleftrightarrow> book = []"

subsection \<open>The identifier belongs to the key\<close>

definition identity_wf :: "primitives \<Rightarrow> Identity \<Rightarrow> bool" where
  "identity_wf P i \<longleftrightarrow> id_device_id i = device_id_from_pubkey P (verifying_key P (id_signing_key i))"

definition public_wf :: "primitives \<Rightarrow> PublicIdentity \<Rightarrow> bool" where
  "public_wf P p \<longleftrightarrow> pi_device_id p = device_id_from_pubkey P (pi_key p)"

lemma identity_wf_from_signing_key [simp]: "identity_wf P (from_signing_key P sk)"
  by (simp add: identity_wf_def from_signing_key_def)

lemma identity_wf_from_secret_bytes: "from_secret_bytes P bs = Inr i \<Longrightarrow> identity_wf P i"
  by (auto simp: from_secret_bytes_def split: if_splits)

lemma public_wf_public: "identity_wf P i \<Longrightarrow> public_wf P (public P i)"
  by (simp add: identity_wf_def public_wf_def public_def)

lemma public_wf_from_bytes: "public_from_bytes P bs = Inr p \<Longrightarrow> public_wf P p \<and> pi_key p = bs"
  by (auto simp: public_from_bytes_def public_wf_def split: if_splits)

lemma public_wf_from_b64: "public_from_b64 P s = Inr p \<Longrightarrow> public_wf P p"
  by (auto simp: public_from_b64_def bindE_eq_Inr dest: public_wf_from_bytes)

lemma identity_wf_restore:
  "identity_wf P i \<Longrightarrow> length (id_signing_key i) = 32 \<Longrightarrow>
   from_secret_bytes P (secret_bytes_for_keystore i) = Inr i"
  by (cases i) (simp add: from_secret_bytes_def secret_bytes_for_keystore_def from_signing_key_def
      identity_wf_def)

lemma check_claims_ok: "check_claims p d = Inr () \<longleftrightarrow> pi_device_id p = d"
  by (simp add: check_claims_def)

lemma public_verify_ok: "public_verify P p m s = Inr () \<longleftrightarrow> verify_strict P (pi_key p) m s"
  by (simp add: public_verify_def)

lemma public_verify_sign:
  "signature_correct P \<Longrightarrow> public_verify P (public P i) m (identity_sign P i m) = Inr ()"
  by (simp add: public_verify_def public_def identity_sign_def signature_correct_def)

subsection \<open>What the address book holds\<close>

inductive book_step :: "primitives \<Rightarrow> AddressBook \<Rightarrow> AddressBook \<Rightarrow> bool" for P where
  pin: "public_wf P p \<Longrightarrow> book_step P b (snd (check_and_pin b p))"
| repin: "public_wf P p \<Longrightarrow> book_step P b (repin b p)"
| forget: "book_step P b (snd (forget b d))"

inductive_cases book_stepE: "book_step P b b'"

definition book_wf :: "primitives \<Rightarrow> AddressBook \<Rightarrow> bool" where
  "book_wf P b \<longleftrightarrow> bt_inv b \<and> (\<forall>d k. map_of b d = Some k \<longrightarrow> d = device_id_from_pubkey P k)"

lemma bt_inv_check_and_pin: "bt_inv b \<Longrightarrow> bt_inv (snd (check_and_pin b p))"
  by (auto simp: check_and_pin_def bt.inv_insert split: option.splits)

lemma book_wf_insert:
  "book_wf P b \<Longrightarrow> public_wf P p \<Longrightarrow> book_wf P (bt_insert (pi_device_id p) (pi_key p) b)"
  by (auto simp: book_wf_def public_wf_def bt.inv_insert bt.lookup_insert)

lemma book_wf_remove: "book_wf P b \<Longrightarrow> book_wf P (bt_remove d b)"
  by (auto simp: book_wf_def bt.inv_remove bt.lookup_remove split: if_splits)

interpretation book: inductive_invariant "\<lambda>b. b = address_book_new" "book_step P" "book_wf P" for P
proof
  show "book_wf P b" if "b = address_book_new" for b
    using that by (simp add: book_wf_def address_book_new_def bt_inv_def)
  show "book_wf P b'" if "book_wf P b" "book_step P b b'" for b b'
    using that(2,1)
    by (cases rule: book_stepE)
      (auto simp: check_and_pin_def repin_def forget_def book_wf_insert book_wf_remove
        split: option.splits)
qed

lemma check_and_pin_keeps:
  "bt_inv b \<Longrightarrow> map_of b d = Some k \<Longrightarrow> map_of (snd (check_and_pin b p)) d = Some k"
  by (auto simp: check_and_pin_def bt.lookup_insert split: option.splits)

lemma check_and_pin_pins:
  "bt_inv b \<Longrightarrow> fst (check_and_pin b p) \<noteq> KeyChanged \<Longrightarrow>
   map_of (snd (check_and_pin b p)) (pi_device_id p) = Some (pi_key p)"
  by (auto simp: check_and_pin_def bt.lookup_insert split: option.splits if_splits)

lemma check_and_pin_all_keeps:
  "bt_inv b \<Longrightarrow> map_of b d = Some k \<Longrightarrow>
   map_of (foldl (\<lambda>b r. snd (check_and_pin b r)) b rs) d = Some k"
  by (induction rs arbitrary: b) (simp_all add: check_and_pin_keeps bt_inv_check_and_pin)

lemma fst_check_and_pin: "fst (check_and_pin b p) = book_check b p"
  by (simp add: check_and_pin_def book_check_def split: option.splits)

subsection \<open>Properties\<close>

text \<open>Trust on first use: once a peer passed the address book under a device id, then whatever peers
  are checked in between, a later peer under the same id is known exactly when it shows the same key,
  and otherwise it is reported as changed.\<close>

theorem trust_on_first_use:
  assumes "reach (\<lambda>b. b = address_book_new) (book_step P) b"
    and "check_and_pin b p = (t, b')" "t \<noteq> KeyChanged" "pi_device_id q = pi_device_id p"
  shows "fst (check_and_pin (foldl (\<lambda>b r. snd (check_and_pin b r)) b' rs) q) =
    (if pi_key q = pi_key p then Known else KeyChanged)"
proof -
  have inv: "bt_inv b" using book.reach_inv [OF assms(1)] by (simp add: book_wf_def)
  then have "map_of b' (pi_device_id p) = Some (pi_key p)" "bt_inv b'"
    using check_and_pin_pins [OF inv, of p] bt_inv_check_and_pin [OF inv, of p] assms(2,3) by simp_all
  then show ?thesis
    using check_and_pin_all_keeps [of b' "pi_device_id p" "pi_key p" rs] assms(4)
    by (simp add: check_and_pin_def)
qed

text \<open>A deterministic stand-in for the primitives, used to evaluate examples: the digest of a message
  is its last 32 bytes, padded, and encodings take the low bits of each byte.\<close>

definition toy_hash :: "u8 list \<Rightarrow> u8 list" where
  "toy_hash m = take 32 (rev m @ replicate 32 0)"

definition toy_primitives :: primitives where
  "toy_primitives =
     \<lparr>sha256 = toy_hash,
      hkdf_sha256 = (\<lambda>salt ikm info n. take n (ikm @ replicate n 0)),
      encode_symbols = (\<lambda>sy bs. if sy = [] then [] else
         take 13 (map (\<lambda>b. sy ! (unat b mod length sy)) bs @ replicate 13 (hd sy))),
      b64_encode = map (\<lambda>b. char_of (unat b)),
      b64_decode = (\<lambda>s. Some (ascii s)),
      verifying_key = (\<lambda>sk. sk),
      valid_key = (\<lambda>k. True),
      ed_sign = (\<lambda>sk m. take 64 (toy_hash (sk @ m) @ sk @ replicate 64 0)),
      verify_strict = (\<lambda>k m s. s = take 64 (toy_hash (k @ m) @ k @ replicate 64 0)),
      spake_start_a = (\<lambda>x pw ia ib. x), spake_start_b = (\<lambda>y pw ia ib. y),
      spake_finish_a = (\<lambda>x pw ia ib m. Some (toy_hash pw)),
      spake_finish_b = (\<lambda>y pw ia ib m. Some (toy_hash pw))\<rparr>"

lemma toy_primitives_ok:
  "sha256_length toy_primitives" "base32_symbols toy_primitives" "signature_correct toy_primitives"
  "b64_roundtrip toy_primitives" "spake_agreement toy_primitives"
proof -
  have len: "length (toy_hash m) = 32" for m by (simp add: toy_hash_def)
  then show "sha256_length toy_primitives" "signature_correct toy_primitives"
    "spake_agreement toy_primitives"
    by (simp_all add: sha256_length_def signature_correct_def spake_agreement_def toy_primitives_def)
  show "b64_roundtrip toy_primitives"
    unfolding b64_roundtrip_def toy_primitives_def ascii_def
    using unsigned_less [where ?'a = nat and ?'b = 8] by (auto intro!: map_idI)
  show "base32_symbols toy_primitives"
    unfolding base32_symbols_def
  proof (intro conjI allI impI)
    fix sy :: string and bs :: "u8 list"
    show "set (encode_symbols toy_primitives sy bs) \<subseteq> set sy"
      by (auto simp: toy_primitives_def dest!: in_set_takeD)
    show "length (encode_symbols toy_primitives sy bs) = 13" if "length sy = 32"
      using that by (auto simp: toy_primitives_def)
  qed
qed

theorem trust_on_first_use_witness:
  "let p = public toy_primitives (from_signing_key toy_primitives (replicate 32 1)) in
   fst (check_and_pin (foldl (\<lambda>b r. snd (check_and_pin b r)) (snd (check_and_pin address_book_new p)) [p])
     (p\<lparr>pi_key := replicate 32 2\<rparr>)) = KeyChanged"
proof -
  let ?p = "public toy_primitives (from_signing_key toy_primitives (replicate 32 1))"
  have k: "pi_key ?p = replicate 32 1"
    by (simp add: public_def from_signing_key_def toy_primitives_def)
  have "check_and_pin address_book_new ?p = (FirstContact, snd (check_and_pin address_book_new ?p))"
    by (simp add: check_and_pin_def address_book_new_def)
  from trust_on_first_use [OF reach_init [of "\<lambda>b. b = address_book_new", OF refl] this,
      of "?p\<lparr>pi_key := replicate 32 2\<rparr>" "[?p]"]
  show ?thesis by (simp add: Let_def k)
qed

text \<open>What a changed key means: the identifier is a digest of the key, so in every reachable address
  book the answer \<open>KeyChanged\<close> for a well-formed peer exhibits two different keys with the same derived
  identifier. A reinstalled device, which has a new key, therefore has a new identifier and is reported
  as a first contact.\<close>

theorem key_changed_is_collision:
  assumes "reach (\<lambda>b. b = address_book_new) (book_step P) b" "public_wf P p"
    and "fst (check_and_pin b p) = KeyChanged"
  shows "\<exists>k. k \<noteq> pi_key p \<and> device_id_from_pubkey P k = device_id_from_pubkey P (pi_key p) \<and>
    map_of b (pi_device_id p) = Some k"
proof -
  obtain k where k: "map_of b (pi_device_id p) = Some k" "k \<noteq> pi_key p"
    using assms(3) by (auto simp: check_and_pin_def split: option.splits if_splits)
  then have "pi_device_id p = device_id_from_pubkey P k"
    using book.reach_inv [OF assms(1)] unfolding book_wf_def by blast
  with k assms(2) show ?thesis unfolding public_wf_def by metis
qed

theorem key_changed_is_collision_witness:
  "let P = toy_primitives\<lparr>sha256 := \<lambda>_. replicate 32 7\<rparr>;
       p = \<lparr>pi_key = [1], pi_device_id = device_id_from_pubkey P [1]\<rparr>;
       q = \<lparr>pi_key = [2], pi_device_id = device_id_from_pubkey P [2]\<rparr>
   in \<exists>k. k \<noteq> pi_key q \<and> device_id_from_pubkey P k = device_id_from_pubkey P (pi_key q) \<and>
     map_of (snd (check_and_pin address_book_new p)) (pi_device_id q) = Some k"
  unfolding Let_def
proof (rule key_changed_is_collision)
  let ?P = "toy_primitives\<lparr>sha256 := \<lambda>_. replicate 32 7\<rparr>"
  let ?p = "\<lparr>pi_key = [1], pi_device_id = device_id_from_pubkey ?P [1]\<rparr>"
  let ?q = "\<lparr>pi_key = [2], pi_device_id = device_id_from_pubkey ?P [2]\<rparr>"
  have p: "public_wf ?P ?p" by (simp only: public_wf_def PublicIdentity.simps)
  show "public_wf ?P ?q" by (simp only: public_wf_def PublicIdentity.simps)
  show "reach (\<lambda>b. b = address_book_new) (book_step ?P) (snd (check_and_pin address_book_new ?p))"
    using book_step.pin [OF p]
    by (rule reach_step [OF reach_init [of "\<lambda>b. b = address_book_new", OF refl]])
  have "device_id_from_pubkey ?P [1] = device_id_from_pubkey ?P [2]"
    by (simp add: device_id_from_pubkey_def)
  then show "fst (check_and_pin (snd (check_and_pin address_book_new ?p)) ?q) = KeyChanged"
    by (simp only: check_and_pin_def address_book_new_def PublicIdentity.simps) simp
qed

end
