(* ===== verification/Rda_Binding.thy ===== *)
theory Rda_Binding
  imports Rda_Identity
begin

text \<open>
  The DTLS fingerprint binding of \<^verbatim>\<open>rda-crypto/src/binding.rs\<close>: the fingerprint and its SDP text form,
  the byte string both peers sign, and the two sides of the proof. A \<open>String\<close> that is parsed here is
  its UTF-8 bytes.

  The lemmas show that the signed bytes determine the whole session context, that the text form of a
  fingerprint reads back, and that an honest proof is accepted by the opposite role only.
\<close>

definition BINDING_DOMAIN :: "u8 list" where
  "BINDING_DOMAIN = ascii ''RDA-v1-binding''"

definition NONCE_LEN :: nat where
  "NONCE_LEN = 32"

datatype PeerRole = Controller | Host

definition peer_role :: "PeerRole \<Rightarrow> PeerRole" where
  "peer_role r = (case r of Controller \<Rightarrow> Host | Host \<Rightarrow> Controller)"

definition role_u8 :: "PeerRole \<Rightarrow> u8" where
  "role_u8 r = (case r of Controller \<Rightarrow> 0x01 | Host \<Rightarrow> 0x02)"

subsection \<open>Text helpers of the standard library\<close>

text \<open>\<open>str::trim\<close> removes code points of the Unicode property \<open>White_Space\<close>; here their encodings.\<close>

definition white_space :: "u8 list list" where
  "white_space =
     [[0x09], [0x0A], [0x0B], [0x0C], [0x0D], [0x20], [0xC2, 0x85], [0xC2, 0xA0], [0xE1, 0x9A, 0x80]]
     @ map (\<lambda>b. [0xE2, 0x80, b])
         [0x80, 0x81, 0x82, 0x83, 0x84, 0x85, 0x86, 0x87, 0x88, 0x89, 0x8A, 0xA8, 0xA9, 0xAF]
     @ [[0xE2, 0x81, 0x9F], [0xE3, 0x80, 0x80]]"

fun strip_one :: "'a list \<Rightarrow> 'a list \<Rightarrow> 'a list option" where
  "strip_one [] s = Some s"
| "strip_one (p # ps) [] = None"
| "strip_one (p # ps) (x # s) = (if p = x then strip_one ps s else None)"

text \<open>Repeatedly strips any of the patterns; every round that strips shortens the text, so the length of
  the text is fuel enough.\<close>

fun strip_many :: "nat \<Rightarrow> 'a list list \<Rightarrow> 'a list \<Rightarrow> 'a list" where
  "strip_many 0 pats s = s"
| "strip_many (Suc n) pats s =
     (case List.map_filter (\<lambda>p. strip_one p s) pats of [] \<Rightarrow> s | t # _ \<Rightarrow> strip_many n pats t)"

definition trim :: "u8 list \<Rightarrow> u8 list" where
  "trim s =
     (let s = strip_many (length s) white_space s
      in rev (strip_many (length s) (map rev white_space) (rev s)))"

fun split_on :: "'a \<Rightarrow> 'a list \<Rightarrow> 'a list list" where
  "split_on sep [] = [[]]"
| "split_on sep (x # xs) =
     (if x = sep then [] # split_on sep xs
      else case split_on sep xs of [] \<Rightarrow> [[x]] | p # ps \<Rightarrow> (x # p) # ps)"

fun join :: "'a list \<Rightarrow> 'a list list \<Rightarrow> 'a list" where
  "join sep [] = []"
| "join sep [p] = p"
| "join sep (p # q # ps) = p @ sep @ join sep (q # ps)"

definition hex_digit :: "u8 \<Rightarrow> nat option" where
  "hex_digit b =
     (if 0x30 \<le> b \<and> b \<le> 0x39 then Some (unat b - 0x30)
      else if 0x41 \<le> b \<and> b \<le> 0x46 then Some (unat b - 0x41 + 10)
      else if 0x61 \<le> b \<and> b \<le> 0x66 then Some (unat b - 0x61 + 10)
      else None)"

fun hex_digits :: "nat \<Rightarrow> u8 list \<Rightarrow> nat option" where
  "hex_digits acc [] = Some acc"
| "hex_digits acc (b # bs) =
     Option.bind (hex_digit b) (\<lambda>d. if acc * 16 + d > 255 then None else hex_digits (acc * 16 + d) bs)"

text \<open>\<open>u8::from_str_radix(_, 16)\<close>, which also takes a leading plus sign.\<close>

definition from_str_radix16 :: "u8 list \<Rightarrow> u8 option" where
  "from_str_radix16 s =
     map_option word_of_nat
       (case s of
          [] \<Rightarrow> None
        | [b] \<Rightarrow> if b = 0x2B \<or> b = 0x2D then None else hex_digits 0 s
        | b # bs \<Rightarrow> if b = 0x2B then hex_digits 0 bs else hex_digits 0 s)"

definition hex_upper :: "nat \<Rightarrow> u8" where
  "hex_upper n = (if n < 10 then word_of_nat (0x30 + n) else word_of_nat (0x41 + (n - 10)))"

definition format_02X :: "u8 \<Rightarrow> u8 list" where
  "format_02X b = [hex_upper (unat b div 16), hex_upper (unat b mod 16)]"

subsection \<open>Fingerprints\<close>

type_synonym Fingerprint = "u8 list"

definition of_certificate :: "primitives \<Rightarrow> u8 list \<Rightarrow> Fingerprint" where
  "of_certificate P der = sha256 P der"

text \<open>The loop of \<open>parse_sdp\<close>: \<open>out\<close> holds the \<open>n\<close> bytes written so far.\<close>

fun parse_sdp_parts :: "u8 list list \<Rightarrow> u8 list \<Rightarrow> Fingerprint option" where
  "parse_sdp_parts [] out = (if length out = 32 then Some out else None)"
| "parse_sdp_parts (part # parts) out =
     (if length out \<ge> 32 \<or> length part \<noteq> 2 then None
      else Option.bind (from_str_radix16 part) (\<lambda>b. parse_sdp_parts parts (out @ [b])))"

definition parse_sdp :: "u8 list \<Rightarrow> Fingerprint option" where
  "parse_sdp s =
     (let hex = (case strip_one (ascii ''sha-256 '') (trim s) of None \<Rightarrow> trim s | Some rest \<Rightarrow> rest)
      in parse_sdp_parts (split_on 0x3A hex) [])"

definition to_sdp :: "Fingerprint \<Rightarrow> u8 list" where
  "to_sdp fp = join [0x3A] (map format_02X fp)"

subsection \<open>The signed structure\<close>

definition binding_input ::
  "string \<Rightarrow> u8 list \<Rightarrow> u8 list \<Rightarrow> Fingerprint \<Rightarrow> Fingerprint \<Rightarrow> PeerRole \<Rightarrow> u8 list" where
  "binding_input session_id nonce_controller nonce_host fp_controller fp_host role =
     BINDING_DOMAIN @ [0x00] @ ascii session_id @ nonce_controller @ nonce_host @ fp_controller
       @ fp_host @ [role_u8 role]"

record BindingProof =
  bp_role :: PeerRole
  bp_identity :: PublicIdentity
  bp_signature :: "u8 list"

datatype BindingError =
    InvalidSignature | FingerprintMismatch | WrongRole | IdentityMismatch
  | BindIdentity IdentityError

record BindingVerifier =
  bv_session_id :: string
  bv_nonce_controller :: "u8 list"
  bv_nonce_host :: "u8 list"
  bv_fp_controller :: Fingerprint
  bv_fp_host :: Fingerprint
  bv_local_role :: PeerRole

definition binding_new ::
  "string \<Rightarrow> PeerRole \<Rightarrow> u8 list \<Rightarrow> u8 list \<Rightarrow> Fingerprint \<Rightarrow> Fingerprint \<Rightarrow> BindingVerifier" where
  "binding_new session_id local_role nonce_local nonce_remote fp_local fp_remote =
     (let (nonce_controller, nonce_host, fp_controller, fp_host) =
        (case local_role of
           Controller \<Rightarrow> (nonce_local, nonce_remote, fp_local, fp_remote)
         | Host \<Rightarrow> (nonce_remote, nonce_local, fp_remote, fp_local))
      in \<lparr>bv_session_id = session_id, bv_nonce_controller = nonce_controller,
          bv_nonce_host = nonce_host, bv_fp_controller = fp_controller, bv_fp_host = fp_host,
          bv_local_role = local_role\<rparr>)"

definition verifier_input :: "BindingVerifier \<Rightarrow> PeerRole \<Rightarrow> u8 list" where
  "verifier_input v role =
     binding_input (bv_session_id v) (bv_nonce_controller v) (bv_nonce_host v)
       (bv_fp_controller v) (bv_fp_host v) role"

definition prove :: "primitives \<Rightarrow> BindingVerifier \<Rightarrow> Identity \<Rightarrow> BindingProof" where
  "prove P v identity =
     (let message = verifier_input v (bv_local_role v)
      in \<lparr>bp_role = bv_local_role v, bp_identity = public P identity,
          bp_signature = identity_sign P identity message\<rparr>)"

definition binding_verify ::
  "primitives \<Rightarrow> BindingVerifier \<Rightarrow> BindingProof \<Rightarrow> DeviceId option \<Rightarrow> BindingError + unit" where
  "binding_verify P v pf expected_device_id =
     (let expected_role = peer_role (bv_local_role v) in
      if bp_role pf \<noteq> expected_role then Inl WrongRole
      else if (case expected_device_id of None \<Rightarrow> False
               | Some d \<Rightarrow> check_claims (bp_identity pf) d \<noteq> Inr ()) then Inl IdentityMismatch
      else case public_verify P (bp_identity pf) (verifier_input v expected_role) (bp_signature pf) of
             Inl _ \<Rightarrow> Inl InvalidSignature | Inr u \<Rightarrow> Inr u)"

definition transcript_hash :: "primitives \<Rightarrow> BindingVerifier \<Rightarrow> u8 list" where
  "transcript_hash P v =
     sha256 P (ascii ''RDA-v1-transcript'' @ [0x00] @ ascii (bv_session_id v) @ bv_nonce_controller v
       @ bv_nonce_host v @ bv_fp_controller v @ bv_fp_host v)"

subsection \<open>The signed bytes determine the context\<close>

lemma role_u8_inj [simp]: "role_u8 r = role_u8 r' \<longleftrightarrow> r = r'"
  by (simp add: role_u8_def split: PeerRole.splits)

lemma peer_role_simps [simp]: "peer_role (peer_role r) = r" "peer_role r \<noteq> r"
  by (simp_all add: peer_role_def split: PeerRole.splits)

lemma ascii_inj [simp]: "ascii s = ascii t \<longleftrightarrow> s = t"
  using inj_ascii by (auto dest: injD)

text \<open>A sequence that ends in fields of fixed length splits in one way.\<close>

lemma fixed_tail_eq:
  "length t = length t' \<Longrightarrow> s @ t = s' @ t' \<longleftrightarrow> s = s' \<and> t = t'"
  by simp

lemma binding_input_inj:
  assumes "length nc = 32" "length nh = 32" "length fc = 32" "length fh = 32"
    and "length nc' = 32" "length nh' = 32" "length fc' = 32" "length fh' = 32"
  shows "binding_input s nc nh fc fh r = binding_input s' nc' nh' fc' fh' r' \<longleftrightarrow>
    s = s' \<and> nc = nc' \<and> nh = nh' \<and> fc = fc' \<and> fh = fh' \<and> r = r'"
proof -
  have "ascii s @ (nc @ nh @ fc @ fh @ [role_u8 r]) = ascii s' @ (nc' @ nh' @ fc' @ fh' @ [role_u8 r'])
    \<longleftrightarrow> ascii s = ascii s' \<and> nc @ nh @ fc @ fh @ [role_u8 r] = nc' @ nh' @ fc' @ fh' @ [role_u8 r']"
    using assms by (intro fixed_tail_eq) simp
  then show ?thesis using assms by (simp add: binding_input_def)
qed

lemma binding_verify_ok_iff:
  "binding_verify P v pf d = Inr () \<longleftrightarrow>
     bp_role pf = peer_role (bv_local_role v) \<and>
     (\<forall>i. d = Some i \<longrightarrow> pi_device_id (bp_identity pf) = i) \<and>
     verify_strict P (pi_key (bp_identity pf)) (verifier_input v (bp_role pf)) (bp_signature pf)"
  by (auto simp: binding_verify_def Let_def check_claims_def public_verify_def
      split: option.splits sum.splits if_splits)

subsection \<open>The text form reads back\<close>

definition hex_chars :: "u8 list" where
  "hex_chars = ascii ''0123456789ABCDEF''"

lemma hex_upper_facts:
  assumes "n < 16"
  shows "hex_digit (hex_upper n) = Some n" "hex_upper n \<in> set hex_chars"
proof -
  have "list_all (\<lambda>n. hex_digit (hex_upper n) = Some n \<and> hex_upper n \<in> set hex_chars) [0..<16]"
    by code_simp
  with assms show "hex_digit (hex_upper n) = Some n" "hex_upper n \<in> set hex_chars"
    by (simp_all add: list_all_iff)
qed

lemma hex_chars_plain:
  assumes "b \<in> set hex_chars"
  shows "b \<noteq> 0x3A" "b \<noteq> 0x2B" "b \<noteq> 0x73"
    and "\<forall>w \<in> set white_space. w \<noteq> [] \<and> hd w \<noteq> b \<and> last w \<noteq> b"
proof -
  have "list_all (\<lambda>b. b \<noteq> 0x3A \<and> b \<noteq> 0x2B \<and> b \<noteq> 0x73 \<and>
      list_all (\<lambda>w. w \<noteq> [] \<and> hd w \<noteq> b \<and> last w \<noteq> b) white_space) hex_chars"
    by code_simp
  with assms show "b \<noteq> 0x3A" "b \<noteq> 0x2B" "b \<noteq> 0x73"
    and "\<forall>w \<in> set white_space. w \<noteq> [] \<and> hd w \<noteq> b \<and> last w \<noteq> b"
    by (simp_all add: list_all_iff)
qed

lemma set_format_02X: "set (format_02X b) \<subseteq> set hex_chars" "length (format_02X b) = 2"
proof -
  have "unat b div 16 < 16" using unsigned_less [of b, where ?'a = nat] by simp
  then show "set (format_02X b) \<subseteq> set hex_chars"
    by (simp add: format_02X_def hex_upper_facts)
qed (simp add: format_02X_def)

lemma from_str_radix16_format [simp]: "from_str_radix16 (format_02X b) = Some b"
proof -
  have lt: "unat b < 256" using unsigned_less [of b, where ?'a = nat] by simp
  then have d: "hex_digit (hex_upper (unat b div 16)) = Some (unat b div 16)"
    "hex_digit (hex_upper (unat b mod 16)) = Some (unat b mod 16)"
    "hex_upper (unat b div 16) \<noteq> 0x2B"
    using hex_upper_facts hex_chars_plain(2) by (simp_all add: hex_upper_facts)
  have "unat b div 16 * 16 + unat b mod 16 = unat b" by simp
  with d lt show ?thesis
    by (simp add: from_str_radix16_def format_02X_def)
qed

lemma strip_one_head: "p \<noteq> [] \<Longrightarrow> hd p \<noteq> x \<Longrightarrow> strip_one p (x # s) = None"
  by (cases p) auto

lemma strip_many_head:
  "\<forall>p \<in> set pats. p \<noteq> [] \<and> hd p \<noteq> x \<Longrightarrow> strip_many n pats (x # s) = x # s"
proof (cases n)
  case (Suc m)
  assume "\<forall>p \<in> set pats. p \<noteq> [] \<and> hd p \<noteq> x"
  then have "List.map_filter (\<lambda>p. strip_one p (x # s)) pats = []"
    by (induction pats) (simp_all add: List.map_filter_simps strip_one_head)
  with Suc show ?thesis by simp
qed simp

lemma trim_id:
  assumes "s \<noteq> []" "\<forall>w \<in> set white_space. w \<noteq> [] \<and> hd w \<noteq> hd s \<and> last w \<noteq> last s"
  shows "trim s = s"
proof -
  have fwd: "strip_many n white_space s = s" for n
    using assms by (cases s) (auto intro: strip_many_head)
  obtain t y where t: "s = t @ [y]" using assms(1) by (cases s rule: rev_cases) auto
  then have "\<forall>p \<in> set (map rev white_space). p \<noteq> [] \<and> hd p \<noteq> y"
    using assms(2) by (auto simp: hd_rev)
  then have "strip_many n (map rev white_space) (rev s) = rev s" for n
    using strip_many_head [of _ y n "rev t"] by (simp add: t)
  with fwd show ?thesis by (simp add: trim_def)
qed

lemma split_on_no_sep: "sep \<notin> set p \<Longrightarrow> split_on sep p = [p]"
  by (induction p) auto

lemma split_on_append: "sep \<notin> set p \<Longrightarrow> split_on sep (p @ sep # s) = p # split_on sep s"
  by (induction p) auto

lemma split_on_join:
  "ps \<noteq> [] \<Longrightarrow> \<forall>p \<in> set ps. sep \<notin> set p \<Longrightarrow> split_on sep (join [sep] ps) = ps"
  by (induction "[sep]" ps rule: join.induct) (simp_all add: split_on_no_sep split_on_append)

lemma parse_sdp_parts_format:
  "length out + length fp = 32 \<Longrightarrow> parse_sdp_parts (map format_02X fp) out = Some (out @ fp)"
  by (induction fp arbitrary: out) (simp_all add: set_format_02X)

lemma parse_sdp_parts_length: "parse_sdp_parts ps out = Some fp \<Longrightarrow> length fp = 32"
  by (induction ps out rule: parse_sdp_parts.induct)
    (auto split: if_splits simp: bind_eq_Some_conv)

lemma parse_sdp_length: "parse_sdp s = Some fp \<Longrightarrow> length fp = 32"
  by (simp add: parse_sdp_def Let_def parse_sdp_parts_length)

lemma join_ends:
  "\<forall>p \<in> set ps. p \<noteq> [] \<Longrightarrow> ps \<noteq> [] \<Longrightarrow>
   join sep ps \<noteq> [] \<and> hd (join sep ps) = hd (hd ps) \<and> last (join sep ps) = last (last ps)"
  by (induction sep ps rule: join.induct) auto

lemma to_sdp_facts:
  assumes "length fp = 32"
  shows "to_sdp fp \<noteq> []" "hd (to_sdp fp) \<in> set hex_chars" "last (to_sdp fp) \<in> set hex_chars"
    and "split_on 0x3A (to_sdp fp) = map format_02X fp"
proof -
  let ?ps = "map format_02X fp"
  have ne: "?ps \<noteq> []" using assms by auto
  have pne: "\<forall>p \<in> set ?ps. p \<noteq> []" by (auto simp: format_02X_def)
  have hex: "\<forall>p \<in> set ?ps. set p \<subseteq> set hex_chars" by (auto dest: set_mp [OF set_format_02X(1)])
  note ends = join_ends [OF pne ne, of "[0x3A]"]
  show "to_sdp fp \<noteq> []" using ends by (simp add: to_sdp_def)
  show "hd (to_sdp fp) \<in> set hex_chars" "last (to_sdp fp) \<in> set hex_chars"
    using ends pne hex ne hd_in_set last_in_set unfolding to_sdp_def by (metis subsetD)+
  show "split_on 0x3A (to_sdp fp) = ?ps"
    unfolding to_sdp_def using hex hex_chars_plain(1) ne by (intro split_on_join) blast+
qed

lemma parse_sdp_to_sdp:
  assumes "length fp = 32"
  shows "parse_sdp (to_sdp fp) = Some fp"
proof -
  note f = to_sdp_facts [OF assms]
  have tr: "trim (to_sdp fp) = to_sdp fp"
    using f(1) hex_chars_plain(4) [OF f(2)] hex_chars_plain(4) [OF f(3)] by (intro trim_id) blast+
  have "strip_one (ascii ''sha-256 '') (to_sdp fp) = None"
    using hex_chars_plain(3) [OF f(2)] f(1) by (cases "to_sdp fp") (auto simp: ascii_def)
  then show ?thesis
    using parse_sdp_parts_format [of "[]" fp] assms by (simp add: parse_sdp_def Let_def tr f(4))
qed

lemma strip_one_append [simp]: "strip_one p (p @ s) = Some s"
  by (induction p) auto

lemma parse_sdp_prefixed:
  assumes "length fp = 32"
  shows "parse_sdp (ascii ''sha-256 '' @ to_sdp fp) = Some fp"
proof -
  note f = to_sdp_facts [OF assms]
  let ?s = "ascii ''sha-256 '' @ to_sdp fp"
  have "list_all (\<lambda>w. w \<noteq> [] \<and> hd w \<noteq> 0x73) white_space" by code_simp
  then have "\<forall>w \<in> set white_space. w \<noteq> [] \<and> hd w \<noteq> hd ?s \<and> last w \<noteq> last ?s"
    using hex_chars_plain(4) [OF f(3)] f(1) by (auto simp: list_all_iff ascii_def)
  then have "trim ?s = ?s" using f(1) by (intro trim_id) blast+
  then show ?thesis
    using parse_sdp_parts_format [of "[]" fp] assms by (simp add: parse_sdp_def Let_def f(4))
qed

subsection \<open>Properties\<close>

text \<open>C16. The signed bytes bind everything the header of the protocol says they bind: two sessions with
  32-byte nonces and fingerprints have the same signing input only if session identifier, both nonces,
  both fingerprints and the role of the signer are the same. A relay that substitutes a certificate, a
  nonce or a role therefore needs a signature over other bytes.\<close>

theorem binding_input_determines:
  assumes "list_all (\<lambda>b. length b = 32) [nc, nh, fc, fh, nc', nh', fc', fh']"
  shows "binding_input s nc nh fc fh r = binding_input s' nc' nh' fc' fh' r' \<longleftrightarrow>
    (s, nc, nh, fc, fh, r) = (s', nc', nh', fc', fh', r')"
  using assms by (simp add: binding_input_inj)

theorem binding_input_determines_witness:
  "binding_input ''s1'' (replicate 32 1) (replicate 32 2) (replicate 32 3) (replicate 32 4) Host \<noteq>
   binding_input ''s1'' (replicate 32 1) (replicate 32 2) (replicate 32 3) (replicate 32 5) Host"
proof -
  have neq: "replicate 32 4 \<noteq> (replicate 32 5 :: u8 list)" by (simp add: replicate_eq_replicate)
  have "list_all (\<lambda>b. length b = 32) (map (replicate 32) [1, 2, 3, 4, 1, 2, 3, 5 :: u8])" by simp
  then show ?thesis
    using binding_input_determines [of "replicate 32 1" "replicate 32 2" "replicate 32 3" "replicate 32 4"
      "replicate 32 1" "replicate 32 2" "replicate 32 3" "replicate 32 5" "''s1''" Host "''s1''" Host] neq
    by (simp del: binding_input_def)
qed

text \<open>The fingerprint binding works between honest peers and cannot be reflected: when both ends
  observed the same two certificates and exchanged their nonces, each accepts the other's proof under
  the identifier of its key, and each refuses its own proof played back to it.\<close>

theorem binding_honest_run:
  assumes "signature_correct P" "identity_wf P ic" "identity_wf P ih"
    and "vc = binding_new s Controller nc nh fc fh" "vh = binding_new s Host nh nc fh fc"
  shows "binding_verify P vh (prove P vc ic) (Some (id_device_id ic)) = Inr () \<and>
    binding_verify P vc (prove P vh ih) (Some (id_device_id ih)) = Inr () \<and>
    binding_verify P vc (prove P vc ic) d = Inl WrongRole \<and>
    binding_verify P vh (prove P vh ih) d = Inl WrongRole"
  using assms
  by (auto simp: binding_verify_def prove_def binding_new_def peer_role_def verifier_input_def
      check_claims_def public_def Let_def public_verify_sign [unfolded public_def])

theorem binding_honest_run_witness:
  "let P = toy_primitives; i = from_signing_key P [7];
       vc = binding_new ''s'' Controller [1] [2] [3] [4]; vh = binding_new ''s'' Host [2] [1] [4] [3]
   in binding_verify P vh (prove P vc i) (Some (id_device_id i)) = Inr () \<and>
      binding_verify P vc (prove P vh i) (Some (id_device_id i)) = Inr () \<and>
      binding_verify P vc (prove P vc i) None = Inl WrongRole \<and>
      binding_verify P vh (prove P vh i) None = Inl WrongRole"
  unfolding Let_def
  by (rule binding_honest_run [OF toy_primitives_ok(3) _ _ refl refl]) simp_all

text \<open>A fingerprint read from an SDP line is what was written: both the bare and the prefixed text
  form of a 32-byte fingerprint parse back to it, and whatever text parses yields 32 bytes.\<close>

theorem fingerprint_sdp_roundtrip:
  assumes "length fp = 32"
  shows "parse_sdp (to_sdp fp) = Some fp \<and> parse_sdp (ascii ''sha-256 '' @ to_sdp fp) = Some fp \<and>
    (parse_sdp s = None \<or> (\<exists>fp'. parse_sdp s = Some fp' \<and> length fp' = 32))"
  using parse_sdp_to_sdp [OF assms] parse_sdp_prefixed [OF assms] parse_sdp_length
  by (cases "parse_sdp s") auto

theorem fingerprint_sdp_roundtrip_witness:
  "parse_sdp (to_sdp (replicate 32 0xAB)) = Some (replicate 32 0xAB) \<and>
   parse_sdp (ascii ''sha-256 '' @ to_sdp (replicate 32 0xAB)) = Some (replicate 32 0xAB)"
  using fingerprint_sdp_roundtrip [of "replicate 32 0xAB"] by simp

text \<open>The parser is more liberal than the hexadecimal form it documents: a plus sign is taken as part
  of a byte.\<close>

lemma parse_sdp_accepts_plus:
  "parse_sdp (join [0x3A] (replicate 32 (ascii ''+A''))) = Some (replicate 32 10)"
  by code_simp

end
