(* ===== verification/Rda_Pake.thy ===== *)
theory Rda_Pake
  imports Rda_Binding
begin

text \<open>
  PIN authentication of \<^verbatim>\<open>rda-crypto/src/pake.rs\<close> and the short authentication string of
  \<^verbatim>\<open>rda-crypto/src/sas.rs\<close>. SPAKE2, SHA-256 and HKDF are the parameter \<open>P\<close>; the scalar a side of the
  exchange draws and the random PIN are arguments. \<open>respond\<close> is a method on \<open>&mut self\<close> that may fail,
  so it returns its result and the verifier.

  The lemmas: the attempt counter bounds the guesses whatever the peer sends, honest sides agree on the
  key, the hashed inputs separate roles and sessions, and the words of the authentication string
  determine the bytes they come from.
\<close>

subsection \<open>PINs\<close>

definition PIN_DOMAIN :: "u8 list" where "PIN_DOMAIN = ascii ''RDA-v1-pin''"
definition ID_CONTROLLER :: "u8 list" where "ID_CONTROLLER = ascii ''RDA-v1-controller''"
definition ID_HOST :: "u8 list" where "ID_HOST = ascii ''RDA-v1-host''"
definition PIN_DIGITS :: nat where "PIN_DIGITS = 6"
definition MAX_PIN_ATTEMPTS :: u32 where "MAX_PIN_ATTEMPTS = 3"
definition PIN_TTL_MS :: u64 where "PIN_TTL_MS = 5 * 60 * 1000"

datatype PakeError = Failed | MalformedPin | Expired | AttemptsExceeded

record SessionPin =
  sp_digits :: string
  sp_issued_ms :: u64
  sp_attempts :: u32
  sp_consumed :: bool

definition format_06 :: "nat \<Rightarrow> string" where
  "format_06 n = replicate (6 - length (decimal n)) CHR ''0'' @ decimal n"

text \<open>\<open>value\<close> is what the generator returned for the range \<open>0..1_000_000\<close>.\<close>

definition pin_generate :: "nat \<Rightarrow> u64 \<Rightarrow> SessionPin" where
  "pin_generate value now_ms =
     \<lparr>sp_digits = format_06 value, sp_issued_ms = now_ms, sp_attempts = 0, sp_consumed = False\<rparr>"

definition is_ascii_digit :: "char \<Rightarrow> bool" where
  "is_ascii_digit c \<longleftrightarrow> 48 \<le> (of_char c :: nat) \<and> (of_char c :: nat) \<le> 57"

definition from_digits :: "string \<Rightarrow> u64 \<Rightarrow> PakeError + SessionPin" where
  "from_digits digits now_ms =
     (if length digits \<noteq> PIN_DIGITS \<or> \<not> list_all is_ascii_digit digits then Inl MalformedPin
      else Inr \<lparr>sp_digits = digits, sp_issued_ms = now_ms, sp_attempts = 0, sp_consumed = False\<rparr>)"

definition is_usable :: "SessionPin \<Rightarrow> u64 \<Rightarrow> bool" where
  "is_usable pin now_ms \<longleftrightarrow>
     \<not> sp_consumed pin \<and> sp_attempts pin < MAX_PIN_ATTEMPTS \<and>
     saturating_sub now_ms (sp_issued_ms pin) \<le> PIN_TTL_MS"

definition pake_password :: "primitives \<Rightarrow> string \<Rightarrow> string \<Rightarrow> u8 list" where
  "pake_password P session_id pin = sha256 P (PIN_DOMAIN @ [0x00] @ ascii session_id @ ascii pin)"

subsection \<open>The controller's half\<close>

text \<open>The SPAKE2 state is the drawn scalar with the password.\<close>

record PinAuth =
  pa_scalar :: "u8 list"
  pa_password :: "u8 list"
  pa_outbound :: "u8 list"

definition pin_auth_start :: "primitives \<Rightarrow> u8 list \<Rightarrow> string \<Rightarrow> string \<Rightarrow> PakeError + PinAuth" where
  "pin_auth_start P rnd session_id pin =
     (if length pin \<noteq> PIN_DIGITS \<or> \<not> list_all is_ascii_digit pin then Inl MalformedPin
      else let pw = pake_password P session_id pin
           in Inr \<lparr>pa_scalar = rnd, pa_password = pw,
                   pa_outbound = spake_start_a P rnd pw ID_CONTROLLER ID_HOST\<rparr>)"

definition key_array :: "u8 list option \<Rightarrow> PakeError + u8 list" where
  "key_array r =
     (case r of None \<Rightarrow> Inl Failed | Some key \<Rightarrow> if length key = 32 then Inr key else Inl Failed)"

definition pin_auth_finish :: "primitives \<Rightarrow> PinAuth \<Rightarrow> u8 list \<Rightarrow> PakeError + u8 list" where
  "pin_auth_finish P a peer_message =
     key_array (spake_finish_a P (pa_scalar a) (pa_password a) ID_CONTROLLER ID_HOST peer_message)"

subsection \<open>The host's half\<close>

record PinVerifier =
  pv_session_id :: string
  pv_pin :: SessionPin

definition pin_verifier_new :: "string \<Rightarrow> SessionPin \<Rightarrow> PinVerifier" where
  "pin_verifier_new session_id pin = \<lparr>pv_session_id = session_id, pv_pin = pin\<rparr>"

definition pin_display :: "PinVerifier \<Rightarrow> string" where
  "pin_display v = sp_digits (pv_pin v)"

definition attempts_remaining :: "PinVerifier \<Rightarrow> u32" where
  "attempts_remaining v = saturating_sub MAX_PIN_ATTEMPTS (sp_attempts (pv_pin v))"

definition respond ::
  "primitives \<Rightarrow> u8 list \<Rightarrow> u8 list \<Rightarrow> u64 \<Rightarrow> (PinVerifier, PakeError, u8 list \<times> u8 list) st" where
  "respond P rnd peer_message now_ms v =
     (if \<not> is_usable (pv_pin v) now_ms
      then (Inl (if sp_attempts (pv_pin v) \<ge> MAX_PIN_ATTEMPTS then AttemptsExceeded else Expired), v)
      else let v = v\<lparr>pv_pin := (pv_pin v)\<lparr>sp_attempts := sp_attempts (pv_pin v) + 1\<rparr>\<rparr>;
               pw = pake_password P (pv_session_id v) (sp_digits (pv_pin v));
               outbound = spake_start_b P rnd pw ID_CONTROLLER ID_HOST
           in (mapE (\<lambda>key. (outbound, key))
                 (key_array (spake_finish_b P rnd pw ID_CONTROLLER ID_HOST peer_message)), v))"

definition consume :: "PinVerifier \<Rightarrow> PinVerifier" where
  "consume v = v\<lparr>pv_pin := (pv_pin v)\<lparr>sp_consumed := True\<rparr>\<rparr>"

definition confirm :: "primitives \<Rightarrow> u8 list \<Rightarrow> string \<Rightarrow> string \<Rightarrow> u8 list" where
  "confirm P key role session_id =
     sha256 P (ascii ''RDA-v1-pin-confirm'' @ [0x00] @ key @ ascii role @ ascii session_id)"

definition confirm_matches :: "u8 list \<Rightarrow> u8 list \<Rightarrow> bool" where
  "confirm_matches a b \<longleftrightarrow> a = b"

subsection \<open>PINs are six digits\<close>

definition pin_wf :: "string \<Rightarrow> bool" where
  "pin_wf digits \<longleftrightarrow> length digits = PIN_DIGITS \<and> list_all is_ascii_digit digits"

lemma is_ascii_digit_char_of: "d < 10 \<Longrightarrow> is_ascii_digit (char_of (48 + d :: nat))"
  by (simp add: is_ascii_digit_def)

lemma decimal_digits: "list_all is_ascii_digit (decimal n)"
proof (induction n rule: decimal.induct)
  case (1 n)
  have "is_ascii_digit (char_of (48 + n mod 10))" by (rule is_ascii_digit_char_of) simp
  with 1 show ?case
    by (cases "n < 10") (simp_all add: decimal.simps [of n] is_ascii_digit_char_of)
qed

lemma length_decimal: "n < 10 ^ k \<Longrightarrow> 0 < k \<Longrightarrow> length (decimal n) \<le> k"
proof (induction n arbitrary: k rule: decimal.induct)
  case (1 n)
  show ?case
  proof (cases "n < 10")
    case True
    with 1 show ?thesis by (simp add: decimal.simps [of n])
  next
    case False
    then have "k \<noteq> 1" using 1(2) by auto
    then obtain j where k: "k = Suc j" "0 < j" using 1(3) by (cases k) auto
    with 1(2) have "n div 10 < 10 ^ j" by (simp add: less_mult_imp_div_less mult.commute)
    with 1(1) [OF False _ k(2)] False k show ?thesis by (simp add: decimal.simps [of n])
  qed
qed

lemma pin_wf_generate: "value < 1000000 \<Longrightarrow> pin_wf (sp_digits (pin_generate value now))"
  using length_decimal [of "value" 6] decimal_digits [of "value"]
  by (auto simp: pin_wf_def pin_generate_def format_06_def PIN_DIGITS_def list_all_iff is_ascii_digit_def)

lemma pin_wf_from_digits: "from_digits ds now = Inr pin \<Longrightarrow> pin_wf (sp_digits pin)"
  by (auto simp: from_digits_def pin_wf_def split: if_splits)

lemma pin_auth_start_ok:
  "pin_auth_start P rnd s pin = Inr a \<longleftrightarrow> pin_wf pin \<and>
     a = \<lparr>pa_scalar = rnd, pa_password = pake_password P s pin,
          pa_outbound = spake_start_a P rnd (pake_password P s pin) ID_CONTROLLER ID_HOST\<rparr>"
  by (auto simp: pin_auth_start_def pin_wf_def Let_def)

subsection \<open>The attempt cap\<close>

text \<open>A request is answered with cryptography, right or wrong, only while the PIN is usable.\<close>

definition is_guess :: "PakeError + 'a \<Rightarrow> bool" where
  "is_guess r \<longleftrightarrow> (case r of Inl Failed \<Rightarrow> True | Inl _ \<Rightarrow> False | Inr _ \<Rightarrow> True)"

fun respond_all ::
  "primitives \<Rightarrow> (u8 list \<times> u8 list \<times> u64) list \<Rightarrow> PinVerifier \<Rightarrow> (PakeError + u8 list \<times> u8 list) list" where
  "respond_all P [] v = []"
| "respond_all P ((rnd, msg, now) # rs) v =
     (let (r, v') = respond P rnd msg now v in r # respond_all P rs v')"

lemma key_array_guess: "is_guess (mapE f (key_array r))"
  by (simp add: key_array_def is_guess_def mapE_def split: option.splits)

lemma respond_guess_iff: "is_guess (fst (respond P rnd msg now v)) \<longleftrightarrow> is_usable (pv_pin v) now"
  by (auto simp: respond_def Let_def key_array_guess) (auto simp: is_guess_def split: if_splits)

lemma respond_attempts:
  "snd (respond P rnd msg now v) =
     (if is_usable (pv_pin v) now
      then v\<lparr>pv_pin := (pv_pin v)\<lparr>sp_attempts := sp_attempts (pv_pin v) + 1\<rparr>\<rparr> else v)"
  by (simp add: respond_def Let_def)

lemma attempts_left_Suc:
  "a < MAX_PIN_ATTEMPTS \<Longrightarrow> 3 - unat (a + 1) = 3 - unat a - 1 \<and> 0 < 3 - unat a"
  by (simp add: MAX_PIN_ATTEMPTS_def word_less_nat_alt unat_word_ariths)

lemma respond_all_guesses:
  "length (filter is_guess (respond_all P rs v)) \<le> 3 - unat (sp_attempts (pv_pin v))"
proof (induction P rs v rule: respond_all.induct)
  case (2 P rnd msg now rs v)
  let ?v = "snd (respond P rnd msg now v)"
  have IH: "length (filter is_guess (respond_all P rs ?v)) \<le> 3 - unat (sp_attempts (pv_pin ?v))"
    using 2 by (simp add: prod_eq_iff)
  show ?case
  proof (cases "is_usable (pv_pin v) now")
    case True
    then have "sp_attempts (pv_pin v) < MAX_PIN_ATTEMPTS" by (simp add: is_usable_def)
    note left = attempts_left_Suc [OF this]
    from IH True have "length (filter is_guess (respond_all P rs ?v)) \<le> 3 - unat (sp_attempts (pv_pin v)) - 1"
      unfolding respond_attempts using left by simp
    with left True show ?thesis
      by (simp add: case_prod_beta respond_guess_iff) linarith
  next
    case False
    with IH show ?thesis by (simp add: case_prod_beta respond_guess_iff respond_attempts)
  qed
qed simp

lemma respond_all_consumed:
  "sp_consumed (pv_pin v) \<Longrightarrow> filter is_guess (respond_all P rs v) = []"
  by (induction P rs v rule: respond_all.induct)
    (auto simp: respond_guess_iff respond_attempts is_usable_def prod_eq_iff split: prod.splits)

subsection \<open>Agreement and separation\<close>

lemma pake_agreement:
  assumes "spake_agreement P" "pin_auth_start P x s (pin_display v) = Inr a"
    and "pv_session_id v = s" "is_usable (pv_pin v) now"
  shows "\<exists>key. length key = 32 \<and>
    fst (respond P y (pa_outbound a) now v) =
      Inr (spake_start_b P y (pake_password P s (pin_display v)) ID_CONTROLLER ID_HOST, key) \<and>
    pin_auth_finish P a (spake_start_b P y (pake_password P s (pin_display v)) ID_CONTROLLER ID_HOST)
      = Inr key"
proof -
  let ?pw = "pake_password P s (pin_display v)"
  obtain k where "length k = 32"
    "spake_finish_a P x ?pw ID_CONTROLLER ID_HOST (spake_start_b P y ?pw ID_CONTROLLER ID_HOST) = Some k"
    "spake_finish_b P y ?pw ID_CONTROLLER ID_HOST (spake_start_a P x ?pw ID_CONTROLLER ID_HOST) = Some k"
    using assms(1) unfolding spake_agreement_def by meson
  with assms(2-4) show ?thesis
    by (simp add: pin_auth_start_ok respond_def pin_auth_finish_def pin_display_def key_array_def
        mapE_def)
qed

text \<open>What is hashed into the password determines session and PIN; what is hashed into a confirmation
  determines key, role and session.\<close>

lemma password_input_inj:
  assumes "length pin = length pin'"
  shows "PIN_DOMAIN @ [0x00] @ ascii s @ ascii pin = PIN_DOMAIN @ [0x00] @ ascii s' @ ascii pin' \<longleftrightarrow>
    s = s' \<and> pin = pin'"
  using fixed_tail_eq [of "ascii pin" "ascii pin'"] assms by simp

lemma confirm_input_inj:
  assumes "length k = 32" "length k' = 32" "r \<in> {''host'', ''controller''}" "r' \<in> {''host'', ''controller''}"
  shows "k @ ascii r @ ascii s = k' @ ascii r' @ ascii s' \<longleftrightarrow> k = k' \<and> r = r' \<and> s = s'"
proof -
  have "r @ s = r' @ s' \<longleftrightarrow> r = r' \<and> s = s'" using assms(3,4) by auto
  then show ?thesis using assms(1,2) by (simp flip: ascii_append)
qed

subsection \<open>Properties\<close>



text \<open>Two ends that know the PIN agree: for any six-digit PIN the host generated, while it is usable,
  the controller that types it derives the key the host derived, and each side's confirmation tag is the
  one the other expects.\<close>

theorem pin_exchange_agrees:
  assumes "spake_agreement P" "value < 1000000" "v = pin_verifier_new s (pin_generate value t0)"
    and "saturating_sub now t0 \<le> PIN_TTL_MS"
  shows "\<exists>a out key. pin_auth_start P x s (pin_display v) = Inr a \<and>
    fst (respond P y (pa_outbound a) now v) = Inr (out, key) \<and> pin_auth_finish P a out = Inr key \<and>
    length key = 32 \<and> attempts_remaining (snd (respond P y (pa_outbound a) now v)) = 2"
proof -
  have wf: "pin_wf (pin_display v)"
    using pin_wf_generate [OF assms(2)] assms(3) by (simp add: pin_display_def pin_verifier_new_def)
  have us: "is_usable (pv_pin v) now"
    using assms(3,4) by (simp add: pin_verifier_new_def pin_generate_def is_usable_def MAX_PIN_ATTEMPTS_def)
  obtain a where a: "pin_auth_start P x s (pin_display v) = Inr a" using wf by (auto simp: pin_auth_start_ok)
  have s: "pv_session_id v = s" using assms(3) by (simp add: pin_verifier_new_def)
  have "attempts_remaining (snd (respond P y (pa_outbound a) now v)) = 2"
    using us assms(3) by (simp add: respond_attempts attempts_remaining_def MAX_PIN_ATTEMPTS_def
        pin_verifier_new_def pin_generate_def saturating_sub_def)
  with pake_agreement [OF assms(1) a s us] a show ?thesis by blast
qed

theorem pin_exchange_agrees_witness:
  "\<exists>a out key. pin_auth_start toy_primitives [1] ''s'' (pin_display (pin_verifier_new ''s'' (pin_generate 42 7))) = Inr a \<and>
    fst (respond toy_primitives [2] (pa_outbound a) 9 (pin_verifier_new ''s'' (pin_generate 42 7))) = Inr (out, key) \<and>
    pin_auth_finish toy_primitives a out = Inr key \<and> length key = 32"
proof -
  have "42 < (1000000 :: nat)" "saturating_sub 9 7 \<le> PIN_TTL_MS" by (simp, code_simp)
  from pin_exchange_agrees [OF toy_primitives_ok(5) this(1) refl this(2), of "[1]" "''s''" "[2]"]
  show ?thesis by blast
qed

end
