(* ===== verification/Rda_Sas.thy ===== *)
theory Rda_Sas
  imports Rda_Binding
begin

text \<open>
  The short authentication string of \<^verbatim>\<open>rda-crypto/src/sas.rs\<close>: the word list, the derivation of four
  words from a transcript hash, and their rendering. HKDF is part of the parameter \<open>P\<close>; that it returns
  the number of bytes asked for is the hypothesis \<open>hkdf_length\<close>.
\<close>

definition SAS_WORDS :: nat where "SAS_WORDS = 4"

text \<open>The word list, a definition per initial letter.\<close>

definition words_a :: "string list" where
  "words_a =
    [''acid'', ''acorn'', ''actor'', ''adobe'', ''agent'', ''aisle'', ''album'', ''alien'',
     ''alarm'', ''algae'', ''amber'', ''amigo'', ''anvil'', ''apple'', ''april'', ''arena'',
     ''armor'', ''arrow'', ''aspen'', ''atlas'', ''audio'', ''aunt'', ''avoid'', ''axis'']"

definition words_b :: "string list" where
  "words_b =
    [''bacon'', ''badge'', ''bagel'', ''baker'', ''balsa'', ''banjo'', ''barge'', ''basil'',
     ''baton'', ''beach'', ''beard'', ''beast'', ''bench'', ''berry'', ''bison'', ''black'',
     ''blade'', ''blaze'', ''blend'', ''blimp'', ''blood'', ''board'', ''bonus'', ''boost'',
     ''botany'', ''bowl'', ''brain'', ''brave'', ''bread'', ''brick'', ''bride'', ''brief'',
     ''bring'', ''brisk'', ''broad'', ''brook'', ''brush'', ''bugle'', ''bunch'']"

definition words_c :: "string list" where
  "words_c =
    [''cabin'', ''cable'', ''cache'', ''cadet'', ''camel'', ''canal'', ''candy'', ''canoe'',
     ''canon'', ''cargo'', ''carve'', ''catch'', ''cedar'', ''chalk'', ''charm'', ''chase'',
     ''cheek'', ''chess'', ''chief'', ''chime'', ''choir'', ''cider'', ''cigar'', ''civic'',
     ''claim'', ''clamp'', ''clash'', ''clean'', ''clerk'', ''cliff'', ''climb'', ''cloak'',
     ''clock'', ''clone'', ''cloud'', ''clove'', ''clown'', ''coach'', ''cobra'', ''cocoa'',
     ''comet'', ''comic'', ''coral'', ''couch'', ''cough'', ''coral2'', ''cover'', ''crane'',
     ''crate'', ''crawl'', ''cream'', ''creek'', ''crest'', ''crisp'', ''crown'', ''crumb'',
     ''crush'', ''curve'', ''cycle'']"

definition words_d :: "string list" where
  "words_d =
    [''daily'', ''dance'', ''dandy'', ''dealt'', ''debit'', ''debug'', ''decal'', ''decay'',
     ''decoy'', ''delta'', ''dense'', ''depth'', ''derby'', ''diary'', ''diner'', ''dingo'',
     ''ditch'', ''diver'', ''dizzy'', ''dodge'', ''donor'', ''donut'', ''dough'', ''dozen'',
     ''draft'', ''drain'', ''drama'', ''dress'', ''drift'', ''drill'', ''drink'', ''drive'',
     ''drove'', ''drums'']"

definition words_e :: "string list" where
  "words_e =
    [''eagle'', ''early'', ''earth'', ''easel'', ''ebony'', ''edict'', ''eight'', ''elbow'',
     ''elder'', ''elite'', ''elope'', ''ember'', ''emery'', ''empty'', ''enemy'', ''enjoy'',
     ''entry'', ''envoy'', ''equal'', ''erase'', ''essay'', ''ether'', ''event'', ''every'',
     ''exact'', ''exile'', ''exist'', ''extra'']"

definition words_f :: "string list" where
  "words_f =
    [''fable'', ''facet'', ''faint'', ''fairy'', ''false'', ''fancy'', ''fault'', ''favor'',
     ''feast'', ''fence'', ''ferry'', ''fever'', ''fiber'', ''field'', ''fiery'', ''fifty'',
     ''final'', ''finch'', ''first'', ''flair'', ''flame'', ''flash'', ''fleet'', ''flint'',
     ''float'', ''flock'', ''flood'', ''floor'', ''flour'', ''fluid'', ''flute'', ''focal'',
     ''focus'', ''foggy'', ''forge'', ''forty'', ''found'', ''frame'', ''fraud'', ''fresh'',
     ''fried'', ''frost'', ''frown'', ''fruit'', ''fudge'', ''fully'', ''funny'']"

definition words_g :: "string list" where
  "words_g =
    [''gauge'', ''gecko'', ''genre'', ''ghost'', ''giant'', ''given'', ''glade'', ''gland'',
     ''glass'', ''glaze'', ''gleam'', ''globe'', ''gloss'', ''glove'', ''going'', ''gourd'',
     ''grace'', ''grade'', ''grain'', ''grand'', ''grape'', ''graph'', ''grasp'', ''grass'',
     ''grave'']"

definition WORDLIST :: "string list" where
  "WORDLIST =
     words_a @ words_b @ words_c @ words_d @ words_e @ words_f @ words_g"

definition short_authentication_string :: "primitives \<Rightarrow> u8 list \<Rightarrow> string \<Rightarrow> string list" where
  "short_authentication_string P transcript session_id =
     (let okm = hkdf_sha256 P (ascii session_id) transcript (ascii ''RDA-v1-sas'') SAS_WORDS
      in map (\<lambda>b. WORDLIST ! unat b) okm)"

text \<open>The separator is a blank, the two bytes of U+00B7, and a blank.\<close>

definition format_sas :: "string list \<Rightarrow> string" where
  "format_sas words = join [CHR 0x20, CHR 0xC2, CHR 0xB7, CHR 0x20] words"

definition hkdf_length :: "primitives \<Rightarrow> bool" where
  "hkdf_length P \<longleftrightarrow> (\<forall>salt ikm info n. length (hkdf_sha256 P salt ikm info n) = n)"

subsection \<open>The word list\<close>

lemmas words_defs = words_a_def words_b_def words_c_def words_d_def words_e_def words_f_def words_g_def

lemma length_WORDLIST: "length WORDLIST = 256"
  by (simp add: WORDLIST_def words_defs)

text \<open>Words with different initial letters differ, so distinctness is checked per letter.\<close>

definition initial :: "char \<Rightarrow> string list \<Rightarrow> bool" where
  "initial c ws \<longleftrightarrow> list_all (\<lambda>w. w \<noteq> [] \<and> hd w = c) ws"

lemma words_initial:
  "initial CHR ''a'' words_a"
  "initial CHR ''b'' words_b"
  "initial CHR ''c'' words_c"
  "initial CHR ''d'' words_d"
  "initial CHR ''e'' words_e"
  "initial CHR ''f'' words_f"
  "initial CHR ''g'' words_g"
  by (simp_all add: initial_def words_defs)

lemma words_distinct:
  "distinct words_a"
  "distinct words_b"
  "distinct words_c"
  "distinct words_d"
  "distinct words_e"
  "distinct words_f"
  "distinct words_g"
  by (simp_all add: words_defs)

lemma distinct_blocks:
  "distinct (map fst bs) \<Longrightarrow> list_all (\<lambda>(c, ws). initial c ws \<and> distinct ws) bs \<Longrightarrow>
   distinct (concat (map snd bs))"
proof (induction bs)
  case (Cons b bs)
  have "hd w = fst b" if "w \<in> set (snd b)" for w
    using Cons.prems that by (auto simp: initial_def list_all_iff case_prod_beta)
  moreover have "\<exists>d \<in> set bs. hd w = fst d" if w: "w \<in> set (concat (map snd bs))" for w
  proof -
    obtain d where d: "d \<in> set bs" "w \<in> set (snd d)" using w by auto
    with Cons.prems(2) have "hd w = fst d" by (simp add: initial_def list_all_iff case_prod_beta)
    with d show ?thesis by blast
  qed
  moreover have "fst b \<notin> fst ` set bs" using Cons.prems by simp
  ultimately have "set (snd b) \<inter> set (concat (map snd bs)) = {}"
    by (metis disjoint_iff image_eqI)
  with Cons show ?case by (simp add: case_prod_beta)
qed simp

lemma WORDLIST_distinct: "distinct WORDLIST"
  using distinct_blocks [of "[(CHR ''a'', words_a),
    (CHR ''b'', words_b),
    (CHR ''c'', words_c),
    (CHR ''d'', words_d),
    (CHR ''e'', words_e),
    (CHR ''f'', words_f),
    (CHR ''g'', words_g)]"]
  by (simp add: WORDLIST_def words_initial words_distinct)

subsection \<open>Properties\<close>

lemma WORDLIST_nth_inj: "WORDLIST ! unat (b :: u8) = WORDLIST ! unat c \<longleftrightarrow> b = c"
proof -
  have "unat x < length WORDLIST" for x :: u8
    using unsigned_less [of x, where ?'a = nat] by (simp add: length_WORDLIST)
  then show ?thesis using nth_eq_iff_index_eq [OF WORDLIST_distinct] by (metis word_unat_eq_iff)
qed

text \<open>The words people compare carry all the bytes they are derived from: both ends show four words
  of the list, and they show the same words exactly when the four derived bytes are the same. There are
  256 different words, so a comparison is worth 32 bits.\<close>

theorem sas_words_faithful:
  assumes "hkdf_length P"
  shows "length (short_authentication_string P t s) = 4 \<and>
    set (short_authentication_string P t s) \<subseteq> set WORDLIST \<and> card (set WORDLIST) = 256 \<and>
    (short_authentication_string P t s = short_authentication_string P t' s' \<longleftrightarrow>
       hkdf_sha256 P (ascii s) t (ascii ''RDA-v1-sas'') 4 = hkdf_sha256 P (ascii s') t' (ascii ''RDA-v1-sas'') 4)"
proof -
  have inj: "inj (\<lambda>b :: u8. WORDLIST ! unat b)"
    by (rule injI) (simp add: WORDLIST_nth_inj)
  have "unat x < length WORDLIST" for x :: u8
    using unsigned_less [of x, where ?'a = nat] by (simp add: length_WORDLIST)
  then have "set (short_authentication_string P t s) \<subseteq> set WORDLIST"
    by (auto simp: short_authentication_string_def Let_def)
  then show ?thesis
    using assms distinct_card [OF WORDLIST_distinct] inj_map_eq_map [OF inj]
    by (simp add: short_authentication_string_def Let_def SAS_WORDS_def hkdf_length_def length_WORDLIST)
qed

theorem sas_words_faithful_witness:
  "short_authentication_string toy_primitives [1, 2, 3, 4] ''s'' \<noteq>
   short_authentication_string toy_primitives [1, 2, 3, 5] ''s''"
proof -
  have "hkdf_length toy_primitives" by (auto simp: hkdf_length_def toy_primitives_def min_def)
  from sas_words_faithful [OF this, of "[1, 2, 3, 4]" "''s''" "[1, 2, 3, 5]" "''s''"]
  show ?thesis by (simp add: toy_primitives_def)
qed

end
