(* ===== verification/Rda_Token.thy ===== *)
theory Rda_Token
  imports Rda_Identity Rda_Caps
begin

text \<open>
  Unattended access tokens of \<^verbatim>\<open>rda-crypto/src/token.rs\<close>: the claims, issuing, the revocation store
  and the validation of a presented token. CBOR (\<^verbatim>\<open>ciborium\<close>) is a parameter, a writer and a reader of
  claims; what the roundtrip needs of it is \<open>cbor_roundtrip\<close>. A \<open>BTreeSet\<close> of identifiers is a set.

  Issuing computes \<open>now_unix + lifetime_s\<close> in 64 bits, which wraps; the roundtrip asks that it does not.
\<close>

definition MAX_TOKEN_LIFETIME_S :: u64 where "MAX_TOKEN_LIFETIME_S = 30 * 24 * 60 * 60"
definition MAX_TOKEN_BYTES :: nat where "MAX_TOKEN_BYTES = 4096"
definition TOKEN_DOMAIN :: "u8 list" where "TOKEN_DOMAIN = ascii ''RDA-v1-token''"

datatype TokenError =
    MalformedEncoding | MalformedBody | BadTokenSignature | WrongIssuer | WrongSubject | TokenExpired
  | Revoked | LifetimeTooLong | UnsupportedVersion u8

record TokenClaims =
  tc_v :: u8
  tc_sub :: "u8 list"
  tc_iss :: string
  tc_iat :: u64
  tc_exp :: u64
  tc_jti :: "u8 list"
  tc_caps :: "string list"

definition claims_session_caps :: "TokenClaims \<Rightarrow> SessionCaps" where
  "claims_session_caps c = from_names (tc_caps c)"

definition hex_lower :: "nat \<Rightarrow> char" where
  "hex_lower n = (if n < 10 then char_of (48 + n) else char_of (97 + (n - 10)))"

definition jti_hex :: "TokenClaims \<Rightarrow> string" where
  "jti_hex c = concat (map (\<lambda>b. [hex_lower (unat b div 16), hex_lower (unat b mod 16)]) (tc_jti c))"

record AccessToken =
  at_claims :: TokenClaims
  at_signature :: "u8 list"
  at_body :: "u8 list"

record cbor =
  cbor_write :: "TokenClaims \<Rightarrow> u8 list option"
  cbor_read :: "u8 list \<Rightarrow> TokenClaims option"

definition token_encode :: "primitives \<Rightarrow> AccessToken \<Rightarrow> string" where
  "token_encode P t = encode_b64 P (at_body t @ at_signature t)"

definition signing_input :: "u8 list \<Rightarrow> u8 list" where
  "signing_input body = TOKEN_DOMAIN @ [0x00] @ body"

text \<open>\<open>rnd\<close> is the sixteen bytes the generator filled in.\<close>

definition token_issue ::
  "primitives \<Rightarrow> cbor \<Rightarrow> u8 list \<Rightarrow> Identity \<Rightarrow> PublicIdentity \<Rightarrow> SessionCaps \<Rightarrow> u64 \<Rightarrow> u64
   \<Rightarrow> TokenError + AccessToken" where
  "token_issue P C rnd identity subject caps now_unix lifetime_s =
     (if lifetime_s > MAX_TOKEN_LIFETIME_S then Inl LifetimeTooLong
      else let claims = \<lparr>tc_v = 1, tc_sub = pi_key subject, tc_iss = as_str (id_device_id identity),
                         tc_iat = now_unix, tc_exp = now_unix + lifetime_s, tc_jti = rnd,
                         tc_caps = to_names caps\<rparr>
           in bindE (ok_or (cbor_write C claims) MalformedBody) (\<lambda>body.
                let signature = identity_sign P identity (signing_input body)
                in Inr \<lparr>at_claims = claims, at_signature = signature, at_body = body\<rparr>))"

type_synonym TokenStore = "u8 list set"

definition token_store_new :: TokenStore where
  "token_store_new = {}"

definition revoke :: "TokenStore \<Rightarrow> u8 list \<Rightarrow> TokenStore" where
  "revoke st jti = insert jti st"

definition is_revoked :: "TokenStore \<Rightarrow> u8 list \<Rightarrow> bool" where
  "is_revoked st jti \<longleftrightarrow> jti \<in> st"

definition prune_expired :: "TokenStore \<Rightarrow> u8 list list \<Rightarrow> TokenStore" where
  "prune_expired st expired_jtis = fold (\<lambda>jti st. st - {jti}) expired_jtis st"

definition token_verify ::
  "primitives \<Rightarrow> cbor \<Rightarrow> TokenStore \<Rightarrow> string \<Rightarrow> Identity \<Rightarrow> PublicIdentity \<Rightarrow> u64
   \<Rightarrow> TokenError + AccessToken" where
  "token_verify P C st encoded host expected_subject now_unix =
     (if length encoded > MAX_TOKEN_BYTES then Inl MalformedEncoding
      else bindE (ok_or (decode_b64 P encoded) MalformedEncoding) (\<lambda>raw.
        if length raw < 65 \<or> length raw > MAX_TOKEN_BYTES then Inl MalformedEncoding
        else let body = take (length raw - 64) raw;
                 signature = drop (length raw - 64) raw
             in case public_verify P (public P host) (signing_input body) signature of
                  Inl _ \<Rightarrow> Inl BadTokenSignature
                | Inr _ \<Rightarrow> bindE (ok_or (cbor_read C body) MalformedBody) (\<lambda>claims.
                    if tc_v claims \<noteq> 1 then Inl (UnsupportedVersion (tc_v claims))
                    else if tc_iss claims \<noteq> as_str (id_device_id host) then Inl WrongIssuer
                    else if tc_sub claims \<noteq> pi_key expected_subject then Inl WrongSubject
                    else if saturating_sub (tc_exp claims) (tc_iat claims) > MAX_TOKEN_LIFETIME_S
                      then Inl LifetimeTooLong
                    else if now_unix \<ge> tc_exp claims then Inl TokenExpired
                    else if is_revoked st (tc_jti claims) then Inl Revoked
                    else Inr \<lparr>at_claims = claims, at_signature = signature, at_body = body\<rparr>)))"

definition cbor_roundtrip :: "cbor \<Rightarrow> bool" where
  "cbor_roundtrip C \<longleftrightarrow> (\<forall>c b. cbor_write C c = Some b \<longrightarrow> cbor_read C b = Some c \<and> b \<noteq> [])"

definition signature_length :: "primitives \<Rightarrow> bool" where
  "signature_length P \<longleftrightarrow> (\<forall>sk m. length (ed_sign P sk m) = 64)"

subsection \<open>What validation establishes\<close>

lemma token_verify_sound:
  assumes "token_verify P C st e host subject now = Inr t"
  shows "verify_strict P (verifying_key P (id_signing_key host)) (signing_input (at_body t)) (at_signature t)"
    and "cbor_read C (at_body t) = Some (at_claims t)" "tc_v (at_claims t) = 1"
    and "tc_iss (at_claims t) = as_str (id_device_id host)" "tc_sub (at_claims t) = pi_key subject"
    and "saturating_sub (tc_exp (at_claims t)) (tc_iat (at_claims t)) \<le> MAX_TOKEN_LIFETIME_S"
    and "now < tc_exp (at_claims t)" "\<not> is_revoked st (tc_jti (at_claims t))"
    and "length e \<le> MAX_TOKEN_BYTES" "b64_decode P e = Some (at_body t @ at_signature t)"
    and "length (at_signature t) = 64"
  using assms
  by (auto simp: token_verify_def bindE_eq_Inr public_verify_def public_def Let_def decode_b64_def
      split: if_splits)

lemma token_issue_ok:
  assumes "token_issue P C rnd i subject caps now life = Inr t"
  shows "at_claims t = \<lparr>tc_v = 1, tc_sub = pi_key subject, tc_iss = as_str (id_device_id i),
      tc_iat = now, tc_exp = now + life, tc_jti = rnd, tc_caps = to_names caps\<rparr>"
    and "cbor_write C (at_claims t) = Some (at_body t)" "life \<le> MAX_TOKEN_LIFETIME_S"
    and "at_signature t = ed_sign P (id_signing_key i) (signing_input (at_body t))"
  using assms
  by (auto simp: token_issue_def bindE_eq_Inr Let_def identity_sign_def split: if_splits)

lemma prune_expired_eq: "prune_expired st js = st - set js"
  unfolding prune_expired_def by (induction js arbitrary: st) auto

lemma unat_add_no_wrap: "unat (a :: u64) + unat b < 2 ^ 64 \<Longrightarrow> unat (a + b) = unat a + unat b"
  by (simp add: unat_word_ariths)

subsection \<open>Properties\<close>


definition toy_cbor :: cbor where
  "toy_cbor = \<lparr>cbor_write = (\<lambda>c. if tc_sub c = [] \<and> tc_iss c = [] \<and> tc_jti c = [9] \<and> tc_v c = 1 \<and> tc_caps c = [''input''] \<and> tc_iat c = 5 \<and> tc_exp c = 15 then Some [0xA7] else None),
     cbor_read = (\<lambda>b. Some \<lparr>tc_v = 1, tc_sub = [], tc_iss = [], tc_iat = 5, tc_exp = 15, tc_jti = [9], tc_caps = [''input'']\<rparr>)\<rparr>"


text \<open>C14. Nothing else works: a token that is accepted carries the host's own signature over exactly the
  bytes its claims were read from, names this host and the presenting device, is of version 1, lives at
  most thirty days, has not expired and is not revoked; revoking it refuses it from then on, until its
  entry is pruned.\<close>

theorem accepted_token_valid:
  assumes "token_verify P C st e host subject now = Inr t"
  shows "verify_strict P (verifying_key P (id_signing_key host)) (signing_input (at_body t)) (at_signature t) \<and>
    cbor_read C (at_body t) = Some (at_claims t) \<and> tc_v (at_claims t) = 1 \<and>
    tc_iss (at_claims t) = as_str (id_device_id host) \<and> tc_sub (at_claims t) = pi_key subject \<and>
    unat (tc_exp (at_claims t)) \<le> unat (tc_iat (at_claims t)) + 2592000 \<and> now < tc_exp (at_claims t) \<and>
    tc_jti (at_claims t) \<notin> st \<and>
    token_verify P C (prune_expired (revoke st (tc_jti (at_claims t))) js) e host subject now =
      (if tc_jti (at_claims t) \<in> set js then Inr t else Inl Revoked)"
proof -
  note v = token_verify_sound [OF assms]
  have "unat (tc_exp (at_claims t)) \<le> unat (tc_iat (at_claims t)) + 2592000"
    using v(6) by (simp add: MAX_TOKEN_LIFETIME_S_def word_le_nat_alt)
  moreover have "token_verify P C (prune_expired (revoke st (tc_jti (at_claims t))) js) e host subject now =
      (if tc_jti (at_claims t) \<in> set js then Inr t else Inl Revoked)"
    using assms v
    by (auto simp: token_verify_def bindE_eq_Inr public_verify_def public_def Let_def decode_b64_def
        prune_expired_eq revoke_def is_revoked_def split: if_splits)
  ultimately show ?thesis using v by (simp add: is_revoked_def)
qed

theorem accepted_token_valid_witness:
  "let host = \<lparr>id_signing_key = [1], id_device_id = DeviceId []\<rparr>;
       subject = \<lparr>pi_key = [], pi_device_id = DeviceId []\<rparr>;
       P = toy_primitives\<lparr>verify_strict := \<lambda>_ _ _. True\<rparr>;
       e = replicate 65 CHR ''x''
   in token_verify P toy_cbor (prune_expired (revoke {} [9]) [[4]]) e host subject 14 = Inl Revoked"
proof -
  let ?P = "toy_primitives\<lparr>verify_strict := \<lambda>_ _ _. True\<rparr>"
  let ?host = "\<lparr>id_signing_key = [1], id_device_id = DeviceId []\<rparr>"
  let ?subject = "\<lparr>pi_key = [], pi_device_id = DeviceId []\<rparr>"
  obtain t where t: "token_verify ?P toy_cbor {} (replicate 65 CHR ''x'') ?host ?subject 14 = Inr t"
    and j: "tc_jti (at_claims t) = [9]"
    by (simp add: token_verify_def toy_cbor_def toy_primitives_def decode_b64_def MAX_TOKEN_BYTES_def Let_def
        public_verify_def is_revoked_def MAX_TOKEN_LIFETIME_S_def saturating_sub_def)
  from accepted_token_valid [OF t, of "[[4]]"] j show ?thesis by (simp add: Let_def)
qed

end
