(* ===== verification/Rda_HostSession.thy ===== *)
theory Rda_HostSession
  imports Rda_Pake Rda_Sas Rda_Token Rda_Grant
begin

text \<open>
  The host's authorisation state machine of \<^verbatim>\<open>rda-host/src/session.rs\<close>: consent, the two steps of PIN
  authentication, unattended tokens, narrowing and closing. A method on \<open>&mut self\<close> becomes a function
  that returns its result with the session and whatever else it changes (the audit log, the address
  book). What the sources draw at random is an argument.

  \<open>host_step\<close> is any call of any method with any arguments, so what holds in every state reachable by
  it holds whatever peer, user and clock do. The invariant \<open>host_inv\<close> is interpreted as an inductive
  invariant (\<open>host\<close>); the properties follow from it.
\<close>

datatype SessionState =
    AwaitingConsent | Authenticating | AwaitingConfirmation | Established
  | Closed string | SessionFailed string

definition permits_input :: "SessionState \<Rightarrow> bool" where
  "permits_input st \<longleftrightarrow> st = Established"

datatype ConsentDecision = Allow SessionCaps | Deny

datatype SessionError =
    ConsentDenied | ConsentTimeout | PinError PakeError | TokenFailed TokenError
  | BindingFailed BindingError | PeerKeyChanged | WrongState

definition CONSENT_TIMEOUT_MS :: u64 where
  "CONSENT_TIMEOUT_MS = 30000"

record PeerCredentials =
  pc_identity :: PublicIdentity
  pc_binding :: BindingVerifier
  pc_proof :: BindingProof

record HostSession =
  hs_session_id :: string
  hs_peer_id :: DeviceId
  hs_peer_identity :: "PublicIdentity option"
  hs_state :: SessionState
  hs_requested_caps :: SessionCaps
  hs_consented_caps :: "SessionCaps option"
  hs_grant :: "SessionGrant option"
  hs_pin :: "PinVerifier option"
  hs_pending_key :: "u8 list option"
  hs_started_at_ms :: u64
  hs_sas :: "string list option"

record PinAuthResponse =
  par_pake_message :: "u8 list"
  par_confirmation :: "u8 list"

definition host_session_new :: "string \<Rightarrow> DeviceId \<Rightarrow> SessionCaps \<Rightarrow> u64 \<Rightarrow> HostSession" where
  "host_session_new session_id peer_id requested_caps now_ms =
     \<lparr>hs_session_id = session_id, hs_peer_id = peer_id, hs_peer_identity = None,
      hs_state = AwaitingConsent, hs_requested_caps = requested_caps, hs_consented_caps = None,
      hs_grant = None, hs_pin = None, hs_pending_key = None, hs_started_at_ms = now_ms,
      hs_sas = None\<rparr>"

definition session_pin_display :: "HostSession \<Rightarrow> string option" where
  "session_pin_display s = map_option pin_display (hs_pin s)"

definition apply_consent ::
  "nat \<Rightarrow> ConsentDecision \<Rightarrow> u64 \<Rightarrow> HostSession \<Rightarrow> AuditLog \<Rightarrow> (SessionError + unit) \<times> HostSession \<times> AuditLog" where
  "apply_consent pin decision now_ms s audit =
     (if hs_state s \<noteq> AwaitingConsent then (Inl WrongState, s, audit)
      else if saturating_sub now_ms (hs_started_at_ms s) > CONSENT_TIMEOUT_MS then
        (Inl ConsentTimeout, s\<lparr>hs_state := SessionFailed ''consent timed out''\<rparr>, audit)
      else case decision of
        Deny \<Rightarrow>
          (Inl ConsentDenied, s\<lparr>hs_state := SessionFailed ''consent denied''\<rparr>,
           audit_record audit now_ms (InjectionRefused (hs_session_id s) ''consent denied''))
      | Allow caps \<Rightarrow>
          let granted = clamp_to (hs_requested_caps s) caps
          in (Inr (),
              s\<lparr>hs_consented_caps := Some granted,
                hs_pin := Some (pin_verifier_new (hs_session_id s) (pin_generate pin now_ms)),
                hs_state := Authenticating\<rparr>,
              audit))"

definition begin_pin_auth ::
  "primitives \<Rightarrow> u8 list \<Rightarrow> u8 list \<Rightarrow> u64 \<Rightarrow> HostSession \<Rightarrow> (SessionError + PinAuthResponse) \<times> HostSession" where
  "begin_pin_auth P rnd peer_pake_message now_ms s =
     (if hs_state s \<noteq> Authenticating then (Inl WrongState, s)
      else case hs_pin s of
        None \<Rightarrow> (Inl WrongState, s)
      | Some verifier \<Rightarrow>
          (case respond P rnd peer_pake_message now_ms verifier of
             (Inl e, verifier') \<Rightarrow>
               (Inl (PinError e),
                s\<lparr>hs_pin := Some verifier', hs_state := SessionFailed ''PIN authentication failed''\<rparr>)
           | (Inr (our_message, shared_key), verifier') \<Rightarrow>
               (Inr \<lparr>par_pake_message = our_message,
                     par_confirmation = confirm P shared_key ''host'' (hs_session_id s)\<rparr>,
                s\<lparr>hs_pin := Some verifier', hs_pending_key := Some shared_key,
                  hs_state := AwaitingConfirmation\<rparr>)))"

definition complete_pin_auth ::
  "primitives \<Rightarrow> u8 list \<Rightarrow> PeerCredentials \<Rightarrow> u64 \<Rightarrow> HostSession \<Rightarrow> AddressBook \<Rightarrow> AuditLog
   \<Rightarrow> (SessionError + unit) \<times> HostSession \<times> AddressBook \<times> AuditLog" where
  "complete_pin_auth P peer_confirmation peer now_ms s book audit =
     (if hs_state s \<noteq> AwaitingConfirmation then (Inl WrongState, s, book, audit)
      else case hs_consented_caps s of
        None \<Rightarrow> (Inl WrongState, s, book, audit)
      | Some caps \<Rightarrow>
      case hs_pending_key s of
        None \<Rightarrow> (Inl WrongState, s, book, audit)
      | Some shared_key \<Rightarrow>
      let s = s\<lparr>hs_pending_key := None\<rparr>;
          expected = confirm P shared_key ''controller'' (hs_session_id s)
      in if \<not> confirm_matches expected peer_confirmation then
           (Inl (PinError Failed), s\<lparr>hs_state := SessionFailed ''PIN confirmation failed''\<rparr>, book, audit)
         else let (trust, book) = check_and_pin book (pc_identity peer)
         in if trust = KeyChanged then
              (Inl PeerKeyChanged, s\<lparr>hs_state := SessionFailed ''peer identity key changed''\<rparr>, book, audit)
            else case binding_verify P (pc_binding peer) (pc_proof peer) (Some (hs_peer_id s)) of
              Inl e \<Rightarrow>
                (Inl (BindingFailed e), s\<lparr>hs_state := SessionFailed ''fingerprint binding failed''\<rparr>,
                 book, audit)
            | Inr _ \<Rightarrow>
                (Inr (),
                 s\<lparr>hs_pin := map_option consume (hs_pin s),
                   hs_peer_identity := Some (pc_identity peer),
                   hs_sas := Some (short_authentication_string P
                     (transcript_hash P (pc_binding peer)) (hs_session_id s)),
                   hs_grant := Some (grant_issue (hs_session_id s) (hs_peer_id s) caps
                     AuthMethod.SessionPin now_ms),
                   hs_state := Established\<rparr>,
                 book,
                 audit_record audit now_ms (SessionStarted (hs_session_id s) (hs_peer_id s) caps
                   AuthMethod.SessionPin)))"

definition authenticate_with_token ::
  "primitives \<Rightarrow> cbor \<Rightarrow> string \<Rightarrow> Identity \<Rightarrow> TokenStore \<Rightarrow> PeerCredentials \<Rightarrow> u64 \<Rightarrow> HostSession \<Rightarrow> AuditLog
   \<Rightarrow> (SessionError + unit) \<times> HostSession \<times> AuditLog" where
  "authenticate_with_token P C encoded_token host_identity tokens peer now_ms s audit =
     (if hs_state s \<notin> {AwaitingConsent, Authenticating} then (Inl WrongState, s, audit)
      else case token_verify P C tokens encoded_token host_identity (pc_identity peer) (now_ms div 1000) of
        Inl e \<Rightarrow> (Inl (TokenFailed e), s\<lparr>hs_state := SessionFailed ''token rejected''\<rparr>, audit)
      | Inr token \<Rightarrow>
          (case binding_verify P (pc_binding peer) (pc_proof peer) (Some (hs_peer_id s)) of
             Inl e \<Rightarrow>
               (Inl (BindingFailed e), s\<lparr>hs_state := SessionFailed ''fingerprint binding failed''\<rparr>, audit)
           | Inr _ \<Rightarrow>
               let caps = clamp_to (hs_requested_caps s) (claims_session_caps (at_claims token))
               in (Inr (),
                   s\<lparr>hs_peer_identity := Some (pc_identity peer),
                     hs_sas := Some (short_authentication_string P
                       (transcript_hash P (pc_binding peer)) (hs_session_id s)),
                     hs_grant := Some (grant_issue (hs_session_id s) (hs_peer_id s) caps
                       UnattendedToken now_ms),
                     hs_state := Established\<rparr>,
                   audit_record audit now_ms (SessionStarted (hs_session_id s) (hs_peer_id s) caps
                     UnattendedToken))))"

definition session_restrict :: "SessionCaps \<Rightarrow> u64 \<Rightarrow> HostSession \<Rightarrow> AuditLog \<Rightarrow> HostSession \<times> AuditLog" where
  "session_restrict to now_ms s audit =
     (case hs_grant s of
        None \<Rightarrow> (s, audit)
      | Some grant \<Rightarrow>
          let narrowed = grant_restrict grant to
          in (s\<lparr>hs_grant := Some narrowed\<rparr>,
              audit_record audit now_ms (CapabilitiesChanged (hs_session_id s) (g_caps narrowed))))"

definition session_close :: "string \<Rightarrow> u64 \<Rightarrow> HostSession \<Rightarrow> AuditLog \<Rightarrow> HostSession \<times> AuditLog" where
  "session_close reason now_ms s audit =
     (case hs_state s of
        Closed _ \<Rightarrow> (s, audit)
      | _ \<Rightarrow>
          (s\<lparr>hs_grant := None, hs_pending_key := None, hs_state := Closed reason\<rparr>,
           audit_record audit now_ms
             (SessionEnded (hs_session_id s) (saturating_sub now_ms (hs_started_at_ms s)))))"

definition binding_pair ::
  "string \<Rightarrow> Fingerprint \<Rightarrow> Fingerprint \<Rightarrow> u8 list \<Rightarrow> u8 list \<Rightarrow> BindingVerifier \<times> BindingVerifier" where
  "binding_pair session_id controller_fp host_fp controller_nonce host_nonce =
     (binding_new session_id Controller controller_nonce host_nonce controller_fp host_fp,
      binding_new session_id Host host_nonce controller_nonce host_fp controller_fp)"

subsection \<open>Steps and invariant\<close>

inductive host_step :: "primitives \<Rightarrow> cbor \<Rightarrow> HostSession \<Rightarrow> HostSession \<Rightarrow> bool" for P C where
  consent: "apply_consent pin d now s audit = (r, s', audit') \<Longrightarrow> host_step P C s s'"
| pin_begin: "begin_pin_auth P rnd msg now s = (r, s') \<Longrightarrow> host_step P C s s'"
| pin_complete: "complete_pin_auth P conf peer now s book audit = (r, s', book', audit') \<Longrightarrow> host_step P C s s'"
| token: "authenticate_with_token P C enc host tokens peer now s audit = (r, s', audit') \<Longrightarrow> host_step P C s s'"
| narrow: "session_restrict to now s audit = (s', audit') \<Longrightarrow> host_step P C s s'"
| close: "session_close reason now s audit = (s', audit') \<Longrightarrow> host_step P C s s'"

inductive_cases host_stepE: "host_step P C s s'"

definition host_init :: "HostSession \<Rightarrow> bool" where
  "host_init s \<longleftrightarrow> (\<exists>sid peer req now. s = host_session_new sid peer req now)"

text \<open>A call with its arguments, and the session after it.\<close>

datatype HostCall =
    Consent nat ConsentDecision u64 AuditLog
  | PinBegin "u8 list" "u8 list" u64
  | PinComplete "u8 list" PeerCredentials u64 AddressBook AuditLog
  | TokenAuth string Identity TokenStore PeerCredentials u64 AuditLog
  | Narrow SessionCaps u64 AuditLog
  | Close string u64 AuditLog

fun host_exec :: "primitives \<Rightarrow> cbor \<Rightarrow> HostCall \<Rightarrow> HostSession \<Rightarrow> HostSession" where
  "host_exec P C (Consent pin d now audit) s = fst (snd (apply_consent pin d now s audit))"
| "host_exec P C (PinBegin rnd msg now) s = snd (begin_pin_auth P rnd msg now s)"
| "host_exec P C (PinComplete conf peer now book audit) s =
     fst (snd (complete_pin_auth P conf peer now s book audit))"
| "host_exec P C (TokenAuth enc host tokens peer now audit) s =
     fst (snd (authenticate_with_token P C enc host tokens peer now s audit))"
| "host_exec P C (Narrow to now audit) s = fst (session_restrict to now s audit)"
| "host_exec P C (Close reason now audit) s = fst (session_close reason now s audit)"

lemma host_step_exec: "host_step P C s (host_exec P C c s)"
  by (cases c) (simp_all, (metis host_step.intros prod.collapse)+)

lemma reach_host_exec:
  "reach host_init (host_step P C) s \<Longrightarrow> reach host_init (host_step P C) (host_exec P C c s)"
  by (rule reach_step, assumption, rule host_step_exec)

definition grant_ok :: "HostSession \<Rightarrow> SessionGrant \<Rightarrow> bool" where
  "grant_ok s g \<longleftrightarrow>
     g_session_id g = hs_session_id s \<and> g_peer g = hs_peer_id s \<and>
     caps_le (g_caps g) (hs_requested_caps s) \<and>
     (g_method g = AuthMethod.SessionPin \<longrightarrow>
        (\<exists>c. hs_consented_caps s = Some c \<and> caps_le (g_caps g) c))"

definition host_inv :: "HostSession \<Rightarrow> bool" where
  "host_inv s \<longleftrightarrow>
     (hs_grant s \<noteq> None \<longleftrightarrow> hs_state s = Established) \<and>
     (\<forall>g. hs_grant s = Some g \<longrightarrow> grant_ok s g) \<and>
     (\<forall>c. hs_consented_caps s = Some c \<longrightarrow> caps_le c (hs_requested_caps s)) \<and>
     (hs_state s = Authenticating \<longrightarrow> hs_pin s \<noteq> None \<and> hs_consented_caps s \<noteq> None) \<and>
     (hs_pending_key s \<noteq> None \<longleftrightarrow> hs_state s = AwaitingConfirmation) \<and>
     (hs_state s = AwaitingConfirmation \<longrightarrow> hs_consented_caps s \<noteq> None)"

lemma host_inv_new: "host_inv (host_session_new sid peer req now)"
  by (simp add: host_inv_def host_session_new_def)

lemma host_inv_consent: "host_inv s \<Longrightarrow> apply_consent pin d now s audit = (r, s', audit') \<Longrightarrow> host_inv s'"
  by (auto simp: host_inv_def apply_consent_def grant_ok_def Let_def
      split: if_splits ConsentDecision.splits)

lemma host_inv_begin: "host_inv s \<Longrightarrow> begin_pin_auth P rnd msg now s = (r, s') \<Longrightarrow> host_inv s'"
  by (auto simp: host_inv_def begin_pin_auth_def grant_ok_def
      split: if_splits option.splits prod.splits sum.splits)

text \<open>The three ways either authentication can end: refused in the wrong state, failed for good, or
  granted with every check passed.\<close>

lemma complete_pin_auth_cases:
  assumes "complete_pin_auth P conf peer now s book audit = (r, s', book', audit')"
  obtains (refused) "r = Inl WrongState" "s' = s"
      "hs_state s = AwaitingConfirmation \<Longrightarrow> hs_consented_caps s = None \<or> hs_pending_key s = None"
  | (failed) e why where "r = Inl e" "e \<noteq> WrongState" "hs_state s = AwaitingConfirmation"
      "s' = s\<lparr>hs_pending_key := None, hs_state := SessionFailed why\<rparr>"
  | (granted) caps key where "r = Inr ()" "hs_state s = AwaitingConfirmation"
      "hs_consented_caps s = Some caps" "hs_pending_key s = Some key"
      "confirm P key ''controller'' (hs_session_id s) = conf"
      "book_check book (pc_identity peer) \<noteq> KeyChanged"
      "binding_verify P (pc_binding peer) (pc_proof peer) (Some (hs_peer_id s)) = Inr ()"
      "s' = s\<lparr>hs_pending_key := None, hs_pin := map_option consume (hs_pin s),
        hs_peer_identity := Some (pc_identity peer),
        hs_sas := Some (short_authentication_string P (transcript_hash P (pc_binding peer)) (hs_session_id s)),
        hs_grant := Some (grant_issue (hs_session_id s) (hs_peer_id s) caps AuthMethod.SessionPin now),
        hs_state := Established\<rparr>"
proof (cases "hs_state s = AwaitingConfirmation \<and> hs_consented_caps s \<noteq> None \<and> hs_pending_key s \<noteq> None")
  case False
  then have "r = Inl WrongState \<and> s' = s"
    using assms
    by (cases "hs_state s = AwaitingConfirmation"; cases "hs_consented_caps s"; cases "hs_pending_key s")
      (simp_all add: complete_pin_auth_def)
  with False show ?thesis by (intro refused) auto
next
  case True
  then obtain caps key where ck: "hs_state s = AwaitingConfirmation" "hs_consented_caps s = Some caps"
    "hs_pending_key s = Some key" by auto
  note eq = assms [symmetric, unfolded complete_pin_auth_def Let_def, simplified ck, simplified]
  show ?thesis
  proof (cases "confirm_matches (confirm P key ''controller'' (hs_session_id s)) conf")
    case False
    with eq ck show ?thesis by (intro failed [of "PinError Failed" "''PIN confirmation failed''"]) simp_all
  next
    case m: True
    obtain trust book1 where cp: "check_and_pin book (pc_identity peer) = (trust, book1)" by fastforce
    show ?thesis
    proof (cases "trust = KeyChanged")
      case True
      with eq ck m cp show ?thesis
        by (intro failed [of PeerKeyChanged "''peer identity key changed''"]) simp_all
    next
      case t: False
      show ?thesis
      proof (cases "binding_verify P (pc_binding peer) (pc_proof peer) (Some (hs_peer_id s))")
        case (Inl e)
        with eq ck m cp t show ?thesis
          by (intro failed [of "BindingFailed e" "''fingerprint binding failed''"]) simp_all
      next
        case (Inr u)
        with eq ck m cp t fst_check_and_pin [of book "pc_identity peer"] show ?thesis
          by (intro granted) (simp_all add: confirm_matches_def)
      qed
    qed
  qed
qed

lemma authenticate_with_token_cases:
  assumes "authenticate_with_token P C enc host tokens peer now s audit = (r, s', audit')"
  obtains (refused) "r = Inl WrongState" "s' = s" "hs_state s \<noteq> AwaitingConsent" "hs_state s \<noteq> Authenticating"
  | (failed) e why where "r = Inl e" "e \<noteq> WrongState" "hs_state s \<in> {AwaitingConsent, Authenticating}"
      "s' = s\<lparr>hs_state := SessionFailed why\<rparr>"
  | (granted) t where "r = Inr ()" "hs_state s \<in> {AwaitingConsent, Authenticating}"
      "token_verify P C tokens enc host (pc_identity peer) (now div 1000) = Inr t"
      "binding_verify P (pc_binding peer) (pc_proof peer) (Some (hs_peer_id s)) = Inr ()"
      "s' = s\<lparr>hs_peer_identity := Some (pc_identity peer),
        hs_sas := Some (short_authentication_string P (transcript_hash P (pc_binding peer)) (hs_session_id s)),
        hs_grant := Some (grant_issue (hs_session_id s) (hs_peer_id s)
          (clamp_to (hs_requested_caps s) (claims_session_caps (at_claims t))) UnattendedToken now),
        hs_state := Established\<rparr>"
proof (cases "hs_state s \<in> {AwaitingConsent, Authenticating}")
  case False
  with assms refused show ?thesis by (simp add: authenticate_with_token_def)
next
  case st: True
  then have "\<not> hs_state s \<notin> {AwaitingConsent, Authenticating}" by simp
  note eq = assms [symmetric, unfolded authenticate_with_token_def Let_def if_not_P [OF this]]
  show ?thesis
  proof (cases "token_verify P C tokens enc host (pc_identity peer) (now div 1000)")
    case (Inl e)
    with eq st show ?thesis by (intro failed [of "TokenFailed e" "''token rejected''"]) simp_all
  next
    case t: (Inr t)
    show ?thesis
    proof (cases "binding_verify P (pc_binding peer) (pc_proof peer) (Some (hs_peer_id s))")
      case (Inl e)
      with eq st t show ?thesis
        by (intro failed [of "BindingFailed e" "''fingerprint binding failed''"]) simp_all
    next
      case (Inr u)
      with eq st t show ?thesis by (intro granted) simp_all
    qed
  qed
qed

lemma host_inv_complete:
  "host_inv s \<Longrightarrow> complete_pin_auth P conf peer now s book audit = (r, s', book', audit') \<Longrightarrow> host_inv s'"
  by (erule complete_pin_auth_cases) (simp_all add: host_inv_def grant_ok_def grant_issue_def)

lemma host_inv_token:
  assumes "host_inv s" "authenticate_with_token P C enc host tokens peer now s audit = (r, s', audit')"
  shows "host_inv s'"
  using assms(2)
proof (cases rule: authenticate_with_token_cases)
  case refused
  with assms(1) show ?thesis by simp
next
  case (failed e why)
  then have "hs_grant s = None" "hs_pending_key s = None" using assms(1) by (auto simp: host_inv_def)
  with assms(1) failed(4) show ?thesis by (simp add: host_inv_def)
next
  case (granted t)
  then have "hs_pending_key s = None" using assms(1) by (auto simp: host_inv_def)
  with assms(1) granted(5) show ?thesis by (simp add: host_inv_def grant_ok_def grant_issue_def)
qed

lemma host_inv_restrict:
  assumes "host_inv s" "session_restrict to now s audit = (s', audit')"
  shows "host_inv s'"
proof (cases "hs_grant s")
  case None
  with assms show ?thesis by (simp add: session_restrict_def)
next
  case (Some g)
  then have s': "s' = s\<lparr>hs_grant := Some (grant_restrict g to)\<rparr>" and "grant_ok s g"
    using assms by (auto simp: session_restrict_def Let_def host_inv_def)
  then have "grant_ok s' (grant_restrict g to)"
    using caps_le_trans [OF grant_restrict_narrows(1) [of g to]]
    by (auto simp: grant_ok_def grant_restrict_def)
  with assms(1) Some s' show ?thesis by (simp add: host_inv_def)
qed

lemma host_inv_close: "host_inv s \<Longrightarrow> session_close reason now s audit = (s', audit') \<Longrightarrow> host_inv s'"
  by (auto simp: host_inv_def session_close_def grant_ok_def split: SessionState.splits)

interpretation host: inductive_invariant host_init "host_step P C" host_inv for P C
proof
  show "host_inv s" if "host_init s" for s
    using that host_inv_new by (auto simp: host_init_def)
  show "host_inv t" if "host_inv s" "host_step P C s t" for s t
    using that(2,1)
    by (cases rule: host_stepE)
      (blast intro: host_inv_consent host_inv_begin host_inv_complete host_inv_token host_inv_restrict
        host_inv_close)+
qed

subsection \<open>Terminal states\<close>

definition terminal :: "SessionState \<Rightarrow> bool" where
  "terminal st \<longleftrightarrow> (case st of Closed _ \<Rightarrow> True | SessionFailed _ \<Rightarrow> True | _ \<Rightarrow> False)"

lemma terminal_simps [simp]:
  "terminal (Closed r)" "terminal (SessionFailed r)" "\<not> terminal AwaitingConsent"
  "\<not> terminal Authenticating" "\<not> terminal AwaitingConfirmation" "\<not> terminal Established"
  by (simp_all add: terminal_def)

definition ended :: "HostSession \<Rightarrow> bool" where
  "ended s \<longleftrightarrow> terminal (hs_state s) \<and> hs_grant s = None"

lemma ended_step:
  assumes "host_step P C s s'" "ended s"
  shows "ended s'"
  using assms(1)
proof cases
  case pin_complete
  then show ?thesis by (cases rule: complete_pin_auth_cases) (use assms(2) in \<open>auto simp: ended_def\<close>)
next
  case token
  then show ?thesis by (cases rule: authenticate_with_token_cases) (use assms(2) in \<open>auto simp: ended_def\<close>)
next
  case close
  with assms(2) show ?thesis
    by (cases "hs_state s") (auto simp: ended_def session_close_def)
qed (use assms(2) in \<open>auto simp: ended_def apply_consent_def begin_pin_auth_def session_restrict_def
  split: if_splits option.splits\<close>)

lemma ended_steps: "(host_step P C)\<^sup>*\<^sup>* s t \<Longrightarrow> ended s \<Longrightarrow> ended t"
  by (induction rule: rtranclp_induct) (auto intro: ended_step)

lemma host_inv_ended: "host_inv s \<Longrightarrow> terminal (hs_state s) \<Longrightarrow> ended s"
  by (auto simp: host_inv_def ended_def)

lemma apply_consent_error:
  "apply_consent pin d now s audit = (Inl e, s', audit') \<Longrightarrow> e \<noteq> WrongState \<Longrightarrow> terminal (hs_state s')"
  by (auto simp: apply_consent_def Let_def split: if_splits ConsentDecision.splits)

lemma begin_pin_auth_error:
  "begin_pin_auth P rnd msg now s = (Inl e, s') \<Longrightarrow> e \<noteq> WrongState \<Longrightarrow> terminal (hs_state s')"
  by (auto simp: begin_pin_auth_def split: if_splits option.splits prod.splits sum.splits)

lemma complete_pin_auth_error:
  assumes "complete_pin_auth P conf peer now s book audit = (Inl e, s', book', audit')" "e \<noteq> WrongState"
  shows "terminal (hs_state s')"
  using assms(1) by (cases rule: complete_pin_auth_cases) (use assms(2) in auto)

lemma authenticate_with_token_error:
  assumes "authenticate_with_token P C enc host tokens peer now s audit = (Inl e, s', audit')" "e \<noteq> WrongState"
  shows "terminal (hs_state s')"
  using assms(1) by (cases rule: authenticate_with_token_cases) (use assms(2) in auto)

text \<open>One call of an authentication method that ends in an error.\<close>

inductive host_error :: "primitives \<Rightarrow> cbor \<Rightarrow> HostSession \<Rightarrow> SessionError \<Rightarrow> HostSession \<Rightarrow> bool" for P C where
  "apply_consent pin d now s audit = (Inl e, s', audit') \<Longrightarrow> host_error P C s e s'"
| "begin_pin_auth P rnd msg now s = (Inl e, s') \<Longrightarrow> host_error P C s e s'"
| "complete_pin_auth P conf peer now s book audit = (Inl e, s', book', audit') \<Longrightarrow> host_error P C s e s'"
| "authenticate_with_token P C enc host tokens peer now s audit = (Inl e, s', audit') \<Longrightarrow> host_error P C s e s'"

lemma host_error_step: "host_error P C s e s' \<Longrightarrow> host_step P C s s'"
  by (induction rule: host_error.induct) (blast intro: host_step.intros)+

lemma host_error_terminal: "host_error P C s e s' \<Longrightarrow> e \<noteq> WrongState \<Longrightarrow> terminal (hs_state s')"
  by (induction rule: host_error.induct)
    (blast dest: apply_consent_error begin_pin_auth_error complete_pin_auth_error
      authenticate_with_token_error)+

subsection \<open>The honest run\<close>

definition consented :: "nat \<Rightarrow> SessionCaps \<Rightarrow> u64 \<Rightarrow> HostSession \<Rightarrow> HostSession" where
  "consented value caps t s =
     s\<lparr>hs_consented_caps := Some (clamp_to (hs_requested_caps s) caps),
       hs_pin := Some (pin_verifier_new (hs_session_id s) (pin_generate value t)),
       hs_state := Authenticating\<rparr>"

lemma apply_consent_allow:
  "hs_state s = AwaitingConsent \<Longrightarrow> saturating_sub t (hs_started_at_ms s) \<le> CONSENT_TIMEOUT_MS \<Longrightarrow>
   apply_consent value (Allow caps) t s audit = (Inr (), consented value caps t s, audit)"
  by (simp add: apply_consent_def consented_def Let_def)

lemma begin_pin_auth_honest:
  assumes "spake_agreement P" "value < 1000000" "saturating_sub t2 t1 \<le> PIN_TTL_MS"
    and "hs_session_id s = sid"
  shows "\<exists>a resp key s2. pin_auth_start P x sid (format_06 value) = Inr a \<and>
    begin_pin_auth P y (pa_outbound a) t2 (consented value caps t1 s) = (Inr resp, s2) \<and>
    pin_auth_finish P a (par_pake_message resp) = Inr key \<and>
    par_confirmation resp = confirm P key ''host'' sid \<and>
    hs_state s2 = AwaitingConfirmation \<and> hs_pending_key s2 = Some key \<and>
    hs_consented_caps s2 = Some (clamp_to (hs_requested_caps s) caps) \<and>
    hs_session_id s2 = sid \<and> hs_peer_id s2 = hs_peer_id s"
proof -
  let ?v = "pin_verifier_new sid (pin_generate value t1)"
  have d: "pin_display ?v = format_06 value" "pv_session_id ?v = sid"
    by (simp_all add: pin_display_def pin_verifier_new_def pin_generate_def)
  have "pin_wf (pin_display ?v)"
    using pin_wf_generate [OF assms(2), of t1] by (simp add: pin_display_def pin_verifier_new_def)
  then obtain a where a: "pin_auth_start P x sid (pin_display ?v) = Inr a" by (auto simp: pin_auth_start_ok)
  have "is_usable (pv_pin ?v) t2"
    using assms(3) by (simp add: pin_verifier_new_def pin_generate_def is_usable_def MAX_PIN_ATTEMPTS_def)
  from pake_agreement [OF assms(1) a d(2) this] obtain out key where
    r: "fst (respond P y (pa_outbound a) t2 ?v) = Inr (out, key)" "pin_auth_finish P a out = Inr key"
    by blast
  then obtain v' where "respond P y (pa_outbound a) t2 ?v = (Inr (out, key), v')"
    by (metis prod.collapse)
  with a r(2) d(1) assms(4) show ?thesis by (simp add: begin_pin_auth_def consented_def)
qed

lemma complete_pin_auth_honest:
  assumes "hs_state s = AwaitingConfirmation" "hs_consented_caps s = Some caps" "hs_pending_key s = Some key"
    and "book_check book (pc_identity peer) \<noteq> KeyChanged"
    and "binding_verify P (pc_binding peer) (pc_proof peer) (Some (hs_peer_id s)) = Inr ()"
  shows "\<exists>s' book' audit'.
    complete_pin_auth P (confirm P key ''controller'' (hs_session_id s)) peer now s book audit
      = (Inr (), s', book', audit') \<and> hs_state s' = Established \<and>
    hs_grant s' = Some (grant_issue (hs_session_id s) (hs_peer_id s) caps AuthMethod.SessionPin now)"
proof -
  obtain trust book' where "check_and_pin book (pc_identity peer) = (trust, book')" by fastforce
  moreover from this have "trust \<noteq> KeyChanged" using assms(4) fst_check_and_pin [of book "pc_identity peer"] by simp
  ultimately show ?thesis using assms by (simp add: complete_pin_auth_def confirm_matches_def Let_def)
qed

lemma binding_verify_prove:
  assumes "signature_correct P" "binding_pair sid fc fh nc nh = (vc, vh)"
  shows "binding_verify P vh (prove P vc i) (Some (id_device_id i)) = Inr ()"
  using assms
  by (auto simp: binding_verify_ok_iff binding_pair_def binding_new_def prove_def peer_role_def
      verifier_input_def public_def identity_sign_def signature_correct_def Let_def)

text \<open>The whole exchange between an honest controller and the host.\<close>

lemma honest_run:
  assumes "spake_agreement P" "signature_correct P" "identity_wf P ic" "value < 1000000"
    and "saturating_sub t1 t0 \<le> CONSENT_TIMEOUT_MS" "saturating_sub t2 t1 \<le> PIN_TTL_MS"
    and "book_check book (public P ic) \<noteq> KeyChanged" "binding_pair sid fc fh nc nh = (vc, vh)"
    and "s0 = host_session_new sid (id_device_id ic) req t0"
    and "peer = \<lparr>pc_identity = public P ic, pc_binding = vh, pc_proof = prove P vc ic\<rparr>"
  shows "\<exists>s1 a resp key s2 s3 book' audit'.
    apply_consent value (Allow caps) t1 s0 audit = (Inr (), s1, audit) \<and>
    pin_auth_start P x sid (format_06 value) = Inr a \<and>
    begin_pin_auth P y (pa_outbound a) t2 s1 = (Inr resp, s2) \<and>
    pin_auth_finish P a (par_pake_message resp) = Inr key \<and>
    par_confirmation resp = confirm P key ''host'' sid \<and>
    complete_pin_auth P (confirm P key ''controller'' sid) peer t3 s2 book audit = (Inr (), s3, book', audit') \<and>
    hs_state s3 = Established \<and>
    hs_grant s3 = Some (grant_issue sid (id_device_id ic) (clamp_to req caps) AuthMethod.SessionPin t3)"
proof -
  have s0: "hs_state s0 = AwaitingConsent" "hs_started_at_ms s0 = t0" "hs_session_id s0 = sid"
    "hs_peer_id s0 = id_device_id ic" "hs_requested_caps s0 = req"
    by (simp_all add: assms(9) host_session_new_def)
  have "binding_verify P vh (prove P vc ic) (Some (id_device_id ic)) = Inr ()"
    using assms(2,8) by (rule binding_verify_prove)
  then have ver: "binding_verify P (pc_binding peer) (pc_proof peer) (Some (id_device_id ic)) = Inr ()"
    "book_check book (pc_identity peer) \<noteq> KeyChanged"
    using assms(7,10) by simp_all
  have c: "apply_consent value (Allow caps) t1 s0 audit = (Inr (), consented value caps t1 s0, audit)"
    using s0(1,2) assms(5) by (simp add: apply_consent_allow)
  obtain a resp key s2 where b: "pin_auth_start P x sid (format_06 value) = Inr a"
    "begin_pin_auth P y (pa_outbound a) t2 (consented value caps t1 s0) = (Inr resp, s2)"
    "pin_auth_finish P a (par_pake_message resp) = Inr key"
    "par_confirmation resp = confirm P key ''host'' sid"
    and s2: "hs_state s2 = AwaitingConfirmation" "hs_pending_key s2 = Some key"
    "hs_consented_caps s2 = Some (clamp_to req caps)" "hs_session_id s2 = sid" "hs_peer_id s2 = id_device_id ic"
    using begin_pin_auth_honest [OF assms(1,4,6) s0(3), of x y caps] s0(4,5) by auto
  from complete_pin_auth_honest [OF s2(1,3,2) ver(2) ver(1) [folded s2(5)], of t3 audit] c b
  show ?thesis unfolding s2(4,5) by blast
qed

text \<open>Nothing compares the identity that signed the binding with the identity the token names: whoever
  holds an encoded token and dials under an identifier of its own is let in, with a proof signed by its
  own key.\<close>

lemma stolen_token_accepted:
  assumes "signature_correct P"
    and "token_verify P C tokens enc host victim (now div 1000) = Inr t"
    and "binding_pair sid fc fh nc nh = (vc, vh)"
  shows "hs_state (host_exec P C
    (TokenAuth enc host tokens \<lparr>pc_identity = victim, pc_binding = vh, pc_proof = prove P vc thief\<rparr> now audit)
    (host_session_new sid (id_device_id thief) req t0)) = Established"
proof -
  have "binding_verify P vh (prove P vc thief) (Some (id_device_id thief)) = Inr ()"
    using assms(1,3) by (rule binding_verify_prove)
  with assms(2) show ?thesis by (simp add: authenticate_with_token_def host_session_new_def Let_def)
qed

subsection \<open>Properties\<close>

text \<open>C2. Authorisation is never out of step with the session state: in every state the host session can
  reach, whatever calls are made in whatever order, a grant exists exactly when the state is
  \<open>Established\<close>, it names this session and this peer, and its permissions are within what the peer
  requested and, after PIN authentication, within what the local user consented to.\<close>

theorem grant_iff_established:
  assumes "reach host_init (host_step P C) s"
  shows "(case hs_grant s of
      None \<Rightarrow> \<not> permits_input (hs_state s)
    | Some g \<Rightarrow> permits_input (hs_state s) \<and> g_session_id g = hs_session_id s \<and> g_peer g = hs_peer_id s \<and>
        caps_le (g_caps g) (hs_requested_caps s) \<and>
        (g_method g = UnattendedToken \<or> (\<exists>c. hs_consented_caps s = Some c \<and> caps_le (g_caps g) c)))"
  using host.reach_inv [OF assms]
  by (cases "hs_grant s")
    (auto simp: host_inv_def grant_ok_def permits_input_def intro: AuthMethod.exhaust [of "g_method _"])

theorem grant_iff_established_witness:
  "\<not> permits_input (hs_state (host_exec toy_primitives toy_cbor (PinBegin [] [] 3)
     (host_exec toy_primitives toy_cbor (Consent 7 Deny 2 (audit_new 4))
       (host_session_new ''s'' (DeviceId ''X'') session_caps_default 1))))"
proof -
  let ?s0 = "host_session_new ''s'' (DeviceId ''X'') session_caps_default 1"
  let ?s2 = "host_exec toy_primitives toy_cbor (PinBegin [] [] 3)
    (host_exec toy_primitives toy_cbor (Consent 7 Deny 2 (audit_new 4)) ?s0)"
  have "reach host_init (host_step toy_primitives toy_cbor) ?s0"
    by (rule reach_init) (auto simp: host_init_def)
  then have "reach host_init (host_step toy_primitives toy_cbor) ?s2"
    by (intro reach_host_exec)
  moreover have "hs_grant ?s2 = None"
    by (simp add: begin_pin_auth_def apply_consent_def host_session_new_def CONSENT_TIMEOUT_MS_def saturating_sub_def)
  ultimately show ?thesis using grant_iff_established [of toy_primitives toy_cbor ?s2] by simp
qed

text \<open>C1. There is no way around the checks: of all calls only two can produce a grant. Completing the PIN
  exchange does so only if consent was given, the peer's tag is the one for the exchanged key, the
  address book does not report a changed key and the binding of the peer's certificate verifies under
  the dialled device id; a token does so only if it validates and the binding verifies, and it grants no
  more than the token names.\<close>

theorem grant_needs_every_check:
  assumes "hs_grant s = None" "hs_grant (host_exec P C call s) = Some g"
  shows "case call of
      PinComplete conf peer now book audit \<Rightarrow>
        hs_state s = AwaitingConfirmation \<and> g_method g = AuthMethod.SessionPin \<and>
        hs_consented_caps s = Some (g_caps g) \<and>
        (\<exists>key. hs_pending_key s = Some key \<and> conf = confirm P key ''controller'' (hs_session_id s)) \<and>
        book_check book (pc_identity peer) \<noteq> KeyChanged \<and>
        binding_verify P (pc_binding peer) (pc_proof peer) (Some (hs_peer_id s)) = Inr ()
    | TokenAuth enc host tokens peer now audit \<Rightarrow>
        hs_state s \<in> {AwaitingConsent, Authenticating} \<and> g_method g = UnattendedToken \<and>
        (\<exists>t. token_verify P C tokens enc host (pc_identity peer) (now div 1000) = Inr t \<and>
           g_caps g = clamp_to (hs_requested_caps s) (claims_session_caps (at_claims t))) \<and>
        binding_verify P (pc_binding peer) (pc_proof peer) (Some (hs_peer_id s)) = Inr ()
    | _ \<Rightarrow> False"
proof (cases call)
  case (PinComplete conf peer now book audit)
  obtain r s' book' audit' where eq: "complete_pin_auth P conf peer now s book audit = (r, s', book', audit')"
    by (metis prod.collapse)
  then show ?thesis
    by (cases rule: complete_pin_auth_cases)
      (use assms PinComplete eq in \<open>simp_all add: grant_issue_def, fastforce\<close>)
next
  case (TokenAuth enc host tokens peer now audit)
  obtain r s' audit' where eq: "authenticate_with_token P C enc host tokens peer now s audit = (r, s', audit')"
    by (metis prod.collapse)
  then show ?thesis
    by (cases rule: authenticate_with_token_cases)
      (use assms TokenAuth eq in \<open>auto simp: grant_issue_def\<close>)
qed (use assms in \<open>auto simp: apply_consent_def begin_pin_auth_def session_restrict_def session_close_def Let_def
  split: if_splits ConsentDecision.splits option.splits prod.splits sum.splits SessionState.splits\<close>)

text \<open>The run of the witnesses below: an honest controller with the toy primitives.\<close>

lemma toy_run:
  obtains s2 peer conf s3 where
    "hs_grant s2 = None" "hs_peer_id s2 = device_id_from_pubkey toy_primitives [5]"
    "reach host_init (host_step toy_primitives toy_cbor) s2"
    "s3 = host_exec toy_primitives toy_cbor (PinComplete conf peer 4 [] (audit_new 9)) s2"
    "hs_grant s3 \<noteq> None"
proof -
  let ?P = toy_primitives
  let ?i = "from_signing_key ?P [5]"
  let ?s0 = "host_session_new ''s'' (id_device_id ?i) (session_caps_default\<lparr>cap_input := True\<rparr>) 1"
  obtain vc vh where v: "binding_pair ''s'' [1] [2] [3] [4] = (vc, vh)" by fastforce
  let ?peer = "\<lparr>pc_identity = public ?P ?i, pc_binding = vh, pc_proof = prove ?P vc ?i\<rparr>"
  have t: "saturating_sub 2 1 \<le> CONSENT_TIMEOUT_MS" "saturating_sub 3 2 \<le> PIN_TTL_MS" by code_simp+
  have bk: "book_check [] (public ?P ?i) \<noteq> KeyChanged" by (simp add: book_check_def)
  have val: "7 < (1000000 :: nat)" by simp
  obtain s1 a resp key s2 s3 book' audit' where
    r: "apply_consent 7 (Allow session_caps_default) 2 ?s0 (audit_new 9) = (Inr (), s1, audit_new 9)"
    "begin_pin_auth ?P [] (pa_outbound (a :: PinAuth)) 3 s1 = (Inr resp, s2)"
    "complete_pin_auth ?P (confirm ?P key ''controller'' ''s'') ?peer 4 s2 [] (audit_new 9) = (Inr (), s3, book', audit')"
    "hs_grant s3 = Some (grant_issue ''s'' (id_device_id ?i)
       (clamp_to (session_caps_default\<lparr>cap_input := True\<rparr>) session_caps_default) AuthMethod.SessionPin 4)"
    using honest_run [OF toy_primitives_ok(5,3) identity_wf_from_signing_key val t bk v refl refl, of
        session_caps_default "session_caps_default\<lparr>cap_input := True\<rparr>" "audit_new 9" "[]" "[]" 4]
    by blast
  have e: "s1 = host_exec ?P toy_cbor (Consent 7 (Allow session_caps_default) 2 (audit_new 9)) ?s0"
    "s2 = host_exec ?P toy_cbor (PinBegin [] (pa_outbound a) 3) s1"
    "s3 = host_exec ?P toy_cbor (PinComplete (confirm ?P key ''controller'' ''s'') ?peer 4 [] (audit_new 9)) s2"
    using r by simp_all
  have "reach host_init (host_step ?P toy_cbor) ?s0" by (rule reach_init) (auto simp: host_init_def)
  then have reach: "reach host_init (host_step ?P toy_cbor) s2" unfolding e(1,2) by (intro reach_host_exec)
  have s2: "hs_grant s2 = None" "hs_peer_id s2 = id_device_id ?i"
    using r(2) e(1) by (auto simp: begin_pin_auth_def apply_consent_def host_session_new_def Let_def
        split: if_splits option.splits prod.splits sum.splits)
  then show thesis using that [OF s2(1) _ reach e(3)] r(4)
    by (simp add: from_signing_key_def toy_primitives_def)
qed

theorem grant_needs_every_check_witness:
  "\<exists>s conf peer. hs_state s = AwaitingConfirmation \<and>
     hs_state (host_exec toy_primitives toy_cbor (PinComplete conf peer 4 [] (audit_new 9)) s) = Established \<and>
     binding_verify toy_primitives (pc_binding peer) (pc_proof peer)
       (Some (device_id_from_pubkey toy_primitives [5])) = Inr ()"
proof -
  obtain s2 peer conf s3 where s: "hs_grant s2 = None"
    "hs_peer_id s2 = device_id_from_pubkey toy_primitives [5]"
    "reach host_init (host_step toy_primitives toy_cbor) s2"
    "s3 = host_exec toy_primitives toy_cbor (PinComplete conf peer 4 [] (audit_new 9)) s2" "hs_grant s3 \<noteq> None"
    by (rule toy_run)
  then obtain g where g: "hs_grant (host_exec toy_primitives toy_cbor (PinComplete conf peer 4 [] (audit_new 9)) s2) = Some g"
    by auto
  have "hs_state s3 = Established"
    using host.reach_inv [OF reach_host_exec [OF s(3)], of "PinComplete conf peer 4 [] (audit_new 9)"] s(4,5)
    by (simp add: host_inv_def del: host_exec.simps)
  with grant_needs_every_check [OF s(1) g] s(2,4) show ?thesis by auto
qed

text \<open>C11. Every failure is final: when consent is denied or times out, or a PIN, token, key or binding
  check fails, then no sequence of later calls gives the session a grant again; only an error that
  reports the wrong state leaves the session as it was.\<close>

theorem failures_are_final:
  assumes "reach host_init (host_step P C) s" "host_error P C s e s'" "(host_step P C)\<^sup>*\<^sup>* s' t"
  shows "if e = WrongState then s' = s else hs_grant t = None \<and> terminal (hs_state t) \<and> \<not> permits_input (hs_state t)"
proof (cases "e = WrongState")
  case True
  show ?thesis using assms(2) unfolding True
  proof (simp, cases)
    case 3
    then show "s' = s" by (cases rule: complete_pin_auth_cases) auto
  next
    case 4
    then show "s' = s" by (cases rule: authenticate_with_token_cases) auto
  qed (auto simp: apply_consent_def begin_pin_auth_def Let_def
      split: if_splits ConsentDecision.splits option.splits prod.splits sum.splits)
next
  case False
  have "host_inv s'" using assms(1,2) host.inv_step host.reach_inv host_error_step by blast
  then have "ended t"
    using host_inv_ended host_error_terminal [OF assms(2) False] ended_steps [OF assms(3)] by blast
  with False show ?thesis by (auto simp: ended_def permits_input_def)
qed

theorem failures_are_final_witness:
  "hs_grant (host_exec toy_primitives toy_cbor (Consent 7 (Allow session_caps_default) 3 (audit_new 4))
     (host_exec toy_primitives toy_cbor (Consent 7 Deny 2 (audit_new 4))
       (host_session_new ''s'' (DeviceId ''X'') session_caps_default 1))) = None"
proof -
  let ?s0 = "host_session_new ''s'' (DeviceId ''X'') session_caps_default 1"
  let ?s1 = "host_exec toy_primitives toy_cbor (Consent 7 Deny 2 (audit_new 4)) ?s0"
  have "reach host_init (host_step toy_primitives toy_cbor) ?s0" by (rule reach_init) (auto simp: host_init_def)
  moreover have "fst (apply_consent 7 Deny 2 ?s0 (audit_new 4)) = Inl ConsentDenied"
    by (simp add: apply_consent_def host_session_new_def CONSENT_TIMEOUT_MS_def saturating_sub_def)
  then have "host_error toy_primitives toy_cbor ?s0 ConsentDenied ?s1"
    by (intro host_error.intros(1)) (simp add: prod_eq_iff)
  ultimately show ?thesis
    using failures_are_final [OF _ _ r_into_rtranclp [of "host_step toy_primitives toy_cbor", OF host_step_exec],
        of ?s0 ConsentDenied ?s1] by (simp del: host_exec.simps)
qed

text \<open>C12. An honest connection succeeds: when the local user allows it in time and the controller types the
  displayed PIN within its lifetime, both ends derive the same key, the host's tag is the one the
  controller expects, and the session is established with exactly the requested permissions that the
  user allowed, provided the address book holds no other key for the controller.\<close>

theorem honest_session_established:
  assumes "spake_agreement P" "signature_correct P" "identity_wf P ic" "value < 1000000"
    and "saturating_sub t1 t0 \<le> CONSENT_TIMEOUT_MS" "saturating_sub t2 t1 \<le> PIN_TTL_MS"
    and "book_check book (public P ic) \<noteq> KeyChanged" "binding_pair sid fc fh nc nh = (vc, vh)"
    and "s0 = host_session_new sid (id_device_id ic) req t0"
    and "peer = \<lparr>pc_identity = public P ic, pc_binding = vh, pc_proof = prove P vc ic\<rparr>"
  shows "\<exists>s1 a resp key s2 s3 book' audit'.
    apply_consent value (Allow caps) t1 s0 audit = (Inr (), s1, audit) \<and>
    pin_auth_start P x sid (format_06 value) = Inr a \<and>
    begin_pin_auth P y (pa_outbound a) t2 s1 = (Inr resp, s2) \<and>
    pin_auth_finish P a (par_pake_message resp) = Inr key \<and>
    par_confirmation resp = confirm P key ''host'' sid \<and>
    complete_pin_auth P (confirm P key ''controller'' sid) peer t3 s2 book audit = (Inr (), s3, book', audit') \<and>
    hs_state s3 = Established \<and>
    hs_grant s3 = Some (grant_issue sid (id_device_id ic) (clamp_to req caps) AuthMethod.SessionPin t3)"
  using assms by (rule honest_run)

theorem honest_session_established_witness:
  "\<exists>s1 a resp key s2 s3 book' audit'.
    apply_consent 42 (Allow session_caps_default) 9
      (host_session_new ''s'' (device_id_from_pubkey toy_primitives [5]) session_caps_default 1) (audit_new 3)
      = (Inr (), s1, audit_new 3) \<and>
    pin_auth_start toy_primitives [6] ''s'' (format_06 42) = Inr a \<and>
    begin_pin_auth toy_primitives [7] (pa_outbound a) 10 s1 = (Inr resp, s2) \<and>
    pin_auth_finish toy_primitives a (par_pake_message resp) = Inr key \<and>
    complete_pin_auth toy_primitives (confirm toy_primitives key ''controller'' ''s'')
      \<lparr>pc_identity = public toy_primitives (from_signing_key toy_primitives [5]),
       pc_binding = snd (binding_pair ''s'' [1] [2] [3] [4]),
       pc_proof = prove toy_primitives (fst (binding_pair ''s'' [1] [2] [3] [4])) (from_signing_key toy_primitives [5])\<rparr>
      11 s2 [] (audit_new 3) = (Inr (), s3, book', audit') \<and> hs_state s3 = Established"
proof -
  let ?i = "from_signing_key toy_primitives [5]"
  have i: "id_device_id ?i = device_id_from_pubkey toy_primitives [5]"
    by (simp add: from_signing_key_def toy_primitives_def)
  have t: "saturating_sub 9 1 \<le> CONSENT_TIMEOUT_MS" "saturating_sub 10 9 \<le> PIN_TTL_MS" by code_simp+
  have bk: "book_check [] (public toy_primitives ?i) \<noteq> KeyChanged" by (simp add: book_check_def)
  have val: "42 < (1000000 :: nat)" by simp
  have v: "binding_pair ''s'' [1] [2] [3] [4] =
      (fst (binding_pair ''s'' [1] [2] [3] [4]), snd (binding_pair ''s'' [1] [2] [3] [4]))" by simp
  from honest_session_established [OF toy_primitives_ok(5,3) identity_wf_from_signing_key val t bk v refl refl, of session_caps_default session_caps_default "audit_new 3" "[6]" "[7]" 11]
  show ?thesis unfolding i by (elim exE conjE) (intro exI conjI)
qed

end
