(* ===== verification/Rda_Signaling.thy ===== *)
theory Rda_Signaling
  imports Rda_Identity Rda_Caps
begin

text \<open>
  The signalling messages of \<^verbatim>\<open>rda-proto/src/signaling.rs\<close>: the envelope and its parser, the message
  bodies, the byte string a registration signs, and the two ways to answer a connection request. JSON
  (\<^verbatim>\<open>serde_json\<close>) is a parameter, a function from bytes to an envelope or the text of its error. A constructor that wraps a body
  struct of the same name carries an \<open>M\<close> in front.
\<close>

definition REGISTER_DOMAIN :: "u8 list" where "REGISTER_DOMAIN = ascii ''RDA-v1-register''"
definition REGISTER_NONCE_LEN :: nat where "REGISTER_NONCE_LEN = 16"
definition MAX_RELAY_POPS :: nat where "MAX_RELAY_POPS = 2"
definition MAX_SIGNALING_MESSAGE :: nat where "MAX_SIGNALING_MESSAGE = 65536"
definition SIGNALING_VERSION :: u8 where "SIGNALING_VERSION = 1"

subsection \<open>Bodies\<close>

record SigChallenge =
  ch_nonce :: string
  ch_server_time :: u64
  ch_min_client_version :: "string option"

datatype Role = RoleHost | RoleController | RoleBoth

definition is_dialable :: "Role \<Rightarrow> bool" where
  "is_dialable r \<longleftrightarrow> r = RoleHost \<or> r = RoleBoth"

record Register =
  re_device_id :: DeviceId
  re_pubkey :: string
  re_sig :: string
  re_role :: Role
  re_caps :: Capabilities
  re_agent :: "string option"
  re_pop_rtt :: "(string, u32) btree"

definition role_str :: "Role \<Rightarrow> string" where
  "role_str r = (case r of RoleHost \<Rightarrow> ''host'' | RoleController \<Rightarrow> ''controller'' | RoleBoth \<Rightarrow> ''both'')"

definition register_signing_input :: "u8 list \<Rightarrow> DeviceId \<Rightarrow> Role \<Rightarrow> u8 list" where
  "register_signing_input nonce device_id role =
     REGISTER_DOMAIN @ [0x00] @ nonce @ ascii (as_str device_id) @ ascii (role_str role)"

record RegisterAck =
  ra_device_id :: DeviceId
  ra_heartbeat_interval_s :: u32
  ra_session_ttl_s :: u32

datatype AuthMode = Pin | Token

record ConnectRequest =
  cr_target :: DeviceId
  cr_from_pubkey :: string
  cr_from_label :: "string option"
  cr_auth_mode :: AuthMode
  cr_token :: "string option"
  cr_requested_caps :: "string list"

datatype ConnectStatus = Accepted | Rejected | Busy | Offline | Unauthorized | Timeout

definition is_existence_sensitive :: "ConnectStatus \<Rightarrow> bool" where
  "is_existence_sensitive s \<longleftrightarrow> s = Offline \<or> s = Unauthorized"

record ConnectResponse =
  cp_status :: ConnectStatus
  cp_session_id :: "string option"
  cp_granted_caps :: "string list"
  cp_reason :: "string option"

definition response_accept :: "string \<Rightarrow> string list \<Rightarrow> SessionCaps \<Rightarrow> ConnectResponse" where
  "response_accept session_id requested allowed =
     (let granted = clamp_to (from_names requested) allowed
      in \<lparr>cp_status = Accepted, cp_session_id = Some session_id, cp_granted_caps = to_names granted,
          cp_reason = None\<rparr>)"

definition response_refuse :: "ConnectStatus \<Rightarrow> string option \<Rightarrow> ConnectResponse" where
  "response_refuse status reason =
     \<lparr>cp_status = status, cp_session_id = None, cp_granted_caps = [], cp_reason = reason\<rparr>"

record SealedSdp =
  ss_alg :: string
  ss_epk :: string
  ss_ct :: string
  ss_nonce :: string

record SdpPayload =
  sd_sdp :: "string option"
  sd_sealed :: "SealedSdp option"

definition sdp_plain :: "string \<Rightarrow> SdpPayload" where
  "sdp_plain sdp = \<lparr>sd_sdp = Some sdp, sd_sealed = None\<rparr>"

record IceCandidate =
  ic_candidate :: string
  ic_sdp_mid :: "string option"
  ic_sdp_mline_index :: "u16 option"
  ic_username_fragment :: "string option"

definition is_end_of_candidates :: "IceCandidate \<Rightarrow> bool" where
  "is_end_of_candidates c \<longleftrightarrow> ic_candidate c = []"

record IceServer =
  is_urls :: "string list"
  is_username :: "string option"
  is_credential :: "string option"

record RelayCredentials =
  rc_ice_servers :: "IceServer list"
  rc_ttl_s :: u32
  rc_preferred_order :: "string list"

record PeerGone =
  pg_reason :: string

record ErrorPayload =
  ep_code :: u16
  ep_message :: string
  ep_in_reply_to :: "string option"
  ep_retry_after_s :: "u32 option"

subsection \<open>Messages and envelope\<close>

datatype Message =
    MChallenge SigChallenge | MRegister Register | MRegisterAck RegisterAck | Heartbeat | HeartbeatAck
  | MConnectRequest ConnectRequest | MConnectResponse ConnectResponse | Offer SdpPayload
  | Answer SdpPayload | MIceCandidate IceCandidate | IceRestart | ChannelsReady
  | MRelayCredentials RelayCredentials | MPeerGone PeerGone | MError ErrorPayload

record Envelope =
  en_v :: u8
  en_id :: string
  en_ts :: u64
  en_sid :: "string option"
  en_msg :: Message

definition envelope_new :: "string \<Rightarrow> u64 \<Rightarrow> string option \<Rightarrow> Message \<Rightarrow> Envelope" where
  "envelope_new ident ts_ms sid msg =
     \<lparr>en_v = SIGNALING_VERSION, en_id = ident, en_ts = ts_ms, en_sid = sid, en_msg = msg\<rparr>"

datatype SignalingError = TooLarge nat | BadVersion u8 | Json string

type_synonym json = "u8 list \<Rightarrow> string + Envelope"

definition envelope_from_slice :: "json \<Rightarrow> u8 list \<Rightarrow> SignalingError + Envelope" where
  "envelope_from_slice J bytes =
     (if length bytes > MAX_SIGNALING_MESSAGE then Inl (TooLarge (length bytes))
      else case J bytes of
          Inl e \<Rightarrow> Inl (Json e)
        | Inr env \<Rightarrow> if en_v env \<noteq> SIGNALING_VERSION then Inl (BadVersion (en_v env)) else Inr env)"

subsection \<open>Error codes\<close>

definition BAD_REQUEST :: u16 where "BAD_REQUEST = 4000"
definition UNSUPPORTED_VERSION :: u16 where "UNSUPPORTED_VERSION = 4001"
definition MESSAGE_TOO_LARGE :: u16 where "MESSAGE_TOO_LARGE = 4002"
definition NOT_REGISTERED :: u16 where "NOT_REGISTERED = 4100"
definition BAD_SIGNATURE :: u16 where "BAD_SIGNATURE = 4101"
definition BAD_NONCE :: u16 where "BAD_NONCE = 4102"
definition UNKNOWN_TARGET :: u16 where "UNKNOWN_TARGET = 4103"
definition CAPABILITY_DENIED :: u16 where "CAPABILITY_DENIED = 4300"
definition RATE_LIMITED :: u16 where "RATE_LIMITED = 4301"

subsection \<open>Facts\<close>

lemma role_str_inj [simp]: "role_str r = role_str r' \<longleftrightarrow> r = r'"
  by (simp add: role_str_def split: Role.splits)

text \<open>With nonces and identifiers of fixed length, what a registration signs determines all its parts.\<close>

lemma register_signing_input_inj:
  assumes "length n = length n'" "length (as_str d) = length (as_str d')"
  shows "register_signing_input n d r = register_signing_input n' d' r' \<longleftrightarrow> n = n' \<and> d = d' \<and> r = r'"
proof -
  have asc: "ascii x = ascii y \<longleftrightarrow> x = y" for x y using inj_ascii by (auto dest: injD)
  have "length (ascii (as_str d)) = length (ascii (as_str d'))" using assms(2) by simp
  then show ?thesis
    using assms(1) by (auto simp: register_signing_input_def asc DeviceId.expand)
qed

lemma response_accept_caps:
  "caps_le (from_names (cp_granted_caps (response_accept sid req allowed))) (from_names req)"
  "caps_le (from_names (cp_granted_caps (response_accept sid req allowed))) allowed"
  by (simp_all add: response_accept_def Let_def)

lemma envelope_from_slice_ok:
  "envelope_from_slice J bs = Inr env \<Longrightarrow>
   length bs \<le> MAX_SIGNALING_MESSAGE \<and> J bs = Inr env \<and> en_v env = SIGNALING_VERSION"
  by (auto simp: envelope_from_slice_def split: if_splits sum.splits)

end
