(* ===== verification/Rda_Server.thy ===== *)
theory Rda_Server
  imports Rda_Signaling Rda_Window "HOL-Library.AList" "HOL-Library.Product_Lexorder"
    "HOL-Library.Multiset"
begin

text \<open>
  The rendezvous server of \<^verbatim>\<open>rda-signal-server\<close>: registration challenges (\<^verbatim>\<open>auth.rs\<close>), the device
  registry and session routing (\<^verbatim>\<open>registry.rs\<close>), relay selection (\<^verbatim>\<open>relay.rs\<close>), the rate limiter
  (\<^verbatim>\<open>lib.rs\<close>) and the per-connection message handlers (\<^verbatim>\<open>ws.rs\<close>).

  The shared state is the registry with the outbound queues. Each connection owns one queue, named by
  its connection identifier; \<open>hub_open\<close> tells whether its receiver still exists, and a send to a queue
  without one fails. A \<open>DashMap\<close> is an association list; the order in which the source iterates over one
  is not specified, and no property here depends on it. \<open>now\<close> is what the clock returned, and
  \<open>ids i\<close> the \<open>i\<close>-th identifier drawn by the handler.
\<close>

subsection \<open>Registration challenge\<close>

definition NONCE_TTL_MS :: u64 where "NONCE_TTL_MS = 60000"

datatype AuthError = BadPubkey | BadSignatureEncoding | BadRegSignature | RegIdMismatch | BadNonce

record Challenge =
  cl_nonce :: "u8 list"
  cl_issued_ms :: u64
  cl_spent :: bool

definition challenge_issue :: "u8 list \<Rightarrow> u64 \<Rightarrow> Challenge" where
  "challenge_issue nonce now_ms = \<lparr>cl_nonce = nonce, cl_issued_ms = now_ms, cl_spent = False\<rparr>"

definition nonce_b64 :: "primitives \<Rightarrow> Challenge \<Rightarrow> string" where
  "nonce_b64 P c = b64_encode P (cl_nonce c)"

definition challenge_verify ::
  "primitives \<Rightarrow> Register \<Rightarrow> u64 \<Rightarrow> Challenge \<Rightarrow> (AuthError + u8 list) \<times> Challenge" where
  "challenge_verify P reg now_ms c =
     (if cl_spent c \<or> saturating_sub now_ms (cl_issued_ms c) > NONCE_TTL_MS then (Inl BadNonce, c)
      else (bindE (ok_or (decode_b64_array P 32 (re_pubkey reg)) BadPubkey) (\<lambda>pubkey.
              bindE (ok_or (decode_b64_array P 64 (re_sig reg)) BadSignatureEncoding) (\<lambda>sig_bytes.
                if \<not> valid_key P pubkey then Inl BadPubkey
                else if \<not> verify_strict P pubkey
                    (register_signing_input (cl_nonce c) (re_device_id reg) (re_role reg)) sig_bytes
                  then Inl BadRegSignature
                else case verify_against P (re_device_id reg) pubkey of
                    Inl _ \<Rightarrow> Inl RegIdMismatch | Inr _ \<Rightarrow> Inr pubkey)),
            c\<lparr>cl_spent := True\<rparr>))"

definition sign_registration :: "primitives \<Rightarrow> u8 list \<Rightarrow> u8 list \<Rightarrow> DeviceId \<Rightarrow> Role \<Rightarrow> string" where
  "sign_registration P signing_key nonce device_id role =
     b64_encode P (ed_sign P signing_key (register_signing_input nonce device_id role))"

definition encode_pubkey :: "primitives \<Rightarrow> u8 list \<Rightarrow> string" where
  "encode_pubkey P key = b64_encode P key"

definition decode_nonce :: "primitives \<Rightarrow> string \<Rightarrow> u8 list option" where
  "decode_nonce P s =
     Option.bind (b64_decode P s) (\<lambda>v. if length v = REGISTER_NONCE_LEN then Some v else None)"

subsection \<open>Rate limiter\<close>

record RateLimiter =
  lm_limit :: u32
  lm_window_ms :: u64
  lm_window_start :: u64
  lm_count :: u32

definition limiter_new :: "u32 \<Rightarrow> u64 \<Rightarrow> RateLimiter" where
  "limiter_new limit window_ms =
     \<lparr>lm_limit = limit, lm_window_ms = window_ms, lm_window_start = 0, lm_count = 0\<rparr>"

definition limiter_allow :: "RateLimiter \<Rightarrow> u64 \<Rightarrow> bool \<times> RateLimiter" where
  "limiter_allow l now_ms =
     (let l = (if saturating_sub now_ms (lm_window_start l) > lm_window_ms l
               then l\<lparr>lm_window_start := now_ms, lm_count := 0\<rparr> else l);
          l = l\<lparr>lm_count := lm_count l + 1\<rparr>
      in (lm_count l \<le> lm_limit l, l))"

subsection \<open>Relay selection\<close>

record Pop =
  po_code :: string
  po_location :: string
  po_stun_url :: string
  po_turn_urls :: "string list"

definition default_pops :: "string \<Rightarrow> Pop list" where
  "default_pops domain =
     (if domain = [] then []
      else map (\<lambda>(code, location).
             \<lparr>po_code = code, po_location = location,
              po_stun_url = ''stun:stun.'' @ code @ ''.'' @ domain @ '':3478'',
              po_turn_urls = [''turn:turn.'' @ code @ ''.'' @ domain @ '':3478?transport=udp'',
                              ''turns:turn.'' @ code @ ''.'' @ domain @ '':5349?transport=tcp'']\<rparr>)
           (zip [''iad'', ''mrs'', ''lhr'', ''nbo'']
                [''US-East Ashburn'', ''Marseille'', ''London'', ''Nairobi'']))"

definition saturating_add32 :: "u32 \<Rightarrow> u32 \<Rightarrow> u32" where
  "saturating_add32 a b = (if unat a + unat b \<ge> 2 ^ 32 then 0xFFFFFFFF else a + b)"

definition pop_score :: "(string, u32) btree \<Rightarrow> (string, u32) btree \<Rightarrow> Pop \<Rightarrow> u32 \<times> string" where
  "pop_score controller_rtt host_rtt p =
     (let c = case_option 10000 id (map_of controller_rtt (po_code p));
          h = case_option 10000 id (map_of host_rtt (po_code p))
      in (saturating_add32 c h, po_code p))"

definition rank_pops :: "Pop list \<Rightarrow> (string, u32) btree \<Rightarrow> (string, u32) btree \<Rightarrow> string list" where
  "rank_pops pops controller_rtt host_rtt =
     map snd (sort (map (pop_score controller_rtt host_rtt) pops))"

text \<open>HMAC-SHA1 and padded base64 of the crates \<^verbatim>\<open>hmac\<close> and \<^verbatim>\<open>base64\<close>.\<close>

record turn_primitives =
  hmac_sha1 :: "u8 list \<Rightarrow> u8 list \<Rightarrow> u8 list"
  b64_standard :: "u8 list \<Rightarrow> string"

definition mint_turn_credential :: "turn_primitives \<Rightarrow> u8 list \<Rightarrow> string \<Rightarrow> u64 \<Rightarrow> string \<times> string" where
  "mint_turn_credential T secret session_id expiry_unix =
     (let username = decimal (unat expiry_unix) @ '':'' @ session_id
      in (username, b64_standard T (hmac_sha1 T secret (ascii username))))"

definition build_relay_credentials ::
  "turn_primitives \<Rightarrow> Pop list \<Rightarrow> string list \<Rightarrow> u8 list \<Rightarrow> string \<Rightarrow> u64 \<Rightarrow> u32 \<Rightarrow> RelayCredentials" where
  "build_relay_credentials T pops ranked secret session_id now_unix ttl_s =
     (let ttl_s = min ttl_s 3600;
          expiry = now_unix + ucast ttl_s;
          (username, credential) = mint_turn_credential T secret session_id expiry;
          by_code = fold (\<lambda>p m. m(po_code p \<mapsto> p)) pops Map.empty;
          stun = \<lparr>is_urls = map po_stun_url pops, is_username = None, is_credential = None\<rparr>;
          turn = List.map_filter (\<lambda>code. map_option (\<lambda>pop.
                    \<lparr>is_urls = po_turn_urls pop, is_username = Some username,
                     is_credential = Some credential\<rparr>) (by_code code))
                  (take MAX_RELAY_POPS ranked)
      in \<lparr>rc_ice_servers = stun # turn, rc_ttl_s = ttl_s, rc_preferred_order = ranked\<rparr>)"

subsection \<open>Registry\<close>

record Peer =
  pe_device_id :: DeviceId
  pe_pubkey :: "u8 list"
  pe_role :: Role
  pe_caps :: Capabilities
  pe_agent :: "string option"
  pe_pop_rtt :: "(string, u32) btree"
  pe_tx :: u64
  pe_conn_id :: u64

record Session =
  se_id :: string
  se_controller :: DeviceId
  se_host :: DeviceId
  se_created_ms :: u64

definition peer_of :: "Session \<Rightarrow> DeviceId \<Rightarrow> DeviceId option" where
  "peer_of s from =
     (if from = se_controller s then Some (se_host s)
      else if from = se_host s then Some (se_controller s) else None)"

datatype RouteError = NotConnected | NotDialable | NotAParticipant | UnknownSession | QueueClosed

record Hub =
  hub_peers :: "(DeviceId \<times> Peer) list"
  hub_sessions :: "(string \<times> Session) list"
  hub_next_conn_id :: u64
  hub_queues :: "u64 \<Rightarrow> Envelope list"
  hub_open :: "u64 \<Rightarrow> bool"

definition registry_new :: Hub where
  "registry_new = \<lparr>hub_peers = [], hub_sessions = [], hub_next_conn_id = 0,
     hub_queues = (\<lambda>_. []), hub_open = (\<lambda>_. False)\<rparr>"

text \<open>\<open>UnboundedSender::send\<close>.\<close>

definition tx_send :: "u64 \<Rightarrow> Envelope \<Rightarrow> Hub \<Rightarrow> bool \<times> Hub" where
  "tx_send tx env h =
     (if hub_open h tx then (True, h\<lparr>hub_queues := (hub_queues h)(tx := hub_queues h tx @ [env])\<rparr>)
      else (False, h))"

definition next_conn_id :: "Hub \<Rightarrow> u64 \<times> Hub" where
  "next_conn_id h = (hub_next_conn_id h, h\<lparr>hub_next_conn_id := hub_next_conn_id h + 1\<rparr>)"

definition registry_register :: "Peer \<Rightarrow> Hub \<Rightarrow> Peer option \<times> Hub" where
  "registry_register peer h =
     (map_of (hub_peers h) (pe_device_id peer),
      h\<lparr>hub_peers := AList.update (pe_device_id peer) peer (hub_peers h)\<rparr>)"

definition unregister :: "DeviceId \<Rightarrow> u64 \<Rightarrow> Hub \<Rightarrow> bool \<times> Hub" where
  "unregister device_id conn_id h =
     (let should_remove =
        (case map_of (hub_peers h) device_id of None \<Rightarrow> False | Some p \<Rightarrow> pe_conn_id p = conn_id)
      in (should_remove,
          if should_remove then h\<lparr>hub_peers := AList.delete device_id (hub_peers h)\<rparr> else h))"

definition send_to :: "DeviceId \<Rightarrow> Envelope \<Rightarrow> Hub \<Rightarrow> (RouteError + unit) \<times> Hub" where
  "send_to device_id env h =
     (case map_of (hub_peers h) device_id of
        None \<Rightarrow> (Inl NotConnected, h)
      | Some peer \<Rightarrow>
          let (ok, h') = tx_send (pe_tx peer) env h in (if ok then Inr () else Inl QueueClosed, h'))"

definition resolve_target :: "Hub \<Rightarrow> DeviceId \<Rightarrow> RouteError + Peer" where
  "resolve_target h target =
     (case map_of (hub_peers h) target of
        None \<Rightarrow> Inl NotConnected
      | Some peer \<Rightarrow> if \<not> is_dialable (pe_role peer) then Inl NotDialable else Inr peer)"

definition create_session :: "string \<Rightarrow> DeviceId \<Rightarrow> DeviceId \<Rightarrow> u64 \<Rightarrow> Hub \<Rightarrow> Session \<times> Hub" where
  "create_session ident controller host now_ms h =
     (let session = \<lparr>se_id = ident, se_controller = controller, se_host = host, se_created_ms = now_ms\<rparr>
      in (session, h\<lparr>hub_sessions := AList.update ident session (hub_sessions h)\<rparr>))"

definition end_session :: "string \<Rightarrow> Hub \<Rightarrow> Session option \<times> Hub" where
  "end_session ident h =
     (map_of (hub_sessions h) ident, h\<lparr>hub_sessions := AList.delete ident (hub_sessions h)\<rparr>)"

definition sessions_for :: "Hub \<Rightarrow> DeviceId \<Rightarrow> Session list" where
  "sessions_for h device_id =
     filter (\<lambda>s. se_controller s = device_id \<or> se_host s = device_id) (map snd (hub_sessions h))"

definition forward_in_session ::
  "string \<Rightarrow> DeviceId \<Rightarrow> Envelope \<Rightarrow> Hub \<Rightarrow> (RouteError + DeviceId) \<times> Hub" where
  "forward_in_session session_id from env h =
     (case map_of (hub_sessions h) session_id of
        None \<Rightarrow> (Inl UnknownSession, h)
      | Some session \<Rightarrow>
          (case peer_of session from of
             None \<Rightarrow> (Inl NotAParticipant, h)
           | Some peer_id \<Rightarrow>
               let (r, h') = send_to peer_id env h in (mapE (\<lambda>_. peer_id) r, h')))"

subsection \<open>Connections\<close>

record Config =
  cf_domain :: string
  cf_turn_secret :: "u8 list"
  cf_heartbeat_interval_s :: u32
  cf_session_ttl_s :: u32
  cf_relay_ttl_s :: u32
  cf_rate_limit :: u32
  cf_rate_window_ms :: u64

definition config_default :: Config where
  "config_default =
     \<lparr>cf_domain = ''example.net'', cf_turn_secret = ascii ''CHANGE-ME-IN-PRODUCTION'',
      cf_heartbeat_interval_s = 30, cf_session_ttl_s = 86400, cf_relay_ttl_s = 3600,
      cf_rate_limit = 60, cf_rate_window_ms = 10000\<rparr>"

definition has_default_turn_secret :: "Config \<Rightarrow> bool" where
  "has_default_turn_secret c \<longleftrightarrow> cf_turn_secret c = ascii ''CHANGE-ME-IN-PRODUCTION''"

record Conn =
  cn_challenge :: Challenge
  cn_limiter :: RateLimiter
  cn_identity :: "DeviceId option"
  cn_conn_id :: u64
  cn_msg_counter :: u64

text \<open>What a handler finds in its environment: configuration, the relay fleet, clock and identifiers.\<close>

record server_env =
  sv_prim :: primitives
  sv_turn :: turn_primitives
  sv_config :: Config
  sv_now :: u64
  sv_ids :: "nat \<Rightarrow> string"

definition conn_send :: "server_env \<Rightarrow> nat \<Rightarrow> string option \<Rightarrow> Message \<Rightarrow> Conn \<times> Hub \<Rightarrow> Conn \<times> Hub" where
  "conn_send E i sid msg = (\<lambda>(c, h).
     (c\<lparr>cn_msg_counter := cn_msg_counter c + 1\<rparr>,
      snd (tx_send (cn_conn_id c) (envelope_new (sv_ids E i) (sv_now E) sid msg) h)))"

definition send_error ::
  "server_env \<Rightarrow> nat \<Rightarrow> u16 \<Rightarrow> string \<Rightarrow> string option \<Rightarrow> Conn \<times> Hub \<Rightarrow> Conn \<times> Hub" where
  "send_error E i code message in_reply_to =
     conn_send E i None (MError
       \<lparr>ep_code = code, ep_message = message, ep_in_reply_to = in_reply_to,
        ep_retry_after_s = (if code = RATE_LIMITED then Some 10 else None)\<rparr>)"

definition auth_error_text :: "AuthError \<Rightarrow> string" where
  "auth_error_text e = (case e of
     BadPubkey \<Rightarrow> ''malformed public key'' | BadSignatureEncoding \<Rightarrow> ''malformed signature''
   | BadRegSignature \<Rightarrow> ''signature verification failed''
   | RegIdMismatch \<Rightarrow> ''device id does not match public key''
   | BadNonce \<Rightarrow> ''challenge nonce is unknown, spent or expired'')"

definition route_error_text :: "RouteError \<Rightarrow> string" where
  "route_error_text e = (case e of
     NotConnected \<Rightarrow> ''target device is not connected'' | NotDialable \<Rightarrow> ''target device is not dialable''
   | NotAParticipant \<Rightarrow> ''sender is not a participant in that session''
   | UnknownSession \<Rightarrow> ''unknown session'' | QueueClosed \<Rightarrow> ''peer queue closed'')"

definition ws_register ::
  "server_env \<Rightarrow> Register \<Rightarrow> string option \<Rightarrow> Conn \<times> Hub \<Rightarrow> bool \<times> Conn \<times> Hub" where
  "ws_register E reg reply_to = (\<lambda>(c, h).
     case challenge_verify (sv_prim E) reg (sv_now E) (cn_challenge c) of
       (Inl e, ch) \<Rightarrow>
         (False, send_error E 0 (if e = BadNonce then BAD_NONCE else BAD_SIGNATURE) (auth_error_text e)
            reply_to (c\<lparr>cn_challenge := ch\<rparr>, h))
     | (Inr pubkey, ch) \<Rightarrow>
         let peer = \<lparr>pe_device_id = re_device_id reg, pe_pubkey = pubkey, pe_role = re_role reg,
                     pe_caps = re_caps reg, pe_agent = re_agent reg, pe_pop_rtt = re_pop_rtt reg,
                     pe_tx = cn_conn_id c, pe_conn_id = cn_conn_id c\<rparr>;
             (displaced, h) = registry_register peer h;
             h = (case displaced of None \<Rightarrow> h
                  | Some old \<Rightarrow> snd (tx_send (pe_tx old)
                      (envelope_new (sv_ids E 0) (sv_now E) None (MPeerGone \<lparr>pg_reason = ''replaced''\<rparr>)) h))
         in (True, conn_send E 1 None
               (MRegisterAck \<lparr>ra_device_id = re_device_id reg,
                  ra_heartbeat_interval_s = cf_heartbeat_interval_s (sv_config E),
                  ra_session_ttl_s = cf_session_ttl_s (sv_config E)\<rparr>)
               (c\<lparr>cn_challenge := ch, cn_identity := Some (re_device_id reg)\<rparr>, h)))"

definition connect_request ::
  "server_env \<Rightarrow> DeviceId \<Rightarrow> ConnectRequest \<Rightarrow> Conn \<times> Hub \<Rightarrow> Conn \<times> Hub" where
  "connect_request E from req = (\<lambda>(c, h).
     case resolve_target h (cr_target req) of
       Inl _ \<Rightarrow> conn_send E 0 None (MConnectResponse (response_refuse Offline None)) (c, h)
     | Inr host \<Rightarrow>
         let session_id = ''sess_'' @ sv_ids E 0;
             (session, h) = create_session session_id from (cr_target req) (sv_now E) h;
             controller_rtt = (case map_of (hub_peers h) from of None \<Rightarrow> [] | Some p \<Rightarrow> pe_pop_rtt p);
             pops = default_pops (cf_domain (sv_config E));
             ranked = rank_pops pops controller_rtt (pe_pop_rtt host);
             creds = build_relay_credentials (sv_turn E) pops ranked (cf_turn_secret (sv_config E))
               (se_id session) (sv_now E div 1000) (cf_relay_ttl_s (sv_config E));
             h = snd (tx_send (pe_tx host)
               (envelope_new (sv_ids E 1) (sv_now E) (Some (se_id session)) (MConnectRequest req)) h);
             (c, h) = conn_send E 2 (Some (se_id session)) (MRelayCredentials creds) (c, h)
         in (c, snd (tx_send (pe_tx host)
               (envelope_new (sv_ids E 3) (sv_now E) (Some (se_id session)) (MRelayCredentials creds)) h)))"

definition route_error :: "server_env \<Rightarrow> nat \<Rightarrow> RouteError \<Rightarrow> string option \<Rightarrow> Conn \<times> Hub \<Rightarrow> Conn \<times> Hub" where
  "route_error E i e reply_to =
     send_error E i (if e = NotDialable then CAPABILITY_DENIED else UNKNOWN_TARGET) (route_error_text e) reply_to"

definition connect_response ::
  "server_env \<Rightarrow> DeviceId \<Rightarrow> ConnectResponse \<Rightarrow> string option \<Rightarrow> Conn \<times> Hub \<Rightarrow> Conn \<times> Hub" where
  "connect_response E from resp reply_to = (\<lambda>(c, h).
     case cp_session_id resp of
       None \<Rightarrow> send_error E 0 BAD_REQUEST ''connect_response needs a session_id'' reply_to (c, h)
     | Some session_id \<Rightarrow>
         let env = envelope_new (sv_ids E 0) (sv_now E) (Some session_id) (MConnectResponse resp)
         in case forward_in_session session_id from env h of
              (Inl e, h) \<Rightarrow> route_error E 1 e reply_to (c, h)
            | (Inr _, h) \<Rightarrow>
                (c, if cp_status resp \<noteq> Accepted then snd (end_session session_id h) else h))"

definition ws_forward ::
  "server_env \<Rightarrow> DeviceId \<Rightarrow> string option \<Rightarrow> Message \<Rightarrow> string option \<Rightarrow> Conn \<times> Hub \<Rightarrow> Conn \<times> Hub" where
  "ws_forward E from sid msg reply_to = (\<lambda>(c, h).
     case sid of
       None \<Rightarrow> send_error E 0 BAD_REQUEST ''message requires a session id'' reply_to (c, h)
     | Some session_id \<Rightarrow>
         let env = envelope_new (sv_ids E 0) (sv_now E) (Some session_id) msg
         in case forward_in_session session_id from env h of
              (Inl e, h) \<Rightarrow> route_error E 1 e reply_to (c, h)
            | (Inr _, h) \<Rightarrow> (c, h))"

definition ws_handle :: "server_env \<Rightarrow> Envelope \<Rightarrow> Conn \<times> Hub \<Rightarrow> bool \<times> Conn \<times> Hub" where
  "ws_handle E env = (\<lambda>(c, h).
     let reply_to = Some (en_id env); sid = en_sid env in
     case cn_identity c of
       None \<Rightarrow>
         (case en_msg env of
            MRegister reg \<Rightarrow> ws_register E reg reply_to (c, h)
          | _ \<Rightarrow> (True, send_error E 0 NOT_REGISTERED ''register first'' reply_to (c, h)))
     | Some identity \<Rightarrow>
         (True,
          case en_msg env of
            MRegister _ \<Rightarrow> send_error E 0 BAD_REQUEST ''already registered'' reply_to (c, h)
          | Heartbeat \<Rightarrow> conn_send E 0 None HeartbeatAck (c, h)
          | MConnectRequest req \<Rightarrow> connect_request E identity req (c, h)
          | MConnectResponse resp \<Rightarrow> connect_response E identity resp reply_to (c, h)
          | Offer _ \<Rightarrow> ws_forward E identity sid (en_msg env) reply_to (c, h)
          | Answer _ \<Rightarrow> ws_forward E identity sid (en_msg env) reply_to (c, h)
          | MIceCandidate _ \<Rightarrow> ws_forward E identity sid (en_msg env) reply_to (c, h)
          | IceRestart \<Rightarrow> ws_forward E identity sid (en_msg env) reply_to (c, h)
          | ChannelsReady \<Rightarrow> ws_forward E identity sid (en_msg env) reply_to (c, h)
          | MPeerGone _ \<Rightarrow> ws_forward E identity sid (en_msg env) reply_to (c, h)
          | MChallenge _ \<Rightarrow> (c, h)
          | MRegisterAck _ \<Rightarrow> (c, h)
          | HeartbeatAck \<Rightarrow> (c, h)
          | MRelayCredentials _ \<Rightarrow> (c, h)
          | MError _ \<Rightarrow> (c, h)))"

definition notify_session :: "server_env \<Rightarrow> DeviceId \<Rightarrow> nat \<times> Session \<Rightarrow> Hub \<Rightarrow> Hub" where
  "notify_session E device_id = (\<lambda>(i, session) h.
     let h = (case peer_of session device_id of
                 None \<Rightarrow> h
               | Some peer_id \<Rightarrow> snd (send_to peer_id
                   (envelope_new (sv_ids E i) (sv_now E) (Some (se_id session))
                      (MPeerGone \<lparr>pg_reason = ''disconnected''\<rparr>)) h))
      in snd (end_session (se_id session) h))"

definition teardown :: "server_env \<Rightarrow> Conn \<Rightarrow> Hub \<Rightarrow> Hub" where
  "teardown E c h =
     (case cn_identity c of
        None \<Rightarrow> h
      | Some device_id \<Rightarrow>
          let (removed, h) = unregister device_id (cn_conn_id c) h
          in if \<not> removed then h
             else fold (notify_session E device_id) (enumerate 0 (sessions_for h device_id)) h)"

subsection \<open>The connection task\<close>

datatype WsMessage = Text "u8 list" | Binary "u8 list" | CloseFrame | Ping | Pong

definition signaling_error_text :: "SignalingError \<Rightarrow> string" where
  "signaling_error_text e = (case e of
     TooLarge n \<Rightarrow> ''signaling message of '' @ decimal n @ '' bytes exceeds the size cap''
   | BadVersion v \<Rightarrow> ''unsupported signaling protocol version '' @ decimal (unat v)
   | Json t \<Rightarrow> ''malformed signaling message: '' @ t)"

definition signaling_error_code :: "SignalingError \<Rightarrow> u16" where
  "signaling_error_code e = (case e of
     TooLarge _ \<Rightarrow> MESSAGE_TOO_LARGE | BadVersion _ \<Rightarrow> UNSUPPORTED_VERSION | Json _ \<Rightarrow> BAD_REQUEST)"

text \<open>Accepting a socket: its identifier, its challenge, its queue.\<close>

definition connection_open :: "server_env \<Rightarrow> u8 list \<Rightarrow> Hub \<Rightarrow> Conn \<times> Hub" where
  "connection_open E nonce h =
     (let (conn_id, h) = next_conn_id h;
          h = h\<lparr>hub_open := (hub_open h)(conn_id := True), hub_queues := (hub_queues h)(conn_id := [])\<rparr>;
          c = \<lparr>cn_challenge = challenge_issue nonce (sv_now E),
               cn_limiter = limiter_new (cf_rate_limit (sv_config E)) (cf_rate_window_ms (sv_config E)),
               cn_identity = None, cn_conn_id = conn_id, cn_msg_counter = 0\<rparr>
      in conn_send E 0 None (MChallenge \<lparr>ch_nonce = nonce_b64 (sv_prim E) (cn_challenge c),
           ch_server_time = sv_now E, ch_min_client_version = None\<rparr>) (c, h))"

text \<open>One round of the read loop; \<open>False\<close> is \<open>break\<close>.\<close>

definition ws_frame :: "server_env \<Rightarrow> json \<Rightarrow> WsMessage \<Rightarrow> Conn \<times> Hub \<Rightarrow> bool \<times> Conn \<times> Hub" where
  "ws_frame E J frame = (\<lambda>(c, h).
     case frame of
       Text text \<Rightarrow>
         let (ok, l) = limiter_allow (cn_limiter c) (sv_now E);
             c = c\<lparr>cn_limiter := l\<rparr>
         in if \<not> ok then (False, send_error E 0 RATE_LIMITED ''too many messages'' None (c, h))
            else (case envelope_from_slice J text of
                    Inr env \<Rightarrow> ws_handle E env (c, h)
                  | Inl e \<Rightarrow>
                      (True, send_error E 0 (signaling_error_code e) (signaling_error_text e) None (c, h)))
     | Binary _ \<Rightarrow> (True, send_error E 0 BAD_REQUEST ''signaling frames must be text'' None (c, h))
     | CloseFrame \<Rightarrow> (False, c, h)
     | Ping \<Rightarrow> (True, c, h)
     | Pong \<Rightarrow> (True, c, h))"

definition connection_close :: "server_env \<Rightarrow> Conn \<Rightarrow> Hub \<Rightarrow> Hub" where
  "connection_close E c h =
     (let h = teardown E c h in h\<lparr>hub_open := (hub_open h)(cn_conn_id c := False)\<rparr>)"

subsection \<open>What the primitive operations keep\<close>

named_theorems hub_simps \<open>effects of the registry operations\<close>

lemma tx_send_simps [simp]:
  "hub_peers (snd (tx_send tx env h)) = hub_peers h"
  "hub_sessions (snd (tx_send tx env h)) = hub_sessions h"
  "hub_open (snd (tx_send tx env h)) = hub_open h"
  "ch \<noteq> tx \<Longrightarrow> hub_queues (snd (tx_send tx env h)) ch = hub_queues h ch"
  by (simp_all add: tx_send_def)

lemma tx_send_queue: "hub_queues (snd (tx_send tx env h)) tx \<in> {hub_queues h tx, hub_queues h tx @ [env]}"
  by (simp add: tx_send_def)

lemma conn_send_simps [simp]:
  "hub_peers (snd (conn_send E i sid msg ch)) = hub_peers (snd ch)"
  "hub_sessions (snd (conn_send E i sid msg ch)) = hub_sessions (snd ch)"
  "cn_identity (fst (conn_send E i sid msg ch)) = cn_identity (fst ch)"
  "cn_conn_id (fst (conn_send E i sid msg ch)) = cn_conn_id (fst ch)"
  "q \<noteq> cn_conn_id (fst ch) \<Longrightarrow> hub_queues (snd (conn_send E i sid msg ch)) q = hub_queues (snd ch) q"
  by (simp_all add: conn_send_def case_prod_beta)

lemma send_error_simps [simp]:
  "hub_peers (snd (send_error E i code t r ch)) = hub_peers (snd ch)"
  "hub_sessions (snd (send_error E i code t r ch)) = hub_sessions (snd ch)"
  "cn_identity (fst (send_error E i code t r ch)) = cn_identity (fst ch)"
  "cn_conn_id (fst (send_error E i code t r ch)) = cn_conn_id (fst ch)"
  "q \<noteq> cn_conn_id (fst ch) \<Longrightarrow> hub_queues (snd (send_error E i code t r ch)) q = hub_queues (snd ch) q"
  by (simp_all add: send_error_def)

lemma send_to_simps [simp]:
  "hub_peers (snd (send_to d env h)) = hub_peers h"
  "hub_sessions (snd (send_to d env h)) = hub_sessions h"
  by (simp_all add: send_to_def case_prod_beta split: option.splits)

lemma send_to_queue:
  "hub_queues (snd (send_to d env h)) q = hub_queues h q \<or>
   (\<exists>p. map_of (hub_peers h) d = Some p \<and> pe_tx p = q \<and>
      hub_queues (snd (send_to d env h)) q = hub_queues h q @ [env])"
  by (auto simp: send_to_def tx_send_def case_prod_beta split: option.splits)

lemma forward_simps [simp]:
  "hub_peers (snd (forward_in_session sid d env h)) = hub_peers h"
  "hub_sessions (snd (forward_in_session sid d env h)) = hub_sessions h"
  by (simp_all add: forward_in_session_def case_prod_beta split: option.splits)

text \<open>A forward reaches the other participant of the named session, or nobody.\<close>

definition routed :: "Hub \<Rightarrow> DeviceId \<Rightarrow> u64 \<Rightarrow> Envelope \<Rightarrow> bool" where
  "routed h d q env \<longleftrightarrow>
     (\<exists>sid s peer p. en_sid env = Some sid \<and> map_of (hub_sessions h) sid = Some s \<and>
        peer_of s d = Some peer \<and> map_of (hub_peers h) peer = Some p \<and> pe_tx p = q)"

lemma forward_queue:
  assumes "en_sid env = Some sid"
  shows "hub_queues (snd (forward_in_session sid d env h)) q = hub_queues h q \<or>
   (routed h d q env \<and> hub_queues (snd (forward_in_session sid d env h)) q = hub_queues h q @ [env])"
proof (cases "map_of (hub_sessions h) sid")
  case (Some s)
  show ?thesis
  proof (cases "peer_of s d")
    case p: (Some peer)
    then show ?thesis
      using Some assms send_to_queue [of peer env h q]
      by (auto simp: forward_in_session_def routed_def case_prod_beta)
  qed (simp add: forward_in_session_def Some)
qed (simp add: forward_in_session_def)

lemma ws_forward_queue:
  assumes "q \<noteq> cn_conn_id c"
  shows "hub_queues (snd (ws_forward E d sid msg r (c, h))) q = hub_queues h q \<or>
    (\<exists>env. en_msg env = msg \<and> routed h d q env \<and>
       hub_queues (snd (ws_forward E d sid msg r (c, h))) q = hub_queues h q @ [env])"
proof (cases sid)
  case (Some s)
  let ?env = "envelope_new (sv_ids E 0) (sv_now E) (Some s) msg"
  obtain res h' where f: "forward_in_session s d ?env h = (res, h')" by fastforce
  have "hub_queues (snd (ws_forward E d sid msg r (c, h))) q = hub_queues h' q"
    using assms by (cases res) (simp_all add: ws_forward_def Some f Let_def route_error_def)
  moreover have "en_sid ?env = Some s" "en_msg ?env = msg" by (simp_all add: envelope_new_def)
  ultimately show ?thesis using forward_queue [of ?env s d h q] f by (metis snd_conv)
qed (use assms in \<open>simp add: ws_forward_def\<close>)

lemma connect_response_queue:
  assumes "q \<noteq> cn_conn_id c"
  shows "hub_queues (snd (connect_response E d resp r (c, h))) q = hub_queues h q \<or>
    (\<exists>env. en_msg env = MConnectResponse resp \<and> routed h d q env \<and>
       hub_queues (snd (connect_response E d resp r (c, h))) q = hub_queues h q @ [env])"
proof (cases "cp_session_id resp")
  case (Some s)
  let ?env = "envelope_new (sv_ids E 0) (sv_now E) (Some s) (MConnectResponse resp)"
  obtain res h' where f: "forward_in_session s d ?env h = (res, h')" by fastforce
  have "hub_queues (snd (connect_response E d resp r (c, h))) q = hub_queues h' q"
    using assms by (cases res) (simp_all add: connect_response_def Some f Let_def route_error_def end_session_def)
  moreover have "en_sid ?env = Some s" "en_msg ?env = MConnectResponse resp"
    by (simp_all add: envelope_new_def)
  ultimately show ?thesis using forward_queue [of ?env s d h q] f by (metis snd_conv)
qed (use assms in \<open>simp add: connect_response_def\<close>)

subsection \<open>The registry invariant\<close>

definition hub_inv :: "primitives \<Rightarrow> Hub \<Rightarrow> bool" where
  "hub_inv P h \<longleftrightarrow>
     (\<forall>d p. map_of (hub_peers h) d = Some p \<longrightarrow>
        pe_device_id p = d \<and> d = device_id_from_pubkey P (pe_pubkey p) \<and> valid_key P (pe_pubkey p) \<and>
        pe_tx p = pe_conn_id p) \<and>
     (\<forall>i s. map_of (hub_sessions h) i = Some s \<longrightarrow> se_id s = i) \<and>
     distinct (map fst (hub_peers h)) \<and> distinct (map fst (hub_sessions h))"

lemma challenge_verify_ok:
  assumes "challenge_verify P reg now c = (Inr pk, c')"
  shows "\<not> cl_spent c" "saturating_sub now (cl_issued_ms c) \<le> NONCE_TTL_MS" "valid_key P pk"
    "re_device_id reg = device_id_from_pubkey P pk" "b64_decode P (re_pubkey reg) = Some pk" "length pk = 32"
    "\<exists>sg. b64_decode P (re_sig reg) = Some sg \<and> length sg = 64 \<and>
       verify_strict P pk (register_signing_input (cl_nonce c) (re_device_id reg) (re_role reg)) sg"
  using assms
  by (auto simp: challenge_verify_def bindE_eq_Inr verify_against_def decode_b64_array_def decode_b64_def
      bind_eq_Some_conv split: if_splits sum.splits)

lemma challenge_verify_spends:
  "fst (challenge_verify P reg' now' (snd (challenge_verify P reg now c))) = Inl BadNonce \<or>
   fst (challenge_verify P reg now c) = Inl BadNonce"
  by (auto simp: challenge_verify_def)

lemma challenge_honest:
  assumes "signature_correct P" "b64_roundtrip P" "length (verifying_key P sk) = 32" "valid_key P (verifying_key P sk)"
    and "\<And>m. length (ed_sign P sk m) = 64" "\<not> cl_spent c" "saturating_sub now (cl_issued_ms c) \<le> NONCE_TTL_MS"
    and "re_device_id reg = device_id_from_pubkey P (verifying_key P sk)"
    and "re_pubkey reg = encode_pubkey P (verifying_key P sk)"
    and "re_sig reg = sign_registration P sk (cl_nonce c) (re_device_id reg) (re_role reg)"
  shows "challenge_verify P reg now c = (Inr (verifying_key P sk), c\<lparr>cl_spent := True\<rparr>)"
  using assms
  by (simp add: challenge_verify_def decode_b64_array_def decode_b64_def encode_pubkey_def sign_registration_def
      b64_roundtrip_def signature_correct_def verify_against_def)

lemma hub_inv_cong:
  "hub_peers h' = hub_peers h \<Longrightarrow> hub_sessions h' = hub_sessions h \<Longrightarrow> hub_inv P h' \<longleftrightarrow> hub_inv P h"
  by (simp add: hub_inv_def)

lemma hub_inv_register:
  assumes "hub_inv P h" "pe_device_id p = device_id_from_pubkey P (pe_pubkey p)" "valid_key P (pe_pubkey p)"
    "pe_tx p = pe_conn_id p" "hub_peers h' = AList.update (pe_device_id p) p (hub_peers h)"
    "hub_sessions h' = hub_sessions h"
  shows "hub_inv P h'"
  using assms by (auto simp: hub_inv_def update_conv' distinct_update)

lemma hub_inv_end_session: "hub_inv P h \<Longrightarrow> hub_inv P (snd (end_session i h))"
  by (auto simp: hub_inv_def end_session_def delete_conv' distinct_delete split: if_splits)

lemma hub_inv_create:
  "hub_inv P h \<Longrightarrow> hub_inv P (snd (create_session i c d now h))"
  by (auto simp: hub_inv_def create_session_def update_conv' distinct_update Let_def)

lemma hub_inv_delete_peer: "hub_inv P h \<Longrightarrow> hub_inv P (h\<lparr>hub_peers := AList.delete d (hub_peers h)\<rparr>)"
  by (auto simp: hub_inv_def AList.delete_eq distinct_map_filter)

lemma hub_inv_unregister: "hub_inv P h \<Longrightarrow> hub_inv P (snd (unregister d i h))"
  by (simp add: unregister_def Let_def hub_inv_delete_peer)

lemma hub_inv_notify: "hub_inv P h \<Longrightarrow> hub_inv P (notify_session E d is h)"
proof -
  assume inv: "hub_inv P h"
  then have "hub_inv P (snd (send_to peer env h))" for peer env
    using hub_inv_cong [of "snd (send_to peer env h)" h P] by simp
  with inv show ?thesis
    by (auto simp: notify_session_def case_prod_beta Let_def hub_inv_end_session split: option.splits)
qed

lemma hub_inv_teardown: "hub_inv P h \<Longrightarrow> hub_inv P (teardown E c h)"
proof -
  have "hub_inv P (fold (notify_session E d) xs h)" if "hub_inv P h" for d xs h
    using that by (induction xs arbitrary: h) (simp_all add: hub_inv_notify)
  then show "hub_inv P h \<Longrightarrow> hub_inv P (teardown E c h)"
    using hub_inv_unregister by (fastforce simp: teardown_def case_prod_beta Let_def split: option.splits)
qed

text \<open>An identity is held only after its key was verified.\<close>

definition identity_ok :: "primitives \<Rightarrow> DeviceId option \<Rightarrow> bool" where
  "identity_ok P d \<longleftrightarrow> (d = None \<or> (\<exists>pk. valid_key P pk \<and> d = Some (device_id_from_pubkey P pk)))"

definition conn_ok :: "primitives \<Rightarrow> u64 \<Rightarrow> Conn \<Rightarrow> bool" where
  "conn_ok P i c \<longleftrightarrow> cn_conn_id c = i \<and> identity_ok P (cn_identity c)"

lemma ws_register_ok:
  assumes "hub_inv P h" "conn_ok P i c" "sv_prim E = P" "ws_register E reg r (c, h) = (go, c', h')"
  shows "hub_inv P h' \<and> conn_ok P i c' \<and> hub_sessions h' = hub_sessions h"
proof (cases "challenge_verify P reg (sv_now E) (cn_challenge c)")
  case (Pair res ch)
  show ?thesis
  proof (cases res)
    case (Inl e)
    have "(c', h') = send_error E 0 (if e = BadNonce then BAD_NONCE else BAD_SIGNATURE) (auth_error_text e) r
        (c\<lparr>cn_challenge := ch\<rparr>, h)"
      using assms(3,4) Pair Inl by (simp add: ws_register_def)
    then have "c' = fst (send_error E 0 (if e = BadNonce then BAD_NONCE else BAD_SIGNATURE) (auth_error_text e) r
        (c\<lparr>cn_challenge := ch\<rparr>, h))"
      "h' = snd (send_error E 0 (if e = BadNonce then BAD_NONCE else BAD_SIGNATURE) (auth_error_text e) r
        (c\<lparr>cn_challenge := ch\<rparr>, h))" by (metis fst_conv, metis snd_conv)
    with assms(1,2) show ?thesis by (simp add: hub_inv_def conn_ok_def)
  next
    case (Inr pk)
    note v = challenge_verify_ok [OF Pair [unfolded Inr]]
    define p where "p = \<lparr>pe_device_id = re_device_id reg, pe_pubkey = pk, pe_role = re_role reg,
      pe_caps = re_caps reg, pe_agent = re_agent reg, pe_pop_rtt = re_pop_rtt reg,
      pe_tx = cn_conn_id c, pe_conn_id = cn_conn_id c\<rparr>"
    have "hub_peers h' = AList.update (pe_device_id p) p (hub_peers h)" "hub_sessions h' = hub_sessions h"
      "cn_identity c' = Some (re_device_id reg)" "cn_conn_id c' = cn_conn_id c"
      using assms(3,4) Pair Inr
      by (auto simp: ws_register_def registry_register_def Let_def p_def conn_send_def split: option.splits)
    moreover from this have "hub_inv P h'"
      using assms(1) v by (intro hub_inv_register [of P h p h']) (simp_all add: p_def)
    ultimately show ?thesis using assms(2) v by (auto simp: conn_ok_def identity_ok_def)
  qed
qed

lemma connect_request_ok:
  assumes "hub_inv P h"
  shows "hub_inv P (snd (connect_request E d req (c, h)))"
    and "cn_identity (fst (connect_request E d req (c, h))) = cn_identity c"
    and "cn_conn_id (fst (connect_request E d req (c, h))) = cn_conn_id c"
proof -
  let ?h = "snd (create_session (''sess_'' @ sv_ids E 0) d (cr_target req) (sv_now E) h)"
  have cong: "hub_inv P h'" if "hub_peers h' = hub_peers ?h" "hub_sessions h' = hub_sessions ?h" for h'
    using hub_inv_cong [OF that] hub_inv_create [OF assms] by blast
  show "hub_inv P (snd (connect_request E d req (c, h)))"
  proof (cases "resolve_target h (cr_target req)")
    case (Inl e)
    then show ?thesis using assms hub_inv_cong [of "snd (connect_request E d req (c, h))" h P]
      by (simp add: connect_request_def)
  next
    case (Inr host)
    then show ?thesis
      by (intro cong) (simp_all add: connect_request_def Let_def case_prod_beta)
  qed
qed (simp_all add: connect_request_def Let_def case_prod_beta split: sum.splits)

lemma forwards_ok:
  assumes "hub_inv P h"
  shows "hub_inv P (snd (ws_forward E d sid msg r (c, h)))"
    and "hub_inv P (snd (connect_response E d resp r (c, h)))"
    and "cn_identity (fst (ws_forward E d sid msg r (c, h))) = cn_identity c"
    and "cn_conn_id (fst (ws_forward E d sid msg r (c, h))) = cn_conn_id c"
    and "cn_identity (fst (connect_response E d resp r (c, h))) = cn_identity c"
    and "cn_conn_id (fst (connect_response E d resp r (c, h))) = cn_conn_id c"
proof -
  have fwd: "hub_inv P h'" if "forward_in_session i d env h = (res, h')" for i env res h'
    using hub_inv_cong [of h' h P] forward_simps [of i d env h] that assms by simp
  have err: "hub_inv P (snd (send_error E i code t r' (c, h')))" if "hub_inv P h'" for i code t r' h'
    using hub_inv_cong [of "snd (send_error E i code t r' (c, h'))" h' P] that by simp
  show "hub_inv P (snd (ws_forward E d sid msg r (c, h)))"
    using assms by (auto simp: ws_forward_def route_error_def err Let_def split: option.split prod.split sum.split
        dest: fwd)
  show "hub_inv P (snd (connect_response E d resp r (c, h)))"
    using assms by (auto simp: connect_response_def route_error_def err Let_def hub_inv_end_session
        split: option.split prod.split sum.split dest: fwd)
qed (simp_all add: ws_forward_def connect_response_def route_error_def Let_def split: option.split prod.split sum.split)

lemma send_error_ok:
  assumes "(c', h') = send_error E n code t r (c, h)" "hub_inv P h" "conn_ok P i c"
  shows "hub_inv P h' \<and> conn_ok P i c'"
proof -
  have "c' = fst (send_error E n code t r (c, h))" "h' = snd (send_error E n code t r (c, h))"
    by (simp_all flip: assms(1))
  with assms(2,3) show ?thesis using hub_inv_cong [of h' h P] by (simp add: conn_ok_def)
qed

lemma ws_handle_ok:
  assumes "hub_inv P h" "conn_ok P i c" "sv_prim E = P" "ws_handle E env (c, h) = (go, c', h')"
  shows "hub_inv P h' \<and> conn_ok P i c'"
proof (cases "cn_identity c")
  case None
  show ?thesis
  proof (cases "\<exists>reg. en_msg env = MRegister reg")
    case True
    with None assms show ?thesis by (auto simp: ws_handle_def dest: ws_register_ok)
  next
    case False
    then have "(c', h') = send_error E 0 NOT_REGISTERED ''register first'' (Some (en_id env)) (c, h)"
      using None assms(4) by (cases "en_msg env") (simp_all add: ws_handle_def)
    from send_error_ok [OF this assms(1,2)] show ?thesis .
  qed
next
  case (Some d)
  have c': "c' = fst (snd (ws_handle E env (c, h)))" "h' = snd (snd (ws_handle E env (c, h)))"
    using assms(4) by simp_all
  have "hub_inv P h' \<and> cn_identity c' = cn_identity c \<and> cn_conn_id c' = cn_conn_id c"
    unfolding c' using assms(1) Some
    by (cases "en_msg env")
      (simp_all add: ws_handle_def connect_request_ok forwards_ok hub_inv_cong [OF send_error_simps(1,2)]
        hub_inv_cong [OF conn_send_simps(1,2)])
  with assms(2) show ?thesis by (simp add: conn_ok_def)
qed

lemma ws_frame_ok:
  assumes "hub_inv P h" "conn_ok P i c" "sv_prim E = P" "ws_frame E J f (c, h) = (go, c', h')"
  shows "hub_inv P h' \<and> conn_ok P i c'"
proof -
  have upd: "conn_ok P i (c\<lparr>cn_limiter := l\<rparr>)" for l using assms(2) by (simp add: conn_ok_def)
  show ?thesis
  proof (cases f)
    case (Text body)
    obtain ok l where l: "limiter_allow (cn_limiter c) (sv_now E) = (ok, l)" by fastforce
    show ?thesis
    proof (cases ok)
      case False
      then have "(c', h') = send_error E 0 RATE_LIMITED ''too many messages'' None (c\<lparr>cn_limiter := l\<rparr>, h)"
        using assms(4) Text l by (simp add: ws_frame_def)
      from send_error_ok [OF this assms(1) upd] show ?thesis .
    next
      case True
      show ?thesis
      proof (cases "envelope_from_slice J body")
        case (Inl e)
        then have "(c', h') = send_error E 0 (signaling_error_code e) (signaling_error_text e) None
            (c\<lparr>cn_limiter := l\<rparr>, h)"
          using assms(4) Text l True by (simp add: ws_frame_def)
        from send_error_ok [OF this assms(1) upd] show ?thesis .
      next
        case (Inr env)
        then have "ws_handle E env (c\<lparr>cn_limiter := l\<rparr>, h) = (go, c', h')"
          using assms(4) Text l True by (simp add: ws_frame_def)
        from ws_handle_ok [OF assms(1) upd assms(3) this] show ?thesis .
      qed
    qed
  next
    case (Binary b)
    then have "(c', h') = send_error E 0 BAD_REQUEST ''signaling frames must be text'' None (c, h)"
      using assms(4) by (simp add: ws_frame_def)
    from send_error_ok [OF this assms(1,2)] show ?thesis .
  qed (use assms in \<open>auto simp: ws_frame_def\<close>)
qed

subsection \<open>The server as a transition system\<close>

text \<open>Connections are accepted, deliver a frame, or end, in any interleaving; a handler runs to completion
  before the next one starts.\<close>

type_synonym server = "Hub \<times> (u64 \<Rightarrow> Conn option)"

inductive server_step :: "primitives \<Rightarrow> json \<Rightarrow> server \<Rightarrow> server \<Rightarrow> bool" for P J where
  accept_socket: "sv_prim E = P \<Longrightarrow> connection_open E nonce h = (c, h') \<Longrightarrow>
    server_step P J (h, cs) (h', cs(cn_conn_id c \<mapsto> c))"
| deliver: "sv_prim E = P \<Longrightarrow> cs i = Some c \<Longrightarrow> ws_frame E J f (c, h) = (go, c', h') \<Longrightarrow>
    server_step P J (h, cs) (h', cs(i \<mapsto> c'))"
| disconnect: "cs i = Some c \<Longrightarrow> server_step P J (h, cs) (connection_close E c h, cs(i := None))"

definition server_inv :: "primitives \<Rightarrow> server \<Rightarrow> bool" where
  "server_inv P = (\<lambda>(h, cs). hub_inv P h \<and> (\<forall>i c. cs i = Some c \<longrightarrow> conn_ok P i c))"

lemma connection_open_ok:
  assumes "hub_inv P h" "connection_open E nonce h = (c, h')"
  shows "hub_inv P h' \<and> conn_ok P (cn_conn_id c) c"
proof -
  have "h' = snd (connection_open E nonce h)" "c = fst (connection_open E nonce h)" using assms(2) by simp_all
  then show ?thesis
    using assms(1) hub_inv_cong [of h' h P]
    by (simp add: connection_open_def next_conn_id_def Let_def conn_ok_def identity_ok_def)
qed

interpretation server: inductive_invariant "\<lambda>s. s = (registry_new, \<lambda>_. None)" "server_step P J" "server_inv P"
  for P J
proof
  show "server_inv P s" if "s = (registry_new, \<lambda>_. None)" for s
    using that by (simp add: server_inv_def hub_inv_def registry_new_def)
  show "server_inv P t" if "server_inv P s" "server_step P J s t" for s t
    using that(2,1)
  proof cases
    case (accept_socket E nonce h c h' cs)
    with that(1) connection_open_ok [of P h E nonce c h'] show ?thesis by (auto simp: server_inv_def)
  next
    case (deliver E cs i c f h go c' h')
    with that(1) ws_frame_ok [of P h i c E J f go c' h'] show ?thesis by (auto simp: server_inv_def)
  next
    case (disconnect cs i c h E)
    with that(1) hub_inv_teardown [of P h E c]
      hub_inv_cong [of "connection_close E c h" "teardown E c h" P] show ?thesis
      by (auto simp: server_inv_def connection_close_def Let_def)
  qed
qed

subsection \<open>Teardown\<close>

definition involves :: "DeviceId \<Rightarrow> Session \<Rightarrow> bool" where
  "involves d s \<longleftrightarrow> se_controller s = d \<or> se_host s = d"

lemma notify_session_simps [simp]:
  "hub_sessions (notify_session E d is h) = AList.delete (se_id (snd is)) (hub_sessions h)"
  "hub_peers (notify_session E d is h) = hub_peers h"
  by (simp_all add: notify_session_def case_prod_beta Let_def end_session_def split: option.splits)

lemma fold_notify:
  "hub_sessions (fold (notify_session E d) xs h) =
     filter (\<lambda>(k, _). k \<notin> se_id ` snd ` set xs) (hub_sessions h)"
  "hub_peers (fold (notify_session E d) xs h) = hub_peers h"
  by (induction xs arbitrary: h) (auto simp: AList.delete_eq intro!: filter_cong)

lemma teardown_sessions:
  assumes "hub_inv P h"
  shows "hub_sessions (fold (notify_session E d) (enumerate 0 (sessions_for h d)) h) =
    filter (\<lambda>(_, s). \<not> involves d s) (hub_sessions h)"
proof -
  have ids: "se_id s = k" "map_of (hub_sessions h) k = Some s" if "(k, s) \<in> set (hub_sessions h)" for k s
    using assms that by (simp_all add: hub_inv_def)
  have "snd ` set (enumerate 0 (sessions_for h d)) = set (sessions_for h d)"
    by (metis list.set_map map_snd_enumerate)
  moreover have "k \<in> se_id ` set (sessions_for h d) \<longleftrightarrow> involves d s" if ks: "(k, s) \<in> set (hub_sessions h)" for k s
  proof
    assume "k \<in> se_id ` set (sessions_for h d)"
    then obtain s' k' where "(k', s') \<in> set (hub_sessions h)" "involves d s'" "k = se_id s'"
      by (auto simp: sessions_for_def involves_def)
    with ids [OF ks] ids [of k' s'] show "involves d s" by simp
  next
    assume "involves d s"
    then have "s \<in> set (sessions_for h d)" using ks by (force simp: sessions_for_def involves_def)
    then show "k \<in> se_id ` set (sessions_for h d)" using ids(1) [OF ks] by blast
  qed
  ultimately show ?thesis unfolding fold_notify by (intro filter_cong) auto
qed

lemma teardown_current:
  assumes "hub_inv P h" "cn_identity c = Some d" "map_of (hub_peers h) d = Some p" "pe_conn_id p = cn_conn_id c"
  shows "map_of (hub_peers (teardown E c h)) d = None"
    "hub_sessions (teardown E c h) = filter (\<lambda>(_, s). \<not> involves d s) (hub_sessions h)"
proof -
  let ?h = "h\<lparr>hub_peers := AList.delete d (hub_peers h)\<rparr>"
  have t: "teardown E c h = fold (notify_session E d) (enumerate 0 (sessions_for ?h d)) ?h"
    using assms(2-4) by (simp add: teardown_def unregister_def)
  show "map_of (hub_peers (teardown E c h)) d = None"
    unfolding t fold_notify by (simp add: delete_conv')
  show "hub_sessions (teardown E c h) = filter (\<lambda>(_, s). \<not> involves d s) (hub_sessions h)"
    unfolding t using teardown_sessions [OF hub_inv_delete_peer [OF assms(1)], of E d d] by simp
qed

lemma teardown_stale:
  assumes "cn_identity c = Some d" "\<forall>p. map_of (hub_peers h) d = Some p \<longrightarrow> pe_conn_id p \<noteq> cn_conn_id c"
  shows "teardown E c h = h"
  using assms by (auto simp: teardown_def unregister_def Let_def split: option.splits)

subsection \<open>Relay selection\<close>

lemma length_map_filter_le: "length (List.map_filter f xs) \<le> length xs"
  by (simp add: List.map_filter_def)

lemma rank_pops_codes: "mset (rank_pops pops cr hr) = mset (map po_code pops)"
proof -
  have "mset (rank_pops pops cr hr) = image_mset snd (mset (map (pop_score cr hr) pops))"
    by (simp add: rank_pops_def)
  also have "\<dots> = mset (map po_code pops)"
    by (simp add: pop_score_def Let_def multiset.map_comp o_def)
  finally show ?thesis .
qed

subsection \<open>The per-connection limiter\<close>

definition limiter_expired :: "RateLimiter \<Rightarrow> u64 \<Rightarrow> bool" where
  "limiter_expired l now_ms \<longleftrightarrow> saturating_sub now_ms (lm_window_start l) > lm_window_ms l"

definition limiter_near :: "RateLimiter \<Rightarrow> u64 \<Rightarrow> u64 \<Rightarrow> bool" where
  "limiter_near l t u \<longleftrightarrow> saturating_sub u t \<le> lm_window_ms l"

interpretation limiter: window_limiter limiter_allow "\<lambda>l. unat (lm_count l)" "\<lambda>l. unat (lm_limit l)"
  limiter_expired limiter_near
  by unfold_locales
    (auto simp: limiter_allow_def limiter_expired_def limiter_near_def Let_def fun_eq_iff word_le_nat_alt
      word_less_nat_alt unat_u32_Suc not_less)

subsection \<open>Properties\<close>


definition toy_env :: server_env where
  "toy_env = \<lparr>sv_prim = toy_primitives, sv_turn = \<lparr>hmac_sha1 = (\<lambda>_ m. m), b64_standard = (\<lambda>_. [])\<rparr>,
     sv_config = config_default, sv_now = 7, sv_ids = (\<lambda>i. decimal i)\<rparr>"

definition toy_key :: "u8 list" where
  "toy_key = replicate 32 3"

definition toy_id :: DeviceId where
  "toy_id = device_id_from_pubkey toy_primitives toy_key"

definition toy_register :: Register where
  "toy_register = \<lparr>re_device_id = toy_id, re_pubkey = encode_pubkey toy_primitives toy_key,
     re_sig = sign_registration toy_primitives toy_key [1, 2] toy_id RoleHost, re_role = RoleHost,
     re_caps = {}, re_agent = None, re_pop_rtt = []\<rparr>"

definition toy_json :: json where
  "toy_json = (\<lambda>_. Inr (envelope_new ''m'' 0 None (MRegister toy_register)))"

text \<open>A device that connects and answers its challenge is registered.\<close>

lemma toy_registered:
  obtains h cs p c where
    "reach (\<lambda>s. s = (registry_new, \<lambda>_. None)) (server_step toy_primitives toy_json) (h, cs)"
    "map_of (hub_peers h) toy_id = Some p" "pe_conn_id p = 0" "cs 0 = Some c" "cn_identity c = Some toy_id"
proof -
  obtain c0 h0 where o: "connection_open toy_env [1, 2] registry_new = (c0, h0)" by fastforce
  then have c0: "cn_conn_id c0 = 0" "cn_identity c0 = None" "cn_challenge c0 = challenge_issue [1, 2] 7"
    "cn_limiter c0 = limiter_new 60 10000" "hub_peers h0 = []"
    by (auto simp: connection_open_def next_conn_id_def registry_new_def conn_send_def toy_env_def
        config_default_def tx_send_def Let_def)
  have prim: "verifying_key toy_primitives toy_key = toy_key" "valid_key toy_primitives toy_key"
    "length toy_key = 32" "\<And>m. length (ed_sign toy_primitives toy_key m) = 64"
    by (auto simp: toy_primitives_def toy_key_def toy_hash_def min_def)
  have "challenge_verify toy_primitives toy_register 7 (challenge_issue [1, 2] 7) =
      (Inr toy_key, (challenge_issue [1, 2] 7)\<lparr>cl_spent := True\<rparr>)"
    using challenge_honest [OF toy_primitives_ok(3,4), of toy_key] prim
    by (simp add: challenge_issue_def toy_register_def toy_id_def)
  then have cv: "challenge_verify (sv_prim toy_env) toy_register (sv_now toy_env) (cn_challenge c0) =
      (Inr toy_key, (challenge_issue [1, 2] 7)\<lparr>cl_spent := True\<rparr>)"
    by (simp add: toy_env_def c0)
  obtain l where l: "limiter_allow (limiter_new 60 10000) (sv_now toy_env) = (True, l)"
    by (simp add: limiter_allow_def limiter_new_def toy_env_def saturating_sub_def Let_def)
  have reg: "re_device_id toy_register = toy_id" by (simp add: toy_register_def)
  obtain c1 h1 where w: "ws_register toy_env toy_register (Some ''m'') (c0\<lparr>cn_limiter := l\<rparr>, h0) = (True, c1, h1)"
    and r: "cn_identity c1 = Some toy_id" "\<exists>p. map_of (hub_peers h1) toy_id = Some p \<and> pe_conn_id p = 0"
    using cv by (simp add: ws_register_def registry_register_def Let_def conn_send_def reg c0(1,5))
  have f: "ws_frame toy_env toy_json (Text []) (c0, h0) = (True, c1, h1)"
    using w by (simp add: ws_frame_def l envelope_from_slice_def toy_json_def envelope_new_def
        ws_handle_def c0(2,4))
  have init: "reach (\<lambda>s. s = (registry_new, \<lambda>_. None)) (server_step toy_primitives toy_json) (registry_new, \<lambda>_. None)"
    by (rule reach_init) simp
  have E: "sv_prim toy_env = toy_primitives" by (simp add: toy_env_def)
  note s1 = reach_step [OF init server_step.accept_socket [OF E o]]
  let ?cs = "(\<lambda>_. None)(cn_conn_id c0 \<mapsto> c0)"
  have "?cs 0 = Some c0" using c0(1) by simp
  with E have "server_step toy_primitives toy_json (h0, ?cs) (h1, ?cs(0 \<mapsto> c1))"
    using f by (rule server_step.deliver)
  from reach_step [OF s1 this] r that show thesis by (metis fun_upd_same)
qed


text \<open>C8. Routing is confined to the session: a message other than a connection request, sent by an
  identified connection, reaches a queue other than the sender's only as that message, in an envelope
  that names a session the sender takes part in, and only the queue of the other participant.\<close>

theorem session_messages_confined:
  assumes "ws_handle E env (c, h) = (go, c', h')" "q \<noteq> cn_conn_id c"
    and "cn_identity c = Some d" "\<forall>req. en_msg env \<noteq> MConnectRequest req"
  shows "hub_queues h' q = hub_queues h q \<or>
    (\<exists>e sid s peer p. hub_queues h' q = hub_queues h q @ [e] \<and> en_msg e = en_msg env \<and> en_sid e = Some sid \<and>
       map_of (hub_sessions h) sid = Some s \<and> (d, peer) \<in> {(se_controller s, se_host s), (se_host s, se_controller s)} \<and>
       map_of (hub_peers h) peer = Some p \<and> pe_tx p = q)"
proof -
  have h': "h' = snd (snd (ws_handle E env (c, h)))" using assms(1) by simp
  have fwd: "hub_queues (snd (ws_forward E d (en_sid env) (en_msg env) r (c, h))) q = hub_queues h q \<or>
      (\<exists>e. en_msg e = en_msg env \<and> routed h d q e \<and>
        hub_queues (snd (ws_forward E d (en_sid env) (en_msg env) r (c, h))) q = hub_queues h q @ [e])" for r
    using assms(2) by (rule ws_forward_queue)
  have "hub_queues h' q = hub_queues h q \<or>
    (\<exists>e. en_msg e = en_msg env \<and> routed h d q e \<and> hub_queues h' q = hub_queues h q @ [e])"
    unfolding h' using assms(2-4) fwd [of "Some (en_id env)"]
      connect_response_queue [OF assms(2), of E d _ "Some (en_id env)" h]
    by (cases "en_msg env") (simp_all add: ws_handle_def)
  then show ?thesis
  proof
    assume "\<exists>e. en_msg e = en_msg env \<and> routed h d q e \<and> hub_queues h' q = hub_queues h q @ [e]"
    then obtain e sid s peer p where "en_msg e = en_msg env" "hub_queues h' q = hub_queues h q @ [e]"
      "en_sid e = Some sid" "map_of (hub_sessions h) sid = Some s" "peer_of s d = Some peer"
      "map_of (hub_peers h) peer = Some p" "pe_tx p = q" unfolding routed_def by blast
    moreover from this(5) have "(d, peer) \<in> {(se_controller s, se_host s), (se_host s, se_controller s)}"
      by (auto simp: peer_of_def split: if_splits)
    ultimately show ?thesis by blast
  qed simp
qed

theorem session_messages_confined_witness:
  "let mk = (\<lambda>d q. \<lparr>pe_device_id = d, pe_pubkey = [], pe_role = RoleBoth, pe_caps = {}, pe_agent = None,
       pe_pop_rtt = [], pe_tx = q, pe_conn_id = q\<rparr>);
     a = DeviceId ''A''; b = DeviceId ''B'';
     h = registry_new\<lparr>hub_peers := [(a, mk a 1), (b, mk b 2)],
       hub_sessions := [(''s'', \<lparr>se_id = ''s'', se_controller = a, se_host = b, se_created_ms = 0\<rparr>)],
       hub_open := (\<lambda>_. True)\<rparr>;
     c = \<lparr>cn_challenge = challenge_issue [] 0, cn_limiter = limiter_new 9 9, cn_identity = Some (DeviceId ''X''),
       cn_conn_id = 3, cn_msg_counter = 0\<rparr>;
     env = envelope_new ''m'' 0 (Some ''s'') IceRestart
   in hub_queues (snd (snd (ws_handle toy_env env (c, h)))) 2 = []"
proof -
  define mk where "mk = (\<lambda>d q. \<lparr>pe_device_id = d, pe_pubkey = [], pe_role = RoleBoth, pe_caps = {}, pe_agent = None,
       pe_pop_rtt = [], pe_tx = q, pe_conn_id = q\<rparr>)"
  define h where "h = registry_new\<lparr>hub_peers := [(DeviceId ''A'', mk (DeviceId ''A'') 1), (DeviceId ''B'', mk (DeviceId ''B'') 2)],
       hub_sessions := [(''s'', \<lparr>se_id = ''s'', se_controller = DeviceId ''A'', se_host = DeviceId ''B'', se_created_ms = 0\<rparr>)],
       hub_open := (\<lambda>_. True)\<rparr>"
  define c where "c = \<lparr>cn_challenge = challenge_issue [] 0, cn_limiter = limiter_new 9 9, cn_identity = Some (DeviceId ''X''),
       cn_conn_id = 3, cn_msg_counter = 0\<rparr>"
  define env where "env = envelope_new ''m'' 0 (Some ''s'') IceRestart"
  obtain go c' h' where eq: "ws_handle toy_env env (c, h) = (go, c', h')" by (metis prod.collapse)
  have "2 \<noteq> cn_conn_id c" "cn_identity c = Some (DeviceId ''X'')" "\<forall>req. en_msg env \<noteq> MConnectRequest req"
    by (simp_all add: c_def env_def envelope_new_def)
  from session_messages_confined [OF eq this] have "hub_queues h' 2 = hub_queues h 2"
    by (auto simp: h_def registry_new_def split: if_splits)
  with eq show ?thesis unfolding Let_def mk_def [symmetric] h_def [symmetric] c_def [symmetric] env_def [symmetric]
    by (simp add: h_def registry_new_def)
qed

text \<open>C22. A dropped connection is cleaned up completely, and only the current one is: closing the
  connection a device is registered under removes the device and exactly the sessions it takes part in;
  closing one that has been replaced changes nothing.\<close>

theorem teardown_exact:
  assumes "reach (\<lambda>s. s = (registry_new, \<lambda>_. None)) (server_step P J) (h, cs)"
    and "cs i = Some c" "cn_identity c = Some d"
  shows "if (\<exists>p. map_of (hub_peers h) d = Some p \<and> pe_conn_id p = i)
    then map_of (hub_peers (teardown E c h)) d = None \<and>
      hub_sessions (teardown E c h) = filter (\<lambda>(_, s). \<not> (se_controller s = d \<or> se_host s = d)) (hub_sessions h)
    else teardown E c h = h"
proof -
  have inv: "hub_inv P h" "cn_conn_id c = i"
    using server.reach_inv [OF assms(1)] assms(2) by (auto simp: server_inv_def conn_ok_def)
  show ?thesis
    using teardown_current [OF inv(1) assms(3), of _ E] teardown_stale [OF assms(3), of h E] inv(2)
    by (auto simp: involves_def)
qed

theorem teardown_exact_witness:
  "\<exists>h c. cn_identity c = Some toy_id \<and> map_of (hub_peers h) toy_id \<noteq> None \<and>
     map_of (hub_peers (teardown toy_env c h)) toy_id = None"
proof -
  obtain h cs p c where t: "reach (\<lambda>s. s = (registry_new, \<lambda>_. None)) (server_step toy_primitives toy_json) (h, cs)"
    "map_of (hub_peers h) toy_id = Some p" "pe_conn_id p = 0" "cs 0 = Some c" "cn_identity c = Some toy_id"
    by (rule toy_registered)
  from teardown_exact [OF t(1,4,5), of toy_env] t(2,3,5) show ?thesis by (auto split: if_splits)
qed

text \<open>A registration challenge answers once: after any attempt that was not refused for its nonce, every
  further attempt on that challenge is refused; an attempt that succeeds was signed, over this nonce,
  this identifier and this role, by the key that derives the identifier.\<close>

theorem challenge_single_use:
  assumes "challenge_verify P reg now c = (r, c')" "r \<noteq> Inl BadNonce"
  shows "fst (challenge_verify P reg' now' c') = Inl BadNonce \<and>
    (case r of
       Inr pk \<Rightarrow> re_device_id reg = device_id_from_pubkey P pk \<and>
         (\<exists>sg. b64_decode P (re_sig reg) = Some sg \<and>
            verify_strict P pk (register_signing_input (cl_nonce c) (re_device_id reg) (re_role reg)) sg)
     | Inl e \<Rightarrow> e \<in> {BadPubkey, BadSignatureEncoding, BadRegSignature, RegIdMismatch})"
proof -
  have "fst (challenge_verify P reg' now' c') = Inl BadNonce"
    using challenge_verify_spends [of P reg' now' reg now c] assms by simp
  moreover have "case r of Inr pk \<Rightarrow> re_device_id reg = device_id_from_pubkey P pk \<and>
         (\<exists>sg. b64_decode P (re_sig reg) = Some sg \<and>
            verify_strict P pk (register_signing_input (cl_nonce c) (re_device_id reg) (re_role reg)) sg)
     | Inl e \<Rightarrow> e \<in> {BadPubkey, BadSignatureEncoding, BadRegSignature, RegIdMismatch}"
  proof (cases r)
    case (Inl e)
    with assms(2) show ?thesis by (cases e) auto
  next
    case (Inr pk)
    with challenge_verify_ok [of P reg now c pk c'] assms(1) show ?thesis by auto
  qed
  ultimately show ?thesis ..
qed

theorem challenge_single_use_witness:
  "let c = challenge_issue [1, 2] 0;
       reg = \<lparr>re_device_id = DeviceId ''X'', re_pubkey = ''k'', re_sig = ''s'', re_role = RoleHost, re_caps = {},
         re_agent = None, re_pop_rtt = []\<rparr>
   in fst (challenge_verify toy_primitives reg 1 (snd (challenge_verify toy_primitives reg 0 c))) = Inl BadNonce"
proof -
  let ?c = "challenge_issue [1, 2] 0"
  let ?reg = "\<lparr>re_device_id = DeviceId ''X'', re_pubkey = ''k'', re_sig = ''s'', re_role = RoleHost, re_caps = {},
         re_agent = None, re_pop_rtt = []\<rparr>"
  have "fst (challenge_verify toy_primitives ?reg 0 ?c) = Inl BadPubkey"
    by (simp add: challenge_verify_def challenge_issue_def decode_b64_array_def decode_b64_def toy_primitives_def
        NONCE_TTL_MS_def)
  then obtain c' where "challenge_verify toy_primitives ?reg 0 ?c = (Inl BadPubkey, c')"
    by (metis prod.collapse)
  from challenge_single_use [OF this, of ?reg 1] this show ?thesis by (simp add: Let_def)
qed

text \<open>Relay selection is a ranking: every point of presence is offered exactly once, ordered by the sum
  of both measured latencies and then by code, whatever the measurements; and the credentials name at
  most two relays beside the STUN servers and never live longer than an hour.\<close>

theorem relay_selection_ranks:
  "mset (rank_pops pops cr hr) = mset (map po_code pops) \<and>
   (\<exists>scored. sorted scored \<and> mset scored = mset (map (pop_score cr hr) pops) \<and> rank_pops pops cr hr = map snd scored) \<and>
   length (rc_ice_servers (build_relay_credentials T pops ranked secret sid now ttl)) \<le> 3 \<and>
   rc_ttl_s (build_relay_credentials T pops ranked secret sid now ttl) \<le> 3600"
proof -
  have "length (List.map_filter f (take MAX_RELAY_POPS ranked)) \<le> 2" for f :: "string \<Rightarrow> IceServer option"
    using length_map_filter_le [of f "take MAX_RELAY_POPS ranked"] by (simp add: MAX_RELAY_POPS_def)
  moreover have "\<exists>scored. sorted scored \<and> mset scored = mset (map (pop_score cr hr) pops) \<and> rank_pops pops cr hr = map snd scored"
    by (rule exI [of _ "sort (map (pop_score cr hr) pops)"]) (simp add: rank_pops_def)
  ultimately show ?thesis
    by (simp add: rank_pops_codes build_relay_credentials_def Let_def case_prod_beta)
qed

text \<open>The server's message budget is exact: within one window exactly the first \<open>limit\<close> messages of a
  connection pass, and of messages that arrive within one window length of each other at most twice the
  limit pass.\<close>

theorem limiter_budget:
  assumes "sorted_wrt (limiter_near l) ts" "unat (lm_count l) + length ts < 2 ^ 32"
  shows "passed (run_limiter limiter_allow l ts) \<le> 2 * unat (lm_limit l) \<and>
    (list_all (\<lambda>t. \<not> limiter_expired l t) ts \<longrightarrow>
       passed (run_limiter limiter_allow l ts) = min (length ts) (unat (lm_limit l) - unat (lm_count l)))"
  using limiter.burst_passed [OF assms] limiter.quiet_passed [of ts l] assms(2)
  by (auto simp: list_all_iff)

theorem limiter_budget_witness:
  "passed (run_limiter limiter_allow (limiter_new 2 100) [1, 50, 60, 99]) \<le> 4"
proof -
  have "sorted_wrt (limiter_near (limiter_new 2 100)) [1, 50, 60, 99]" by code_simp
  then show ?thesis
    using limiter_budget [of "limiter_new 2 100" "[1, 50, 60, 99]"] by (simp add: limiter_new_def)
qed

end
