(* ===== verification/Rda_Rate.thy ===== *)
theory Rda_Rate
  imports Rda_Telemetry
begin

text \<open>
  Adaptive bitrate control, \<^verbatim>\<open>rda-encode/src/rate.rs\<close>, with the recovery modes of \<^verbatim>\<open>encoder.rs\<close>: how a
  bandwidth estimate becomes encoder settings, and how recovery requests are answered.
\<close>

datatype RecoveryMode = Ltr u8 | Idr

definition VIDEO_SHARE :: f64 where "VIDEO_SHARE = f64_lit (85 / 100)"
definition RATE_MIN_BITRATE_BPS :: u32 where "RATE_MIN_BITRATE_BPS = 120000"
definition RATE_MAX_BITRATE_BPS :: u32 where "RATE_MAX_BITRATE_BPS = 25000000"
definition IDR_MIN_INTERVAL_MS :: u64 where "IDR_MIN_INTERVAL_MS = 1000"
definition IDR_BUDGET_MS :: u64 where "IDR_BUDGET_MS = 200"

record EncoderDirective =
  ed_bitrate_bps :: u32
  ed_fps :: u8
  ed_scale_pct :: u8
  ed_temporal_layers :: u8
  ed_qp_min :: u8
  ed_qp_max :: u8
  ed_stills_only :: bool
  ed_rung :: u8

definition scaled_side :: "u8 \<Rightarrow> u32 \<Rightarrow> u32" where
  "scaled_side pct native = max (ucast (ucast native * ucast pct div 100 :: u64) AND NOT 1) 16"

definition scaled_dimensions :: "EncoderDirective \<Rightarrow> u32 \<Rightarrow> u32 \<Rightarrow> u32 \<times> u32" where
  "scaled_dimensions d native_w native_h =
     (scaled_side (ed_scale_pct d) native_w, scaled_side (ed_scale_pct d) native_h)"

definition bits_per_frame :: "EncoderDirective \<Rightarrow> u32" where
  "bits_per_frame d = ed_bitrate_bps d div ucast (max (ed_fps d) 1)"

datatype KeyframeDecision = Recover RecoveryMode | FullIdr | Suppressed

record RateController =
  rc_ladder :: LadderController
  rc_last_idr_ms :: "u64 option"
  rc_idr_budget_until_ms :: u64
  rc_current :: EncoderDirective
  rc_acked_ltr :: "u8 option"
  rc_idr_count :: u64
  rc_ltr_recovery_count :: u64
  rc_suppressed_count :: u64

definition qp_range :: "u8 \<Rightarrow> u8 \<times> u8" where
  "qp_range rung =
     (if rung = 0 then (18, 40) else if rung = 1 then (24, 44) else if rung = 2 then (26, 46)
      else if rung = 3 then (28, 48) else if rung = 4 then (30, 49) else (32, 51))"

definition directive_for :: "LadderRung \<Rightarrow> u32 \<Rightarrow> f64 \<Rightarrow> EncoderDirective" where
  "directive_for rung bitrate_bps loss =
     (let (qp_min, qp_max) = qp_range (lr_rung rung) in
      \<lparr>ed_bitrate_bps = bitrate_bps, ed_fps = lr_fps rung, ed_scale_pct = lr_scale_pct rung,
       ed_temporal_layers = lr_temporal_layers rung, ed_qp_min = qp_min,
       ed_qp_max = (if loss > f64_lit (10 / 100) then 51 else qp_max),
       ed_stills_only = lr_stills_only rung, ed_rung = lr_rung rung\<rparr>)"

definition rate_controller_new :: RateController where
  "rate_controller_new =
     \<lparr>rc_ladder = ladder_controller_new, rc_last_idr_ms = None, rc_idr_budget_until_ms = 0,
      rc_current = directive_for (LADDER ! 0) 4000000 0, rc_acked_ltr = None, rc_idr_count = 0,
      rc_ltr_recovery_count = 0, rc_suppressed_count = 0\<rparr>"

definition rate_on_ltr_acked :: "u8 \<Rightarrow> RateController \<Rightarrow> RateController" where
  "rate_on_ltr_acked index c = c\<lparr>rc_acked_ltr := Some index\<rparr>"

text \<open>The budget of \<open>RateController::update\<close> before its clamp: the video share, net of the error
  correction, halved while an IDR is being absorbed.\<close>

definition video_budget :: "u32 \<Rightarrow> f64 \<Rightarrow> bool \<Rightarrow> u32" where
  "video_budget bwe_bps loss absorbing =
     (let budget = as_u32 (f64_mul (f64_of bwe_bps) VIDEO_SHARE);
          overhead = approximate_overhead (fec_schedule loss);
          budget = as_u32 (f64_div (f64_of budget) (f64_add 1 overhead))
      in if absorbing then budget div 2 else budget)"

definition rate_update :: "LinkTelemetry \<Rightarrow> u64 \<Rightarrow> RateController \<Rightarrow> EncoderDirective \<times> RateController" where
  "rate_update telemetry now_ms c =
     (let loss = loss_fraction (lt_loss telemetry);
          (rung, ladder) = ladder_update (lt_bwe_bps telemetry) loss now_ms (rc_ladder c);
          budget = video_budget (lt_bwe_bps telemetry) loss (now_ms < rc_idr_budget_until_ms c);
          d = directive_for rung (clamp RATE_MIN_BITRATE_BPS RATE_MAX_BITRATE_BPS budget) loss
      in (d, c\<lparr>rc_ladder := ladder, rc_current := d\<rparr>))"

text \<open>The part of \<open>on_recovery_request\<close> after the cheap repair: an IDR, at most once a second.\<close>

definition recovery_idr :: "u64 \<Rightarrow> RateController \<Rightarrow> KeyframeDecision \<times> RateController" where
  "recovery_idr now_ms c =
     (if (case rc_last_idr_ms c of None \<Rightarrow> False | Some prev \<Rightarrow> saturating_sub now_ms prev < IDR_MIN_INTERVAL_MS)
      then (Suppressed, c\<lparr>rc_suppressed_count := rc_suppressed_count c + 1\<rparr>)
      else (FullIdr, c\<lparr>rc_last_idr_ms := Some now_ms, rc_idr_budget_until_ms := now_ms + IDR_BUDGET_MS,
              rc_idr_count := rc_idr_count c + 1\<rparr>))"

definition rate_on_recovery_request :: "u8 option \<Rightarrow> u64 \<Rightarrow> RateController \<Rightarrow> KeyframeDecision \<times> RateController" where
  "rate_on_recovery_request receiver_ltr now_ms c =
     (case (receiver_ltr, rc_acked_ltr c) of
        (Some index, Some acked) \<Rightarrow>
          if index = acked
          then (Recover (Ltr index), c\<lparr>rc_ltr_recovery_count := rc_ltr_recovery_count c + 1\<rparr>)
          else recovery_idr now_ms c
      | _ \<Rightarrow> recovery_idr now_ms c)"

definition recovery_stats :: "RateController \<Rightarrow> u64 \<times> u64 \<times> u64" where
  "recovery_stats c = (rc_idr_count c, rc_ltr_recovery_count c, rc_suppressed_count c)"

subsection \<open>The budget\<close>

lemma f64_mul_le_left:
  assumes "0 \<le> x" "x \<le> 1"
  shows "as_u32 (f64_mul (f64_of (n :: u32)) x) \<le> n"
  unfolding f64_mul_def using mult_left_mono [OF assms(2) f64_of_nonneg [of n]] by (intro as_u32_round_le) simp

lemma f64_div_le_left:
  assumes "1 \<le> x"
  shows "as_u32 (f64_div (f64_of (n :: u32)) x) \<le> n"
proof -
  have "f64_of n / x \<le> f64_of n / 1" using assms f64_of_nonneg [of n] by (intro divide_left_mono) auto
  then show ?thesis unfolding f64_div_def by (intro as_u32_round_le) simp
qed

lemma f64_round_nonneg: "0 \<le> x \<Longrightarrow> 0 \<le> f64_round x"
  using f64_round_ge_int [of 0 x] by simp

lemma approximate_overhead_nonneg: "0 \<le> approximate_overhead s"
  by (simp add: approximate_overhead_def f64_div_def f64_add_def f64_mul_def f64_lit_def f64_round_nonneg f64_of_nonneg)

lemma video_budget_le: "video_budget bwe loss absorbing \<le> bwe"
proof -
  have share: "0 \<le> VIDEO_SHARE" "VIDEO_SHARE \<le> 1"
    using f64_round_ge_int [of 0 "85 / 100"] f64_round_le_int [of "85 / 100" 1]
    by (simp_all add: VIDEO_SHARE_def f64_lit_def)
  have "1 \<le> f64_add 1 (approximate_overhead (fec_schedule loss))"
    using f64_round_ge_int [of 1 "1 + approximate_overhead (fec_schedule loss)"] approximate_overhead_nonneg
    by (simp add: f64_add_def)
  note f64_div_le_left [OF this, of "as_u32 (f64_mul (f64_of bwe) VIDEO_SHARE)"] f64_mul_le_left [OF share, of bwe]
  then have le: "as_u32 (f64_div (f64_of (as_u32 (f64_mul (f64_of bwe) VIDEO_SHARE)))
      (f64_add 1 (approximate_overhead (fec_schedule loss)))) \<le> bwe" by (rule order_trans)
  moreover have "x div 2 \<le> x" for x :: u32 by (simp add: word_le_nat_alt unat_div)
  ultimately show ?thesis by (simp add: video_budget_def Let_def) (blast intro: order_trans)
qed

subsection \<open>Runs of recovery requests\<close>

text \<open>Acknowledgements and requests as they arrive; the run returns the decisions with their times.\<close>

datatype recovery_event = LtrAcked u8 | Request "u8 option" u64

fun recovery_run :: "RateController \<Rightarrow> recovery_event list \<Rightarrow> (KeyframeDecision \<times> u64) list \<times> RateController" where
  "recovery_run c [] = ([], c)"
| "recovery_run c (LtrAcked i # es) = recovery_run (rate_on_ltr_acked i c) es"
| "recovery_run c (Request l t # es) =
     (let (d, c') = rate_on_recovery_request l t c; (ds, c'') = recovery_run c' es in ((d, t) # ds, c''))"

definition idr_times :: "(KeyframeDecision \<times> u64) list \<Rightarrow> u64 list" where
  "idr_times ds = map snd (filter (\<lambda>(d, _). d = FullIdr) ds)"

fun spaced :: "u64 option \<Rightarrow> u64 list \<Rightarrow> bool" where
  "spaced prev [] = True"
| "spaced prev (t # ts) \<longleftrightarrow>
     (case prev of None \<Rightarrow> True | Some p \<Rightarrow> saturating_sub t p \<ge> IDR_MIN_INTERVAL_MS) \<and> spaced (Some t) ts"

lemma recovery_cases:
  obtains (cheap) i where "l = Some i" "rc_acked_ltr c = Some i"
      "rate_on_recovery_request l t c = (Recover (Ltr i), c\<lparr>rc_ltr_recovery_count := rc_ltr_recovery_count c + 1\<rparr>)"
  | (suppressed) prev where "rc_last_idr_ms c = Some prev" "saturating_sub t prev < IDR_MIN_INTERVAL_MS"
      "rate_on_recovery_request l t c = (Suppressed, c\<lparr>rc_suppressed_count := rc_suppressed_count c + 1\<rparr>)"
  | (idr) "case rc_last_idr_ms c of None \<Rightarrow> True | Some prev \<Rightarrow> saturating_sub t prev \<ge> IDR_MIN_INTERVAL_MS"
      "rate_on_recovery_request l t c = (FullIdr, c\<lparr>rc_last_idr_ms := Some t,
         rc_idr_budget_until_ms := t + IDR_BUDGET_MS, rc_idr_count := rc_idr_count c + 1\<rparr>)"
proof (cases "\<exists>i. l = Some i \<and> rc_acked_ltr c = Some i")
  case True
  then show thesis by (auto simp: rate_on_recovery_request_def intro: cheap)
next
  case False
  then have eq: "rate_on_recovery_request l t c = recovery_idr t c"
    by (auto simp: rate_on_recovery_request_def split: option.splits)
  show thesis
  proof (cases "case rc_last_idr_ms c of None \<Rightarrow> False | Some prev \<Rightarrow> saturating_sub t prev < IDR_MIN_INTERVAL_MS")
    case True
    then show thesis using eq by (auto simp: recovery_idr_def split: option.splits intro: suppressed)
  next
    case False
    then show thesis using eq by (intro idr) (auto simp: recovery_idr_def not_less split: option.splits)
  qed
qed

definition requests :: "recovery_event list \<Rightarrow> nat" where
  "requests es = length (filter (\<lambda>e. case e of LtrAcked _ \<Rightarrow> False | Request _ _ \<Rightarrow> True) es)"

definition answered :: "RateController \<Rightarrow> u64" where
  "answered c = rc_idr_count c + rc_ltr_recovery_count c + rc_suppressed_count c"

lemma recovery_run_spaced:
  "recovery_run c es = (ds, c') \<Longrightarrow>
     spaced (rc_last_idr_ms c) (idr_times ds) \<and> length ds = requests es \<and>
     answered c' = answered c + word_of_nat (requests es)"
proof (induction c es arbitrary: ds rule: recovery_run.induct)
  case (1 c)
  then show ?case by (simp add: idr_times_def requests_def)
next
  case (2 c i es)
  then show ?case by (simp add: rate_on_ltr_acked_def requests_def answered_def)
next
  case (3 c l t es)
  obtain d c1 where d: "rate_on_recovery_request l t c = (d, c1)" by fastforce
  with 3(2) obtain ds1 where run: "recovery_run c1 es = (ds1, c')" "ds = (d, t) # ds1"
    by (auto split: prod.splits)
  from 3(1) [OF d [symmetric] refl run(1)] d run(2) show ?case
    by (cases rule: recovery_cases [of l c t])
      (auto simp: idr_times_def requests_def answered_def split: option.splits)
qed

subsection \<open>Runs of the controller\<close>

inductive rate_step :: "RateController \<Rightarrow> RateController \<Rightarrow> bool" where
  "rate_step c (rate_on_ltr_acked i c)"
| "rate_step c (snd (rate_update telemetry now c))"
| "rate_step c (snd (rate_on_recovery_request l t c))"

definition rate_ok :: "RateController \<Rightarrow> bool" where
  "rate_ok c \<longleftrightarrow> lc_current (rc_ladder c) \<le> 7"

lemma ladder_advance_le: "lc_current c \<le> 7 \<Longrightarrow> t \<le> 7 \<Longrightarrow> lc_current (ladder_advance t now c) \<le> 7"
  by (auto simp: ladder_advance_def Let_def split: option.split)

lemma rate_update_ladder:
  "rc_ladder (snd (rate_update telemetry now c)) =
     ladder_advance (lr_rung (select_rung (lt_bwe_bps telemetry) (loss_fraction (lt_loss telemetry)))) now (rc_ladder c)"
  by (simp add: rate_update_def ladder_update_def Let_def)

lemma recovery_keeps_ladder: "rc_ladder (snd (rate_on_recovery_request l t c)) = rc_ladder c"
  by (cases rule: recovery_cases [of l c t]) simp_all

interpretation rate: inductive_invariant "\<lambda>c. c = rate_controller_new" rate_step rate_ok
proof unfold_locales
  show "rate_ok c" if "c = rate_controller_new" for c
    using that by (simp add: rate_ok_def rate_controller_new_def ladder_controller_new_def)
  show "rate_ok c'" if "rate_ok c" "rate_step c c'" for c c'
    using that(2,1) by cases
      (simp_all add: rate_ok_def rate_on_ltr_acked_def rate_update_ladder recovery_keeps_ladder
        ladder_advance_le select_rung_le)
qed

lemma rate_update_directive:
  assumes "rate_ok c"
  obtains r where "r \<in> set LADDER"
    "fst (rate_update telemetry now c) = directive_for r
       (clamp RATE_MIN_BITRATE_BPS RATE_MAX_BITRATE_BPS (video_budget (lt_bwe_bps telemetry)
          (loss_fraction (lt_loss telemetry)) (now < rc_idr_budget_until_ms c)))
       (loss_fraction (lt_loss telemetry))"
proof -
  let ?l = "ladder_advance (lr_rung (select_rung (lt_bwe_bps telemetry) (loss_fraction (lt_loss telemetry)))) now (rc_ladder c)"
  have "lc_current ?l \<le> 7" using assms by (simp add: rate_ok_def ladder_advance_le select_rung_le)
  then have "unat (lc_current ?l) < length LADDER" by (simp add: LADDER_def word_le_nat_alt)
  then have "ladder_current ?l \<in> set LADDER" unfolding ladder_current_def by (rule nth_mem)
  then show thesis by (rule that) (simp add: rate_update_def ladder_update_def Let_def)
qed

lemma directive_for_fields:
  "ed_bitrate_bps (directive_for r b l) = b" "ed_fps (directive_for r b l) = lr_fps r"
  "ed_scale_pct (directive_for r b l) = lr_scale_pct r" "ed_temporal_layers (directive_for r b l) = lr_temporal_layers r"
  by (simp_all add: directive_for_def split: prod.split)

subsection \<open>Properties\<close>

text \<open>The encoder never gets more than the link: whatever the loss and the error correction it calls
  for, the target bitrate that \<open>update\<close> sets is between 120 kbit/s and 25 Mbit/s and, for every estimate
  above that floor, no more than the bandwidth estimate itself. The directive's frame rate, scale and layers
  are those of one rung of the ladder.\<close>

theorem directive_within_link:
  assumes "reach (\<lambda>c. c = rate_controller_new) rate_step c" and "lt_bwe_bps telemetry \<ge> RATE_MIN_BITRATE_BPS"
  shows "RATE_MIN_BITRATE_BPS \<le> ed_bitrate_bps (fst (rate_update telemetry now c)) \<and>
    ed_bitrate_bps (fst (rate_update telemetry now c)) \<le> RATE_MAX_BITRATE_BPS \<and>
    ed_bitrate_bps (fst (rate_update telemetry now c)) \<le> lt_bwe_bps telemetry \<and>
    (ed_fps (fst (rate_update telemetry now c)), ed_scale_pct (fst (rate_update telemetry now c)),
     ed_temporal_layers (fst (rate_update telemetry now c)))
       \<in> (\<lambda>r. (lr_fps r, lr_scale_pct r, lr_temporal_layers r)) ` set LADDER"
proof -
  have "RATE_MIN_BITRATE_BPS \<le> RATE_MAX_BITRATE_BPS" by (simp add: RATE_MIN_BITRATE_BPS_def RATE_MAX_BITRATE_BPS_def)
  note bounds = clamp_bounds [OF this] clamp_le [OF assms(2) video_budget_le]
  obtain r where "r \<in> set LADDER" "fst (rate_update telemetry now c) = directive_for r
      (clamp RATE_MIN_BITRATE_BPS RATE_MAX_BITRATE_BPS (video_budget (lt_bwe_bps telemetry)
        (loss_fraction (lt_loss telemetry)) (now < rc_idr_budget_until_ms c))) (loss_fraction (lt_loss telemetry))"
    using rate_update_directive [OF rate.reach_inv [OF assms(1)]] by metis
  then show ?thesis by (simp add: directive_for_fields bounds)
qed

theorem directive_within_link_witness:
  "ed_bitrate_bps (fst (rate_update (link_telemetry_new\<lparr>lt_bwe_bps := 900000\<rparr>) 7 rate_controller_new)) \<le> 900000"
  using directive_within_link [OF reach_init [of "\<lambda>c. c = rate_controller_new" rate_controller_new rate_step],
      of "link_telemetry_new\<lparr>lt_bwe_bps := 900000\<rparr>" 7]
  by (simp add: RATE_MIN_BITRATE_BPS_def)

text \<open>Recovery requests cannot cause a storm of keyframes: over any sequence of requests and reference
  acknowledgements, two full IDRs are never answered less than a second apart, every request gets one answer,
  and the three counters add up to the number of requests.\<close>

theorem recovery_storm_limited:
  assumes "recovery_run rate_controller_new es = (ds, c)"
  shows "spaced None (idr_times ds) \<and> length ds = requests es \<and>
    rc_idr_count c + rc_ltr_recovery_count c + rc_suppressed_count c = word_of_nat (requests es)"
  using recovery_run_spaced [OF assms] by (simp add: rate_controller_new_def answered_def)

theorem recovery_storm_limited_witness:
  "idr_times (fst (recovery_run rate_controller_new [Request None 5, Request None 900, LtrAcked 2, Request (Some 2) 950,
     Request (Some 1) 1005])) = [5, 1005] \<and>
   spaced None (idr_times (fst (recovery_run rate_controller_new [Request None 5, Request None 900, LtrAcked 2,
     Request (Some 2) 950, Request (Some 1) 1005])))"
proof -
  let ?es = "[Request None 5, Request None 900, LtrAcked 2, Request (Some 2) 950, Request (Some 1) 1005]"
  have "idr_times (fst (recovery_run rate_controller_new ?es)) = [5, 1005]" by code_simp
  then show ?thesis
    using recovery_storm_limited [of ?es, OF prod.collapse [symmetric]] by simp
qed

end
