(* ===== verification/Rda_Capture.thy ===== *)
theory Rda_Capture
  imports Rda_Float
begin

text \<open>
  Captured frames (\<^verbatim>\<open>rda-capture/src/lib.rs\<close>) and the latest-frame-wins slot that hands them from the capture
  thread to the encoder (\<^verbatim>\<open>rda-capture/src/sink.rs\<close>). The slot is behind a mutex and the three counters are
  updated with relaxed atomics; \<open>publish\<close> and \<open>try_recv\<close> are the atomic steps of the model. Waking a waiting
  consumer is a matter of the runtime and left out. An instant in time is a number of milliseconds.
\<close>

record DisplayInfo =
  di_id :: u8
  di_native_id :: u64
  di_name :: string
  di_x :: int
  di_y :: int
  di_width :: u32
  di_height :: u32
  di_scale_permille :: u32
  di_primary :: bool

definition display_scale :: "DisplayInfo \<Rightarrow> f64" where
  "display_scale d = f64_div (f64_of (di_scale_permille d)) 1000"

definition logical_size :: "DisplayInfo \<Rightarrow> u32 \<times> u32" where
  "logical_size d =
     (let s = max (display_scale d) (f64_lit (1 / 100)) in
      (as_u32 (f64_nearest (f64_div (f64_of (di_width d)) s)), as_u32 (f64_nearest (f64_div (f64_of (di_height d)) s))))"

definition display_geometry :: "DisplayInfo \<Rightarrow> u8 \<times> int \<times> int \<times> u32 \<times> u32" where
  "display_geometry d = (let (w, h) = logical_size d in (di_id d, di_x d, di_y d, w, h))"

record Rect =
  rect_x :: u32
  rect_y :: u32
  rect_width :: u32
  rect_height :: u32

definition rect_area :: "Rect \<Rightarrow> u64" where
  "rect_area r = ucast (rect_width r) * ucast (rect_height r)"

definition rect_is_empty :: "Rect \<Rightarrow> bool" where
  "rect_is_empty r \<longleftrightarrow> rect_width r = 0 \<or> rect_height r = 0"

datatype DirtyRegion = Full | Rects "Rect list" | Unchanged

fun has_changes :: "DirtyRegion \<Rightarrow> bool" where
  "has_changes Full = True"
| "has_changes (Rects r) = list_ex (\<lambda>r. \<not> rect_is_empty r) r"
| "has_changes Unchanged = False"

fun changed_pixels :: "DirtyRegion \<Rightarrow> DisplayInfo \<Rightarrow> u64" where
  "changed_pixels Full d = ucast (di_width d) * ucast (di_height d)"
| "changed_pixels (Rects rects) d = sum_list (map rect_area rects)"
| "changed_pixels Unchanged d = 0"

definition should_promote_to_full :: "DirtyRegion \<Rightarrow> DisplayInfo \<Rightarrow> bool" where
  "should_promote_to_full r d \<longleftrightarrow>
     (let total = ucast (di_width d) * ucast (di_height d)
      in total > 0 \<and> changed_pixels r d * 100 div total > 60)"

datatype PixelFormat = Bgra8 | Rgba8 | Nv12Pixels

definition bytes_per_pixel :: "PixelFormat \<Rightarrow> nat option" where
  "bytes_per_pixel f = (case f of Bgra8 \<Rightarrow> Some 4 | Rgba8 \<Rightarrow> Some 4 | Nv12Pixels \<Rightarrow> None)"

datatype Surface =
    Cpu "u8 list" nat PixelFormat     \<comment> \<open>data, stride, format\<close>
  | IoSurface u32                     \<comment> \<open>opaque identifier; macOS only\<close>

definition is_zero_copy :: "Surface \<Rightarrow> bool" where
  "is_zero_copy s = (case s of Cpu _ _ _ \<Rightarrow> False | IoSurface _ \<Rightarrow> True)"

record Frame =
  fr_surface :: Surface
  fr_display_id :: u8
  fr_width :: u32
  fr_height :: u32
  fr_captured_at :: u64
  fr_dirty :: DirtyRegion
  fr_sequence :: u64

definition age_ms :: "Frame \<Rightarrow> u64 \<Rightarrow> u64" where
  "age_ms f now = saturating_sub now (fr_captured_at f)"

definition is_worth_encoding :: "Frame \<Rightarrow> bool" where
  "is_worth_encoding f = has_changes (fr_dirty f)"

record CaptureConfig =
  cc_target_fps :: u32
  cc_track_damage :: bool
  cc_include_cursor :: bool

definition capture_config_default :: CaptureConfig where
  "capture_config_default = \<lparr>cc_target_fps = 60, cc_track_damage = True, cc_include_cursor = False\<rparr>"

datatype CaptureError =
  PermissionDenied string | UnknownDisplay u8 | SessionLost string | Timeout | Unavailable string | Unsupported

fun capture_is_recoverable :: "CaptureError \<Rightarrow> bool" where
  "capture_is_recoverable (SessionLost _) = True"
| "capture_is_recoverable Timeout = True"
| "capture_is_recoverable _ = False"

subsection \<open>The frame slot\<close>

record SinkStats =
  ss_produced :: u64
  ss_consumed :: u64
  ss_dropped :: u64

record Sink =
  sink_slot :: "Frame option"
  sink_stats :: SinkStats

definition sink_channel :: Sink where
  "sink_channel = \<lparr>sink_slot = None, sink_stats = \<lparr>ss_produced = 0, ss_consumed = 0, ss_dropped = 0\<rparr>\<rparr>"

definition publish :: "Frame \<Rightarrow> Sink \<Rightarrow> Sink" where
  "publish frame s =
     (let s = s\<lparr>sink_stats := (sink_stats s)\<lparr>ss_produced := ss_produced (sink_stats s) + 1\<rparr>\<rparr>;
          s' = s\<lparr>sink_slot := Some frame\<rparr>
      in if sink_slot s \<noteq> None
         then s'\<lparr>sink_stats := (sink_stats s')\<lparr>ss_dropped := ss_dropped (sink_stats s') + 1\<rparr>\<rparr>
         else s')"

definition try_recv :: "Sink \<Rightarrow> Frame option \<times> Sink" where
  "try_recv s =
     (case sink_slot s of
        None \<Rightarrow> (None, s)
      | Some frame \<Rightarrow> (Some frame, s\<lparr>sink_slot := None,
          sink_stats := (sink_stats s)\<lparr>ss_consumed := ss_consumed (sink_stats s) + 1\<rparr>\<rparr>))"

subsection \<open>Runs of the slot\<close>

text \<open>Any interleaving of the two threads, with the frames published and received.\<close>

datatype sink_op = Publish Frame | Recv

fun sink_run :: "Sink \<Rightarrow> sink_op list \<Rightarrow> Frame list \<times> Sink" where
  "sink_run s [] = ([], s)"
| "sink_run s (Publish f # os) = sink_run (publish f s) os"
| "sink_run s (Recv # os) =
     (let (r, s') = try_recv s; (fs, s'') = sink_run s' os
      in ((case r of None \<Rightarrow> fs | Some f \<Rightarrow> f # fs), s''))"

text \<open>The specification: a receive gets the last frame published since the last receive that got one.\<close>

fun latest_wins :: "Frame option \<Rightarrow> sink_op list \<Rightarrow> Frame list" where
  "latest_wins p [] = []"
| "latest_wins p (Publish f # os) = latest_wins (Some f) os"
| "latest_wins None (Recv # os) = latest_wins None os"
| "latest_wins (Some f) (Recv # os) = f # latest_wins None os"

lemma sink_run_latest: "fst (sink_run s os) = latest_wins (sink_slot s) os"
proof (induction os arbitrary: s)
  case (Cons op os)
  show ?case
  proof (cases op)
    case (Publish f)
    have "sink_slot (publish f s) = Some f" by (simp add: publish_def Let_def)
    with Publish Cons show ?thesis by simp
  next
    case Recv
    show ?thesis
    proof (cases "sink_slot s")
      case None
      with Recv Cons [of s] show ?thesis by (simp add: try_recv_def case_prod_beta)
    next
      case (Some f)
      let ?s = "s\<lparr>sink_slot := None,
        sink_stats := (sink_stats s)\<lparr>ss_consumed := ss_consumed (sink_stats s) + 1\<rparr>\<rparr>"
      from Some Recv Cons [of ?s] show ?thesis by (simp add: try_recv_def case_prod_beta)
    qed
  qed
qed simp

definition sink_balanced :: "Sink \<Rightarrow> bool" where
  "sink_balanced s \<longleftrightarrow>
     ss_produced (sink_stats s) = ss_consumed (sink_stats s) + ss_dropped (sink_stats s) +
       (if sink_slot s = None then 0 else 1)"

lemma sink_balanced_step:
  "sink_balanced s \<Longrightarrow> sink_balanced (publish f s)"
  "sink_balanced s \<Longrightarrow> sink_balanced (snd (try_recv s))"
  by (auto simp: sink_balanced_def publish_def try_recv_def Let_def split: option.split)

lemma sink_run_balanced: "sink_balanced s \<Longrightarrow> sink_balanced (snd (sink_run s os))"
proof (induction s os rule: sink_run.induct)
  case (3 s os)
  obtain r s' where r: "try_recv s = (r, s')" by fastforce
  with sink_balanced_step(2) [OF 3(2)] have "sink_balanced s'" by simp
  with 3(1) r show ?case by (simp split: prod.split) (metis snd_conv)
qed (simp_all add: sink_balanced_step)

text \<open>The frame slot is a latest-frame-wins channel: over every interleaving of publishing and receiving,
  the consumer gets exactly what the specification prescribes, never a frame older than one waiting and
  never a frame twice, and every frame produced is counted as consumed, as dropped, or is the one waiting.\<close>

theorem sink_latest_wins:
  "fst (sink_run sink_channel os) = latest_wins None os \<and>
   (let s = snd (sink_run sink_channel os) in
    ss_produced (sink_stats s) = ss_consumed (sink_stats s) + ss_dropped (sink_stats s) +
      (if sink_slot s = None then 0 else 1))"
proof -
  have "sink_balanced sink_channel" by (simp add: sink_balanced_def sink_channel_def)
  from sink_run_balanced [OF this, of os] show ?thesis
    by (simp add: sink_run_latest sink_balanced_def Let_def) (simp add: sink_channel_def)
qed

end
