(* ===== verification/Rda_Convert.thy ===== *)
theory Rda_Convert
  imports Rda_Capture
begin

text \<open>
  Colour conversion and scaling, \<^verbatim>\<open>rda-encode/src/convert.rs\<close>: BGRA pixels to planar luma and chroma in
  fixed-point arithmetic, and the box filter that scales a picture down. The \<open>i32\<close> arithmetic is over \<open>int\<close>:
  with coefficients below \<open>2^16\<close> and samples below \<open>2^8\<close> it stays far inside 32 bits. A read outside a buffer,
  which panics, is \<open>None\<close>; sizes and offsets are \<open>nat\<close>.
\<close>

datatype ColorMatrix = Bt709 | Bt601
datatype ColorRange = FullRange | Limited
datatype ChromaFilter = Box | Nearest

record ConvertConfig =
  cv_matrix :: ColorMatrix
  cv_range :: ColorRange
  cv_chroma :: ChromaFilter

definition convert_config_default :: ConvertConfig where
  "convert_config_default = \<lparr>cv_matrix = Bt709, cv_range = FullRange, cv_chroma = Box\<rparr>"

datatype ConvertError =
    BadDimensions u32 u32         \<comment> \<open>width, height\<close>
  | SourceTooSmall nat nat        \<comment> \<open>need, got\<close>
  | BadStride nat u32             \<comment> \<open>stride, width\<close>
  | UnsupportedFormat PixelFormat

definition pixel_format_text :: "PixelFormat \<Rightarrow> string" where
  "pixel_format_text f = (case f of Bgra8 \<Rightarrow> ''Bgra8'' | Rgba8 \<Rightarrow> ''Rgba8'' | Nv12Pixels \<Rightarrow> ''Nv12'')"

definition convert_error_text :: "ConvertError \<Rightarrow> string" where
  "convert_error_text e =
     (case e of
        BadDimensions w h \<Rightarrow> ''invalid dimensions '' @ decimal (unat w) @ ''x'' @ decimal (unat h)
      | SourceTooSmall need got \<Rightarrow> ''source buffer is '' @ decimal got @ '' bytes, need at least '' @ decimal need
      | BadStride stride w \<Rightarrow> ''stride '' @ decimal stride @ '' is smaller than one row of '' @ decimal (unat w) @ '' pixels''
      | UnsupportedFormat f \<Rightarrow> ''unsupported source format '' @ pixel_format_text f)"

datatype PlanarFormat = Nv12 | I420

definition div_ceil :: "nat \<Rightarrow> nat \<Rightarrow> nat" where
  "div_ceil a b = (a + b - 1) div b"

definition buffer_size :: "PlanarFormat \<Rightarrow> u32 \<Rightarrow> u32 \<Rightarrow> nat" where
  "buffer_size f width height =
     unat width * unat height + div_ceil (unat width) 2 * div_ceil (unat height) 2 * 2"

record PlanarFrame =
  pf_data :: "u8 list"
  pf_width :: u32
  pf_height :: u32
  pf_format :: PlanarFormat
  pf_luma_stride :: nat
  pf_chroma_stride :: nat
  pf_config :: ConvertConfig

definition planar_luma :: "PlanarFrame \<Rightarrow> u8 list" where
  "planar_luma f = take (unat (pf_width f) * unat (pf_height f)) (pf_data f)"

definition planar_chroma :: "PlanarFrame \<Rightarrow> u8 list" where
  "planar_chroma f = drop (unat (pf_width f) * unat (pf_height f)) (pf_data f)"

subsection \<open>Fixed-point conversion of one pixel\<close>

definition SHIFT :: nat where "SHIFT = 16"
definition ROUND :: int where "ROUND = 2 ^ (SHIFT - 1)"

record Coefficients =
  co_yr :: int
  co_yg :: int
  co_yb :: int
  co_cb :: int
  co_cr :: int

definition BT709 :: Coefficients where
  "BT709 = \<lparr>co_yr = 13933, co_yg = 46871, co_yb = 4732, co_cb = 35318, co_cr = 41615\<rparr>"

definition BT601 :: Coefficients where
  "BT601 = \<lparr>co_yr = 19595, co_yg = 38470, co_yb = 7471, co_cb = 36985, co_cr = 46743\<rparr>"

definition coefficients :: "ColorMatrix \<Rightarrow> Coefficients" where
  "coefficients m = (case m of Bt709 \<Rightarrow> BT709 | Bt601 \<Rightarrow> BT601)"

text \<open>\<open>/\<close> on \<open>i32\<close> with a positive divisor: towards zero.\<close>

definition rust_div :: "int \<Rightarrow> int \<Rightarrow> int" where
  "rust_div a b = (if 0 \<le> a then a div b else - (- a div b))"

definition clamp_u8 :: "int \<Rightarrow> int \<Rightarrow> int \<Rightarrow> u8" where
  "clamp_u8 lo hi x = word_of_int (min (max x lo) hi)"

definition luma_sum :: "Coefficients \<Rightarrow> int \<Rightarrow> int \<Rightarrow> int \<Rightarrow> int" where
  "luma_sum c r g b = (co_yr c * r + co_yg c * g + co_yb c * b + ROUND) div 2 ^ SHIFT"

definition luma :: "Coefficients \<Rightarrow> ColorRange \<Rightarrow> int \<Rightarrow> int \<Rightarrow> int \<Rightarrow> u8" where
  "luma c rng r g b =
     (let y = luma_sum c r g b in
      case rng of
        FullRange \<Rightarrow> clamp_u8 0 255 y
      | Limited \<Rightarrow> clamp_u8 16 235 (16 + rust_div (y * 219 + 127) 255))"

definition chroma :: "Coefficients \<Rightarrow> ColorRange \<Rightarrow> int \<Rightarrow> int \<Rightarrow> int \<Rightarrow> u8 \<times> u8" where
  "chroma c rng r g b =
     (let y = luma_sum c r g b;
          cb = (co_cb c * (b - y) + ROUND) div 2 ^ SHIFT + 128;
          cr = (co_cr c * (r - y) + ROUND) div 2 ^ SHIFT + 128
      in case rng of
           FullRange \<Rightarrow> (clamp_u8 0 255 cb, clamp_u8 0 255 cr)
         | Limited \<Rightarrow> (clamp_u8 16 240 (128 + rust_div ((cb - 128) * 224 + 127) 255),
                       clamp_u8 16 240 (128 + rust_div ((cr - 128) * 224 + 127) 255)))"

subsection \<open>Conversion of a picture\<close>

definition validate :: "u8 list \<Rightarrow> u32 \<Rightarrow> u32 \<Rightarrow> nat \<Rightarrow> ConvertError + unit" where
  "validate src width height stride =
     (if width = 0 \<or> height = 0 \<or> width > 16384 \<or> height > 16384 then Inl (BadDimensions width height)
      else
        let min_stride = unat width * 4 in
        if stride < min_stride then Inl (BadStride stride width)
        else
          let need = stride * (unat height - 1) + min_stride in
          if length src < need then Inl (SourceTooSmall need (length src)) else Inr ())"

type_synonym rgb = "int \<times> int \<times> int"

definition pixel_at :: "u8 list \<Rightarrow> nat \<Rightarrow> rgb" where
  "pixel_at src i = (uint (src ! (i + 2)), uint (src ! (i + 1)), uint (src ! i))"

definition sample_pixel :: "u8 list \<Rightarrow> nat \<Rightarrow> nat \<Rightarrow> nat \<Rightarrow> rgb option" where
  "sample_pixel src stride x y =
     (let i = y * stride + x * 4 in if i + 2 < length src then Some (pixel_at src i) else None)"

definition average_block :: "u8 list \<Rightarrow> nat \<Rightarrow> nat \<Rightarrow> nat \<Rightarrow> nat \<Rightarrow> nat \<Rightarrow> rgb option" where
  "average_block src stride width height x y =
     (let x1 = min (x + 1) (width - 1); y1 = min (y + 1) (height - 1) in
      map_option (\<lambda>ps.
          (rust_div (sum_list (map (\<lambda>(r, _, _). r) ps) + 2) 4,
           rust_div (sum_list (map (\<lambda>(_, g, _). g) ps) + 2) 4,
           rust_div (sum_list (map (\<lambda>(_, _, b). b) ps) + 2) 4))
        (those (map (\<lambda>(px, py). sample_pixel src stride px py) [(x, y), (x1, y), (x, y1), (x1, y1)])))"

definition luma_row :: "Coefficients \<Rightarrow> ColorRange \<Rightarrow> u8 list \<Rightarrow> nat \<Rightarrow> nat \<Rightarrow> nat \<Rightarrow> u8 list option" where
  "luma_row c rng src stride w y =
     (if y * stride + w * 4 \<le> length src
      then Some (map (\<lambda>x. let (r, g, b) = pixel_at src (y * stride + x * 4) in luma c rng r g b) [0..<w])
      else None)"

definition chroma_sample ::
  "Coefficients \<Rightarrow> ConvertConfig \<Rightarrow> u8 list \<Rightarrow> nat \<Rightarrow> nat \<Rightarrow> nat \<Rightarrow> nat \<times> nat \<Rightarrow> (u8 \<times> u8) option" where
  "chroma_sample c config src stride w h = (\<lambda>(cy, cx).
     map_option (\<lambda>(r, g, b). chroma c (cv_range config) r g b)
       (case cv_chroma config of
          Nearest \<Rightarrow> sample_pixel src stride (cx * 2) (cy * 2)
        | Box \<Rightarrow> average_block src stride w h (cx * 2) (cy * 2)))"

definition chroma_plane :: "PlanarFormat \<Rightarrow> (u8 \<times> u8) list \<Rightarrow> u8 list" where
  "chroma_plane f cs =
     (case f of Nv12 \<Rightarrow> concat (map (\<lambda>(cb, cr). [cb, cr]) cs) | I420 \<Rightarrow> map fst cs @ map snd cs)"

definition bgra_to_planar ::
  "u8 list \<Rightarrow> u32 \<Rightarrow> u32 \<Rightarrow> nat \<Rightarrow> PlanarFormat \<Rightarrow> ConvertConfig \<Rightarrow> (ConvertError + PlanarFrame) option" where
  "bgra_to_planar src width height stride fmt config =
     (case validate src width height stride of
        Inl e \<Rightarrow> Some (Inl e)
      | Inr _ \<Rightarrow>
          let c = coefficients (cv_matrix config); w = unat width; h = unat height;
              chroma_w = div_ceil w 2; chroma_h = div_ceil h 2
          in case (those (map (luma_row c (cv_range config) src stride w) [0..<h]),
                   those (map (chroma_sample c config src stride w h) (List.product [0..<chroma_h] [0..<chroma_w])))
             of (Some rows, Some cs) \<Rightarrow>
                  Some (Inr \<lparr>pf_data = concat rows @ chroma_plane fmt cs, pf_width = width, pf_height = height,
                    pf_format = fmt, pf_luma_stride = w,
                    pf_chroma_stride = (case fmt of Nv12 \<Rightarrow> chroma_w * 2 | I420 \<Rightarrow> chroma_w), pf_config = config\<rparr>)
              | _ \<Rightarrow> None)"

subsection \<open>Scaling\<close>

definition span :: "nat \<Rightarrow> nat \<Rightarrow> nat \<Rightarrow> nat list" where
  "span d s n =
     (let lo = d * s div n; hi = max (min (div_ceil ((d + 1) * s) n) s) (lo + 1) in [lo..<hi])"

definition block_offsets :: "u8 list \<Rightarrow> nat \<Rightarrow> nat list \<Rightarrow> nat list \<Rightarrow> nat list" where
  "block_offsets src stride ys xs =
     filter (\<lambda>i. i + 3 < length src) (map (\<lambda>(sy, sx). sy * stride + sx * 4) (List.product ys xs))"

definition channel_mean :: "u8 list \<Rightarrow> nat list \<Rightarrow> nat \<Rightarrow> u8" where
  "channel_mean src offsets k =
     ucast (sum_list (map (\<lambda>i. ucast (src ! (i + k)) :: u32) offsets) div word_of_nat (length offsets))"

definition scale_pixel :: "u8 list \<Rightarrow> nat \<Rightarrow> nat \<Rightarrow> nat \<Rightarrow> nat \<Rightarrow> nat \<Rightarrow> nat \<times> nat \<Rightarrow> u8 list" where
  "scale_pixel src sw sh stride dw dh = (\<lambda>(dy, dx).
     let offsets = block_offsets src stride (span dy sh dh) (span dx sw dw) in
     if word_of_nat (length offsets) = (0 :: u32) then [0, 0, 0, 0] else map (channel_mean src offsets) [0, 1, 2, 3])"

definition scale_bgra :: "u8 list \<Rightarrow> u32 \<Rightarrow> u32 \<Rightarrow> nat \<Rightarrow> u32 \<Rightarrow> u32 \<Rightarrow> u8 list" where
  "scale_bgra src src_w src_h src_stride dst_w dst_h =
     concat (map (scale_pixel src (unat src_w) (unat src_h) src_stride (unat dst_w) (unat dst_h))
       (List.product [0..<unat dst_h] [0..<unat dst_w]))"

definition convert_surface ::
  "Surface \<Rightarrow> u32 \<Rightarrow> u32 \<Rightarrow> PlanarFormat \<Rightarrow> ConvertConfig \<Rightarrow> (ConvertError + PlanarFrame) option" where
  "convert_surface surface width height fmt config =
     (case surface of
        Cpu data stride src_format \<Rightarrow>
          if src_format = Bgra8 then bgra_to_planar data width height stride fmt config
          else Some (Inl (UnsupportedFormat src_format))
      | IoSurface _ \<Rightarrow> Some (Inl (UnsupportedFormat Nv12Pixels)))"

definition convert_surface_scaled ::
  "Surface \<Rightarrow> u32 \<Rightarrow> u32 \<Rightarrow> u32 \<Rightarrow> u32 \<Rightarrow> PlanarFormat \<Rightarrow> ConvertConfig \<Rightarrow> (ConvertError + PlanarFrame) option" where
  "convert_surface_scaled surface src_width src_height dst_width dst_height fmt config =
     (if (src_width, src_height) = (dst_width, dst_height)
      then convert_surface surface dst_width dst_height fmt config
      else
        case surface of
          Cpu data stride src_format \<Rightarrow>
            if src_format = Bgra8
            then bgra_to_planar (scale_bgra data src_width src_height stride dst_width dst_height)
                   dst_width dst_height (unat dst_width * 4) fmt config
            else Some (Inl (UnsupportedFormat src_format))
        | IoSurface _ \<Rightarrow> Some (Inl (UnsupportedFormat Nv12Pixels)))"

subsection \<open>Bounds\<close>

lemma those_Some: "(\<And>x. x \<in> set xs \<Longrightarrow> f x = Some (g x)) \<Longrightarrow> those (map f xs) = Some (map g xs)"
  by (induction xs) auto

text \<open>A pixel inside the picture is inside the buffer.\<close>

lemma row_end:
  fixes n :: nat
  assumes "stride * (h - 1) + w * 4 \<le> n" "y < h"
  shows "y * stride + w * 4 \<le> n"
proof -
  have "stride * y \<le> stride * (h - 1)" using assms(2) by (intro mult_le_mono2) simp
  with assms(1) show ?thesis unfolding mult.commute [of y] by linarith
qed

lemma pixel_offset:
  fixes n :: nat
  assumes "stride * (h - 1) + w * 4 \<le> n" "x < w" "y < h"
  shows "y * stride + x * 4 + 4 \<le> n"
  using row_end [OF assms(1,3)] assms(2) by linarith

definition fits :: "u8 list \<Rightarrow> nat \<Rightarrow> nat \<Rightarrow> nat \<Rightarrow> bool" where
  "fits src w h stride \<longleftrightarrow> 0 < w \<and> 0 < h \<and> stride * (h - 1) + w * 4 \<le> length src"

lemma validate_fits:
  "validate src width height stride = Inr () \<Longrightarrow> fits src (unat width) (unat height) stride"
  by (auto simp: validate_def fits_def Let_def unat_gt_0 split: if_splits)

lemma sample_pixel_in:
  "fits src w h stride \<Longrightarrow> x < w \<Longrightarrow> y < h \<Longrightarrow>
     sample_pixel src stride x y = Some (pixel_at src (y * stride + x * 4))"
  using pixel_offset [of stride h w "length src" x y] by (simp add: sample_pixel_def fits_def Let_def)

lemma half_less: "c < div_ceil w 2 \<Longrightarrow> c * 2 < w"
  by (simp add: div_ceil_def)

lemma chroma_index:
  assumes "p \<in> set (List.product [0..<div_ceil h 2] [0..<div_ceil w 2])"
  obtains cy cx where "p = (cy, cx)" "cx * 2 < w" "cy * 2 < h"
  using assms that by (auto simp: half_less)

definition block_mean :: "u8 list \<Rightarrow> nat \<Rightarrow> nat \<Rightarrow> nat \<Rightarrow> nat \<Rightarrow> nat \<Rightarrow> rgb" where
  "block_mean src stride w h x y =
     (let x1 = min (x + 1) (w - 1); y1 = min (y + 1) (h - 1);
          ps = map (\<lambda>(px, py). pixel_at src (py * stride + px * 4)) [(x, y), (x1, y), (x, y1), (x1, y1)]
      in (rust_div (sum_list (map (\<lambda>(r, _, _). r) ps) + 2) 4,
          rust_div (sum_list (map (\<lambda>(_, g, _). g) ps) + 2) 4,
          rust_div (sum_list (map (\<lambda>(_, _, b). b) ps) + 2) 4))"

lemma average_block_in:
  assumes "fits src w h stride" "x < w" "y < h"
  shows "average_block src stride w h x y = Some (block_mean src stride w h x y)"
proof -
  have "min (x + 1) (w - 1) < w" "min (y + 1) (h - 1) < h" using assms by auto
  with assms have "those (map (\<lambda>(px, py). sample_pixel src stride px py)
      [(x, y), (min (x + 1) (w - 1), y), (x, min (y + 1) (h - 1)), (min (x + 1) (w - 1), min (y + 1) (h - 1))]) =
    Some (map (\<lambda>(px, py). pixel_at src (py * stride + px * 4))
      [(x, y), (min (x + 1) (w - 1), y), (x, min (y + 1) (h - 1)), (min (x + 1) (w - 1), min (y + 1) (h - 1))])"
    by (intro those_Some) (auto simp: sample_pixel_in)
  then show ?thesis by (simp only: average_block_def block_mean_def Let_def option.map)
qed

definition chroma_rgb :: "ConvertConfig \<Rightarrow> u8 list \<Rightarrow> nat \<Rightarrow> nat \<Rightarrow> nat \<Rightarrow> nat \<times> nat \<Rightarrow> rgb" where
  "chroma_rgb config src stride w h = (\<lambda>(cy, cx).
     case cv_chroma config of
       Nearest \<Rightarrow> pixel_at src (cy * 2 * stride + cx * 2 * 4)
     | Box \<Rightarrow> block_mean src stride w h (cx * 2) (cy * 2))"

lemma chroma_sample_in:
  assumes "fits src w h stride" "p \<in> set (List.product [0..<div_ceil h 2] [0..<div_ceil w 2])"
  shows "chroma_sample c config src stride w h p =
    Some (case chroma_rgb config src stride w h p of (r, g, b) \<Rightarrow> chroma c (cv_range config) r g b)"
proof -
  obtain cy cx where p: "p = (cy, cx)" "cx * 2 < w" "cy * 2 < h"
    using assms(2) by (rule chroma_index)
  then show ?thesis
    using sample_pixel_in [OF assms(1) p(2,3)] average_block_in [OF assms(1) p(2,3)]
    by (cases "cv_chroma config") (simp_all add: chroma_sample_def chroma_rgb_def split: prod.split)
qed

text \<open>What the conversion computes on a buffer that fits.\<close>

lemma bgra_to_planar_valid:
  fixes config :: ConvertConfig
  assumes "validate src width height stride = Inr ()"
  defines "w \<equiv> unat width" and "h \<equiv> unat height" and "c \<equiv> coefficients (cv_matrix config)"
  shows "bgra_to_planar src width height stride fmt config =
    Some (Inr \<lparr>pf_data =
        concat (map (\<lambda>y. map (\<lambda>x. let (r, g, b) = pixel_at src (y * stride + x * 4) in luma c (cv_range config) r g b)
          [0..<w]) [0..<h]) @
        chroma_plane fmt (map (\<lambda>p. case chroma_rgb config src stride w h p of
            (r, g, b) \<Rightarrow> chroma c (cv_range config) r g b) (List.product [0..<div_ceil h 2] [0..<div_ceil w 2])),
      pf_width = width, pf_height = height, pf_format = fmt, pf_luma_stride = w,
      pf_chroma_stride = (case fmt of Nv12 \<Rightarrow> div_ceil w 2 * 2 | I420 \<Rightarrow> div_ceil w 2), pf_config = config\<rparr>)"
proof -
  have fit: "fits src w h stride" unfolding w_def h_def using assms(1) by (rule validate_fits)
  have "those (map (luma_row c (cv_range config) src stride w) [0..<h]) =
      Some (map (\<lambda>y. map (\<lambda>x. let (r, g, b) = pixel_at src (y * stride + x * 4) in luma c (cv_range config) r g b)
        [0..<w]) [0..<h])"
    using fit row_end [of stride h w "length src"] by (intro those_Some) (simp add: luma_row_def fits_def)
  moreover note those_Some [of "List.product [0..<div_ceil h 2] [0..<div_ceil w 2]", OF chroma_sample_in [OF fit]]
  ultimately show ?thesis
    using assms(1) by (simp only: bgra_to_planar_def Let_def sum.case option.case prod.case w_def h_def c_def)
qed

lemma length_rows: "length (concat (map (\<lambda>y. map (f y) [0..<w]) [0..<h])) = w * h"
  by (simp add: length_concat comp_def sum_list_triv mult.commute)

lemma length_chroma_plane: "length (chroma_plane fmt cs) = length cs * 2"
proof -
  have "length (concat (map (\<lambda>(cb, cr). [cb, cr]) cs)) = length cs * 2" by (induction cs) auto
  then show ?thesis by (cases fmt) (simp_all add: chroma_plane_def)
qed

lemma nth_rows: "x < w \<Longrightarrow> y < h \<Longrightarrow> concat (map (\<lambda>y. map (f y) [0..<w]) [0..<h]) ! (y * w + x) = f y x"
proof (induction h)
  case (Suc h)
  show ?case
  proof (cases "y = h")
    case True
    with Suc.prems show ?thesis by (simp add: nth_append length_rows mult.commute)
  next
    case False
    with Suc.prems have y: "y < h" by simp
    have "y * w + x < w * h"
    proof -
      have "Suc y * w \<le> h * w" using y by (intro mult_le_mono1) simp
      then show ?thesis using Suc.prems(1) by (simp add: mult.commute)
    qed
    with Suc.IH [OF Suc.prems(1) y] show ?thesis by (simp add: nth_append length_rows)
  qed
qed simp

subsection \<open>Grey pixels\<close>

definition grey :: "rgb \<Rightarrow> bool" where
  "grey p \<longleftrightarrow> (case p of (r, g, b) \<Rightarrow> r = g \<and> g = b)"

lemma luma_sum_grey: "luma_sum (coefficients m) v v v = v"
proof -
  have "co_yr (coefficients m) * v + co_yg (coefficients m) * v + co_yb (coefficients m) * v = 65536 * v"
    by (cases m) (simp_all add: coefficients_def BT709_def BT601_def)
  then show ?thesis by (simp add: luma_sum_def ROUND_def SHIFT_def)
qed

lemma chroma_grey: "chroma (coefficients m) r v v v = (128, 128)"
  by (cases r) (simp_all add: chroma_def luma_sum_grey Let_def ROUND_def SHIFT_def clamp_u8_def rust_div_def)

lemma luma_grey: "luma (coefficients m) FullRange (uint v) (uint v) (uint v) = v"
proof -
  have "0 \<le> uint v" "uint v \<le> 255" using unsigned_less [of v, where ?'a = int] by simp_all
  then show ?thesis by (simp add: luma_def luma_sum_grey clamp_u8_def)
qed

lemma grey_block:
  assumes "\<And>x y. x < w \<Longrightarrow> y < h \<Longrightarrow> grey (pixel_at src (y * stride + x * 4))" "x < w" "y < h"
  shows "grey (block_mean src stride w h x y)"
proof -
  have "min (x + 1) (w - 1) < w" "min (y + 1) (h - 1) < h" using assms by auto
  with assms have "grey (pixel_at src (y * stride + x * 4))" "grey (pixel_at src (y * stride + min (x + 1) (w - 1) * 4))"
    "grey (pixel_at src (min (y + 1) (h - 1) * stride + x * 4))"
    "grey (pixel_at src (min (y + 1) (h - 1) * stride + min (x + 1) (w - 1) * 4))" by auto
  then show ?thesis
    unfolding block_mean_def Let_def by (simp add: grey_def split: prod.splits)
qed

lemma chroma_rgb_grey:
  assumes "\<And>x y. x < w \<Longrightarrow> y < h \<Longrightarrow> grey (pixel_at src (y * stride + x * 4))"
    and "p \<in> set (List.product [0..<div_ceil h 2] [0..<div_ceil w 2])"
  shows "grey (chroma_rgb config src stride w h p)"
proof -
  obtain cy cx where p: "p = (cy, cx)" "cx * 2 < w" "cy * 2 < h"
    using assms(2) by (rule chroma_index)
  then show ?thesis
    using assms(1) [OF p(2,3)] grey_block [OF assms(1) p(2,3)]
    by (cases "cv_chroma config") (simp_all add: chroma_rgb_def)
qed

lemma chroma_plane_neutral: "chroma_plane fmt (replicate n (v, v)) = replicate (n * 2) v"
proof -
  have "concat (replicate n [v, v]) = replicate (n * 2) v" by (induction n) auto
  then show ?thesis by (cases fmt) (simp_all add: chroma_plane_def replicate_add [symmetric] mult_2_right)
qed

subsection \<open>Scaling\<close>

lemma span_in:
  assumes "d < n" "0 < s"
  shows "span d s n \<noteq> []" "i \<in> set (span d s n) \<Longrightarrow> i < s" "length (span d s n) \<le> s"
proof -
  have lo: "d * s div n < s" using assms by (simp add: div_less_iff_less_mult mult.commute)
  show "span d s n \<noteq> []" by (simp add: span_def Let_def)
  show "i < s" if "i \<in> set (span d s n)" using that lo by (auto simp: span_def Let_def)
  show "length (span d s n) \<le> s" using lo by (simp add: span_def Let_def)
qed

lemma block_offsets_in:
  assumes fit: "fits src sw sh stride" and "dx < dw" "dy < dh"
  defines "os \<equiv> block_offsets src stride (span dy sh dh) (span dx sw dw)"
  shows "os \<noteq> []" "length os \<le> sh * sw"
    and "i \<in> set os \<Longrightarrow> \<exists>x y. x < sw \<and> y < sh \<and> i = y * stride + x * 4"
proof -
  have s: "0 < sw" "0 < sh" using fit by (simp_all add: fits_def)
  have all: "\<forall>p \<in> set (List.product (span dy sh dh) (span dx sw dw)). (case p of (sy, sx) \<Rightarrow> sy * stride + sx * 4) + 3 < length src"
    using span_in(2) [OF assms(3) s(2)] span_in(2) [OF assms(2) s(1)] fit pixel_offset [of stride sh sw "length src"]
    by (fastforce simp: fits_def)
  have os: "os = map (\<lambda>(sy, sx). sy * stride + sx * 4) (List.product (span dy sh dh) (span dx sw dw))"
    unfolding os_def block_offsets_def using all by (intro filter_True) auto
  show "os \<noteq> []"
    unfolding os using span_in(1) [OF assms(3) s(2)] span_in(1) [OF assms(2) s(1)]
    by (cases "span dy sh dh"; cases "span dx sw dw") auto
  show "length os \<le> sh * sw"
    unfolding os using span_in(3) [OF assms(3) s(2)] span_in(3) [OF assms(2) s(1)] by (simp add: mult_le_mono)
  show "\<exists>x y. x < sw \<and> y < sh \<and> i = y * stride + x * 4" if "i \<in> set os"
    using that span_in(2) [OF assms(3) s(2)] span_in(2) [OF assms(2) s(1)] unfolding os by auto
qed

lemma channel_mean_const:
  assumes "os \<noteq> []" "length os < 2 ^ 24" "\<And>i. i \<in> set os \<Longrightarrow> src ! (i + k) = v"
  shows "channel_mean src os k = v"
proof -
  have v: "unat v < 256" using unsigned_less [of v, where ?'a = nat] by simp
  have "map (\<lambda>i. ucast (src ! (i + k)) :: u32) os = replicate (length os) (ucast v)"
    unfolding map_replicate_const [symmetric] using assms(3) by (intro map_cong) simp_all
  then have sum: "sum_list (map (\<lambda>i. ucast (src ! (i + k)) :: u32) os) = word_of_nat (length os * unat v)"
    by (simp add: sum_list_replicate)
  have "length os * unat v < 2 ^ 24 * 256" using assms(2) v by (intro mult_strict_mono) auto
  then have "unat (word_of_nat (length os * unat v) :: u32) = length os * unat v"
    "unat (word_of_nat (length os) :: u32) = length os"
    using assms(2) by (simp_all add: unat_of_nat take_bit_nat_eq_self del: of_nat_mult)
  then have "unat (word_of_nat (length os * unat v) div word_of_nat (length os) :: u32) = unat v"
    using assms(1) by (simp add: unat_div del: of_nat_mult)
  then show ?thesis
    unfolding channel_mean_def sum
    by (intro word_unat_eq_iff [THEN iffD2]) (simp only: unsigned_ucast_eq, simp add: take_bit_nat_eq_self v)
qed

subsection \<open>Properties\<close>

text \<open>The conversion never reads outside the captured buffer: on every input, whatever the geometry it
  claims, it returns, either the error that its validation reports or a frame of exactly the announced size
  whose planes are the picture's.\<close>

theorem convert_in_bounds:
  "\<exists>result. bgra_to_planar src width height stride fmt config = Some result \<and>
     (case result of
        Inl e \<Rightarrow> validate src width height stride = Inl e
      | Inr f \<Rightarrow> validate src width height stride = Inr () \<and> length (pf_data f) = buffer_size fmt width height \<and>
          pf_width f = width \<and> pf_height f = height \<and> pf_format f = fmt)"
proof (cases "validate src width height stride")
  case (Inl e)
  then show ?thesis by (simp add: bgra_to_planar_def)
next
  case (Inr u)
  then have v: "validate src width height stride = Inr ()" by simp
  show ?thesis
    unfolding bgra_to_planar_valid [OF v]
    by (simp add: v length_rows length_chroma_plane buffer_size_def mult.commute del: length_concat)
qed

text \<open>Grey stays grey: a picture whose pixels are all grey, of any geometry and stride, converts in full
  range to a luma plane that holds exactly the grey values, pixel by pixel, and to chroma that is exactly
  neutral, for both matrices, both filters and both layouts.\<close>

theorem grey_stays_neutral:
  assumes "bgra_to_planar src width height stride fmt config = Some (Inr f)" "cv_range config = FullRange"
    and "\<forall>x < unat width. \<forall>y < unat height. src ! (y * stride + x * 4) = src ! (y * stride + x * 4 + 1) \<and>
      src ! (y * stride + x * 4 + 1) = src ! (y * stride + x * 4 + 2)"
  shows "(\<forall>x < unat width. \<forall>y < unat height. planar_luma f ! (y * unat width + x) = src ! (y * stride + x * 4)) \<and>
    planar_chroma f = replicate (div_ceil (unat width) 2 * div_ceil (unat height) 2 * 2) 128"
proof -
  have v: "validate src width height stride = Inr ()"
    using assms(1) by (cases "validate src width height stride") (simp_all add: bgra_to_planar_def)
  let ?w = "unat width" and ?h = "unat height" and ?c = "coefficients (cv_matrix config)"
  let ?ps = "List.product [0..<div_ceil ?h 2] [0..<div_ceil ?w 2]"
  let ?rows = "concat (map (\<lambda>y. map (\<lambda>x. let (r, g, b) = pixel_at src (y * stride + x * 4) in
    luma ?c FullRange r g b) [0..<?w]) [0..<?h])"
  have f: "f = \<lparr>pf_data = ?rows @ chroma_plane fmt (map (\<lambda>p. case chroma_rgb config src stride ?w ?h p of
        (r, g, b) \<Rightarrow> chroma ?c FullRange r g b) ?ps),
      pf_width = width, pf_height = height, pf_format = fmt, pf_luma_stride = ?w,
      pf_chroma_stride = (case fmt of Nv12 \<Rightarrow> div_ceil ?w 2 * 2 | I420 \<Rightarrow> div_ceil ?w 2), pf_config = config\<rparr>"
    using assms(1,2) bgra_to_planar_valid [OF v, of fmt config] by simp
  have grey: "grey (pixel_at src (y * stride + x * 4))" if "x < ?w" "y < ?h" for x y
    using assms(3) that by (simp add: grey_def pixel_at_def add.commute)
  have "planar_luma f ! (y * ?w + x) = src ! (y * stride + x * 4)" if "x < ?w" "y < ?h" for x y
  proof -
    have "planar_luma f = ?rows" by (simp add: planar_luma_def f length_rows)
    then have "planar_luma f ! (y * ?w + x) =
        (let (r, g, b) = pixel_at src (y * stride + x * 4) in luma ?c FullRange r g b)"
      using nth_rows [OF that] by simp
    then show ?thesis using assms(3) that by (simp add: pixel_at_def luma_grey add.commute)
  qed
  moreover have neutral: "(case chroma_rgb config src stride ?w ?h p of (r, g, b) \<Rightarrow> chroma ?c FullRange r g b) = (128, 128)"
    if "p \<in> set ?ps" for p
    using chroma_rgb_grey [where w = ?w and h = ?h and config = config, OF grey that]
    by (auto simp: grey_def chroma_grey split: prod.splits)
  have "map (\<lambda>p. case chroma_rgb config src stride ?w ?h p of (r, g, b) \<Rightarrow> chroma ?c FullRange r g b) ?ps =
      replicate (length ?ps) (128, 128)"
    unfolding map_replicate_const [symmetric] by (rule map_cong [OF refl neutral])
  then have "planar_chroma f = replicate (div_ceil ?w 2 * div_ceil ?h 2 * 2) 128"
    by (simp add: planar_chroma_def f length_rows chroma_plane_neutral mult.commute del: length_concat)
  ultimately show ?thesis by blast
qed

theorem grey_stays_neutral_witness:
  "\<exists>f. bgra_to_planar [7, 7, 7, 255, 200, 200, 200, 255] 2 1 8 Nv12 convert_config_default = Some (Inr f) \<and>
     planar_luma f ! 1 = 200 \<and> planar_chroma f = replicate 2 128"
proof -
  let ?src = "[7, 7, 7, 255, 200, 200, 200, 255] :: u8 list"
  have v: "validate ?src 2 1 8 = Inr ()" by code_simp
  obtain f where f: "bgra_to_planar ?src 2 1 8 Nv12 convert_config_default = Some (Inr f)"
    using bgra_to_planar_valid [OF v, of Nv12 convert_config_default] by blast
  have "cv_range convert_config_default = FullRange" by (simp add: convert_config_default_def)
  from grey_stays_neutral [OF f this] have
    "(\<forall>x < unat (2 :: u32). \<forall>y < unat (1 :: u32). planar_luma f ! (y * unat (2 :: u32) + x) = ?src ! (y * 8 + x * 4)) \<and>
      planar_chroma f = replicate (div_ceil (unat (2 :: u32)) 2 * div_ceil (unat (1 :: u32)) 2 * 2) 128"
    by (simp add: less_2_cases_iff)
  moreover have "div_ceil (unat (2 :: u32)) 2 * div_ceil (unat (1 :: u32)) 2 * 2 = 2" by (simp add: div_ceil_def)
  ultimately show ?thesis
    using f by (intro exI [of _ f]) (auto simp: less_2_cases_iff dest!: spec [of _ 1])
qed

text \<open>A solid colour survives scaling exactly: a picture of at most \<open>2^24\<close> pixels, all of one colour, with
  any row padding, scales to a picture of that colour at every target size, up or down.\<close>

theorem scale_solid_colour:
  assumes "fits src (unat sw) (unat sh) stride" "unat sw * unat sh < 2 ^ 24"
    and "\<forall>x < unat sw. \<forall>y < unat sh. map (\<lambda>k. src ! (y * stride + x * 4 + k)) [0, 1, 2, 3] = colour"
  shows "scale_bgra src sw sh stride dw dh = concat (replicate (unat dh * unat dw) colour)"
proof -
  have px: "scale_pixel src (unat sw) (unat sh) stride (unat dw) (unat dh) p = colour"
    if "p \<in> set (List.product [0..<unat dh] [0..<unat dw])" for p
  proof -
    obtain dy dx where p: "p = (dy, dx)" "dy < unat dh" "dx < unat dw" using \<open>p \<in> _\<close> by auto
    let ?os = "block_offsets src stride (span dy (unat sh) (unat dh)) (span dx (unat sw) (unat dw))"
    note os = block_offsets_in [OF assms(1) p(3) p(2)]
    have len: "length ?os < 2 ^ 24" using os(2) assms(2) by (simp add: mult.commute)
    then have "unat (word_of_nat (length ?os) :: u32) = length ?os" by (simp add: unat_of_nat take_bit_nat_eq_self)
    then have nz: "word_of_nat (length ?os) \<noteq> (0 :: u32)" using os(1) by (metis length_0_conv unat_0)
    have at: "map (\<lambda>k. src ! (i + k)) [0, 1, 2, 3] = colour" if i: "i \<in> set ?os" for i
    proof -
      from os(3) [OF i] obtain x y where xy: "x < unat sw" "y < unat sh" "i = y * stride + x * 4" by blast
      show ?thesis unfolding xy(3) by (rule assms(3) [rule_format, OF xy(1,2)])
    qed
    have hd: "map (\<lambda>k. src ! (hd ?os + k)) [0, 1, 2, 3] = colour" by (rule at) (rule hd_in_set [OF os(1)])
    have "channel_mean src ?os k = src ! (hd ?os + k)" if k: "k \<in> set [0, 1, 2, 3]" for k
    proof (rule channel_mean_const [OF os(1) len])
      fix i assume "i \<in> set ?os"
      then have "map (\<lambda>k. src ! (i + k)) [0, 1, 2, 3] = map (\<lambda>k. src ! (hd ?os + k)) [0, 1, 2, 3]"
        using at hd by simp
      then show "src ! (i + k) = src ! (hd ?os + k)" using k unfolding map_eq_conv by blast
    qed
    then have "map (channel_mean src ?os) [0, 1, 2, 3] = colour" unfolding hd [symmetric] by (rule map_cong [OF refl])
    then show ?thesis using nz unfolding p(1) scale_pixel_def by simp
  qed
  have "map (scale_pixel src (unat sw) (unat sh) stride (unat dw) (unat dh)) (List.product [0..<unat dh] [0..<unat dw]) =
      replicate (unat dh * unat dw) colour"
  proof -
    have "map (scale_pixel src (unat sw) (unat sh) stride (unat dw) (unat dh)) (List.product [0..<unat dh] [0..<unat dw]) =
        map (\<lambda>_. colour) (List.product [0..<unat dh] [0..<unat dw])"
      by (rule map_cong [OF refl px])
    then show ?thesis by (simp add: map_replicate_const)
  qed
  then show ?thesis by (simp only: scale_bgra_def)
qed

theorem scale_solid_colour_witness:
  "scale_bgra [1, 2, 3, 4, 1, 2, 3, 4, 9, 1, 2, 3, 4, 1, 2, 3, 4] 2 2 9 3 1 =
     concat (replicate (unat (1 :: u32) * unat (3 :: u32)) [1, 2, 3, 4])"
proof -
  let ?src = "[1, 2, 3, 4, 1, 2, 3, 4, 9, 1, 2, 3, 4, 1, 2, 3, 4] :: u8 list"
  have "fits ?src (unat (2 :: u32)) (unat (2 :: u32)) 9" "unat (2 :: u32) * unat (2 :: u32) < 2 ^ 24"
    by (simp_all add: fits_def)
  moreover have "\<forall>x < unat (2 :: u32). \<forall>y < unat (2 :: u32). map (\<lambda>k. ?src ! (y * 9 + x * 4 + k)) [0, 1, 2, 3] = [1, 2, 3, 4]"
    by (simp add: less_2_cases_iff)
  ultimately show ?thesis by (rule scale_solid_colour)
qed

end
