(* ===== verification/Rda_Encoder.thy ===== *)
theory Rda_Encoder
  imports Rda_Rate Rda_Convert Rda_Fragments
begin

text \<open>
  The encoder interface of \<^verbatim>\<open>rda-encode/src/encoder.rs\<close>, as a record of the trait's methods over an encoder
  state, and the synthetic encoder of \<^verbatim>\<open>backend/recording.rs\<close>. The methods that only report (name, hardware
  or not, long-term-reference support) are left out. The locale \<open>video_encoder\<close> states what the pipeline
  relies on: an encoder keeps the dimensions it was made with and accepts frames that have them.
\<close>

datatype Codec = H264 | Hevc | Av1

definition codec_payload_type :: "Codec \<Rightarrow> u8" where
  "codec_payload_type c = (case c of H264 \<Rightarrow> 96 | Av1 \<Rightarrow> 98 | Hevc \<Rightarrow> 100)"

definition is_random_access_point :: "FrameKind \<Rightarrow> bool" where
  "is_random_access_point k \<longleftrightarrow> k = Keyframe"

record EncoderConfig =
  ec_codec :: Codec
  ec_width :: u32
  ec_height :: u32
  ec_bitrate_bps :: u32
  ec_fps :: u8
  ec_temporal_layers :: u8
  ec_use_ltr :: bool
  ec_keyframe_interval_s :: u32

definition encoder_config_default :: EncoderConfig where
  "encoder_config_default =
     \<lparr>ec_codec = H264, ec_width = 1920, ec_height = 1080, ec_bitrate_bps = 4000000, ec_fps = 30,
      ec_temporal_layers = 2, ec_use_ltr = True, ec_keyframe_interval_s = 0\<rparr>"

definition with_even_dimensions :: "EncoderConfig \<Rightarrow> EncoderConfig" where
  "with_even_dimensions c = c\<lparr>ec_width := ec_width c AND NOT 1, ec_height := ec_height c AND NOT 1\<rparr>"

definition config_is_valid :: "EncoderConfig \<Rightarrow> bool" where
  "config_is_valid c \<longleftrightarrow>
     ec_width c \<ge> 16 \<and> ec_height c \<ge> 16 \<and> ec_width c mod 2 = 0 \<and> ec_height c mod 2 = 0 \<and> ec_fps c > 0 \<and>
     ec_bitrate_bps c \<ge> 50000 \<and> 1 \<le> ec_temporal_layers c \<and> ec_temporal_layers c \<le> 3"

datatype EncodeError =
    EncoderUnavailable string
  | BadConfig string
  | GeometryMismatch u32 u32 u32 u32    \<comment> \<open>got\_w, got\_h, want\_w, want\_h\<close>
  | EncodeFailed string
  | NoHardware Codec
  | EncoderUnsupported

record 'e VideoEncoder =
  ve_encode :: "PlanarFrame \<Rightarrow> u64 \<Rightarrow> ('e, EncodeError, EncodedFrame list) st"
  ve_set_bitrate :: "u32 \<Rightarrow> ('e, EncodeError, unit) st"
  ve_set_fps :: "u8 \<Rightarrow> ('e, EncodeError, unit) st"
  ve_request_recovery :: "RecoveryMode \<Rightarrow> ('e, EncodeError, unit) st"
  ve_flush :: "('e, EncodeError, EncodedFrame list) st"
  ve_config :: "'e \<Rightarrow> EncoderConfig"

subsection \<open>The recording encoder\<close>

definition IDR_COST_FACTOR :: nat where "IDR_COST_FACTOR = 15"
definition LTR_COST_FACTOR :: nat where "LTR_COST_FACTOR = 3"

record RecordingEncoder =
  re_config :: EncoderConfig
  re_sequence :: u64
  re_bitrate_bps :: u32
  re_pending_recovery :: "RecoveryMode option"
  re_emitted :: "EncodedFrame list"
  re_ltr_supported :: bool
  re_fail_next :: "EncodeError option"
  re_next_ltr_slot :: u8

definition recording_encoder_new :: "EncoderConfig \<Rightarrow> EncodeError + RecordingEncoder" where
  "recording_encoder_new config =
     (if \<not> config_is_valid config
      then Inl (BadConfig (decimal (unat (ec_width config)) @ ''x'' @ decimal (unat (ec_height config)) @ '' @ '' @
             decimal (unat (ec_fps config)) @ '' fps, '' @ decimal (unat (ec_bitrate_bps config)) @ '' bps''))
      else Inr \<lparr>re_config = config, re_sequence = 0, re_bitrate_bps = ec_bitrate_bps config,
             re_pending_recovery = None, re_emitted = [], re_ltr_supported = True, re_fail_next = None,
             re_next_ltr_slot = 0\<rparr>)"

definition temporal_layer :: "RecordingEncoder \<Rightarrow> u64 \<Rightarrow> u8" where
  "temporal_layer e index =
     (if ec_temporal_layers (re_config e) = 1 then 0
      else if ec_temporal_layers (re_config e) = 2 then ucast (index mod 2)
      else if index mod 4 = 0 then 0 else if index mod 4 = 2 then 1 else 2)"

definition frame_size :: "RecordingEncoder \<Rightarrow> FrameKind \<Rightarrow> nat" where
  "frame_size e kind =
     (let per_frame = unat (re_bitrate_bps e div 8 div ucast (max (ec_fps (re_config e)) 1)) in
      max (case kind of
             Keyframe \<Rightarrow> per_frame * IDR_COST_FACTOR
           | LtrRecovery \<Rightarrow> per_frame * LTR_COST_FACTOR
           | Delta \<Rightarrow> per_frame) 16)"

text \<open>The kind of the next frame and its reference slot; a recovery request is used up, and periodic base
  frames rotate through the four slots.\<close>

definition next_kind :: "RecordingEncoder \<Rightarrow> (FrameKind \<times> u8 option) \<times> RecordingEncoder" where
  "next_kind e =
     (let index = re_sequence e; e' = e\<lparr>re_pending_recovery := None\<rparr> in
      case re_pending_recovery e of
        Some (Ltr i) \<Rightarrow> if re_ltr_supported e then ((LtrRecovery, Some i), e') else ((Keyframe, None), e')
      | Some Idr \<Rightarrow> ((Keyframe, None), e')
      | None \<Rightarrow>
          if index = 0 then ((Keyframe, Some 0), e')
          else if temporal_layer e index = 0 \<and> index mod 60 = 0
          then let slot = (re_next_ltr_slot e + 1) mod 4 in ((Delta, Some slot), e'\<lparr>re_next_ltr_slot := slot\<rparr>)
          else ((Delta, None), e'))"

definition recording_encode :: "PlanarFrame \<Rightarrow> u64 \<Rightarrow> (RecordingEncoder, EncodeError, EncodedFrame list) st" where
  "recording_encode frame pts_us e =
     (case re_fail_next e of
        Some err \<Rightarrow> (Inl err, e\<lparr>re_fail_next := None\<rparr>)
      | None \<Rightarrow>
          if pf_width frame \<noteq> ec_width (re_config e) \<or> pf_height frame \<noteq> ec_height (re_config e)
          then (Inl (GeometryMismatch (pf_width frame) (pf_height frame) (ec_width (re_config e)) (ec_height (re_config e))), e)
          else
            let index = re_sequence e; ((kind, ltr_index), e) = next_kind e;
                encoded = \<lparr>ef_data = replicate (frame_size e kind) 0xAB, ef_kind = kind, ef_pts_us = pts_us,
                  ef_sequence = index,
                  ef_temporal_layer = (if kind = Keyframe then 0 else temporal_layer e index),
                  ef_ltr_index = ltr_index, ef_qp = Some 30\<rparr>
            in (Inr [encoded], e\<lparr>re_sequence := re_sequence e + 1, re_emitted := re_emitted e @ [encoded]\<rparr>))"

definition recording_video_encoder :: "RecordingEncoder VideoEncoder" where
  "recording_video_encoder =
     \<lparr>ve_encode = recording_encode,
      ve_set_bitrate = (\<lambda>bps e. (Inr (), e\<lparr>re_bitrate_bps := bps\<rparr>)),
      ve_set_fps = (\<lambda>fps e. (Inr (), e\<lparr>re_config := (re_config e)\<lparr>ec_fps := max fps 1\<rparr>\<rparr>)),
      ve_request_recovery = (\<lambda>mode e. (Inr (), e\<lparr>re_pending_recovery := Some mode\<rparr>)),
      ve_flush = (\<lambda>e. (Inr [], e)),
      ve_config = re_config\<rparr>"

subsection \<open>The contract\<close>

definition dims :: "'e VideoEncoder \<Rightarrow> 'e \<Rightarrow> u32 \<times> u32" where
  "dims ops e = (ec_width (ve_config ops e), ec_height (ve_config ops e))"

locale video_encoder =
  fixes ops :: "'e VideoEncoder"
    and make :: "EncoderConfig \<Rightarrow> EncodeError + 'e"
    and good :: "'e \<Rightarrow> bool"
  assumes make_good: "make c = Inr e \<Longrightarrow> good e \<and> dims ops e = (ec_width c, ec_height c)"
    and bitrate_keeps: "good e \<Longrightarrow> good (snd (ve_set_bitrate ops b e)) \<and> dims ops (snd (ve_set_bitrate ops b e)) = dims ops e"
    and fps_keeps: "good e \<Longrightarrow> good (snd (ve_set_fps ops f e)) \<and> dims ops (snd (ve_set_fps ops f e)) = dims ops e"
    and recovery_keeps:
      "good e \<Longrightarrow> good (snd (ve_request_recovery ops m e)) \<and> dims ops (snd (ve_request_recovery ops m e)) = dims ops e"
    and encode_keeps: "good e \<Longrightarrow> good (snd (ve_encode ops p t e)) \<and> dims ops (snd (ve_encode ops p t e)) = dims ops e"
    and encode_accepts: "good e \<Longrightarrow> dims ops e = (pf_width p, pf_height p) \<Longrightarrow> \<exists>fs. fst (ve_encode ops p t e) = Inr fs"

lemma next_kind_keeps:
  "re_config (snd (next_kind e)) = re_config e" "re_fail_next (snd (next_kind e)) = re_fail_next e"
  by (auto simp: next_kind_def Let_def split: option.split RecoveryMode.split)

interpretation recording_encoder: video_encoder recording_video_encoder recording_encoder_new "\<lambda>e. re_fail_next e = None"
  by unfold_locales
    (auto simp: recording_video_encoder_def recording_encoder_new_def recording_encode_def dims_def Let_def
      next_kind_keeps case_prod_beta split: if_splits option.splits)

end
