(* ===== verification/Rda_Pipeline.thy ===== *)
theory Rda_Pipeline
  imports Rda_Encoder
begin

text \<open>
  The frame pipeline of \<^verbatim>\<open>rda-encode/src/pipeline.rs\<close>: damage check, pacing, conversion, encoding, and the
  application of the rate controller's directives to the encoder. The encoder and the factory that makes
  encoders are parameters, the methods of the trait and a function from configurations. A conversion that
  reads out of bounds would panic; it is \<open>None\<close> here, and that it never happens is part of what is proved.
\<close>

definition SCALE_CHANGE_THRESHOLD_PCT :: u8 where "SCALE_CHANGE_THRESHOLD_PCT = 10"

datatype StepOutcome = Skipped | Encoded "EncodedFrame list" | Paced

definition outcome_frames :: "StepOutcome \<Rightarrow> EncodedFrame list" where
  "outcome_frames s = (case s of Encoded f \<Rightarrow> f | _ \<Rightarrow> [])"

definition outcome_bytes :: "StepOutcome \<Rightarrow> nat" where
  "outcome_bytes s = sum_list (map (\<lambda>f. length (ef_data f)) (outcome_frames s))"

record PipelineStats =
  ps_offered :: u64
  ps_skipped_static :: u64
  ps_paced_out :: u64
  ps_encoded :: u64
  ps_bytes_out :: u64
  ps_rebuilds :: u64
  ps_keyframes :: u64

definition mean_frame_bytes :: "PipelineStats \<Rightarrow> u64" where
  "mean_frame_bytes s = (if ps_encoded s = 0 then 0 else ps_bytes_out s div ps_encoded s)"

record 'e Pipeline =
  pl_encoder :: 'e
  pl_rate :: RateController
  pl_convert :: ConvertConfig
  pl_native_width :: u32
  pl_native_height :: u32
  pl_directive :: EncoderDirective
  pl_last_encode_ms :: "u64 option"
  pl_stats :: PipelineStats

type_synonym 'e encoder_factory = "EncoderConfig \<Rightarrow> EncodeError + 'e"

definition pipeline_new :: "'e encoder_factory \<Rightarrow> u32 \<Rightarrow> u32 \<Rightarrow> EncoderConfig \<Rightarrow> EncodeError + 'e Pipeline" where
  "pipeline_new factory native_width native_height base =
     bindE (factory base) (\<lambda>encoder. Inr
       \<lparr>pl_encoder = encoder, pl_rate = rate_controller_new, pl_convert = convert_config_default,
        pl_native_width = native_width, pl_native_height = native_height,
        pl_directive = rc_current rate_controller_new, pl_last_encode_ms = None,
        pl_stats = \<lparr>ps_offered = 0, ps_skipped_static = 0, ps_paced_out = 0, ps_encoded = 0, ps_bytes_out = 0,
          ps_rebuilds = 0, ps_keyframes = 0\<rparr>\<rparr>)"

definition on_encoder :: "('e, EncodeError, 'a) st \<Rightarrow> ('e Pipeline, EncodeError, 'a) st" where
  "on_encoder m p = (case m (pl_encoder p) of (r, e) \<Rightarrow> (r, p\<lparr>pl_encoder := e\<rparr>))"

definition pipeline_on_ltr_acked :: "u8 \<Rightarrow> 'e Pipeline \<Rightarrow> 'e Pipeline" where
  "pipeline_on_ltr_acked index p = p\<lparr>pl_rate := rate_on_ltr_acked index (pl_rate p)\<rparr>"

definition pipeline_on_recovery_request ::
  "'e VideoEncoder \<Rightarrow> u8 option \<Rightarrow> u64 \<Rightarrow> ('e Pipeline, EncodeError, KeyframeDecision) st" where
  "pipeline_on_recovery_request ops receiver_ltr now_ms p =
     (let (decision, rate) = rate_on_recovery_request receiver_ltr now_ms (pl_rate p);
          p = p\<lparr>pl_rate := rate\<rparr>
      in case decision of
           Recover mode \<Rightarrow> sbind (on_encoder (ve_request_recovery ops mode)) (\<lambda>_. sret decision) p
         | FullIdr \<Rightarrow> sbind (on_encoder (ve_request_recovery ops Idr)) (\<lambda>_. sret decision) p
         | Suppressed \<Rightarrow> sret decision p)"

definition rebuild_for_scale :: "'e VideoEncoder \<Rightarrow> 'e encoder_factory \<Rightarrow> EncoderDirective \<Rightarrow> ('e Pipeline, EncodeError, unit) st" where
  "rebuild_for_scale ops factory directive p =
     (let (w, h) = scaled_dimensions directive (pl_native_width p) (pl_native_height p);
          current = ve_config ops (pl_encoder p)
      in if (w, h) = (ec_width current, ec_height current) then (Inr (), p)
         else
           let config = with_even_dimensions (current\<lparr>ec_width := w, ec_height := h,
                 ec_bitrate_bps := ed_bitrate_bps directive, ec_fps := ed_fps directive,
                 ec_temporal_layers := ed_temporal_layers directive\<rparr>)
           in case factory config of
                Inl e \<Rightarrow> (Inl e, p)
              | Inr encoder \<Rightarrow> (Inr (), p\<lparr>pl_encoder := encoder,
                  pl_stats := (pl_stats p)\<lparr>ps_rebuilds := ps_rebuilds (pl_stats p) + 1\<rparr>\<rparr>))"

definition abs_diff :: "'a::len word \<Rightarrow> 'a word \<Rightarrow> 'a word" where
  "abs_diff a b = (if a < b then b - a else a - b)"

definition apply_telemetry :: "'e VideoEncoder \<Rightarrow> 'e encoder_factory \<Rightarrow> LinkTelemetry \<Rightarrow> u64 \<Rightarrow> ('e Pipeline, EncodeError, unit) st" where
  "apply_telemetry ops factory telemetry now_ms p =
     (let (nxt, rate) = rate_update telemetry now_ms (pl_rate p);
          previous = pl_directive p;
          p = p\<lparr>pl_rate := rate, pl_directive := nxt\<rparr>
      in sbind (if ed_bitrate_bps nxt \<noteq> ed_bitrate_bps previous
                then on_encoder (ve_set_bitrate ops (ed_bitrate_bps nxt)) else sret ()) (\<lambda>_.
         sbind (if ed_fps nxt \<noteq> ed_fps previous then on_encoder (ve_set_fps ops (ed_fps nxt)) else sret ()) (\<lambda>_.
         if abs_diff (ed_scale_pct nxt) (ed_scale_pct previous) \<ge> SCALE_CHANGE_THRESHOLD_PCT
         then rebuild_for_scale ops factory nxt else sret ())) p)"

definition bump_stats :: "(PipelineStats \<Rightarrow> PipelineStats) \<Rightarrow> 'e Pipeline \<Rightarrow> 'e Pipeline" where
  "bump_stats f p = p\<lparr>pl_stats := f (pl_stats p)\<rparr>"

definition too_soon :: "u64 \<Rightarrow> 'e Pipeline \<Rightarrow> bool" where
  "too_soon now_ms p \<longleftrightarrow>
     (let min_interval = 1000 div ucast (max (ed_fps (pl_directive p)) 1) in
      case pl_last_encode_ms p of None \<Rightarrow> False | Some prev \<Rightarrow> saturating_sub now_ms prev < min_interval)"

definition pipeline_step ::
  "'e VideoEncoder \<Rightarrow> Frame \<Rightarrow> u64 \<Rightarrow> 'e Pipeline \<Rightarrow> ((EncodeError + StepOutcome) \<times> 'e Pipeline) option" where
  "pipeline_step ops frame now_ms p =
     (let p = bump_stats (\<lambda>s. s\<lparr>ps_offered := ps_offered s + 1\<rparr>) p in
      if \<not> is_worth_encoding frame
      then Some (Inr Skipped, bump_stats (\<lambda>s. s\<lparr>ps_skipped_static := ps_skipped_static s + 1\<rparr>) p)
      else if too_soon now_ms p
      then Some (Inr Paced, bump_stats (\<lambda>s. s\<lparr>ps_paced_out := ps_paced_out s + 1\<rparr>) p)
      else
        let config = ve_config ops (pl_encoder p) in
        case convert_surface_scaled (fr_surface frame) (fr_width frame) (fr_height frame) (ec_width config) (ec_height config)
               Nv12 (pl_convert p) of
          None \<Rightarrow> None
        | Some (Inl e) \<Rightarrow> Some (Inl (EncodeFailed (''colour conversion failed: '' @ convert_error_text e)), p)
        | Some (Inr planar) \<Rightarrow>
            (case on_encoder (ve_encode ops planar (now_ms * 1000)) p of
               (Inl e, p) \<Rightarrow> Some (Inl e, p)
             | (Inr encoded, p) \<Rightarrow>
                 Some (Inr (Encoded encoded),
                   bump_stats (\<lambda>s. s\<lparr>ps_encoded := ps_encoded s + 1,
                       ps_bytes_out := ps_bytes_out s + sum_list (map (\<lambda>f. word_of_nat (length (ef_data f))) encoded),
                       ps_keyframes := ps_keyframes s + word_of_nat (length (filter (\<lambda>f. ef_kind f = Keyframe) encoded))\<rparr>)
                     (p\<lparr>pl_last_encode_ms := Some now_ms\<rparr>))))"

definition pipeline_flush :: "'e VideoEncoder \<Rightarrow> ('e Pipeline, EncodeError, EncodedFrame list) st" where
  "pipeline_flush ops = on_encoder (ve_flush ops)"

subsection \<open>Conversion at the encoder's size\<close>

lemma bgra_to_planar_returns:
  "\<exists>r. bgra_to_planar src w h stride fmt config = Some r \<and>
     (case r of Inl _ \<Rightarrow> True | Inr f \<Rightarrow> pf_width f = w \<and> pf_height f = h)"
proof (cases "validate src w h stride")
  case (Inl e)
  then show ?thesis by (simp add: bgra_to_planar_def)
next
  case (Inr u)
  then have v: "validate src w h stride = Inr ()" by simp
  show ?thesis unfolding bgra_to_planar_valid [OF v] by simp
qed

lemma convert_surface_scaled_returns:
  "\<exists>r. convert_surface_scaled s sw sh w h fmt config = Some r \<and>
     (case r of Inl _ \<Rightarrow> True | Inr f \<Rightarrow> pf_width f = w \<and> pf_height f = h)"
  using bgra_to_planar_returns
  by (auto simp: convert_surface_scaled_def convert_surface_def split: Surface.split)

subsection \<open>Runs of the pipeline\<close>

text \<open>A pipeline with the number of frames whose processing failed.\<close>

inductive pipe_step :: "'e VideoEncoder \<Rightarrow> 'e encoder_factory \<Rightarrow> 'e Pipeline \<times> nat \<Rightarrow> 'e Pipeline \<times> nat \<Rightarrow> bool"
  for ops factory where
  pipe_frame: "pipeline_step ops frame now p = Some (r, p') \<Longrightarrow>
    pipe_step ops factory (p, n) (p', n + (case r of Inl _ \<Rightarrow> 1 | Inr _ \<Rightarrow> 0))"
| pipe_telemetry: "pipe_step ops factory (p, n) (snd (apply_telemetry ops factory t now p), n)"
| pipe_recovery: "pipe_step ops factory (p, n) (snd (pipeline_on_recovery_request ops l now p), n)"
| pipe_acked: "pipe_step ops factory (p, n) (pipeline_on_ltr_acked i p, n)"

definition pipe_init :: "'e encoder_factory \<Rightarrow> 'e Pipeline \<times> nat \<Rightarrow> bool" where
  "pipe_init factory pn \<longleftrightarrow> (\<exists>w h base. pipeline_new factory w h base = Inr (fst pn)) \<and> snd pn = 0"

definition stats_balanced :: "'e Pipeline \<Rightarrow> nat \<Rightarrow> bool" where
  "stats_balanced p n \<longleftrightarrow>
     ps_offered (pl_stats p) =
       ps_skipped_static (pl_stats p) + ps_paced_out (pl_stats p) + ps_encoded (pl_stats p) + word_of_nat n"

definition pipe_ok :: "('e \<Rightarrow> bool) \<Rightarrow> 'e Pipeline \<times> nat \<Rightarrow> bool" where
  "pipe_ok good pn \<longleftrightarrow> good (pl_encoder (fst pn)) \<and> stats_balanced (fst pn) (snd pn)"

lemma bump_stats_simps [simp]:
  "pl_encoder (bump_stats f p) = pl_encoder p" "pl_convert (bump_stats f p) = pl_convert p"
  "pl_stats (bump_stats f p) = f (pl_stats p)" "pl_last_encode_ms (bump_stats f p) = pl_last_encode_ms p"
  by (simp_all add: bump_stats_def)

lemma on_encoder_simps [simp]:
  "fst (on_encoder m p) = fst (m (pl_encoder p))" "pl_stats (snd (on_encoder m p)) = pl_stats p"
  "pl_encoder (snd (on_encoder m p)) = snd (m (pl_encoder p))"
  by (simp_all add: on_encoder_def case_prod_beta)

context video_encoder
begin

lemma keeps_on_encoder:
  assumes "\<And>e. good e \<Longrightarrow> good (snd (m e))"
  shows "keeps (\<lambda>p. pipe_ok good (p, n)) (on_encoder m)"
  using assms by (auto simp: keeps_def pipe_ok_def stats_balanced_def)

lemma keeps_rebuild: "keeps (\<lambda>p. pipe_ok good (p, n)) (rebuild_for_scale ops make d)"
  by (auto simp: keeps_def rebuild_for_scale_def pipe_ok_def stats_balanced_def Let_def make_good
    split: prod.split sum.split)

lemma telemetry_ok: "pipe_ok good (p, n) \<Longrightarrow> pipe_ok good (snd (apply_telemetry ops make t now p), n)"
proof -
  assume ok: "pipe_ok good (p, n)"
  obtain d rate where r: "rate_update t now (pl_rate p) = (d, rate)" by fastforce
  let ?p = "p\<lparr>pl_rate := rate, pl_directive := d\<rparr>"
  let ?m = "sbind (if ed_bitrate_bps d \<noteq> ed_bitrate_bps (pl_directive p)
      then on_encoder (ve_set_bitrate ops (ed_bitrate_bps d)) else sret ()) (\<lambda>_.
    sbind (if ed_fps d \<noteq> ed_fps (pl_directive p) then on_encoder (ve_set_fps ops (ed_fps d)) else sret ()) (\<lambda>_.
      if abs_diff (ed_scale_pct d) (ed_scale_pct (pl_directive p)) \<ge> SCALE_CHANGE_THRESHOLD_PCT
      then rebuild_for_scale ops make d else sret ()))"
  have "keeps (\<lambda>p. pipe_ok good (p, n)) ?m"
    by (intro keeps_sbind keeps_if keeps_on_encoder keeps_rebuild keeps_intros)
      (simp_all add: bitrate_keeps fps_keeps)
  moreover have "pipe_ok good (?p, n)" using ok by (simp add: pipe_ok_def stats_balanced_def)
  ultimately have "pipe_ok good (snd (?m ?p), n)" by (rule keepsD)
  then show ?thesis by (simp add: apply_telemetry_def r Let_def)
qed

lemma recovery_ok: "pipe_ok good (p, n) \<Longrightarrow> pipe_ok good (snd (pipeline_on_recovery_request ops l now p), n)"
proof -
  assume ok: "pipe_ok good (p, n)"
  obtain d rate where r: "rate_on_recovery_request l now (pl_rate p) = (d, rate)" by fastforce
  have keep: "keeps (\<lambda>p. pipe_ok good (p, n)) (sbind (on_encoder (ve_request_recovery ops m)) (\<lambda>_. sret d))" for m
    by (intro keeps_sbind keeps_on_encoder keeps_intros) (simp add: recovery_keeps)
  have "pipe_ok good (p\<lparr>pl_rate := rate\<rparr>, n)" using ok by (simp add: pipe_ok_def stats_balanced_def)
  with keepsD [OF keep, of "p\<lparr>pl_rate := rate\<rparr>"] show ?thesis
    by (cases d) (simp_all add: pipeline_on_recovery_request_def r Let_def)
qed

text \<open>Everything a step can do: it returns, a static or early frame leaves the encoder alone, and the only
  error is a conversion that refused the captured buffer.\<close>

lemma step_cases:
  assumes "good (pl_encoder p)"
  obtains (skipped) "\<not> is_worth_encoding frame" "pipeline_step ops frame now p = Some (Inr Skipped,
      bump_stats (\<lambda>s. s\<lparr>ps_offered := ps_offered s + 1, ps_skipped_static := ps_skipped_static s + 1\<rparr>) p)"
  | (paced) "is_worth_encoding frame" "pipeline_step ops frame now p = Some (Inr Paced,
      bump_stats (\<lambda>s. s\<lparr>ps_offered := ps_offered s + 1, ps_paced_out := ps_paced_out s + 1\<rparr>) p)"
  | (refused) ce where "is_worth_encoding frame" "pipeline_step ops frame now p = Some
      (Inl (EncodeFailed (''colour conversion failed: '' @ convert_error_text ce)),
       bump_stats (\<lambda>s. s\<lparr>ps_offered := ps_offered s + 1\<rparr>) p)"
  | (encoded) fs p' where "is_worth_encoding frame" "pipeline_step ops frame now p = Some (Inr (Encoded fs), p')"
      "good (pl_encoder p')" "dims ops (pl_encoder p') = dims ops (pl_encoder p)" "pl_last_encode_ms p' = Some now"
      "\<exists>b k. pl_stats p' = (pl_stats p)\<lparr>ps_offered := ps_offered (pl_stats p) + 1, ps_encoded := ps_encoded (pl_stats p) + 1,
         ps_bytes_out := b, ps_keyframes := k\<rparr>"
proof -
  define q where "q = bump_stats (\<lambda>s. s\<lparr>ps_offered := ps_offered s + 1\<rparr>) p"
  have q: "pl_encoder q = pl_encoder p" "pl_stats q = (pl_stats p)\<lparr>ps_offered := ps_offered (pl_stats p) + 1\<rparr>"
    by (simp_all add: q_def)
  consider "\<not> is_worth_encoding frame" | "is_worth_encoding frame" "too_soon now q" | "is_worth_encoding frame" "\<not> too_soon now q"
    by blast
  then show thesis
  proof cases
    case 1
    then show thesis by (intro skipped) (simp_all add: pipeline_step_def Let_def bump_stats_def)
  next
    case 2
    then show thesis by (intro paced) (simp_all add: pipeline_step_def Let_def q_def bump_stats_def)
  next
    case 3
    let ?c = "ve_config ops (pl_encoder q)"
    obtain r where r: "convert_surface_scaled (fr_surface frame) (fr_width frame) (fr_height frame) (ec_width ?c) (ec_height ?c)
        Nv12 (pl_convert q) = Some r"
      "case r of Inl _ \<Rightarrow> True | Inr f \<Rightarrow> pf_width f = ec_width ?c \<and> pf_height f = ec_height ?c"
      using convert_surface_scaled_returns by blast
    show thesis
    proof (cases r)
      case (Inl ce)
      with r 3 show thesis by (intro refused) (simp_all add: pipeline_step_def Let_def flip: q_def)
    next
      case (Inr planar)
      then have d: "dims ops (pl_encoder q) = (pf_width planar, pf_height planar)" using r(2) by (simp add: dims_def)
      obtain fs where fs: "fst (ve_encode ops planar (now * 1000) (pl_encoder q)) = Inr fs"
        using encode_accepts [OF _ d] assms q(1) by auto
      obtain q' where enc: "on_encoder (ve_encode ops planar (now * 1000)) q = (Inr fs, q')"
        using fs by (metis on_encoder_simps(1) prod.collapse)
      then have q': "pl_encoder q' = snd (ve_encode ops planar (now * 1000) (pl_encoder q))" "pl_stats q' = pl_stats q"
        by (metis on_encoder_simps(2,3) snd_conv)+
      have step: "pipeline_step ops frame now p = Some (Inr (Encoded fs),
          bump_stats (\<lambda>s. s\<lparr>ps_encoded := ps_encoded s + 1,
              ps_bytes_out := ps_bytes_out s + sum_list (map (\<lambda>f. word_of_nat (length (ef_data f))) fs),
              ps_keyframes := ps_keyframes s + word_of_nat (length (filter (\<lambda>f. ef_kind f = Keyframe) fs))\<rparr>)
            (q'\<lparr>pl_last_encode_ms := Some now\<rparr>))"
        using 3 r(1) Inr enc by (simp add: pipeline_step_def Let_def flip: q_def)
      show thesis
        by (rule encoded [OF 3(1) step]) (use encode_keeps [of "pl_encoder p" planar "now * 1000"] assms q q' in auto)
    qed
  qed
qed

lemma step_ok:
  assumes "pipe_ok good (p, n)" "pipeline_step ops frame now p = Some (r, p')"
  shows "pipe_ok good (p', n + (case r of Inl _ \<Rightarrow> 1 | Inr _ \<Rightarrow> 0))"
proof -
  have good: "good (pl_encoder p)" using assms(1) by (simp add: pipe_ok_def)
  show ?thesis
    using assms by (cases rule: step_cases [OF good, of frame now]) (auto simp: pipe_ok_def stats_balanced_def)
qed

lemma acked_ok: "pipe_ok good (p, n) \<Longrightarrow> pipe_ok good (pipeline_on_ltr_acked i p, n)"
  by (simp add: pipeline_on_ltr_acked_def pipe_ok_def stats_balanced_def)

lemma init_ok: "pipe_init make pn \<Longrightarrow> pipe_ok good pn"
  using make_good by (cases pn) (auto simp: pipe_init_def pipeline_new_def bindE_eq_Inr pipe_ok_def stats_balanced_def)

lemma run_ok:
  assumes "reach (pipe_init make) (pipe_step ops make) pn"
  shows "pipe_ok good pn"
  using assms
proof (induction rule: reach.induct)
  case (reach_init pn)
  then show ?case by (rule init_ok)
next
  case (reach_step pn pn')
  from reach_step(2,3) show ?case
    by cases (auto intro: step_ok telemetry_ok recovery_ok acked_ok)
qed

lemma step_returns:
  assumes "reach (pipe_init make) (pipe_step ops make) (p, n)"
  shows "\<exists>r p'. pipeline_step ops frame now p = Some (r, p') \<and>
    (case r of
       Inl e \<Rightarrow> \<exists>ce. e = EncodeFailed (''colour conversion failed: '' @ convert_error_text ce)
     | Inr Skipped \<Rightarrow> \<not> is_worth_encoding frame \<and> pl_encoder p' = pl_encoder p
     | Inr Paced \<Rightarrow> is_worth_encoding frame \<and> pl_encoder p' = pl_encoder p
     | Inr (Encoded fs) \<Rightarrow> is_worth_encoding frame \<and> dims ops (pl_encoder p') = dims ops (pl_encoder p) \<and>
         pl_last_encode_ms p' = Some now) \<and>
    stats_balanced p' (n + (case r of Inl _ \<Rightarrow> 1 | Inr _ \<Rightarrow> 0))"
proof -
  have ok: "pipe_ok good (p, n)" using assms by (rule run_ok)
  then have good: "good (pl_encoder p)" by (simp add: pipe_ok_def)
  from good show ?thesis
  proof (cases rule: step_cases [where frame = frame and now = now])
    case skipped
    with step_ok [OF ok skipped(2)] show ?thesis by (simp add: pipe_ok_def)
  next
    case paced
    with step_ok [OF ok paced(2)] show ?thesis by (simp add: pipe_ok_def)
  next
    case (refused ce)
    with step_ok [OF ok refused(2)] show ?thesis by (auto simp: pipe_ok_def)
  next
    case (encoded fs p')
    with step_ok [OF ok encoded(2)] show ?thesis by (simp add: pipe_ok_def)
  qed
qed

end

subsection \<open>Properties\<close>



end
