(* ===== verification/Rda_Transport.thy ===== *)
theory Rda_Transport
  imports Rda_Codec Rda_Signaling
begin

text \<open>
  The transport's own decisions, \<^verbatim>\<open>rda-transport\<close>: the table of channels with their reliability (\<^verbatim>\<open>channels.rs\<close>), the
  ICE configuration made from the server's relay credentials and the classification of paths (\<^verbatim>\<open>ice.rs\<close>), and from
  \<^verbatim>\<open>session.rs\<close> the routing of frames to channels, the decoding of messages into events and the event queue with
  its pushed-back frames. WebRTC itself, the peer connection, its data channels and statistics, is a library the
  code calls and is not modelled; an event \<open>Frame c f\<close> is what \<open>on_message\<close> makes of bytes that arrive on channel \<open>c\<close>.
\<close>

subsection \<open>Channels\<close>

record ChannelSpec =
  csp_channel :: Channel
  csp_ordered :: bool
  csp_max_retransmits :: "u16 option"
  csp_max_packet_life_time :: "u16 option"

definition spec_is_reliable :: "ChannelSpec \<Rightarrow> bool" where
  "spec_is_reliable s \<longleftrightarrow> csp_max_retransmits s = None \<and> csp_max_packet_life_time s = None"

record RTCDataChannelInit =
  dci_ordered :: bool
  dci_max_retransmits :: "u16 option"
  dci_max_packet_life_time :: "u16 option"
  dci_protocol :: string
  dci_negotiated :: u16

definition to_init :: "ChannelSpec \<Rightarrow> RTCDataChannelInit" where
  "to_init s =
     \<lparr>dci_ordered = csp_ordered s, dci_max_retransmits = csp_max_retransmits s,
      dci_max_packet_life_time = csp_max_packet_life_time s,
      dci_protocol = ''rda/'' @ channel_label (csp_channel s) @ ''/1'', dci_negotiated = stream_id (csp_channel s)\<rparr>"

definition channel_spec :: "Channel \<Rightarrow> bool \<Rightarrow> u16 option \<Rightarrow> u16 option \<Rightarrow> ChannelSpec" where
  "channel_spec c ordered retransmits lifetime =
     \<lparr>csp_channel = c, csp_ordered = ordered, csp_max_retransmits = retransmits, csp_max_packet_life_time = lifetime\<rparr>"

definition CHANNELS :: "ChannelSpec list" where
  "CHANNELS =
    [channel_spec Control True None None,
     channel_spec InputKeys True None None,
     channel_spec InputPointer False (Some 0) None,
     channel_spec Cursor False None (Some 250),
     channel_spec Stats False (Some 0) None,
     channel_spec Clipboard True None None,
     channel_spec File True None None,
     channel_spec Video False None (Some 500)]"

definition spec_for :: "Channel \<Rightarrow> ChannelSpec option" where
  "spec_for c = find (\<lambda>s. csp_channel s = c) CHANNELS"

subsection \<open>ICE\<close>

datatype RoutingPreference = PreferDirect | ForceRelay
datatype RTCIceTransportPolicy = PolicyAll | PolicyRelay

definition routing_policy :: "RoutingPreference \<Rightarrow> RTCIceTransportPolicy" where
  "routing_policy r = (case r of PreferDirect \<Rightarrow> PolicyAll | ForceRelay \<Rightarrow> PolicyRelay)"

record RTCIceServer =
  rtc_urls :: "string list"
  rtc_username :: string
  rtc_credential :: string

definition to_rtc_ice_server :: "IceServer \<Rightarrow> RTCIceServer" where
  "to_rtc_ice_server s =
     \<lparr>rtc_urls = is_urls s, rtc_username = (case is_username s of None \<Rightarrow> [] | Some u \<Rightarrow> u),
      rtc_credential = (case is_credential s of None \<Rightarrow> [] | Some c \<Rightarrow> c)\<rparr>"

text \<open>The loop over the servers, with the number of relays taken so far.\<close>

fun take_servers :: "nat \<Rightarrow> IceServer list \<Rightarrow> RTCIceServer list" where
  "take_servers relay_count [] = []"
| "take_servers relay_count (server # servers) =
     (if is_username server \<noteq> None
      then (if relay_count \<ge> MAX_RELAY_POPS then take_servers relay_count servers
            else to_rtc_ice_server server # take_servers (relay_count + 1) servers)
      else to_rtc_ice_server server # take_servers relay_count servers)"

definition build_configuration :: "RelayCredentials \<Rightarrow> RoutingPreference \<Rightarrow> RTCIceServer list \<times> RTCIceTransportPolicy" where
  "build_configuration creds preference = (take_servers 0 (rc_ice_servers creds), routing_policy preference)"

datatype PathKind = HostToHost | ServerReflexive | Relayed | UnknownPath

definition classify :: "string \<Rightarrow> string \<Rightarrow> PathKind" where
  "classify l r =
     (if l = ''relay'' \<or> r = ''relay'' then Relayed
      else if l = ''host'' \<and> r = ''host'' then HostToHost
      else if l \<in> {''srflx'', ''prflx'', ''host''} \<and> r \<in> {''srflx'', ''prflx'', ''host''} then ServerReflexive
      else UnknownPath)"

definition is_relayed :: "PathKind \<Rightarrow> bool" where
  "is_relayed k \<longleftrightarrow> k = Relayed"

definition normalise_candidate_type :: "string \<Rightarrow> string" where
  "normalise_candidate_type n =
     (if n = ''Host'' then ''host'' else if n = ''ServerReflexive'' then ''srflx''
      else if n = ''PeerReflexive'' then ''prflx'' else if n = ''Relay'' then ''relay'' else n)"

subsection \<open>Events\<close>

datatype PeerConnectionState = PcNew | PcConnecting | PcConnected | PcDisconnected | PcFailed | PcClosed | PcUnspecified

datatype TransportEvent =
    LocalCandidate IceCandidate
  | GatheringComplete
  | ConnectionState PeerConnectionState
  | ChannelOpen Channel
  | Frame Channel ControlFrame
  | MalformedFrame Channel DecodeError
  | Closed

definition on_message :: "Channel \<Rightarrow> u8 list \<Rightarrow> TransportEvent" where
  "on_message c data = (case frame_decode data of Inr frame \<Rightarrow> Frame c frame | Inl error \<Rightarrow> MalformedFrame c error)"

text \<open>\<open>Session::send\<close>: the channel of the message type and the bytes given to it.\<close>

definition session_send :: "ControlFrame \<Rightarrow> Channel \<times> u8 list" where
  "session_send frame =
     ((case header_typed (cf_header frame) of Some ty \<Rightarrow> channel ty | None \<Rightarrow> Control), frame_encode frame)"

text \<open>The queue of pushed-back frames in front of the events of the connection.\<close>

record session_queue =
  sq_pending :: "TransportEvent list"
  sq_events :: "TransportEvent list"

definition push_back_frames :: "(Channel \<times> ControlFrame) list \<Rightarrow> session_queue \<Rightarrow> session_queue" where
  "push_back_frames frames q = q\<lparr>sq_pending := sq_pending q @ map (\<lambda>(c, f). Frame c f) frames\<rparr>"

definition next_event :: "session_queue \<Rightarrow> TransportEvent option \<times> session_queue" where
  "next_event q = (case sq_pending q of
       event # rest \<Rightarrow> (Some event, q\<lparr>sq_pending := rest\<rparr>)
     | [] \<Rightarrow> (case sq_events q of event # rest \<Rightarrow> (Some event, q\<lparr>sq_events := rest\<rparr>) | [] \<Rightarrow> (None, q)))"

fun drain_events :: "nat \<Rightarrow> session_queue \<Rightarrow> TransportEvent list" where
  "drain_events 0 q = []"
| "drain_events (Suc n) q = (case next_event q of (Some e, q') \<Rightarrow> e # drain_events n q' | (None, _) \<Rightarrow> [])"

subsection \<open>Properties\<close>

lemma spec_for_total: "\<exists>s. spec_for c = Some s \<and> csp_channel s = c"
  by (cases c) (simp_all add: spec_for_def CHANNELS_def channel_spec_def)

lemma session_send_channel:
  "frame_wf f \<Longrightarrow> \<forall>t b. cf_payload f \<noteq> Unknown t b \<Longrightarrow> session_send f = (channel (payload_type (cf_payload f)), frame_encode f)"
  by (simp add: session_send_def header_typed_def frame_wf_def payload_code_typed)

text \<open>Every frame the program makes is sent on one of the eight channels, decided by its type alone, and arrives
  there as the frame it was. Key, button, wheel and text events, and session control, travel on channels that are
  reliable and ordered; pointer motion, cursor, statistics and video on channels that never retransmit for long
  and are not ordered. The channels have distinct stream numbers and labels.\<close>

theorem frames_routed_by_type:
  assumes "payload_wf p" "\<forall>t b. p \<noteq> Unknown t b"
  shows "session_send (frame_new p s ts) = (channel (payload_type p), frame_encode (frame_new p s ts)) \<and>
    on_message (fst (session_send (frame_new p s ts))) (snd (session_send (frame_new p s ts))) =
      Frame (channel (payload_type p)) (frame_new p s ts) \<and>
    (\<exists>spec. spec_for (channel (payload_type p)) = Some spec \<and>
      (spec_is_reliable spec \<longleftrightarrow> channel (payload_type p) \<in> {Control, InputKeys, Clipboard, File}) \<and>
      (csp_ordered spec \<longleftrightarrow> spec_is_reliable spec)) \<and>
    distinct (map (dci_negotiated \<circ> to_init) CHANNELS) \<and> distinct (map (dci_protocol \<circ> to_init) CHANNELS)"
proof -
  have wf: "frame_wf (frame_new p s ts)" using assms(1) by (rule frame_new_wf)
  have send: "session_send (frame_new p s ts) = (channel (payload_type p), frame_encode (frame_new p s ts))"
    using session_send_channel [OF wf] assms(2) by (simp add: frame_new_def)
  moreover have "\<exists>spec. spec_for c = Some spec \<and> (spec_is_reliable spec \<longleftrightarrow> c \<in> {Control, InputKeys, Clipboard, File}) \<and>
      (csp_ordered spec \<longleftrightarrow> spec_is_reliable spec)" for c
    by (cases c) (simp_all add: spec_for_def CHANNELS_def channel_spec_def spec_is_reliable_def)
  moreover have "distinct (map (dci_negotiated \<circ> to_init) CHANNELS)" "distinct (map (dci_protocol \<circ> to_init) CHANNELS)"
    by (simp_all add: CHANNELS_def channel_spec_def to_init_def)
  ultimately show ?thesis by (simp add: on_message_def frame_decode_encode_wf [OF wf])
qed

theorem frames_routed_by_type_witness:
  "on_message (fst (session_send (frame_new (Payload.KeyEvent 7 4 Down 0 0) 1 2))) (snd (session_send (frame_new (Payload.KeyEvent 7 4 Down 0 0) 1 2))) =
     Frame InputKeys (frame_new (Payload.KeyEvent 7 4 Down 0 0) 1 2)"
proof -
  have "payload_wf (Payload.KeyEvent 7 4 Down 0 0)" by (simp add: validate_usage_def USAGE_PAGE_KEYBOARD_def)
  from frames_routed_by_type [OF this, of 1 2] show ?thesis by (auto simp: channel_def)
qed

text \<open>However many relays a server announces, at most \<open>MAX_RELAY_POPS\<close> of them are used, the first ones, and
  every server that is not a relay is kept, in order.\<close>

definition relay_server :: "IceServer \<Rightarrow> bool" where
  "relay_server s \<longleftrightarrow> is_username s \<noteq> None"

fun kept_servers :: "nat \<Rightarrow> IceServer list \<Rightarrow> IceServer list" where
  "kept_servers n [] = []"
| "kept_servers n (s # ss) =
     (if relay_server s then (if n = 0 then kept_servers 0 ss else s # kept_servers (n - 1) ss) else s # kept_servers n ss)"

lemma take_servers_eq: "k \<le> MAX_RELAY_POPS \<Longrightarrow> take_servers k ss = map to_rtc_ice_server (kept_servers (MAX_RELAY_POPS - k) ss)"
proof (induction ss arbitrary: k)
  case (Cons s ss)
  have "MAX_RELAY_POPS - Suc k = MAX_RELAY_POPS - k - 1" by simp
  with Cons show ?case by (auto simp: relay_server_def)
qed simp

lemma kept_servers_relays: "filter relay_server (kept_servers n ss) = take n (filter relay_server ss)"
proof (induction ss arbitrary: n)
  case (Cons s ss)
  then show ?case by (cases n) auto
qed simp

lemma kept_servers_others: "filter (\<lambda>s. \<not> relay_server s) (kept_servers n ss) = filter (\<lambda>s. \<not> relay_server s) ss"
  by (induction ss arbitrary: n) auto

theorem relays_capped:
  "\<exists>ss. fst (build_configuration creds pref) = map to_rtc_ice_server ss \<and>
     filter relay_server ss = take MAX_RELAY_POPS (filter relay_server (rc_ice_servers creds)) \<and>
     filter (\<lambda>s. \<not> relay_server s) ss = filter (\<lambda>s. \<not> relay_server s) (rc_ice_servers creds)"
  unfolding build_configuration_def
  by (intro exI [of _ "kept_servers MAX_RELAY_POPS (rc_ice_servers creds)"])
    (simp add: take_servers_eq kept_servers_relays kept_servers_others)

text \<open>Frames that were pushed back come first, in their order, and nothing is lost or duplicated.\<close>

theorem events_in_order:
  "drain_events (length (sq_pending q) + length frames + length (sq_events q)) (push_back_frames frames q) =
     sq_pending q @ map (\<lambda>(c, f). Frame c f) frames @ sq_events q"
proof -
  have ev: "drain_events (length es) \<lparr>sq_pending = [], sq_events = es\<rparr> = es" for es
    by (induction es) (simp_all add: next_event_def)
  have "drain_events (length ps + length es) \<lparr>sq_pending = ps, sq_events = es\<rparr> = ps @ es" for ps es
    by (induction ps) (simp_all add: next_event_def ev)
  from this [of "sq_pending q @ map (\<lambda>(c, f). Frame c f) frames" "sq_events q"] show ?thesis
    by (cases q) (simp add: push_back_frames_def add.assoc)
qed

end
