(* ===== verification/Rda_HostStream.thy ===== *)
theory Rda_HostStream
  imports Rda_Pipeline Rda_Injector Rda_Transport
begin

text \<open>
  The streaming loop of the host, \<open>stream\<close> and \<open>apply_qos\<close> of \<^verbatim>\<open>rda-host/src/serve.rs\<close>: input, keyframe requests,
  viewer reports and ping replies are drained, the link is probed, the telemetry is applied to the encoder, and a
  captured frame is encoded, cut into fragments and sent. Everything the loop calls is the model of its component;
  the input backend, the encoder and the encoder factory are their parameters.

  What the transport delivers before the 1 ms timeout, whether the statistics are due, whether the path is
  relayed and which frame the capture thread has ready are arguments of an iteration. \<open>hs_out\<close> records the
  frames handed to the transport, \<open>send_ok\<close> says which sends succeed, as a function of what was sent before;
  a frame on a full link that times out counts as failed. Iterations are \<open>option\<close>-valued because the pipeline is
  (an index out of range in the conversion).
\<close>

record ('b, 'e) HostStream =
  hs_telemetry :: LinkTelemetry
  hs_estimator :: BitrateEstimator
  hs_injector :: "'b Injector"
  hs_pipeline :: "'e Pipeline"
  hs_sent :: u64
  hs_bytes :: u64
  hs_received_input :: u64
  hs_reports_in :: u64
  hs_keyframe_requests :: u64
  hs_ping_token :: u32
  hs_ping_sent :: "(u32 \<times> u64) list"
  hs_seq :: u16
  hs_frame_id :: u32
  hs_closed :: bool
  hs_out :: "ControlFrame list"

definition host_stream_new :: "u32 \<Rightarrow> 'b Injector \<Rightarrow> 'e Pipeline \<Rightarrow> ('b, 'e) HostStream" where
  "host_stream_new bitrate_bps injector pipeline =
     (let estimator = bitrate_new bitrate_bps
      in \<lparr>hs_telemetry = link_telemetry_new\<lparr>lt_bwe_bps := be_estimate_bps estimator\<rparr>, hs_estimator = estimator,
          hs_injector = injector, hs_pipeline = pipeline, hs_sent = 0, hs_bytes = 0, hs_received_input = 0, hs_reports_in = 0,
          hs_keyframe_requests = 0, hs_ping_token = 0, hs_ping_sent = [], hs_seq = 0, hs_frame_id = 0, hs_closed = False,
          hs_out = []\<rparr>)"

subsection \<open>Viewer reports\<close>

definition apply_qos :: "QosReport \<Rightarrow> u64 \<Rightarrow> LinkTelemetry \<Rightarrow> BitrateEstimator \<Rightarrow> LinkTelemetry \<times> BitrateEstimator" where
  "apply_qos report now_ms t e =
     (let lost = ucast (min (qos_loss_permille report) 1000) :: u32;
          t = t\<lparr>lt_loss := loss_sample (1000 - lost) lost now_ms (lt_loss t)\<rparr>;
          t = t\<lparr>lt_jitter := jitter_sample (ucast (qos_jitter_ms report)) now_ms (lt_jitter t)\<rparr>;
          t = t\<lparr>lt_frames := (lt_frames t)\<lparr>fs_decoded := ucast (qos_frames_decoded report),
                                          fs_dropped := ucast (qos_frames_dropped report)\<rparr>\<rparr>;
          t = t\<lparr>lt_playout_delay_ms := ucast (qos_playout_delay_ms report)\<rparr>;
          e = observe_delay (ucast (qos_playout_delay_ms report)) e;
          e = bitrate_update (loss_fraction (lt_loss t)) now_ms e
      in (t\<lparr>lt_bwe_bps := be_estimate_bps e\<rparr>, e))"

subsection \<open>Inbound events\<close>

text \<open>\<open>HashMap::remove\<close> of a token.\<close>

definition on_pong :: "u32 \<Rightarrow> u16 \<Rightarrow> u64 \<Rightarrow> ('b, 'e) HostStream \<Rightarrow> ('b, 'e) HostStream" where
  "on_pong token host_delay_us now_ms hs = (case map_of (hs_ping_sent hs) token of
       None \<Rightarrow> hs
     | Some sent \<Rightarrow>
         let elapsed = saturating_sub now_ms sent;
             peer_delay_ms = ucast host_delay_us div 1000;
             t = hs_telemetry hs
         in hs\<lparr>hs_ping_sent := filter (\<lambda>(k, _). k \<noteq> token) (hs_ping_sent hs),
               hs_telemetry := t\<lparr>lt_rtt := rtt_sample (ucast (saturating_sub elapsed peer_delay_ms)) now_ms (lt_rtt t)\<rparr>\<rparr>)"

definition on_keyframe_request :: "'e VideoEncoder \<Rightarrow> KeyframeMode \<Rightarrow> u8 \<Rightarrow> u64 \<Rightarrow> ('b, 'e) HostStream \<Rightarrow> ('b, 'e) HostStream" where
  "on_keyframe_request ops mode ltr_index now_ms hs =
     (let receiver_ltr = (if mode = KeyframeMode.Ltr then Some ltr_index else None);
          (_, pipeline) = pipeline_on_recovery_request ops receiver_ltr now_ms (hs_pipeline hs)
      in hs\<lparr>hs_keyframe_requests := hs_keyframe_requests hs + 1, hs_pipeline := pipeline\<rparr>)"

definition on_input :: "'b Backend \<Rightarrow> SessionGrant \<Rightarrow> ControlFrame \<Rightarrow> u64 \<Rightarrow> ('b, 'e) HostStream \<Rightarrow> ('b, 'e) HostStream" where
  "on_input B grant frame now_ms hs =
     hs\<lparr>hs_received_input := hs_received_input hs + 1, hs_injector := snd (injector_apply B grant frame now_ms (hs_injector hs))\<rparr>"

definition on_stats :: "ControlFrame \<Rightarrow> u64 \<Rightarrow> ('b, 'e) HostStream \<Rightarrow> ('b, 'e) HostStream" where
  "on_stats frame now_ms hs = (case cf_payload frame of
       QosReport report \<Rightarrow>
         let (t, e) = apply_qos report now_ms (hs_telemetry hs) (hs_estimator hs)
         in hs\<lparr>hs_reports_in := hs_reports_in hs + 1, hs_telemetry := t, hs_estimator := e\<rparr>
     | _ \<Rightarrow> hs)"

definition on_control :: "'e VideoEncoder \<Rightarrow> ControlFrame \<Rightarrow> u64 \<Rightarrow> ('b, 'e) HostStream \<Rightarrow> ('b, 'e) HostStream" where
  "on_control ops frame now_ms hs = (case cf_payload frame of
       RequestKeyframe mode ltr_index reason \<Rightarrow> on_keyframe_request ops mode ltr_index now_ms hs
     | Pong token host_delay_us \<Rightarrow> on_pong token host_delay_us now_ms hs
     | _ \<Rightarrow> hs)"

text \<open>The \<open>match\<close> of the drain loop. \<open>None\<close> is the end of the event stream.\<close>

definition host_event :: "'b Backend \<Rightarrow> 'e VideoEncoder \<Rightarrow> SessionGrant \<Rightarrow> u64 \<Rightarrow> TransportEvent option \<Rightarrow> ('b, 'e) HostStream \<Rightarrow> ('b, 'e) HostStream" where
  "host_event B ops grant now_ms event hs = (case event of
       Some (Frame InputKeys frame) \<Rightarrow> on_input B grant frame now_ms hs
     | Some (Frame InputPointer frame) \<Rightarrow> on_input B grant frame now_ms hs
     | Some (Frame Stats frame) \<Rightarrow> on_stats frame now_ms hs
     | Some (Frame Control frame) \<Rightarrow> on_control ops frame now_ms hs
     | Some Closed \<Rightarrow> hs\<lparr>hs_closed := True\<rparr>
     | None \<Rightarrow> hs\<lparr>hs_closed := True\<rparr>
     | Some _ \<Rightarrow> hs)"

text \<open>Draining what arrives before the timeout; a closed session leaves the loop.\<close>

fun host_drain :: "'b Backend \<Rightarrow> 'e VideoEncoder \<Rightarrow> SessionGrant \<Rightarrow> u64 \<Rightarrow> TransportEvent option list \<Rightarrow> ('b, 'e) HostStream \<Rightarrow> ('b, 'e) HostStream" where
  "host_drain B ops grant now_ms [] hs = hs"
| "host_drain B ops grant now_ms (event # events) hs =
     (let hs = host_event B ops grant now_ms event hs
      in if event = None \<or> event = Some Closed then hs else host_drain B ops grant now_ms events hs)"

subsection \<open>Probing the link\<close>

definition host_poll :: "bool \<Rightarrow> u64 \<Rightarrow> ('b, 'e) HostStream \<Rightarrow> ('b, 'e) HostStream" where
  "host_poll relayed now_ms hs =
     (let token = hs_ping_token hs + 1;
          pings = (token, now_ms) # filter (\<lambda>(k, _). k \<noteq> token) (hs_ping_sent hs);
          ping = frame_new (Ping token) (hs_seq hs) (ucast now_ms)
      in hs\<lparr>hs_telemetry := (hs_telemetry hs)\<lparr>lt_relayed := relayed\<rparr>, hs_ping_token := token,
            hs_ping_sent := filter (\<lambda>(_, sent). saturating_sub now_ms sent < 10000) pings,
            hs_seq := hs_seq hs + 1, hs_out := hs_out hs @ [ping]\<rparr>)"

subsection \<open>Sending video\<close>

definition kind_code :: "FrameKind \<Rightarrow> u8" where
  "kind_code k = (case k of Delta \<Rightarrow> 0 | Keyframe \<Rightarrow> 1 | LtrRecovery \<Rightarrow> 2)"

text \<open>The fragments of a frame, until a send fails, which closes the session.\<close>

fun send_fragments :: "(ControlFrame list \<Rightarrow> bool) \<Rightarrow> u64 \<Rightarrow> Payload list \<Rightarrow> ('b, 'e) HostStream \<Rightarrow> bool \<times> ('b, 'e) HostStream" where
  "send_fragments send_ok now_ms [] hs = (True, hs)"
| "send_fragments send_ok now_ms (fragment # fragments) hs =
     (let wire = frame_new fragment (hs_seq hs) (ucast now_ms);
          hs = hs\<lparr>hs_seq := hs_seq hs + 1, hs_bytes := hs_bytes hs + word_of_nat (length (frame_encode wire)),
                  hs_out := hs_out hs @ [wire]\<rparr>
      in if send_ok (hs_out hs) then send_fragments send_ok now_ms fragments hs
         else (False, hs\<lparr>hs_closed := True\<rparr>))"

definition send_encoded :: "(ControlFrame list \<Rightarrow> bool) \<Rightarrow> u64 \<Rightarrow> EncodedFrame \<Rightarrow> ('b, 'e) HostStream \<Rightarrow> ('b, 'e) HostStream" where
  "send_encoded send_ok now_ms encoded hs =
     (if length (ef_data encoded) > MAX_VIDEO_FRAME then hs
      else let fragments = fragment_video (hs_frame_id hs) (kind_code (ef_kind encoded)) (ef_temporal_layer encoded)
                             (ef_pts_us encoded) (ef_data encoded);
               (whole, hs) = send_fragments send_ok now_ms fragments (hs\<lparr>hs_frame_id := hs_frame_id hs + 1\<rparr>)
           in if whole then hs\<lparr>hs_sent := hs_sent hs + 1\<rparr> else hs)"

text \<open>One iteration of the loop. A frame the pipeline refuses ends the iteration.\<close>

definition host_iteration ::
  "'b Backend \<Rightarrow> 'e VideoEncoder \<Rightarrow> 'e encoder_factory \<Rightarrow> SessionGrant \<Rightarrow> (ControlFrame list \<Rightarrow> bool) \<Rightarrow> u64 \<Rightarrow>
   TransportEvent option list \<Rightarrow> bool option \<Rightarrow> Frame option \<Rightarrow> ('b, 'e) HostStream \<Rightarrow> ('b, 'e) HostStream option" where
  "host_iteration B ops factory grant send_ok now_ms events stats_due captured hs =
     (let hs = host_drain B ops grant now_ms events hs;
          hs = (case stats_due of Some relayed \<Rightarrow> host_poll relayed now_ms hs | None \<Rightarrow> hs);
          hs = hs\<lparr>hs_pipeline := snd (apply_telemetry ops factory (hs_telemetry hs) now_ms (hs_pipeline hs))\<rparr>
      in case captured of
           None \<Rightarrow> Some hs
         | Some frame \<Rightarrow>
             (case pipeline_step ops frame now_ms (hs_pipeline hs) of
                None \<Rightarrow> None
              | Some (Inl _, p) \<Rightarrow> Some (hs\<lparr>hs_pipeline := p\<rparr>)
              | Some (Inr outcome, p) \<Rightarrow>
                  Some (fold (send_encoded send_ok now_ms) (outcome_frames outcome) (hs\<lparr>hs_pipeline := p\<rparr>))))"

subsection \<open>What is sent\<close>

text \<open>The frames of a list of payloads, numbered from a sequence number on.\<close>

fun numbered :: "u16 \<Rightarrow> u32 \<Rightarrow> Payload list \<Rightarrow> ControlFrame list" where
  "numbered s ts [] = []"
| "numbered s ts (p # ps) = frame_new p s ts # numbered (s + 1) ts ps"

lemma send_fragments_all:
  assumes "\<forall>out. send_ok out"
  shows "\<exists>hs'. send_fragments send_ok now ps hs = (True, hs') \<and> hs_out hs' = hs_out hs @ numbered (hs_seq hs) (ucast now) ps \<and>
    hs_seq hs' = hs_seq hs + word_of_nat (length ps) \<and> hs_sent hs' = hs_sent hs \<and> hs_frame_id hs' = hs_frame_id hs \<and>
    hs_closed hs' = hs_closed hs"
proof (induction ps arbitrary: hs)
  case (Cons p ps)
  let ?w = "frame_new p (hs_seq hs) (ucast now)"
  from Cons [of "hs\<lparr>hs_seq := hs_seq hs + 1, hs_bytes := hs_bytes hs + word_of_nat (length (frame_encode ?w)), hs_out := hs_out hs @ [?w]\<rparr>"]
  show ?case using assms by (auto simp: Let_def algebra_simps)
qed simp

lemma send_encoded_all:
  assumes "\<forall>out. send_ok out" "length (ef_data e) \<le> MAX_VIDEO_FRAME"
  shows "hs_out (send_encoded send_ok now e hs) = hs_out hs @
      numbered (hs_seq hs) (ucast now) (fragment_video (hs_frame_id hs) (kind_code (ef_kind e)) (ef_temporal_layer e) (ef_pts_us e) (ef_data e)) \<and>
    hs_sent (send_encoded send_ok now e hs) = hs_sent hs + 1 \<and> hs_frame_id (send_encoded send_ok now e hs) = hs_frame_id hs + 1 \<and>
    hs_seq (send_encoded send_ok now e hs) = hs_seq hs + word_of_nat (length (video_chunks (ef_data e)))"
  using send_fragments_all [OF assms(1), of now
      "fragment_video (hs_frame_id hs) (kind_code (ef_kind e)) (ef_temporal_layer e) (ef_pts_us e) (ef_data e)"
      "hs\<lparr>hs_frame_id := hs_frame_id hs + 1\<rparr>"] assms(2)
  by (auto simp: send_encoded_def length_fragment_video)

lemma length_numbered [simp]: "length (numbered s ts ps) = length ps"
  by (induction ps arbitrary: s) auto

lemma numbered_nth: "i < length ps \<Longrightarrow> numbered s ts ps ! i = frame_new (ps ! i) (s + word_of_nat i) ts"
proof (induction ps arbitrary: s i)
  case (Cons p ps)
  then show ?case by (cases i) (auto simp: algebra_simps)
qed simp

lemma kind_code_inverse [simp]: "frame_kind_of (kind_code k) = k"
  by (cases k) (simp_all add: kind_code_def frame_kind_of_def)

lemma kind_code_le: "kind_code k \<le> 2"
  by (cases k) (simp_all add: kind_code_def)

lemma fragment_payload_wf:
  assumes "length d \<le> MAX_VIDEO_FRAME" "k \<le> 2" "i < length (fragment_video n k l p d)"
  shows "payload_wf (fragment_video n k l p d ! i)"
proof -
  let ?cs = "video_chunks d"
  have i: "i < length ?cs" using assms(3) by (simp add: length_fragment_video)
  have len: "length ?cs \<le> 128"
    using assms(1) div_le_mono [of "16383 + length d" "16383 + 2097152" 16384]
    by (simp add: video_chunks_def length_chunks MAX_VIDEO_FRAGMENT_def MAX_VIDEO_FRAME_def)
  have c: "length (?cs ! i) \<le> MAX_VIDEO_FRAGMENT"
  proof (cases "d = []")
    case False
    then have "?cs ! i \<in> set (chunks MAX_VIDEO_FRAGMENT d)" using i by (simp add: video_chunks_def)
    then show ?thesis by (rule chunks_bound [THEN conjunct1])
  qed (use i in \<open>simp add: video_chunks_def\<close>)
  have u: "unat (word_of_nat n :: u16) = n" if "n \<le> 128" for n
    using that by (simp add: unat_of_nat take_bit_nat_eq_self)
  have ne: "(word_of_nat (length ?cs) :: u16) \<noteq> 0"
    using u [OF len] i by (metis less_nat_zero_code unat_0)
  show ?thesis
    using assms(2) i len c ne u [of i] u [OF len]
    by (simp add: nth_fragment_video nth_fragment_def MAX_VIDEO_FRAGMENTS_eq word_le_nat_alt word_less_nat_alt)
qed

subsection \<open>Viewer reports stay in their place\<close>

fun qos_run :: "(QosReport \<times> u64) list \<Rightarrow> LinkTelemetry \<times> BitrateEstimator \<Rightarrow> LinkTelemetry \<times> BitrateEstimator" where
  "qos_run [] te = te"
| "qos_run ((r, now) # rs) te = qos_run rs (apply_qos r now (fst te) (snd te))"

text \<open>Whatever a viewer reports, in whatever order and with whatever clock, the host's bandwidth estimate stays in
  the range of the estimator, and the telemetry it steers by is that estimate.\<close>

theorem reports_keep_estimate_in_range:
  assumes "rs \<noteq> []"
  shows "MIN_BITRATE_BPS \<le> lt_bwe_bps (fst (qos_run rs (t, bitrate_new initial))) \<and>
    lt_bwe_bps (fst (qos_run rs (t, bitrate_new initial))) \<le> MAX_BITRATE_BPS \<and>
    lt_bwe_bps (fst (qos_run rs (t, bitrate_new initial))) = be_estimate_bps (snd (qos_run rs (t, bitrate_new initial)))"
proof -
  have "bitrate_ok (snd (qos_run rs (t, e))) \<and> (rs \<noteq> [] \<longrightarrow> lt_bwe_bps (fst (qos_run rs (t, e))) = be_estimate_bps (snd (qos_run rs (t, e))))"
    if "bitrate_ok e" for e
    using that
  proof (induction rs arbitrary: t e)
    case (Cons r rs)
    obtain q now where r: "r = (q, now)" by fastforce
    obtain t' e' where te: "apply_qos q now t e = (t', e')" by fastforce
    then have "bitrate_ok e'" "lt_bwe_bps t' = be_estimate_bps e'"
      using Cons.prems by (auto simp: apply_qos_def Let_def intro: bitrate_ok_keeps)
    with Cons.IH [of e' t'] te r show ?case by (cases rs) auto
  qed simp
  from this [OF bitrate_ok_keeps(1)] assms show ?thesis by (auto simp: bitrate_ok_def)
qed

theorem reports_keep_estimate_in_range_witness:
  "lt_bwe_bps (fst (qos_run [(\<lparr>qos_rtt_ms = 0, qos_jitter_ms = 0, qos_loss_permille = 60000, qos_frames_decoded = 0,
     qos_frames_dropped = 0, qos_render_fps_q8 = 0, qos_playout_delay_ms = 40, qos_decode_time_us = 0\<rparr>, 0)]
     (link_telemetry_new, bitrate_new 4000000))) \<le> MAX_BITRATE_BPS"
  using reports_keep_estimate_in_range [of "[(\<lparr>qos_rtt_ms = 0, qos_jitter_ms = 0, qos_loss_permille = 60000,
     qos_frames_decoded = 0, qos_frames_dropped = 0, qos_render_fps_q8 = 0, qos_playout_delay_ms = 40, qos_decode_time_us = 0\<rparr>, 0)]"
     link_telemetry_new 4000000]
  by blast

subsection \<open>Input of the stream\<close>

lemma host_event_injector:
  "hs_injector (host_event B ops grant now ev hs) =
     (case ev of Some (Frame c fr) \<Rightarrow>
        if c = InputKeys \<or> c = InputPointer then snd (injector_apply B grant fr now (hs_injector hs)) else hs_injector hs
      | _ \<Rightarrow> hs_injector hs)"
  by (auto simp: host_event_def on_input_def on_stats_def on_control_def on_keyframe_request_def on_pong_def Let_def
      split: option.split TransportEvent.split Channel.split Payload.split prod.split)

lemma host_poll_injector [simp]: "hs_injector (host_poll r now hs) = hs_injector hs"
  by (simp add: host_poll_def Let_def)

lemma send_fragments_injector: "hs_injector (snd (send_fragments ok now ps hs)) = hs_injector hs"
  by (induction ps arbitrary: hs) (simp_all add: Let_def)

lemma send_encoded_injector [simp]: "hs_injector (send_encoded ok now e hs) = hs_injector hs"
  by (simp add: send_encoded_def Let_def case_prod_beta send_fragments_injector)

lemma sends_injector: "hs_injector (fold (send_encoded ok now) es hs) = hs_injector hs"
  by (induction es arbitrary: hs) simp_all

text \<open>What an iteration does to the injector is to apply, in order, the input frames that were delivered.\<close>

definition input_frames :: "TransportEvent option list \<Rightarrow> ControlFrame list" where
  "input_frames events = concat (map (\<lambda>ev. case ev of
       Some (Frame c fr) \<Rightarrow> if c = InputKeys \<or> c = InputPointer then [fr] else [] | _ \<Rightarrow> [])
     (takeWhile (\<lambda>ev. ev \<noteq> None \<and> ev \<noteq> Some Closed) events))"

definition apply_inputs :: "'b Backend \<Rightarrow> SessionGrant \<Rightarrow> u64 \<Rightarrow> ControlFrame list \<Rightarrow> 'b Injector \<Rightarrow> 'b Injector" where
  "apply_inputs B grant now frames ij = fold (\<lambda>fr ij. snd (injector_apply B grant fr now ij)) frames ij"

lemma host_drain_injector:
  "hs_injector (host_drain B ops grant now events hs) = apply_inputs B grant now (input_frames events) (hs_injector hs)"
proof (induction events arbitrary: hs)
  case (Cons ev events)
  then show ?case
    by (auto simp: Let_def input_frames_def apply_inputs_def host_event_injector split: option.split TransportEvent.split)
qed (simp add: input_frames_def apply_inputs_def)

lemma injector_not_granted:
  assumes "\<not> cap_input (g_caps grant)"
  shows "ij_backend (snd (injector_apply B grant fr now ij)) = ij_backend ij \<and> ij_keys (snd (injector_apply B grant fr now ij)) = ij_keys ij"
proof (cases "apply_arm B grant now (cf_payload fr)")
  case (Some arm)
  have "arm ij = (Inl InputNotGranted, count_refused ij)"
    using apply_arm_not_granted [OF _ Some] assms by (simp add: may_inject_input_def)
  with Some show ?thesis by (simp add: injector_apply_def sbind_def count_refused_def)
qed (simp add: injector_apply_def count_refused_def)

text \<open>In one iteration of the streaming loop the input frames delivered before the end of the event stream go
  through the guarded injector, in order, and nothing else of the iteration touches it. With a grant that lacks
  the input permission, the machine's input devices and key state are left alone whatever arrives.\<close>

theorem stream_input_guarded:
  assumes "host_iteration B ops factory grant send_ok now events due captured hs = Some hs'"
  shows "hs_injector hs' = apply_inputs B grant now (input_frames events) (hs_injector hs) \<and>
    (cap_input (g_caps grant) \<or>
     ij_backend (hs_injector hs') = ij_backend (hs_injector hs) \<and> ij_keys (hs_injector hs') = ij_keys (hs_injector hs))"
proof -
  have "hs_injector hs' = hs_injector (host_drain B ops grant now events hs)"
    using assms by (auto simp: host_iteration_def Let_def sends_injector split: option.splits prod.splits sum.splits)
  then have eq: "hs_injector hs' = apply_inputs B grant now (input_frames events) (hs_injector hs)"
    by (simp add: host_drain_injector)
  moreover have "ij_backend (apply_inputs B grant now frames ij) = ij_backend ij \<and> ij_keys (apply_inputs B grant now frames ij) = ij_keys ij"
    if "\<not> cap_input (g_caps grant)" for frames ij
  proof (induction frames arbitrary: ij)
    case (Cons fr frames)
    with injector_not_granted [OF that, of B fr now ij] show ?case by (simp add: apply_inputs_def)
  qed (simp add: apply_inputs_def)
  ultimately show ?thesis by metis
qed

text \<open>The end of a session releases nothing: a viewer that presses a key and disconnects leaves the loop closed and
  the key down on the machine.\<close>

theorem stream_leaves_key_down:
  assumes "hs_injector hs = injector_new recording_default []"
  shows "hs_closed (host_drain recording_backend ops (grant_issue ''s'' (DeviceId ''000000000000'') (view_only\<lparr>cap_input := True\<rparr>) SessionPin 0) 5
      [Some (Frame InputKeys (frame_new (Payload.KeyEvent 7 4 Down 0 0) 1 1)), Some Closed] hs) \<and>
    recording_keys (ij_backend (hs_injector (host_drain recording_backend ops
      (grant_issue ''s'' (DeviceId ''000000000000'') (view_only\<lparr>cap_input := True\<rparr>) SessionPin 0) 5
      [Some (Frame InputKeys (frame_new (Payload.KeyEvent 7 4 Down 0 0) 1 1)), Some Closed] hs))) = [(4, True)]"
proof -
  let ?g = "grant_issue ''s'' (DeviceId ''000000000000'') (view_only\<lparr>cap_input := True\<rparr>) SessionPin 0"
  let ?fr = "frame_new (Payload.KeyEvent 7 4 Down 0 0) 1 1"
  have "recording_keys (ij_backend (snd (injector_apply recording_backend ?g ?fr 5 (injector_new recording_default [])))) = [(4, True)]"
    by code_simp
  moreover have "input_frames [Some (Frame InputKeys ?fr), Some Closed] = [?fr]"
    by (simp add: input_frames_def)
  ultimately show ?thesis
    using assms unfolding host_drain_injector by (simp add: apply_inputs_def host_event_def)
qed

end
