(* ===== verification/Rda_Decoder.thy ===== *)
theory Rda_Decoder
  imports Rda_Prelude
begin

text \<open>
  The viewer's decoder side, \<^verbatim>\<open>rda-decode/src/decoder.rs\<close> and \<^verbatim>\<open>backend/software.rs\<close>: decoded pictures and their
  geometry check, decoding errors, the decoder trait as a record of its methods, the splitting of an Annex B
  byte stream into NAL units, and the software decoder around the openh264 library. openh264 is a record of
  the calls the code makes on it; what the code relies on, that \<open>write_rgba8\<close> fills the buffer it is given, is
  the hypothesis \<open>openh264_ok\<close>.

  The splitting loop scans by index, as the code does (\<open>annex_scan\<close>); \<open>code_starts\<close> is its reading on the
  remaining bytes, over which the round trip is proved: a stream composed of units behind start codes of
  either length is split into exactly these units.
\<close>

subsection \<open>Decoded pictures and errors\<close>

record DecodedFrame =
  df_data :: "u8 list"
  df_width :: u32
  df_height :: u32
  df_stride :: nat
  df_pts_us :: u64
  df_sequence :: u64

definition is_consistent :: "DecodedFrame \<Rightarrow> bool" where
  "is_consistent f \<longleftrightarrow>
     df_width f > 0 \<and> df_height f > 0 \<and> df_stride f \<ge> unat (df_width f) * 4 \<and>
     length (df_data f) \<ge> df_stride f * unat (df_height f)"

datatype VideoError =
    DecoderUnavailable string
  | AwaitingParameterSets
  | MalformedBitstream string
  | DecodeFailed string
  | FormatChanged
  | DecoderUnsupported

definition is_recoverable :: "VideoError \<Rightarrow> bool" where
  "is_recoverable e = (case e of AwaitingParameterSets \<Rightarrow> True | MalformedBitstream _ \<Rightarrow> True
                       | FormatChanged \<Rightarrow> True | _ \<Rightarrow> False)"

definition wants_keyframe :: "VideoError \<Rightarrow> bool" where
  "wants_keyframe e = (case e of AwaitingParameterSets \<Rightarrow> True | MalformedBitstream _ \<Rightarrow> True
                       | FormatChanged \<Rightarrow> True | _ \<Rightarrow> False)"

text \<open>The trait: data, timestamp and whether the frame is a keyframe; \<open>reset\<close> drops the decoder's state.\<close>

record 'd VideoDecoder =
  vd_decode :: "u8 list \<Rightarrow> u64 \<Rightarrow> bool \<Rightarrow> ('d, VideoError, DecodedFrame list) st"
  vd_reset :: "'d \<Rightarrow> 'd"

subsection \<open>Annex B\<close>

text \<open>The \<open>while\<close> loop from index \<open>i\<close>: offsets and lengths of the start codes.\<close>

function annex_scan :: "u8 list \<Rightarrow> nat \<Rightarrow> (nat \<times> nat) list" where
  "annex_scan data i =
     (if \<not> i + 3 \<le> length data then []
      else if data ! i = 0 \<and> data ! (i + 1) = 0 \<and> data ! (i + 2) = 1
        then (i, 3) # annex_scan data (i + 3)
      else if data ! i = 0 \<and> data ! (i + 1) = 0 \<and> i + 4 \<le> length data \<and> data ! (i + 2) = 0 \<and> data ! (i + 3) = 1
        then (i, 4) # annex_scan data (i + 4)
      else annex_scan data (i + 1))"
  by pat_completeness auto
termination by (relation "measure (\<lambda>(data, i). length data - i)") auto

declare annex_scan.simps [simp del]

text \<open>The second loop: the body of each unit ends where the next start code begins.\<close>

fun annex_units :: "u8 list \<Rightarrow> (nat \<times> nat) list \<Rightarrow> u8 list list" where
  "annex_units data [] = []"
| "annex_units data ((offset, code_len) # starts) =
     (let body = offset + code_len;
          stop = (case starts of [] \<Rightarrow> length data | (nxt, _) # _ \<Rightarrow> nxt)
      in (if body < stop then [take (stop - body) (drop body data)] else []) @ annex_units data starts)"

definition split_annex_b :: "u8 list \<Rightarrow> u8 list list" where
  "split_annex_b data = annex_units data (annex_scan data 0)"

definition nal_type :: "u8 list \<Rightarrow> u8 option" where
  "nal_type u = (case u of [] \<Rightarrow> None | b # _ \<Rightarrow> Some (b AND 0x1F))"

definition NAL_SPS :: u8 where "NAL_SPS = 7"
definition NAL_PPS :: u8 where "NAL_PPS = 8"
definition NAL_IDR :: u8 where "NAL_IDR = 5"

definition has_parameter_sets :: "u8 list \<Rightarrow> bool" where
  "has_parameter_sets data =
     (let units = split_annex_b data
      in list_ex (\<lambda>t. t = NAL_SPS) (List.map_filter nal_type units) \<and>
         list_ex (\<lambda>t. t = NAL_PPS) (List.map_filter nal_type units))"

subsection \<open>The software decoder\<close>

record picture =
  pic_dimensions :: "nat \<times> nat"
  pic_write_rgba8 :: "u8 list \<Rightarrow> u8 list"

record 'o openh264 =
  oh_new :: "string + 'o"
  oh_decode :: "u8 list \<Rightarrow> ('o, string, picture option) st"

record 'o SoftwareDecoder =
  sw_decoder :: 'o
  sw_geometry :: "(u32 \<times> u32) option"
  sw_sequence :: u64

definition software_new :: "'o openh264 \<Rightarrow> VideoError + 'o SoftwareDecoder" where
  "software_new oh = (case oh_new oh of
       Inl e \<Rightarrow> Inl (DecoderUnavailable e)
     | Inr d \<Rightarrow> Inr \<lparr>sw_decoder = d, sw_geometry = None, sw_sequence = 0\<rparr>)"

text \<open>\<open>str::contains\<close>, and \<open>px.swap(0, 2)\<close> on every group of four bytes.\<close>

fun str_contains :: "string \<Rightarrow> string \<Rightarrow> bool" where
  "str_contains [] pat = (pat = [])"
| "str_contains (c # cs) pat = (take (length pat) (c # cs) = pat \<or> str_contains cs pat)"

fun swap_red_blue :: "u8 list \<Rightarrow> u8 list" where
  "swap_red_blue (a # b # c # d # px) = c # b # a # d # swap_red_blue px"
| "swap_red_blue px = px"

text \<open>The buffer is fresh on every call, since the previous one was taken by the frame it went into.\<close>

definition software_decode :: "'o openh264 \<Rightarrow> u8 list \<Rightarrow> u64 \<Rightarrow> bool \<Rightarrow> ('o SoftwareDecoder, VideoError, DecodedFrame list) st" where
  "software_decode oh data pts_us is_keyframe sw =
     (if data = [] then (Inr [], sw)
      else case oh_decode oh data (sw_decoder sw) of
        (Inr None, d) \<Rightarrow> (Inr [], sw\<lparr>sw_decoder := d\<rparr>)
      | (Inl message, d) \<Rightarrow>
          (if sw_geometry sw = None \<or> str_contains message ''Native:18'' \<or> str_contains message ''Native:16''
              \<or> str_contains message ''Native:2''
           then (Inl AwaitingParameterSets, sw\<lparr>sw_decoder := d\<rparr>)
           else (Inl (DecodeFailed message), sw\<lparr>sw_decoder := d\<rparr>))
      | (Inr (Some pic), d) \<Rightarrow>
          (let width = word_of_nat (fst (pic_dimensions pic)) :: u32;
               height = word_of_nat (snd (pic_dimensions pic)) :: u32;
               previous = sw_geometry sw;
               sw = sw\<lparr>sw_decoder := d, sw_geometry := Some (width, height)\<rparr>
           in if previous \<noteq> None \<and> previous \<noteq> Some (width, height) then (Inl FormatChanged, sw)
              else let pixels = unat width * unat height;
                       scratch = pic_write_rgba8 pic (replicate (pixels * 4) 0);
                       sw = sw\<lparr>sw_sequence := sw_sequence sw + 1\<rparr>
                   in (Inr [\<lparr>df_data = swap_red_blue scratch, df_width = width, df_height = height,
                             df_stride = unat width * 4, df_pts_us = pts_us, df_sequence = sw_sequence sw\<rparr>], sw)))"

definition software_reset :: "'o openh264 \<Rightarrow> 'o SoftwareDecoder \<Rightarrow> 'o SoftwareDecoder" where
  "software_reset oh sw =
     (let sw = (case oh_new oh of Inr d \<Rightarrow> sw\<lparr>sw_decoder := d\<rparr> | Inl _ \<Rightarrow> sw)
      in sw\<lparr>sw_geometry := None\<rparr>)"

definition software_decoder :: "'o openh264 \<Rightarrow> ('o SoftwareDecoder) VideoDecoder" where
  "software_decoder oh = \<lparr>vd_decode = software_decode oh, vd_reset = software_reset oh\<rparr>"

subsection \<open>The scan over the remaining bytes\<close>

fun code_starts :: "nat \<Rightarrow> u8 list \<Rightarrow> (nat \<times> nat) list" where
  "code_starts off (a # b # c # xs) =
     (if a = 0 \<and> b = 0 \<and> c = 1 then (off, 3) # code_starts (off + 3) xs
      else if a = 0 \<and> b = 0 \<and> c = 0 \<and> xs \<noteq> [] \<and> hd xs = 1 then (off, 4) # code_starts (off + 4) (tl xs)
      else code_starts (off + 1) (b # c # xs))"
| "code_starts off _ = []"

lemma code_starts_short: "length xs < 3 \<Longrightarrow> code_starts off xs = []"
  by (cases "(off, xs)" rule: code_starts.cases) auto

lemma drop_three:
  assumes "i + 3 \<le> length xs"
  shows "drop i xs = xs ! i # xs ! (i + 1) # xs ! (i + 2) # drop (i + 3) xs"
  using assms by (simp add: Cons_nth_drop_Suc numeral_3_eq_3)

lemma annex_scan_eq: "annex_scan data i = code_starts i (drop i data)"
proof (induction data i rule: annex_scan.induct)
  case (1 data i)
  show ?case
  proof (cases "i + 3 \<le> length data")
    case False
    then show ?thesis by (subst annex_scan.simps) (simp add: code_starts_short)
  next
    case True
    note d = drop_three [OF True]
    have four: "drop (i + 3) data \<noteq> [] \<longleftrightarrow> i + 4 \<le> length data" by auto
    have hd: "hd (drop (i + 3) data) = data ! (i + 3)" if "i + 4 \<le> length data"
      using that by (simp add: hd_drop_conv_nth)
    have tl: "tl (drop (i + 3) data) = drop (i + 4) data" by (simp add: tl_drop drop_Suc [symmetric] numeral_eq_Suc)
    have next1: "drop (i + 1) data = data ! (i + 1) # data ! (i + 2) # drop (i + 3) data"
      using True by (simp add: Cons_nth_drop_Suc numeral_3_eq_3)
    show ?thesis
      using 1 True d four hd tl next1 by (subst annex_scan.simps) auto
  qed
qed

text \<open>No start code inside, and a last byte that is not zero: what the H.264 emulation prevention and trailing
  bits guarantee of a unit.\<close>

fun no_code :: "u8 list \<Rightarrow> bool" where
  "no_code (a # b # c # xs) \<longleftrightarrow> \<not> (a = 0 \<and> b = 0 \<and> c = 1) \<and> no_code (b # c # xs)"
| "no_code _ \<longleftrightarrow> True"

definition nal_body :: "u8 list \<Rightarrow> bool" where
  "nal_body u \<longleftrightarrow> u \<noteq> [] \<and> last u \<noteq> 0 \<and> no_code u"

definition start_code :: "bool \<Rightarrow> u8 list" where
  "start_code four = (if four then [0, 0, 0, 1] else [0, 0, 1])"

fun annex_b :: "(bool \<times> u8 list) list \<Rightarrow> u8 list" where
  "annex_b [] = []"
| "annex_b ((four, u) # us) = start_code four @ u @ annex_b us"

lemma no_code_Cons: "no_code (a # xs) \<Longrightarrow> no_code xs"
  by (cases "a # xs" rule: no_code.cases) auto

lemma code_starts_no_code: "no_code u \<Longrightarrow> code_starts off u = []"
proof (induction off u rule: code_starts.induct)
  case (1 off a b c xs)
  then show ?case by (cases xs) (auto split: if_splits)
qed simp_all

lemma code_starts_code [simp]:
  "code_starts off (start_code four @ xs) = (off, length (start_code four)) # code_starts (off + length (start_code four)) xs"
  by (cases four) (simp_all add: start_code_def numeral_eq_Suc)

lemma code_starts_body:
  "no_code u \<Longrightarrow> u \<noteq> [] \<Longrightarrow> last u \<noteq> 0 \<Longrightarrow>
   code_starts off (u @ start_code four @ xs) = code_starts (off + length u) (start_code four @ xs)"
proof (induction u arbitrary: off)
  case (Cons x u)
  have step: "code_starts off (x # u @ start_code four @ xs) = code_starts (off + 1) (u @ start_code four @ xs)"
  proof (cases u)
    case Nil
    with Cons.prems show ?thesis by (cases four) (simp_all add: start_code_def)
  next
    case u: (Cons y v)
    show ?thesis
    proof (cases v)
      case Nil
      with Cons.prems u show ?thesis by (cases four) (simp_all add: start_code_def)
    next
      case v: (Cons z w)
      with Cons.prems u show ?thesis by (cases w) (auto simp: start_code_def)
    qed
  qed
  show ?case
  proof (cases "u = []")
    case True
    with step show ?thesis by simp
  next
    case False
    with Cons.IH [of "off + 1"] Cons.prems no_code_Cons [of x u] step show ?thesis by simp
  qed
qed simp

text \<open>Walking over one unit: what follows is empty or begins with a start code.\<close>

lemma annex_b_Cons: "us \<noteq> [] \<Longrightarrow> \<exists>four xs. annex_b us = start_code four @ xs"
  by (cases us rule: annex_b.cases) auto

lemma code_starts_unit:
  assumes "nal_body u"
  shows "code_starts off (u @ annex_b us) = code_starts (off + length u) (annex_b us)"
proof (cases "us = []")
  case True
  with assms show ?thesis by (simp add: code_starts_no_code nal_body_def)
next
  case False
  then obtain four xs where "annex_b us = start_code four @ xs" using annex_b_Cons by blast
  with assms code_starts_body [of u off four xs] show ?thesis by (simp add: nal_body_def)
qed

lemma annex_units_annex_b:
  "\<forall>(four, u) \<in> set us. nal_body u \<Longrightarrow>
   annex_units (pre @ annex_b us) (code_starts (length pre) (annex_b us)) = map snd us"
proof (induction us arbitrary: pre)
  case (Cons fu us)
  obtain four u where fu: "fu = (four, u)" by fastforce
  let ?c = "start_code four"
  have u: "nal_body u" using Cons.prems fu by simp
  then have ne: "u \<noteq> []" by (simp add: nal_body_def)
  let ?rest = "code_starts (length pre + length ?c + length u) (annex_b us)"
  have starts: "code_starts (length pre) (annex_b (fu # us)) = (length pre, length ?c) # ?rest"
    using code_starts_unit [OF u] by (simp add: fu)
  have IH: "annex_units (pre @ annex_b (fu # us)) ?rest = map snd us"
    using Cons.IH [of "pre @ ?c @ u"] Cons.prems by (simp add: fu add.assoc)
  have stop: "(case ?rest of [] \<Rightarrow> length (pre @ annex_b (fu # us)) | (nxt, _) # _ \<Rightarrow> nxt) = length pre + length ?c + length u"
  proof (cases "us = []")
    case False
    then obtain g xs where "annex_b us = start_code g @ xs" using annex_b_Cons by blast
    then show ?thesis by simp
  qed (simp add: fu)
  show ?case
    unfolding starts annex_units.simps Let_def stop IH using ne by (simp add: fu)
qed simp

text \<open>A byte stream made of NAL units behind start codes, three or four bytes long in any mixture, is split
  into exactly these units, in order: no unit is dropped, merged, cut short or padded. The units are
  as H.264 makes them: not empty, not ending in a zero byte and without a start code inside.\<close>

theorem annex_b_roundtrip:
  assumes "\<forall>(four, u) \<in> set us. nal_body u"
  shows "split_annex_b (annex_b us) = map snd us"
  using annex_units_annex_b [OF assms, of "[]"] by (simp add: split_annex_b_def annex_scan_eq)

theorem annex_b_roundtrip_witness:
  "split_annex_b (annex_b [(True, [0x67, 1]), (True, [0x68, 2]), (False, [0x65, 0, 0, 3])]) = [[0x67, 1], [0x68, 2], [0x65, 0, 0, 3]]"
  using annex_b_roundtrip [of "[(True, [0x67, 1]), (True, [0x68, 2]), (False, [0x65, 0, 0, 3])]"]
  by (simp add: nal_body_def)

subsection \<open>What the software decoder hands on\<close>

lemma length_swap_red_blue [simp]: "length (swap_red_blue px) = length px"
  by (induction px rule: swap_red_blue.induct) auto

text \<open>What is documented of \<open>write_rgba8\<close>: it fills the target it is given; and a decoded picture is not empty
  and has dimensions of at most 32 bits.\<close>

definition picture_ok :: "picture \<Rightarrow> bool" where
  "picture_ok pic \<longleftrightarrow>
     0 < fst (pic_dimensions pic) \<and> fst (pic_dimensions pic) < 2 ^ 32 \<and>
     0 < snd (pic_dimensions pic) \<and> snd (pic_dimensions pic) < 2 ^ 32 \<and>
     (\<forall>buf. length (pic_write_rgba8 pic buf) = length buf)"

definition openh264_ok :: "'o openh264 \<Rightarrow> bool" where
  "openh264_ok oh \<longleftrightarrow> (\<forall>data d pic d'. oh_decode oh data d = (Inr (Some pic), d') \<longrightarrow> picture_ok pic)"

text \<open>Every picture the software decoder hands to the presentation layer has a buffer that covers its declared
  geometry, so that no later copy reads past it; it carries the timestamp of the frame that was decoded, and
  the geometry the decoder remembers is that of the picture.\<close>

theorem software_frames_consistent:
  assumes "openh264_ok oh" "software_decode oh data pts key sw = (Inr fs, sw')" "f \<in> set fs"
  shows "is_consistent f \<and> df_pts_us f = pts \<and> sw_geometry sw' = Some (df_width f, df_height f)"
proof -
  from assms(2,3) obtain pic d where dec: "oh_decode oh data (sw_decoder sw) = (Inr (Some pic), d)"
    by (auto simp: software_decode_def split: if_splits prod.splits sum.splits option.splits)
  with assms(1) have ok: "picture_ok pic" unfolding openh264_ok_def by blast
  have pos: "(0 :: u32) < word_of_nat n" if "0 < n" "n < 2 ^ 32" for n
    using that by (simp add: word_less_nat_alt unsigned_of_nat take_bit_nat_eq_self)
  show ?thesis
    using assms(2,3) dec ok pos
    by (auto simp: software_decode_def Let_def is_consistent_def picture_ok_def mult.commute mult.left_commute split: if_splits)
qed

definition sample_openh264 :: "unit openh264" where
  "sample_openh264 = \<lparr>oh_new = Inr (), oh_decode = (\<lambda>data d. (Inr (Some \<lparr>pic_dimensions = (2, 1), pic_write_rgba8 = (\<lambda>buf. buf)\<rparr>), d))\<rparr>"

theorem software_frames_consistent_witness:
  "is_consistent \<lparr>df_data = replicate 8 0, df_width = 2, df_height = 1, df_stride = 8, df_pts_us = 7, df_sequence = 1\<rparr>"
proof -
  let ?sw = "\<lparr>sw_decoder = (), sw_geometry = None, sw_sequence = 0\<rparr>"
  let ?f = "\<lparr>df_data = replicate 8 0, df_width = 2, df_height = 1, df_stride = 8, df_pts_us = 7, df_sequence = 1\<rparr>"
  have "openh264_ok sample_openh264" by (simp add: openh264_ok_def sample_openh264_def picture_ok_def)
  moreover have "software_decode sample_openh264 [1] 7 True ?sw = (Inr [?f], ?sw\<lparr>sw_geometry := Some (2, 1), sw_sequence := 1\<rparr>)"
    by code_simp
  ultimately show ?thesis using software_frames_consistent by fastforce
qed

end
