(* ===== verification/Rda_Viewer.thy ===== *)
theory Rda_Viewer
  imports Rda_Decoder Rda_Wire Rda_Hid Rda_Float
begin

text \<open>
  The viewer window, \<^verbatim>\<open>rda-client/src/viewer.rs\<close>: the events it sends to the session, the conversion of decoded
  pictures, the one-frame slot, the key table, the mapping of window positions to the remote display and
  the window loop. A \<open>minifb\<close> key is the name of its variant; the window is what the loop asks of it, and
  changes only at the update that ends an iteration, so one iteration sees one \<open>window_view\<close>. The loop is a
  function of the list of views; the events are those passed to \<open>input.send\<close>, in order.

  Window coordinates are \<open>f32\<close>, rounded after each operation.

  Shown: a consistent picture is converted without reading out of range and pixel by pixel; a position is
  mapped into the range monotonically, with everything left of the picture on its left edge and everything
  right of it on the right edge; the key events of every run alternate between down and up for each key,
  follow the keyboard and leave nothing pressed when the loop ends. Mouse buttons have no such guarantee:
  \<open>viewer_leaves_button_down\<close> is a run that ends with a button down.
\<close>

datatype InputEvent =
    Move u16 u16 Modifiers
  | Button MouseButtonId bool u16 u16 Modifiers
  | Scroll u16 u16 Modifiers
  | Key u16 bool Modifiers
  | Quit

subsection \<open>Frame buffers\<close>

record Framebuffer =
  fb_pixels :: "u32 list"
  fb_width :: nat
  fb_height :: nat

fun chunks_exact4 :: "u8 list \<Rightarrow> (u8 \<times> u8 \<times> u8) list" where
  "chunks_exact4 (b # g # r # a # px) = (b, g, r) # chunks_exact4 px"
| "chunks_exact4 _ = []"

definition pixel_of :: "u8 \<times> u8 \<times> u8 \<Rightarrow> u32" where
  "pixel_of px = (case px of (b, g, r) \<Rightarrow> push_bit 16 (ucast r) OR push_bit 8 (ucast g) OR ucast b)"

text \<open>The slice of a row; \<open>None\<close> is the panic of an index out of range.\<close>

definition frame_row :: "DecodedFrame \<Rightarrow> nat \<Rightarrow> u8 list option" where
  "frame_row f y =
     (let start = y * df_stride f; stop = y * df_stride f + unat (df_width f) * 4
      in if stop \<le> length (df_data f) then Some (take (stop - start) (drop start (df_data f))) else None)"

fun rows_from :: "DecodedFrame \<Rightarrow> nat list \<Rightarrow> u32 list option" where
  "rows_from f [] = Some []"
| "rows_from f (y # ys) =
     Option.bind (frame_row f y) (\<lambda>row.
     map_option (\<lambda>px. map pixel_of (chunks_exact4 row) @ px) (rows_from f ys))"

definition from_decoded :: "DecodedFrame \<Rightarrow> Framebuffer option" where
  "from_decoded f =
     map_option (\<lambda>px. \<lparr>fb_pixels = px, fb_width = unat (df_width f), fb_height = unat (df_height f)\<rparr>)
       (rows_from f [0..<unat (df_height f)])"

text \<open>The slot that keeps the newest frame only.\<close>

type_synonym LatestFrame = "Framebuffer option"

definition latest_put :: "Framebuffer \<Rightarrow> LatestFrame \<Rightarrow> LatestFrame" where
  "latest_put f slot = Some f"

definition latest_take :: "LatestFrame \<Rightarrow> Framebuffer option \<times> LatestFrame" where
  "latest_take slot = (slot, None)"

subsection \<open>Keys\<close>

definition key_names :: "(string \<times> string) list" where
  "key_names =
    [(''A'', ''KeyA''), (''B'', ''KeyB''), (''C'', ''KeyC''), (''D'', ''KeyD''), (''E'', ''KeyE''),
     (''F'', ''KeyF''), (''G'', ''KeyG''), (''H'', ''KeyH''), (''I'', ''KeyI''), (''J'', ''KeyJ''),
     (''K'', ''KeyK''), (''L'', ''KeyL''), (''M'', ''KeyM''), (''N'', ''KeyN''), (''O'', ''KeyO''),
     (''P'', ''KeyP''), (''Q'', ''KeyQ''), (''R'', ''KeyR''), (''S'', ''KeyS''), (''T'', ''KeyT''),
     (''U'', ''KeyU''), (''V'', ''KeyV''), (''W'', ''KeyW''), (''X'', ''KeyX''), (''Y'', ''KeyY''),
     (''Z'', ''KeyZ''), (''Key1'', ''Digit1''), (''Key2'', ''Digit2''), (''Key3'', ''Digit3''),
     (''Key4'', ''Digit4''), (''Key5'', ''Digit5''), (''Key6'', ''Digit6''), (''Key7'', ''Digit7''),
     (''Key8'', ''Digit8''), (''Key9'', ''Digit9''), (''Key0'', ''Digit0''), (''Enter'', ''Enter''),
     (''Escape'', ''Escape''), (''Backspace'', ''Backspace''), (''Tab'', ''Tab''), (''Space'', ''Space''),
     (''Minus'', ''Minus''), (''Equal'', ''Equal''), (''LeftBracket'', ''BracketLeft''),
     (''RightBracket'', ''BracketRight''), (''Backslash'', ''Backslash''), (''Semicolon'', ''Semicolon''),
     (''Apostrophe'', ''Quote''), (''Backquote'', ''Backquote''), (''Comma'', ''Comma''),
     (''Period'', ''Period''), (''Slash'', ''Slash''), (''CapsLock'', ''CapsLock''), (''F1'', ''F1''),
     (''F2'', ''F2''), (''F3'', ''F3''), (''F4'', ''F4''), (''F5'', ''F5''), (''F6'', ''F6''),
     (''F7'', ''F7''), (''F8'', ''F8''), (''F9'', ''F9''), (''F10'', ''F10''), (''F11'', ''F11''),
     (''F12'', ''F12''), (''Insert'', ''Insert''), (''Home'', ''Home''), (''PageUp'', ''PageUp''),
     (''Delete'', ''Delete''), (''End'', ''End''), (''PageDown'', ''PageDown''), (''Right'', ''ArrowRight''),
     (''Left'', ''ArrowLeft''), (''Down'', ''ArrowDown''), (''Up'', ''ArrowUp''),
     (''LeftCtrl'', ''ControlLeft''), (''LeftShift'', ''ShiftLeft''), (''LeftAlt'', ''AltLeft''),
     (''LeftSuper'', ''MetaLeft''), (''RightCtrl'', ''ControlRight''), (''RightShift'', ''ShiftRight''),
     (''RightAlt'', ''AltRight''), (''RightSuper'', ''MetaRight'')]"

definition hid_usage_for :: "string \<Rightarrow> u16 option" where
  "hid_usage_for key = Option.bind (map_of key_names key) (\<lambda>name. map_option km_usage (lookup_by_name name))"

definition tracked_keys :: "string list" where
  "tracked_keys =
    map (\<lambda>c. [c]) ''ABCDEFGHIJKLMNOPQRSTUVWXYZ'' @
    [''Key0'', ''Key1'', ''Key2'',
     ''Key3'', ''Key4'', ''Key5'', ''Key6'', ''Key7'', ''Key8'', ''Key9'', ''Enter'', ''Escape'',
     ''Backspace'', ''Tab'', ''Space'', ''Minus'', ''Equal'', ''LeftBracket'', ''RightBracket'', ''Backslash'',
     ''Semicolon'', ''Apostrophe'', ''Backquote'', ''Comma'', ''Period'', ''Slash'', ''CapsLock'', ''F1'',
     ''F2'', ''F3'', ''F4'', ''F5'', ''F6'', ''F7'', ''F8'', ''F9'', ''F10'', ''F11'', ''F12'', ''Insert'',
     ''Home'', ''PageUp'', ''Delete'', ''End'', ''PageDown'', ''Right'', ''Left'', ''Down'', ''Up'',
     ''LeftCtrl'', ''LeftShift'', ''LeftAlt'', ''LeftSuper'', ''RightCtrl'', ''RightShift'', ''RightAlt'',
     ''RightSuper'']"

definition modifier_keys :: "(string \<times> u16) list" where
  "modifier_keys =
    [(''LeftCtrl'', LEFT_CTRL), (''LeftShift'', LEFT_SHIFT), (''LeftAlt'', LEFT_ALT), (''LeftSuper'', LEFT_GUI),
     (''RightCtrl'', RIGHT_CTRL), (''RightShift'', RIGHT_SHIFT), (''RightAlt'', RIGHT_ALT), (''RightSuper'', RIGHT_GUI)]"

definition modifiers_from :: "(string \<Rightarrow> bool) \<Rightarrow> Modifiers" where
  "modifiers_from is_key_down = fold (\<lambda>(key, m) bits. if is_key_down key then bits OR m else bits) modifier_keys 0"

subsection \<open>Positions\<close>

text \<open>\<open>usize as f32\<close>, \<open>clamp\<close>, \<open>f32::round\<close> and the casts to 16 bits, which truncate and saturate.\<close>

definition f32_of_nat :: "nat \<Rightarrow> f32" where "f32_of_nat n = f32_round (of_nat n)"
definition f32_clamp :: "rat \<Rightarrow> rat \<Rightarrow> rat \<Rightarrow> rat" where "f32_clamp lo hi x = (if x < lo then lo else if hi < x then hi else x)"

definition as_u16 :: "rat \<Rightarrow> u16" where
  "as_u16 x = (if x < 0 then 0 else if x \<ge> 65535 then 65535 else word_of_int \<lfloor>x\<rfloor>)"

definition as_i16 :: "rat \<Rightarrow> u16" where
  "as_i16 x = (if x \<ge> 32767 then 32767 else if x \<le> - 32768 then - 32768
               else word_of_int (if x < 0 then - \<lfloor>- x\<rfloor> else \<lfloor>x\<rfloor>))"

text \<open>The part of the window the picture fills, its offset and its size.\<close>

definition content_size :: "nat \<Rightarrow> nat \<Rightarrow> nat \<Rightarrow> nat \<Rightarrow> f32 \<times> f32" where
  "content_size window_w window_h frame_w frame_h =
     (let ww = f32_of_nat window_w; wh = f32_of_nat window_h;
          frame_aspect = f32_div (f32_of_nat frame_w) (f32_of_nat frame_h);
          window_aspect = f32_div ww wh
      in if frame_aspect > window_aspect then (ww, f32_div ww frame_aspect) else (f32_mul wh frame_aspect, wh))"

definition bar_offset :: "nat \<Rightarrow> f32 \<Rightarrow> f32" where
  "bar_offset window_side content_side = f32_div (f32_sub (f32_of_nat window_side) content_side) 2"

definition map_axis :: "f32 \<Rightarrow> f32 \<Rightarrow> f32 \<Rightarrow> u16" where
  "map_axis m off content =
     as_u16 (f64_nearest (f32_mul (f32_clamp 0 1 (f32_div (f32_sub m off) content)) 65535))"

definition map_to_remote :: "f32 \<Rightarrow> f32 \<Rightarrow> nat \<Rightarrow> nat \<Rightarrow> nat \<Rightarrow> nat \<Rightarrow> (u16 \<times> u16) option" where
  "map_to_remote mx my window_w window_h frame_w frame_h =
     (if frame_w = 0 \<or> frame_h = 0 \<or> window_w = 0 \<or> window_h = 0 then None
      else let (content_w, content_h) = content_size window_w window_h frame_w frame_h;
               x_offset = bar_offset window_w content_w;
               y_offset = bar_offset window_h content_h
           in Some (map_axis mx x_offset content_w, map_axis my y_offset content_h))"

subsection \<open>The window loop\<close>

record window_view =
  w_is_open :: bool
  w_session_over :: bool
  w_frame :: "Framebuffer option"
  w_is_key_down :: "string \<Rightarrow> bool"
  w_mouse_pos :: "(f32 \<times> f32) option"
  w_size :: "nat \<times> nat"
  w_mouse_down :: "MouseButtonId \<Rightarrow> bool"
  w_scroll_wheel :: "(f32 \<times> f32) option"

record viewer_state =
  vs_key_down :: "bool list"
  vs_buttons_down :: "bool list"
  vs_last_pointer :: "(u16 \<times> u16) option"
  vs_canvas :: "u32 list"
  vs_canvas_w :: nat
  vs_canvas_h :: nat
  vs_have_frame :: bool

definition viewer_new :: "nat \<Rightarrow> nat \<Rightarrow> viewer_state" where
  "viewer_new width height =
     \<lparr>vs_key_down = replicate (length tracked_keys) False, vs_buttons_down = [False, False, False],
      vs_last_pointer = None, vs_canvas = replicate (width * height) 0, vs_canvas_w = width, vs_canvas_h = height,
      vs_have_frame = False\<rparr>"

definition take_frame :: "window_view \<Rightarrow> viewer_state \<Rightarrow> viewer_state" where
  "take_frame w st = (case w_frame w of
       Some f \<Rightarrow> st\<lparr>vs_canvas := fb_pixels f, vs_canvas_w := fb_width f, vs_canvas_h := fb_height f, vs_have_frame := True\<rparr>
     | None \<Rightarrow> st)"

definition pointer_part :: "window_view \<Rightarrow> Modifiers \<Rightarrow> viewer_state \<Rightarrow> viewer_state \<times> InputEvent list" where
  "pointer_part w modifiers st = (case w_mouse_pos w of
       None \<Rightarrow> (st, [])
     | Some (mx, my) \<Rightarrow>
         (case map_to_remote mx my (fst (w_size w)) (snd (w_size w)) (vs_canvas_w st) (vs_canvas_h st) of
            None \<Rightarrow> (st, [])
          | Some (x, y) \<Rightarrow>
              (if vs_last_pointer st \<noteq> Some (x, y)
               then (st\<lparr>vs_last_pointer := Some (x, y)\<rparr>, [Move x y modifiers])
               else (st, []))))"

fun button_diff :: "(MouseButtonId \<Rightarrow> bool) \<Rightarrow> u16 \<times> u16 \<Rightarrow> Modifiers \<Rightarrow> MouseButtonId list \<Rightarrow> bool list \<Rightarrow> bool list \<times> InputEvent list" where
  "button_diff get_mouse_down pos modifiers (b # bs) (was # downs) =
     (let (downs', evs) = button_diff get_mouse_down pos modifiers bs downs; down = get_mouse_down b
      in if down \<noteq> was then (down # downs', Button b down (fst pos) (snd pos) modifiers # evs) else (was # downs', evs))"
| "button_diff _ _ _ _ downs = (downs, [])"

definition buttons_part :: "window_view \<Rightarrow> Modifiers \<Rightarrow> viewer_state \<Rightarrow> viewer_state \<times> InputEvent list" where
  "buttons_part w modifiers st =
     (let pos = (case vs_last_pointer st of Some p \<Rightarrow> p | None \<Rightarrow> (0, 0));
          (downs, evs) = button_diff (w_mouse_down w) pos modifiers [Left, Middle, Right] (vs_buttons_down st)
      in (st\<lparr>vs_buttons_down := downs\<rparr>, evs))"

definition wheel_delta :: "f32 \<Rightarrow> u16" where
  "wheel_delta s = as_i16 (f32_clamp (- 32768) 32767 (f32_mul s 120))"

definition scroll_part :: "window_view \<Rightarrow> Modifiers \<Rightarrow> InputEvent list" where
  "scroll_part w modifiers = (case w_scroll_wheel w of
       Some (sx, sy) \<Rightarrow> if sx \<noteq> 0 \<or> sy \<noteq> 0 then [Scroll (wheel_delta sy) (wheel_delta sx) modifiers] else []
     | None \<Rightarrow> [])"

fun key_diff :: "(string \<Rightarrow> bool) \<Rightarrow> Modifiers \<Rightarrow> string list \<Rightarrow> bool list \<Rightarrow> bool list \<times> InputEvent list" where
  "key_diff is_key_down modifiers (key # keys) (was # downs) =
     (let (downs', evs) = key_diff is_key_down modifiers keys downs; down = is_key_down key
      in if down \<noteq> was
         then (down # downs', (case hid_usage_for key of Some usage \<Rightarrow> [Key usage down modifiers] | None \<Rightarrow> []) @ evs)
         else (was # downs', evs))"
| "key_diff _ _ _ downs = (downs, [])"

definition keys_part :: "window_view \<Rightarrow> Modifiers \<Rightarrow> viewer_state \<Rightarrow> viewer_state \<times> InputEvent list" where
  "keys_part w modifiers st =
     (let (downs, evs) = key_diff (w_is_key_down w) modifiers tracked_keys (vs_key_down st)
      in (st\<lparr>vs_key_down := downs\<rparr>, evs))"

text \<open>One iteration of the loop: frame, pointer, buttons, wheel, keys.\<close>

definition viewer_step :: "window_view \<Rightarrow> viewer_state \<Rightarrow> viewer_state \<times> InputEvent list" where
  "viewer_step w st =
     (let st = take_frame w st;
          modifiers = modifiers_from (w_is_key_down w);
          (st, moves) = pointer_part w modifiers st;
          (st, clicks) = buttons_part w modifiers st;
          wheel = scroll_part w modifiers;
          (st, keys) = keys_part w modifiers st
      in (st, moves @ clicks @ wheel @ keys))"

definition viewer_continues :: "window_view \<Rightarrow> bool" where
  "viewer_continues w \<longleftrightarrow> w_is_open w \<and> \<not> w_is_key_down w ''Escape'' \<and> \<not> w_session_over w"

fun release_held :: "string list \<Rightarrow> bool list \<Rightarrow> InputEvent list" where
  "release_held (key # keys) (down # downs) =
     (if down then (case hid_usage_for key of Some usage \<Rightarrow> [Key usage False 0] | None \<Rightarrow> []) else [])
     @ release_held keys downs"
| "release_held _ _ = []"

definition viewer_exit :: "viewer_state \<Rightarrow> InputEvent list" where
  "viewer_exit st = release_held tracked_keys (vs_key_down st) @ [Quit]"

text \<open>The loop over the views of the window; the flag says that it ended.\<close>

fun viewer_loop :: "window_view list \<Rightarrow> viewer_state \<Rightarrow> viewer_state \<times> InputEvent list \<times> bool" where
  "viewer_loop [] st = (st, [], False)"
| "viewer_loop (w # ws) st =
     (if viewer_continues w
      then let (st, evs) = viewer_step w st; (st, rest, ended) = viewer_loop ws st in (st, evs @ rest, ended)
      else (st, viewer_exit st, True))"

definition viewer_run :: "nat \<Rightarrow> nat \<Rightarrow> window_view list \<Rightarrow> viewer_state \<times> InputEvent list \<times> bool" where
  "viewer_run width height ws = viewer_loop ws (viewer_new width height)"

subsection \<open>The key table\<close>

definition tracked_usages :: "u16 list" where
  "tracked_usages =
    [0x04, 0x05, 0x06, 0x07, 0x08, 0x09, 0x0A, 0x0B, 0x0C, 0x0D, 0x0E, 0x0F, 0x10, 0x11, 0x12, 0x13, 0x14,
     0x15, 0x16, 0x17, 0x18, 0x19, 0x1A, 0x1B, 0x1C, 0x1D, 0x27, 0x1E, 0x1F, 0x20, 0x21, 0x22, 0x23, 0x24,
     0x25, 0x26, 0x28, 0x29, 0x2A, 0x2B, 0x2C, 0x2D, 0x2E, 0x2F, 0x30, 0x31, 0x33, 0x34, 0x35, 0x36, 0x37,
     0x38, 0x39, 0x3A, 0x3B, 0x3C, 0x3D, 0x3E, 0x3F, 0x40, 0x41, 0x42, 0x43, 0x44, 0x45, 0x49, 0x4A, 0x4B,
     0x4C, 0x4D, 0x4E, 0x4F, 0x50, 0x51, 0x52, 0xE0, 0xE1, 0xE2, 0xE3, 0xE4, 0xE5, 0xE6, 0xE7]"

definition tracked_names :: "string list" where
  "tracked_names =
    [''KeyA'', ''KeyB'', ''KeyC'', ''KeyD'', ''KeyE'', ''KeyF'', ''KeyG'', ''KeyH'', ''KeyI'', ''KeyJ'',
     ''KeyK'', ''KeyL'', ''KeyM'', ''KeyN'', ''KeyO'', ''KeyP'', ''KeyQ'', ''KeyR'', ''KeyS'', ''KeyT'',
     ''KeyU'', ''KeyV'', ''KeyW'', ''KeyX'', ''KeyY'', ''KeyZ'', ''Digit0'', ''Digit1'', ''Digit2'',
     ''Digit3'', ''Digit4'', ''Digit5'', ''Digit6'', ''Digit7'', ''Digit8'', ''Digit9'', ''Enter'', ''Escape'',
     ''Backspace'', ''Tab'', ''Space'', ''Minus'', ''Equal'', ''BracketLeft'', ''BracketRight'', ''Backslash'',
     ''Semicolon'', ''Quote'', ''Backquote'', ''Comma'', ''Period'', ''Slash'', ''CapsLock'', ''F1'', ''F2'',
     ''F3'', ''F4'', ''F5'', ''F6'', ''F7'', ''F8'', ''F9'', ''F10'', ''F11'', ''F12'', ''Insert'', ''Home'',
     ''PageUp'', ''Delete'', ''End'', ''PageDown'', ''ArrowRight'', ''ArrowLeft'', ''ArrowDown'', ''ArrowUp'',
     ''ControlLeft'', ''ShiftLeft'', ''AltLeft'', ''MetaLeft'', ''ControlRight'', ''ShiftRight'', ''AltRight'',
     ''MetaRight'']"

lemma tracked_key_names: "map (map_of key_names) tracked_keys = map Some tracked_names"
  by code_simp

lemma tracked_name_usages: "map (\<lambda>n. map_option km_usage (lookup_by_name n)) tracked_names = map Some tracked_usages"
  by code_simp

lemma tracked_hid_usages: "map hid_usage_for tracked_keys = map Some tracked_usages"
proof -
  have "map hid_usage_for tracked_keys =
    map (\<lambda>o'. Option.bind o' (\<lambda>n. map_option km_usage (lookup_by_name n))) (map (map_of key_names) tracked_keys)"
    by (simp add: hid_usage_for_def)
  also have "\<dots> = map (\<lambda>n. map_option km_usage (lookup_by_name n)) tracked_names"
    unfolding tracked_key_names by simp
  finally show ?thesis unfolding tracked_name_usages .
qed

lemma distinct_tracked_usages: "distinct tracked_usages"
  by (simp add: tracked_usages_def)

lemma tracked_usages_valid: "u \<in> set tracked_usages \<Longrightarrow> 0x01 \<le> u \<and> u \<le> 0xE7"
  by (simp add: tracked_usages_def, elim disjE; simp)

lemma length_tracked: "length tracked_keys = length tracked_usages"
  using tracked_hid_usages by (metis length_map)

subsection \<open>Replaying key events\<close>

text \<open>The keys a receiver of the events has down; \<open>None\<close> if a key goes down twice or up without being down.\<close>

fun replay_keys :: "u16 set \<Rightarrow> InputEvent list \<Rightarrow> u16 set option" where
  "replay_keys held [] = Some held"
| "replay_keys held (Key u down _ # evs) =
     (if down then (if u \<in> held then None else replay_keys (insert u held) evs)
      else (if u \<in> held then replay_keys (held - {u}) evs else None))"
| "replay_keys held (_ # evs) = replay_keys held evs"

lemma replay_keys_append:
  "replay_keys held (xs @ ys) = Option.bind (replay_keys held xs) (\<lambda>h. replay_keys h ys)"
  by (induction held xs rule: replay_keys.induct) auto

definition not_key :: "InputEvent \<Rightarrow> bool" where
  "not_key e = (case e of Key _ _ _ \<Rightarrow> False | _ \<Rightarrow> True)"

lemma replay_not_keys: "list_all not_key evs \<Longrightarrow> replay_keys held evs = Some held"
  by (induction held evs rule: replay_keys.induct) (auto simp: not_key_def)

definition held_of :: "u16 list \<Rightarrow> bool list \<Rightarrow> u16 set" where
  "held_of us downs = {u. (u, True) \<in> set (zip us downs)}"

lemma held_of_Cons: "held_of (u # us) (d # ds) = (if d then insert u (held_of us ds) else held_of us ds)"
  by (auto simp: held_of_def)

lemma held_of_Nil [simp]: "held_of [] ds = {}" "held_of us [] = {}"
  by (simp_all add: held_of_def)

lemma held_of_sub: "held_of us ds \<subseteq> set us"
  by (auto simp: held_of_def dest: set_zip_leftD)

lemma key_diff_replay:
  assumes "map hid_usage_for ks = map Some us" "length ds = length us" "distinct us" "A \<inter> set us = {}"
  shows "fst (key_diff kd m ks ds) = map kd ks \<and>
    replay_keys (A \<union> held_of us ds) (snd (key_diff kd m ks ds)) = Some (A \<union> held_of us (map kd ks))"
  using assms
proof (induction ks arbitrary: us ds A)
  case (Cons k ks)
  then obtain u us' d ds' where eq: "us = u # us'" "ds = d # ds'" "hid_usage_for k = Some u"
    by (cases us; cases ds) auto
  let ?A = "if kd k then insert u A else A"
  have IH: "fst (key_diff kd m ks ds') = map kd ks"
    "replay_keys (?A \<union> held_of us' ds') (snd (key_diff kd m ks ds')) = Some (?A \<union> held_of us' (map kd ks))"
    using Cons.IH [of us' ds' ?A] Cons.prems eq by auto
  have u: "u \<notin> A" "u \<notin> held_of us' ds'" using Cons.prems eq held_of_sub [of us' ds'] by auto
  then have del: "insert u (A \<union> held_of us' ds') - {u} = A \<union> held_of us' ds'" by auto
  show ?case
    using IH u del eq by (auto simp: held_of_Cons Let_def case_prod_beta)
qed simp

lemma release_held_replay:
  "map hid_usage_for ks = map Some us \<Longrightarrow> length ds = length us \<Longrightarrow> distinct us \<Longrightarrow>
   replay_keys (held_of us ds) (release_held ks ds) = Some {}"
proof (induction ks arbitrary: us ds)
  case (Cons k ks)
  then obtain u us' d ds' where eq: "us = u # us'" "ds = d # ds'" "hid_usage_for k = Some u"
    by (cases us; cases ds) auto
  have "u \<notin> held_of us' ds'" using Cons.prems eq held_of_sub [of us' ds'] by auto
  with Cons.IH [of us' ds'] Cons.prems eq show ?case by (auto simp: held_of_Cons)
qed simp

lemma button_diff_not_key: "list_all not_key (snd (button_diff f pos m bs ds))"
proof (induction bs arbitrary: ds)
  case (Cons b bs)
  then show ?case by (cases ds) (auto simp: not_key_def case_prod_beta Let_def)
qed simp

lemma scroll_part_not_key: "list_all not_key (scroll_part w m)"
  by (auto simp: scroll_part_def not_key_def split: option.splits)

lemma pointer_part_not_key:
  "pointer_part w m st = (st', evs) \<Longrightarrow> list_all not_key evs \<and> vs_key_down st' = vs_key_down st"
  by (auto simp: pointer_part_def not_key_def split: option.splits prod.splits if_splits)

lemma buttons_part_not_key:
  "buttons_part w m st = (st', evs) \<Longrightarrow> list_all not_key evs \<and> vs_key_down st' = vs_key_down st"
  by (auto simp: buttons_part_def Let_def case_prod_beta button_diff_not_key)

lemma take_frame_keys [simp]: "vs_key_down (take_frame w st) = vs_key_down st"
  by (simp add: take_frame_def split: option.splits)

lemma viewer_step_replay:
  assumes "viewer_step w st = (st', evs)" "length (vs_key_down st) = length tracked_usages"
  shows "vs_key_down st' = map (w_is_key_down w) tracked_keys \<and>
    replay_keys (held_of tracked_usages (vs_key_down st)) evs = Some (held_of tracked_usages (vs_key_down st'))"
proof -
  let ?m = "modifiers_from (w_is_key_down w)"
  obtain s1 e1 where p: "pointer_part w ?m (take_frame w st) = (s1, e1)" by fastforce
  obtain s2 e2 where b: "buttons_part w ?m s1 = (s2, e2)" by fastforce
  obtain s3 e3 where k: "keys_part w ?m s2 = (s3, e3)" by fastforce
  from pointer_part_not_key [OF p] buttons_part_not_key [OF b]
  have s2: "vs_key_down s2 = vs_key_down st" "list_all not_key e1" "list_all not_key e2" by simp_all
  have res: "st' = s3" "evs = e1 @ e2 @ scroll_part w ?m @ e3"
    using assms(1) p b k by (simp_all add: viewer_step_def Let_def)
  from key_diff_replay [OF tracked_hid_usages assms(2) distinct_tracked_usages, of "{}" "w_is_key_down w" ?m] k s2(1)
  show ?thesis
    unfolding res by (auto simp: keys_part_def case_prod_beta replay_keys_append replay_not_keys s2(2,3) scroll_part_not_key)
qed

text \<open>The keys of a keyboard state that the viewer forwards.\<close>

definition forwarded :: "(string \<Rightarrow> bool) \<Rightarrow> u16 set" where
  "forwarded kd = {u. \<exists>k \<in> set tracked_keys. kd k \<and> hid_usage_for k = Some u}"

lemma held_of_map: "map hid_usage_for ks = map Some us \<Longrightarrow> held_of us (map kd ks) = {u. \<exists>k \<in> set ks. kd k \<and> hid_usage_for k = Some u}"
proof (induction ks arbitrary: us)
  case (Cons k ks)
  then show ?case by (cases us) (auto simp: held_of_Cons)
qed simp

lemma held_of_tracked: "held_of tracked_usages (map kd tracked_keys) = forwarded kd"
  by (simp add: held_of_map [OF tracked_hid_usages] forwarded_def)

lemma viewer_loop_replay:
  assumes "viewer_loop ws st = (st', evs, ended)" "length (vs_key_down st) = length tracked_usages"
  shows "replay_keys (held_of tracked_usages (vs_key_down st)) evs =
      Some (if ended then {} else held_of tracked_usages (vs_key_down st')) \<and>
    (ws \<noteq> [] \<longrightarrow> \<not> ended \<longrightarrow> vs_key_down st' = map (w_is_key_down (last ws)) tracked_keys) \<and>
    (ended \<longrightarrow> evs \<noteq> [] \<and> last evs = Quit)"
  using assms
proof (induction ws arbitrary: st evs)
  case (Cons w ws)
  show ?case
  proof (cases "viewer_continues w")
    case True
    obtain s e where s: "viewer_step w st = (s, e)" by fastforce
    obtain s' e' ended' where l: "viewer_loop ws s = (s', e', ended')" by (metis prod_cases3)
    note step = viewer_step_replay [OF s Cons.prems(2)]
    then have len: "length (vs_key_down s) = length tracked_usages" by (simp add: length_tracked)
    have eqs: "st' = s'" "evs = e @ e'" "ended = ended'" using Cons.prems(1) True s l by simp_all
    from Cons.IH [OF l [folded eqs] len] step l eqs show ?thesis
      by (auto simp: replay_keys_append)
  next
    case False
    with Cons.prems release_held_replay [OF tracked_hid_usages _ distinct_tracked_usages, of "vs_key_down st"]
    show ?thesis by (auto simp: viewer_exit_def replay_keys_append)
  qed
qed simp

text \<open>C27. The key events of every run of the viewer are consistent, no key going down twice or up without being
  down. While the window is open they leave the receiver with exactly the forwarded keys of the current
  keyboard state; when the loop ends, for whichever of its three reasons, nothing is left pressed and the
  last event is \<open>Quit\<close>.\<close>

theorem viewer_keys_released:
  assumes "viewer_run width height ws = (st, evs, ended)"
  shows "replay_keys {} evs = Some (if ended \<or> ws = [] then {} else forwarded (w_is_key_down (last ws))) \<and>
    (ended \<longrightarrow> evs \<noteq> [] \<and> last evs = Quit)"
proof -
  have init: "length (vs_key_down (viewer_new width height)) = length tracked_usages"
    "held_of tracked_usages (vs_key_down (viewer_new width height)) = {}"
    by (auto simp: viewer_new_def length_tracked held_of_def set_zip)
  from viewer_loop_replay [OF assms [unfolded viewer_run_def] init(1)] assms show ?thesis
    by (auto simp: init(2) held_of_tracked viewer_run_def)
qed

definition quiet_view :: window_view where
  "quiet_view = \<lparr>w_is_open = True, w_session_over = False, w_frame = None, w_is_key_down = (\<lambda>_. False), w_mouse_pos = None,
     w_size = (800, 600), w_mouse_down = (\<lambda>_. False), w_scroll_wheel = None\<rparr>"

theorem viewer_keys_released_witness:
  "replay_keys {} (fst (snd (viewer_run 8 6 [quiet_view\<lparr>w_is_key_down := (\<lambda>k. k = ''A'')\<rparr>, quiet_view\<lparr>w_is_open := False\<rparr>]))) = Some {}"
proof -
  let ?ws = "[quiet_view\<lparr>w_is_key_down := (\<lambda>k. k = ''A'')\<rparr>, quiet_view\<lparr>w_is_open := False\<rparr>]"
  obtain st evs where r: "viewer_run 8 6 ?ws = (st, evs, True)"
    by (auto simp: viewer_run_def viewer_continues_def quiet_view_def case_prod_beta Let_def)
  from viewer_keys_released [OF r] r show ?thesis by simp
qed

text \<open>Mouse buttons are not released when the loop ends: closing the window with the left button down sends
  the press and nothing after it but \<open>Quit\<close>.\<close>

theorem viewer_leaves_button_down:
  "fst (snd (viewer_run 8 6 [quiet_view\<lparr>w_mouse_down := (\<lambda>b. b = Left)\<rparr>, quiet_view\<lparr>w_is_open := False\<rparr>])) =
   [Button Left True 0 0 0, Quit]"
  by code_simp

subsection \<open>Pictures\<close>

definition pixel_at :: "DecodedFrame \<Rightarrow> nat \<Rightarrow> nat \<Rightarrow> u32" where
  "pixel_at f x y =
     (let o4 = y * df_stride f + 4 * x
      in pixel_of (df_data f ! o4, df_data f ! (o4 + 1), df_data f ! (o4 + 2)))"

lemma chunks_exact4_eq:
  "length row = 4 * w \<Longrightarrow> chunks_exact4 row = map (\<lambda>x. (row ! (4 * x), row ! (4 * x + 1), row ! (4 * x + 2))) [0..<w]"
proof (induction row arbitrary: w rule: chunks_exact4.induct)
  case (1 b g r a px)
  then obtain w' where w: "w = Suc w'" by (cases w) auto
  have "[0..<Suc w'] = 0 # map Suc [0..<w']" by (simp add: map_Suc_upt upt_conv_Cons del: upt_Suc)
  with 1 w show ?case by (simp del: upt_Suc)
qed auto

lemma frame_row_pixels:
  assumes "is_consistent f" "y < unat (df_height f)"
  shows "\<exists>row. frame_row f y = Some row \<and> map pixel_of (chunks_exact4 row) = map (\<lambda>x. pixel_at f x y) [0..<unat (df_width f)]"
proof -
  let ?w = "unat (df_width f)"
  have "y * df_stride f + ?w * 4 \<le> Suc y * df_stride f" using assms(1) by (simp add: is_consistent_def)
  also have "\<dots> \<le> unat (df_height f) * df_stride f" using assms(2) by (intro mult_le_mono1) simp
  also have "\<dots> \<le> length (df_data f)" using assms(1) by (simp add: is_consistent_def mult.commute)
  finally have le: "y * df_stride f + ?w * 4 \<le> length (df_data f)" .
  let ?row = "take (?w * 4) (drop (y * df_stride f) (df_data f))"
  have "length ?row = 4 * ?w" using le by simp
  from chunks_exact4_eq [OF this] le show ?thesis
    by (auto simp: frame_row_def Let_def pixel_at_def add.assoc)
qed

lemma rows_from_pixels:
  "is_consistent f \<Longrightarrow> list_all (\<lambda>y. y < unat (df_height f)) ys \<Longrightarrow>
   rows_from f ys = Some (concat (map (\<lambda>y. map (\<lambda>x. pixel_at f x y) [0..<unat (df_width f)]) ys))"
proof (induction ys)
  case (Cons y ys)
  then show ?case using frame_row_pixels [of f y] by auto
qed simp

text \<open>A picture that passed the geometry check is converted without an index out of range, and the canvas holds
  its pixels row by row, without the padding of the rows.\<close>

theorem from_decoded_exact:
  assumes "is_consistent f"
  shows "from_decoded f = Some
    \<lparr>fb_pixels = concat (map (\<lambda>y. map (\<lambda>x. pixel_at f x y) [0..<unat (df_width f)]) [0..<unat (df_height f)]),
     fb_width = unat (df_width f), fb_height = unat (df_height f)\<rparr>"
  using rows_from_pixels [OF assms, of "[0..<unat (df_height f)]"] by (simp add: from_decoded_def list_all_iff)

theorem from_decoded_exact_witness:
  "from_decoded \<lparr>df_data = [1, 2, 3, 0, 9, 4, 5, 6, 0, 9], df_width = 1, df_height = 2, df_stride = 5, df_pts_us = 0, df_sequence = 1\<rparr> =
   Some \<lparr>fb_pixels = [0x030201, 0x060504], fb_width = 1, fb_height = 2\<rparr>"
proof -
  let ?f = "\<lparr>df_data = [1, 2, 3, 0, 9, 4, 5, 6, 0, 9], df_width = 1, df_height = 2, df_stride = 5, df_pts_us = 0, df_sequence = 1\<rparr>"
  have "concat (map (\<lambda>y. map (\<lambda>x. pixel_at ?f x y) [0..<1]) [0..<2]) = [0x030201, 0x060504]" by code_simp
  with from_decoded_exact [of ?f] show ?thesis by (simp add: is_consistent_def)
qed

subsection \<open>Positions\<close>

lemma nearest_mono: "0 \<le> x \<Longrightarrow> x \<le> y \<Longrightarrow> f64_nearest x \<le> f64_nearest y"
  by (auto simp: f64_nearest_def intro!: floor_mono)

lemma as_u16_mono:
  assumes "x \<le> y"
  shows "as_u16 x \<le> as_u16 y"
proof -
  have f: "\<lfloor>x\<rfloor> \<le> \<lfloor>y\<rfloor>" using assms by (rule floor_mono)
  have "\<lfloor>z\<rfloor> < 65535" if "z < 65535" for z :: rat using that by (simp add: floor_less_iff)
  with f assms show ?thesis
    by (auto simp: as_u16_def word_le_def unsigned_of_int take_bit_int_eq_self not_less)
qed

lemma f32_clamp_range: "0 \<le> f32_clamp 0 1 x" "f32_clamp 0 1 x \<le> 1"
  by (auto simp: f32_clamp_def)

lemma map_axis_mono:
  assumes "m \<le> m'" "0 < content"
  shows "map_axis m off content \<le> map_axis m' off content"
proof -
  have "f32_div (f32_sub m off) content \<le> f32_div (f32_sub m' off) content"
    unfolding f32_div_def f32_sub_def using assms by (intro f32_round_mono divide_right_mono) auto
  then have "f32_clamp 0 1 (f32_div (f32_sub m off) content) \<le> f32_clamp 0 1 (f32_div (f32_sub m' off) content)"
    by (auto simp: f32_clamp_def)
  then have "f32_mul (f32_clamp 0 1 (f32_div (f32_sub m off) content)) 65535 \<le> f32_mul (f32_clamp 0 1 (f32_div (f32_sub m' off) content)) 65535"
    unfolding f32_mul_def by (intro f32_round_mono) simp
  moreover have "0 \<le> f32_mul (f32_clamp 0 1 x) 65535" for x
    using f32_round_ge_int [of 0] f32_clamp_range(1) [of x] by (simp add: f32_mul_def)
  ultimately show ?thesis
    unfolding map_axis_def by (intro as_u16_mono nearest_mono)
qed

lemma map_axis_left: "m \<le> off \<Longrightarrow> 0 < content \<Longrightarrow> map_axis m off content = 0"
proof -
  assume "m \<le> off" "0 < content"
  then have "f32_sub m off \<le> 0" using f32_round_le_int [of "m - off" 0] by (simp add: f32_sub_def)
  with \<open>0 < content\<close> have "f32_div (f32_sub m off) content \<le> 0"
    using f32_round_le_int [of "f32_sub m off / content" 0] by (simp add: f32_div_def divide_le_0_iff)
  then have "f32_clamp 0 1 (f32_div (f32_sub m off) content) = 0" by (auto simp: f32_clamp_def)
  moreover have "\<lfloor>1 / 2 :: rat\<rfloor> = 0" by (simp add: floor_eq_iff)
  ultimately show ?thesis
    using f32_round_of_int [of 0] by (simp add: map_axis_def f32_mul_def f64_nearest_def as_u16_def)
qed

lemma map_axis_right: "content \<le> f32_sub m off \<Longrightarrow> 0 < content \<Longrightarrow> map_axis m off content = 65535"
proof -
  assume "content \<le> f32_sub m off" "0 < content"
  then have "1 \<le> f32_div (f32_sub m off) content"
    using f32_round_ge_int [of 1 "f32_sub m off / content"] by (simp add: f32_div_def)
  then have "f32_clamp 0 1 (f32_div (f32_sub m off) content) = 1" by (auto simp: f32_clamp_def)
  then show ?thesis
    using f32_round_of_int [of 65535] by (simp add: map_axis_def f32_mul_def f64_nearest_def as_u16_def)
qed

lemma f32_of_nat_pos: "0 < n \<Longrightarrow> 0 < f32_of_nat n"
  by (simp add: f32_of_nat_def f32_round_pos_iff)

lemma content_size_pos:
  "0 < ww \<Longrightarrow> 0 < wh \<Longrightarrow> 0 < fw \<Longrightarrow> 0 < fh \<Longrightarrow> content_size ww wh fw fh = (cw, ch) \<Longrightarrow> 0 < cw \<and> 0 < ch"
  by (auto simp: content_size_def Let_def f32_div_def f32_mul_def f32_round_pos_iff f32_of_nat_pos split: if_splits)

text \<open>With a picture on screen every window position is mapped to the remote display, rounding included: moving
  right or down never maps to a position further left or up, everything up to the left (or upper) edge of the
  picture, bars included, is the first column (row), and everything from its right (lower) edge on the last.\<close>

theorem map_to_remote_monotone:
  assumes "0 < ww" "0 < wh" "0 < fw" "0 < fh" "content_size ww wh fw fh = (cw, ch)"
  shows "\<exists>x y. map_to_remote mx my ww wh fw fh = Some (x, y) \<and>
    (mx \<le> mx' \<and> my \<le> my' \<longrightarrow> (\<exists>x' y'. map_to_remote mx' my' ww wh fw fh = Some (x', y') \<and> x \<le> x' \<and> y \<le> y')) \<and>
    (mx \<le> bar_offset ww cw \<longrightarrow> x = 0) \<and> (cw \<le> f32_sub mx (bar_offset ww cw) \<longrightarrow> x = 65535) \<and>
    (my \<le> bar_offset wh ch \<longrightarrow> y = 0) \<and> (ch \<le> f32_sub my (bar_offset wh ch) \<longrightarrow> y = 65535)"
proof -
  from content_size_pos [OF assms] have "0 < cw" "0 < ch" by simp_all
  with assms show ?thesis
    by (simp add: map_to_remote_def map_axis_mono map_axis_left map_axis_right)
qed

theorem map_to_remote_monotone_witness:
  "\<exists>x y. map_to_remote 8 3 8 8 4 4 = Some (x, y) \<and> x = 65535"
proof -
  have r: "f32_round 8 = 8" "f32_round 4 = 4" "f32_round 1 = 1" "f32_round 0 = 0"
    using f32_round_of_int [of 8] f32_round_of_int [of 4] f32_round_of_int [of 1] f32_round_of_int [of 0] by simp_all
  then have c: "content_size 8 8 4 4 = (8, 8)"
    by (simp add: content_size_def f32_of_nat_def f32_div_def f32_mul_def Let_def)
  have "bar_offset 8 8 = 0" "f32_sub 8 0 = 8"
    using r by (simp_all add: bar_offset_def f32_of_nat_def f32_div_def f32_sub_def)
  with map_to_remote_monotone [OF _ _ _ _ c, of 8 3 8 3] show ?thesis by auto
qed

end
