(* ===== verification/Rda_ClientStream.thy ===== *)
theory Rda_ClientStream
  imports Rda_HostStream Rda_Jitter Rda_Viewer
begin

text \<open>
  The session loop of the viewer, \<open>stream\<close>, \<open>to_payload\<close> and \<open>present\<close> of \<^verbatim>\<open>rda-client/src/session.rs\<close>: the user's events
  are forwarded, the link is reported on, fragments are reassembled and queued, pings are answered, and the frame
  that is due is decoded and shown. The decoder is a parameter, the record of its trait; the sink is the window
  slot (writing PNG files is left out). The loop's clock is in milliseconds; the events the window sent since the last
  iteration, what the transport delivered within its 5 ms and the microseconds a reply took are arguments, and
  \<open>cs_out\<close> records what is handed to the transport, as in the host's loop.

  The theorems here span both ends: a frame the host sends is the frame the viewer queues, whatever the order in
  which its fragments arrive; what the user does in the window is what the host's injector is given.
\<close>

definition QOS_INTERVAL :: u64 where "QOS_INTERVAL = 1000"
definition KEYFRAME_REQUEST_INTERVAL :: u64 where "KEYFRAME_REQUEST_INTERVAL = 1000"

record 'd ClientStream =
  cs_decoder :: 'd
  cs_jitter :: JitterBuffer
  cs_reassembler :: Reassembler
  cs_telemetry :: LinkTelemetry
  cs_sequences :: SequenceTracker
  cs_last_report :: u64
  cs_pointer_seq :: u16
  cs_keys_seq :: u16
  cs_control_seq :: u16
  cs_last_keyframe_request :: "u64 option"
  cs_keyframe_requests :: u64
  cs_received :: u64
  cs_decoded :: u64
  cs_bytes :: u64
  cs_quit :: bool
  cs_slot :: LatestFrame
  cs_out :: "ControlFrame list"

definition client_stream_new :: "'d \<Rightarrow> 'd ClientStream" where
  "client_stream_new decoder =
     \<lparr>cs_decoder = decoder, cs_jitter = jitter_buffer_new, cs_reassembler = reassembler_new, cs_telemetry = link_telemetry_new,
      cs_sequences = sequence_tracker_new, cs_last_report = 0, cs_pointer_seq = 0, cs_keys_seq = 0, cs_control_seq = 0,
      cs_last_keyframe_request = None, cs_keyframe_requests = 0, cs_received = 0, cs_decoded = 0, cs_bytes = 0,
      cs_quit = False, cs_slot = None, cs_out = []\<rparr>"

subsection \<open>Forwarding input\<close>

fun to_payload :: "InputEvent \<Rightarrow> (Payload \<times> Channel) option" where
  "to_payload (Move x y m) = Some (MouseMove 0 0 x y m, InputPointer)"
| "to_payload (Button b down x y m) = Some (MouseButton b (if down then Down else Up) x y m 0 1, InputKeys)"
| "to_payload (InputEvent.Scroll v h m) = Some (MouseWheel v h m 0 0, InputKeys)"
| "to_payload (InputEvent.Key u down m) = Some (Payload.KeyEvent USAGE_PAGE_KEYBOARD u (if down then Down else Up) 0 m, InputKeys)"
| "to_payload Quit = None"

text \<open>The sequence number of the channel, and its counter moved on.\<close>

definition next_input_seq :: "Channel \<Rightarrow> 'd ClientStream \<Rightarrow> u16 \<times> 'd ClientStream" where
  "next_input_seq c cs =
     (if c = InputPointer then (cs_pointer_seq cs + 1, cs\<lparr>cs_pointer_seq := cs_pointer_seq cs + 1\<rparr>)
      else (cs_keys_seq cs + 1, cs\<lparr>cs_keys_seq := cs_keys_seq cs + 1\<rparr>))"

fun forward_input :: "(ControlFrame list \<Rightarrow> bool) \<Rightarrow> u64 \<Rightarrow> InputEvent list \<Rightarrow> 'd ClientStream \<Rightarrow> 'd ClientStream" where
  "forward_input send_ok now_ms [] cs = cs"
| "forward_input send_ok now_ms (event # events) cs =
     (if event = Quit then cs\<lparr>cs_quit := True\<rparr>
      else case to_payload event of
        None \<Rightarrow> forward_input send_ok now_ms events cs
      | Some (payload, c) \<Rightarrow>
          let (seq, cs) = next_input_seq c cs;
              frame = frame_new payload seq (ucast now_ms);
              cs = cs\<lparr>cs_out := cs_out cs @ [frame]\<rparr>
          in if send_ok (cs_out cs) then forward_input send_ok now_ms events cs else cs\<lparr>cs_quit := True\<rparr>)"

subsection \<open>Reporting\<close>

definition send_control :: "Payload \<Rightarrow> u64 \<Rightarrow> 'd ClientStream \<Rightarrow> 'd ClientStream" where
  "send_control payload now_ms cs =
     (let seq = cs_control_seq cs + 1
      in cs\<lparr>cs_control_seq := seq, cs_out := cs_out cs @ [frame_new payload seq (ucast now_ms)]\<rparr>)"

definition client_report :: "u64 \<Rightarrow> 'd ClientStream \<Rightarrow> 'd ClientStream" where
  "client_report now_ms cs =
     (if now_ms - cs_last_report cs \<ge> QOS_INTERVAL
      then let ((delivered, lost), sequences) = take_counts (cs_sequences cs);
               t = cs_telemetry cs;
               t = t\<lparr>lt_loss := loss_sample delivered lost now_ms (lt_loss t), lt_playout_delay_ms := jb_target_ms (cs_jitter cs),
                     lt_frames := (lt_frames t)\<lparr>fs_dropped := dropped (cs_jitter cs)\<rparr>\<rparr>
           in send_control (QosReport (to_qos_report t)) now_ms
                (cs\<lparr>cs_last_report := now_ms, cs_sequences := sequences, cs_telemetry := t\<rparr>)
      else cs)"

subsection \<open>Inbound frames\<close>

definition count_video :: "ControlFrame \<Rightarrow> 'd ClientStream \<Rightarrow> 'd ClientStream" where
  "count_video frame cs = (case cf_payload frame of
       VideoFrame _ _ _ _ _ _ data \<Rightarrow>
         cs\<lparr>cs_bytes := cs_bytes cs + word_of_nat (length data),
            cs_sequences := observe (h_sequence (cf_header frame)) (cs_sequences cs)\<rparr>
     | _ \<Rightarrow> cs)"

definition client_video :: "u64 \<Rightarrow> ControlFrame \<Rightarrow> 'd ClientStream \<Rightarrow> 'd ClientStream option" where
  "client_video now_ms frame cs =
     (let cs = count_video frame cs
      in case reassembler_accept (cs_reassembler cs) (cf_payload frame) now_ms of
           None \<Rightarrow> None
         | Some (None, r) \<Rightarrow> Some (cs\<lparr>cs_reassembler := r\<rparr>)
         | Some (Some assembled, r) \<Rightarrow>
             let cs = cs\<lparr>cs_reassembler := r, cs_received := cs_received cs + 1\<rparr>
             in map_option (\<lambda>(_, b). cs\<lparr>cs_jitter := b\<rparr>)
                  (push (assembled\<lparr>ef_sequence := cs_received cs\<rparr>) now_ms (cs_jitter cs)))"

definition client_control :: "nat \<Rightarrow> u64 \<Rightarrow> ControlFrame \<Rightarrow> 'd ClientStream \<Rightarrow> 'd ClientStream" where
  "client_control reply_us now_ms frame cs = (case cf_payload frame of
       Ping token \<Rightarrow> send_control (Pong token (word_of_nat (min reply_us 65535))) now_ms cs
     | _ \<Rightarrow> cs)"

text \<open>The \<open>match\<close> on what the transport delivered: \<open>None\<close> is a timeout, \<open>Some None\<close> the end of the stream. The flag says
  that the loop is left.\<close>

definition client_event :: "nat \<Rightarrow> u64 \<Rightarrow> TransportEvent option option \<Rightarrow> 'd ClientStream \<Rightarrow> ('d ClientStream \<times> bool) option" where
  "client_event reply_us now_ms event cs = (case event of
       Some (Some (Frame Video frame)) \<Rightarrow> map_option (\<lambda>cs. (cs, False)) (client_video now_ms frame cs)
     | Some (Some (Frame Control frame)) \<Rightarrow> Some (client_control reply_us now_ms frame cs, False)
     | Some (Some Closed) \<Rightarrow> Some (cs, True)
     | Some None \<Rightarrow> Some (cs, True)
     | _ \<Rightarrow> Some (cs, False))"

subsection \<open>Playing\<close>

definition present :: "DecodedFrame \<Rightarrow> 'd ClientStream \<Rightarrow> 'd ClientStream option" where
  "present pic cs = map_option (\<lambda>fb. cs\<lparr>cs_slot := latest_put fb (cs_slot cs)\<rparr>) (from_decoded pic)"

fun present_all :: "DecodedFrame list \<Rightarrow> 'd ClientStream \<Rightarrow> 'd ClientStream option" where
  "present_all [] cs = Some cs"
| "present_all (pic # pics) cs =
     (let t = cs_telemetry cs;
          cs = cs\<lparr>cs_decoded := cs_decoded cs + 1, cs_telemetry := t\<lparr>lt_frames := (lt_frames t)\<lparr>fs_decoded := fs_decoded (lt_frames t) + 1\<rparr>\<rparr>\<rparr>
      in Option.bind (present pic cs) (present_all pics))"

definition request_keyframe :: "u64 \<Rightarrow> 'd ClientStream \<Rightarrow> 'd ClientStream" where
  "request_keyframe now_ms cs =
     (if (case cs_last_keyframe_request cs of None \<Rightarrow> True | Some t \<Rightarrow> now_ms - t \<ge> KEYFRAME_REQUEST_INTERVAL)
      then send_control (RequestKeyframe KeyframeMode.Idr 0 0) now_ms
             (cs\<lparr>cs_last_keyframe_request := Some now_ms, cs_keyframe_requests := cs_keyframe_requests cs + 1\<rparr>)
      else cs)"

definition client_play :: "'d VideoDecoder \<Rightarrow> u64 \<Rightarrow> 'd ClientStream \<Rightarrow> 'd ClientStream option" where
  "client_play dec now_ms cs = (case poll now_ms (cs_jitter cs) of
       None \<Rightarrow> None
     | Some (Play frame, b) \<Rightarrow>
         (case vd_decode dec (ef_data frame) (ef_pts_us frame) (is_random_access_point (ef_kind frame)) (cs_decoder cs) of
            (Inr pictures, d) \<Rightarrow> present_all pictures (cs\<lparr>cs_jitter := b, cs_decoder := d\<rparr>)
          | (Inl e, d) \<Rightarrow>
              Some (request_keyframe now_ms
                (cs\<lparr>cs_jitter := b, cs_decoder := (if is_recoverable e then d else vd_reset dec d)\<rparr>)))
     | Some (_, b) \<Rightarrow> Some (cs\<lparr>cs_jitter := b\<rparr>))"

text \<open>One iteration; the flag says that the loop was left before the playout.\<close>

definition client_iteration ::
  "'d VideoDecoder \<Rightarrow> (ControlFrame list \<Rightarrow> bool) \<Rightarrow> u64 \<Rightarrow> InputEvent list \<Rightarrow> TransportEvent option option \<Rightarrow> nat \<Rightarrow>
   'd ClientStream \<Rightarrow> ('d ClientStream \<times> bool) option" where
  "client_iteration dec send_ok now_ms inputs event reply_us cs =
     (let cs = forward_input send_ok now_ms inputs cs;
          cs = client_report now_ms cs
      in case client_event reply_us now_ms event cs of
           None \<Rightarrow> None
         | Some (cs, True) \<Rightarrow> Some (cs, True)
         | Some (cs, False) \<Rightarrow> map_option (\<lambda>cs. (cs, False)) (client_play dec now_ms cs))"

subsection \<open>Video, end to end\<close>

text \<open>A message on the video channel, as bytes: what cannot be decoded is dropped by the transport.\<close>

definition receive_video :: "u8 list \<Rightarrow> u64 \<Rightarrow> 'd ClientStream \<Rightarrow> 'd ClientStream option" where
  "receive_video bytes now_ms cs = (case frame_decode bytes of Inl _ \<Rightarrow> Some cs | Inr frame \<Rightarrow> client_video now_ms frame cs)"

fun receive_all :: "(u8 list \<times> u64) list \<Rightarrow> 'd ClientStream \<Rightarrow> 'd ClientStream option" where
  "receive_all [] cs = Some cs"
| "receive_all ((bytes, t) # ms) cs = Option.bind (receive_video bytes t cs) (receive_all ms)"

lemma receive_all_append: "receive_all (xs @ ys) cs = Option.bind (receive_all xs cs) (receive_all ys)"
proof (induction xs arbitrary: cs)
  case (Cons m ms)
  obtain bytes t where "m = (bytes, t)" by fastforce
  with Cons show ?case by (cases "receive_video bytes t cs") auto
qed simp

lemma count_video_simps [simp]:
  "cs_reassembler (count_video f cs) = cs_reassembler cs" "cs_jitter (count_video f cs) = cs_jitter cs"
  "cs_received (count_video f cs) = cs_received cs"
  by (simp_all add: count_video_def split: Payload.split)

lemma client_video_partial:
  assumes "reassembler_accept (cs_reassembler cs) (cf_payload f) t = Some (None, r)"
  shows "\<exists>cs'. client_video t f cs = Some cs' \<and> cs_reassembler cs' = r \<and> cs_jitter cs' = cs_jitter cs \<and> cs_received cs' = cs_received cs"
  using assms by (simp add: client_video_def Let_def)

lemma client_video_complete:
  assumes "reassembler_accept (cs_reassembler cs) (cf_payload f) t = Some (Some e, r)"
  shows "\<exists>cs' accepted. client_video t f cs = Some cs' \<and> cs_reassembler cs' = r \<and> cs_received cs' = cs_received cs + 1 \<and>
    push (e\<lparr>ef_sequence := cs_received cs + 1\<rparr>) t (cs_jitter cs) = Some (accepted, cs_jitter cs')"
proof -
  obtain accepted b where "push (e\<lparr>ef_sequence := cs_received cs + 1\<rparr>) t (cs_jitter cs) = Some (accepted, b)"
    by (cases "superseded (e\<lparr>ef_sequence := cs_received cs + 1\<rparr>) (cs_jitter cs)")
      (auto elim!: push_superseded [where now = t] push_queued [where now = t])
  with assms show ?thesis by (simp add: client_video_def Let_def)
qed

text \<open>Encoded frames arrive as they were sent.\<close>

definition wire_frame :: "ControlFrame \<Rightarrow> bool" where
  "wire_frame f \<longleftrightarrow> frame_decode (frame_encode f) = Inr f"

lemma receive_partials:
  assumes "\<forall>(f, t) \<in> set fs. wire_frame f"
    and "accept_all (cs_reassembler cs) (map (\<lambda>(f, t). (cf_payload f, t)) fs) = Some (replicate (length fs) None, r)"
  shows "\<exists>cs'. receive_all (map (\<lambda>(f, t). (frame_encode f, t)) fs) cs = Some cs' \<and> cs_reassembler cs' = r \<and>
    cs_jitter cs' = cs_jitter cs \<and> cs_received cs' = cs_received cs"
  using assms
proof (induction fs arbitrary: cs)
  case (Cons ft fs)
  obtain f t where ft: "ft = (f, t)" by fastforce
  with Cons.prems obtain r1 where one: "reassembler_accept (cs_reassembler cs) (cf_payload f) t = Some (None, r1)"
    and rest: "accept_all r1 (map (\<lambda>(f, t). (cf_payload f, t)) fs) = Some (replicate (length fs) None, r)"
    by (auto split: option.splits)
  from client_video_partial [OF one] obtain cs1 where cs1: "client_video t f cs = Some cs1" "cs_reassembler cs1 = r1"
    "cs_jitter cs1 = cs_jitter cs" "cs_received cs1 = cs_received cs" by blast
  with Cons.IH [of cs1] Cons.prems(1) rest ft show ?case
    by (auto simp: receive_video_def wire_frame_def)
qed simp

lemma receive_frame:
  assumes "\<forall>(f, t) \<in> set (fs @ [(g, t)]). wire_frame f"
    and "accept_all (cs_reassembler cs) (map (\<lambda>(f, t). (cf_payload f, t)) (fs @ [(g, t)])) =
      Some (replicate (length fs) None @ [Some e], r)"
  shows "\<exists>cs' accepted. receive_all (map (\<lambda>(f, t). (frame_encode f, t)) (fs @ [(g, t)])) cs = Some cs' \<and>
    cs_received cs' = cs_received cs + 1 \<and>
    push (e\<lparr>ef_sequence := cs_received cs + 1\<rparr>) t (cs_jitter cs) = Some (accepted, cs_jitter cs')"
proof -
  from assms(2) obtain outs r1 out where
    first: "accept_all (cs_reassembler cs) (map (\<lambda>(f, t). (cf_payload f, t)) fs) = Some (outs, r1)"
    and second: "reassembler_accept r1 (cf_payload g) t = Some (out, r)" and outs: "outs @ [out] = replicate (length fs) None @ [Some e]"
    by (auto simp: accept_all_append bind_eq_Some_conv split: option.splits)
  from outs have eqs: "outs = replicate (length fs) None" "out = Some e" by simp_all
  from receive_partials [of fs cs r1] first eqs(1) assms(1) obtain cs1 where
    cs1: "receive_all (map (\<lambda>(f, t). (frame_encode f, t)) fs) cs = Some cs1" "cs_reassembler cs1 = r1"
      "cs_jitter cs1 = cs_jitter cs" "cs_received cs1 = cs_received cs" by auto
  from client_video_complete [of cs1 g t e r] second eqs(2) cs1(2) obtain cs2 accepted where
    "client_video t g cs1 = Some cs2" "cs_received cs2 = cs_received cs1 + 1"
    "push (e\<lparr>ef_sequence := cs_received cs1 + 1\<rparr>) t (cs_jitter cs1) = Some (accepted, cs_jitter cs2)" by auto
  with cs1 assms(1) show ?thesis by (auto simp: receive_all_append receive_video_def wire_frame_def)
qed

text \<open>The frames a call of \<open>send_encoded\<close> hands to the transport.\<close>

definition sent_frames :: "u64 \<Rightarrow> EncodedFrame \<Rightarrow> ('b, 'e) HostStream \<Rightarrow> ControlFrame list" where
  "sent_frames now e hs = drop (length (hs_out hs)) (hs_out (send_encoded (\<lambda>_. True) now e hs))"

lemma sent_frames_eq:
  "length (ef_data e) \<le> MAX_VIDEO_FRAME \<Longrightarrow> sent_frames now e hs = numbered (hs_seq hs) (ucast now)
     (fragment_video (hs_frame_id hs) (kind_code (ef_kind e)) (ef_temporal_layer e) (ef_pts_us e) (ef_data e))"
  using send_encoded_all [of "\<lambda>_. True" e now hs] by (simp add: sent_frames_def)

lemma frame_new_payload [simp]: "cf_payload (frame_new p s ts) = p"
  by (simp add: frame_new_def)

lemma wire_frame_new: "payload_wf p \<Longrightarrow> wire_frame (frame_new p s ts)"
  by (simp add: wire_frame_def frame_decode_encode_wf frame_new_wf)

text \<open>C25. Video, from the host's encoder to the viewer's playout queue. A compressed frame within the size limit
  is cut into fragments, numbered, encoded and handed to the transport by the host. If each of the fragments is
  delivered at least once, in any order and with repetitions, within the fragment timeout of the first, to a viewer
  in any reachable state that has room for one more frame, then exactly one frame comes out of the viewer's
  reassembler, when the last missing fragment arrives, and what is pushed into the jitter buffer is the frame the
  encoder produced: the same bytes, kind, layer and timestamp, under the viewer's own running number.\<close>

theorem video_end_to_end:
  fixes cs :: "'d ClientStream" and hs :: "('b, 'e) HostStream"
  assumes "reach (\<lambda>r. r = reassembler_new) reassembler_step (cs_reassembler cs)"
    and "map_of (ra_partials (cs_reassembler cs)) (hs_frame_id hs) = None" "in_flight (cs_reassembler cs) < MAX_PARTIAL_FRAMES"
    and "length (ef_data e) \<le> MAX_VIDEO_FRAME"
    and "fst ` set js = {0..<length (sent_frames now e hs)} - {j}" "j < length (sent_frames now e hs)"
    and "\<forall>u \<in> set (map snd js @ [t]). saturating_sub u (hd (map snd js @ [t])) \<le> FRAGMENT_TIMEOUT_MS"
  shows "\<exists>cs' accepted.
    receive_all (map (\<lambda>(i, u). (frame_encode (sent_frames now e hs ! i), u)) (js @ [(j, t)])) cs = Some cs' \<and>
    cs_received cs' = cs_received cs + 1 \<and>
    push (e\<lparr>ef_sequence := cs_received cs + 1, ef_ltr_index := None, ef_qp := None\<rparr>) t (cs_jitter cs) = Some (accepted, cs_jitter cs')"
proof -
  let ?k = "kind_code (ef_kind e)"
  let ?ps = "fragment_video (hs_frame_id hs) ?k (ef_temporal_layer e) (ef_pts_us e) (ef_data e)"
  let ?fs = "sent_frames now e hs"
  note fs = sent_frames_eq [OF assms(4), of now hs]
  have len: "length ?fs = length ?ps" by (simp add: fs)
  have frame: "wire_frame (?fs ! i)" "cf_payload (?fs ! i) = ?ps ! i" if "i < length ?fs" for i
    using that fragment_payload_wf [OF assms(4) kind_code_le, of i] by (simp_all add: fs numbered_nth wire_frame_new)
  have ind: "i < length ?fs" if "(i, u) \<in> set (js @ [(j, t)])" for i u
  proof -
    have "i \<in> insert j (fst ` set js)" using that by force
    with assms(6) show ?thesis unfolding assms(5) by auto
  qed
  have range: "\<forall>(i, u) \<in> set (js @ [(j, t)]). i < length (video_chunks (ef_data e))"
    using ind len by (auto simp: length_fragment_video)
  let ?gs = "map (\<lambda>(i, u). (?fs ! i, u)) js"
  have pl: "map (\<lambda>(f, t). (cf_payload f, t)) (?gs @ [(?fs ! j, t)]) =
    map (\<lambda>(i, u). (nth_fragment (hs_frame_id hs) ?k (ef_temporal_layer e) (ef_pts_us e) (video_chunks (ef_data e)) i, u)) (js @ [(j, t)])"
    using frame(2) ind range len by (auto simp: nth_fragment_video length_fragment_video intro!: map_cong)
  have wf: "reassembler_wf (cs_reassembler cs)" by (rule reassembler.reach_inv [OF assms(1)])
  have "\<exists>r'. accept_all (cs_reassembler cs) (map (\<lambda>(f, t). (cf_payload f, t)) (?gs @ [(?fs ! j, t)])) =
      Some (replicate (length js) None @ [Some (frame_of ?k (ef_temporal_layer e) (ef_pts_us e) (ef_data e))], r')"
    unfolding pl using assms len wf by (intro accept_all_complete) (simp_all add: length_fragment_video)
  then obtain r' where acc: "accept_all (cs_reassembler cs) (map (\<lambda>(f, t). (cf_payload f, t)) (?gs @ [(?fs ! j, t)])) =
      Some (replicate (length ?gs) None @ [Some (frame_of ?k (ef_temporal_layer e) (ef_pts_us e) (ef_data e))], r')" by auto
  have wires: "\<forall>(f, u) \<in> set (?gs @ [(?fs ! j, t)]). wire_frame f" using frame(1) ind by auto
  have e: "(frame_of ?k (ef_temporal_layer e) (ef_pts_us e) (ef_data e))\<lparr>ef_sequence := n\<rparr> =
      e\<lparr>ef_sequence := n, ef_ltr_index := None, ef_qp := None\<rparr>" for n
    by (simp add: frame_of_def)
  have bytes: "map (\<lambda>(f, t). (frame_encode f, t)) (?gs @ [(?fs ! j, t)]) = map (\<lambda>(i, u). (frame_encode (?fs ! i), u)) (js @ [(j, t)])"
    by (auto simp: comp_def)
  from receive_frame [OF wires acc] show ?thesis unfolding bytes e .
qed

definition small_frame :: EncodedFrame where
  "small_frame = \<lparr>ef_data = [1, 2, 3], ef_kind = Keyframe, ef_pts_us = 7, ef_sequence = 0, ef_temporal_layer = 0,
     ef_ltr_index = Some 1, ef_qp = None\<rparr>"

lemma small_frame_sent: "length (sent_frames 5 small_frame hs) = 1"
  by (simp add: sent_frames_eq length_fragment_video small_frame_def video_chunks_def length_chunks MAX_VIDEO_FRAME_def
      MAX_VIDEO_FRAGMENT_def)

theorem video_end_to_end_witness:
  "\<exists>p cs' accepted. pipeline_new recording_encoder_new 16 16 encoder_config_default = Inr p \<and>
    receive_all [(frame_encode (sent_frames 5 small_frame (host_stream_new 2000000 (injector_new () []) p) ! 0), 9)]
      (client_stream_new ()) = Some cs' \<and> cs_received cs' = 1 \<and>
    push (small_frame\<lparr>ef_sequence := 1, ef_ltr_index := None, ef_qp := None\<rparr>) 9 jitter_buffer_new = Some (accepted, cs_jitter cs')"
proof -
  obtain p where p: "pipeline_new recording_encoder_new 16 16 encoder_config_default = Inr p"
    by (simp add: pipeline_new_def recording_encoder_new_def config_is_valid_def encoder_config_default_def)
  let ?hs = "host_stream_new 2000000 (injector_new () []) p" and ?cs = "client_stream_new ()"
  have "reach (\<lambda>r. r = reassembler_new) reassembler_step (cs_reassembler ?cs)"
    by (rule reach_init) (simp add: client_stream_new_def)
  moreover have "map_of (ra_partials (cs_reassembler ?cs)) (hs_frame_id ?hs) = None" "in_flight (cs_reassembler ?cs) < MAX_PARTIAL_FRAMES"
    by (simp_all add: client_stream_new_def reassembler_new_def in_flight_def MAX_PARTIAL_FRAMES_def)
  moreover have "length (ef_data small_frame) \<le> MAX_VIDEO_FRAME" by (simp add: small_frame_def MAX_VIDEO_FRAME_def)
  moreover have "fst ` set [] = {0..<length (sent_frames 5 small_frame ?hs)} - {0}" "0 < length (sent_frames 5 small_frame ?hs)"
    by (simp_all add: small_frame_sent)
  moreover have "\<forall>u \<in> set (map snd [] @ [9]). saturating_sub u (hd (map snd [] @ [9])) \<le> FRAGMENT_TIMEOUT_MS" by simp
  ultimately have "\<exists>cs' accepted.
    receive_all (map (\<lambda>(i, u). (frame_encode (sent_frames 5 small_frame ?hs ! i), u)) ([] @ [(0, 9)])) ?cs = Some cs' \<and>
    cs_received cs' = cs_received ?cs + 1 \<and>
    push (small_frame\<lparr>ef_sequence := cs_received ?cs + 1, ef_ltr_index := None, ef_qp := None\<rparr>) 9 (cs_jitter ?cs) =
      Some (accepted, cs_jitter cs')"
    by (rule video_end_to_end)
  with p show ?thesis by (auto simp: client_stream_new_def)
qed

subsection \<open>Pings and the loss report\<close>

text \<open>The host numbers its pings, which travel on the control channel, from the counter of the video channel. The viewer
  looks for gaps in the numbers of the video channel alone, so that between two frames that both arrive each ping
  is reported as a lost packet.\<close>

lemma single_chunk: "length d \<le> MAX_VIDEO_FRAGMENT \<Longrightarrow> video_chunks d = [d]"
  by (subst video_chunks_def, subst chunks.simps, subst chunks.simps) (auto simp: MAX_VIDEO_FRAGMENT_def)

lemma single_fragment: "length d \<le> MAX_VIDEO_FRAGMENT \<Longrightarrow> fragment_video n k l p d = [VideoFrame n 0 1 k l p d]"
  by (simp add: fragment_video_def single_chunk)

lemma fragment_le_frame: "n \<le> MAX_VIDEO_FRAGMENT \<Longrightarrow> n \<le> MAX_VIDEO_FRAME"
  by (simp add: MAX_VIDEO_FRAGMENT_def MAX_VIDEO_FRAME_def)

theorem ping_counts_as_loss:
  fixes hs :: "('b, 'e) HostStream"
  assumes "length (ef_data e1) \<le> MAX_VIDEO_FRAGMENT" "length (ef_data e2) \<le> MAX_VIDEO_FRAGMENT"
  shows "\<exists>f ping g. hs_out (send_encoded (\<lambda>_. True) now e2 (host_poll relayed now (send_encoded (\<lambda>_. True) now e1 hs))) =
      hs_out hs @ [f, ping, g] \<and>
    channel (payload_type (cf_payload f)) = Video \<and> channel (payload_type (cf_payload ping)) = Control \<and>
    channel (payload_type (cf_payload g)) = Video \<and>
    sq_lost (observe (h_sequence (cf_header g)) (observe (h_sequence (cf_header f)) sequence_tracker_new)) = 1"
proof -
  let ?h1 = "send_encoded (\<lambda>_. True) now e1 hs" and ?h2 = "host_poll relayed now (send_encoded (\<lambda>_. True) now e1 hs)"
  note len = assms [THEN fragment_le_frame]
  let ?f = "frame_new (VideoFrame (hs_frame_id hs) 0 1 (kind_code (ef_kind e1)) (ef_temporal_layer e1) (ef_pts_us e1) (ef_data e1)) (hs_seq hs) (ucast now)"
  let ?p = "frame_new (Ping (hs_ping_token ?h1 + 1)) (hs_seq hs + 1) (ucast now)"
  let ?g = "frame_new (VideoFrame (hs_frame_id ?h2) 0 1 (kind_code (ef_kind e2)) (ef_temporal_layer e2) (ef_pts_us e2) (ef_data e2)) (hs_seq hs + 2) (ucast now)"
  have h1: "hs_out ?h1 = hs_out hs @ [?f]" "hs_seq ?h1 = hs_seq hs + 1"
    using send_encoded_all [of "\<lambda>_. True" e1 now hs] len(1) assms(1) by (simp_all add: single_fragment single_chunk)
  then have h2: "hs_out ?h2 = hs_out hs @ [?f, ?p]" "hs_seq ?h2 = hs_seq hs + 2"
    by (simp_all add: host_poll_def Let_def add.assoc)
  have out: "hs_out (send_encoded (\<lambda>_. True) now e2 ?h2) = hs_out hs @ [?f, ?p, ?g]"
    using send_encoded_all [of "\<lambda>_. True" e2 now ?h2] len(2) assms(2) h2 by (simp add: single_fragment)
  have seqs: "h_sequence (cf_header ?f) = hs_seq hs" "h_sequence (cf_header ?g) = hs_seq hs + 2" by (simp_all add: frame_new_def)
  have "sq_lost (observe (hs_seq hs + 2) (observe (hs_seq hs) sequence_tracker_new)) = 1"
    by (simp add: observe_def sequence_tracker_new_def MAX_REORDER_def)
  with out seqs show ?thesis
    by (intro exI [of _ ?f] exI [of _ ?p] exI [of _ ?g]) (simp add: channel_def)
qed

subsection \<open>Input, end to end\<close>

definition event_ok :: "InputEvent \<Rightarrow> bool" where
  "event_ok e = (case e of InputEvent.Key u _ _ \<Rightarrow> 0x01 \<le> u \<and> u \<le> 0xE7 | _ \<Rightarrow> True)"

lemma hid_usage_valid: "hid_usage_for key = Some u \<Longrightarrow> 0x01 \<le> u \<and> u \<le> 0xE7"
  using KEY_TABLE_valid
  by (auto simp: is_valid_keyboard_usage_def KEYBOARD_USAGE_MIN_def KEYBOARD_USAGE_MAX_def hid_usage_for_def bind_eq_Some_conv lookup_by_name_def find_Some_iff list_all_length)

lemma key_diff_ok: "list_all event_ok (snd (key_diff kd m ks ds))"
proof (induction ks arbitrary: ds)
  case (Cons k ks)
  then show ?case
    by (cases ds) (auto simp: Let_def case_prod_beta event_ok_def dest: hid_usage_valid split: option.split)
qed simp

lemma release_held_ok: "list_all event_ok (release_held ks ds)"
proof (induction ks arbitrary: ds)
  case (Cons k ks)
  then show ?case by (cases ds) (auto simp: event_ok_def dest: hid_usage_valid split: option.split)
qed simp

lemma not_key_ok: "list_all not_key evs \<Longrightarrow> list_all event_ok evs"
  by (auto simp: list_all_iff not_key_def event_ok_def split: InputEvent.splits)

lemma viewer_step_ok: "list_all event_ok (snd (viewer_step w st))"
proof -
  let ?m = "modifiers_from (w_is_key_down w)"
  obtain s1 e1 where p: "pointer_part w ?m (take_frame w st) = (s1, e1)" by fastforce
  obtain s2 e2 where b: "buttons_part w ?m s1 = (s2, e2)" by fastforce
  from pointer_part_not_key [OF p] buttons_part_not_key [OF b] p b show ?thesis
    by (simp add: viewer_step_def Let_def keys_part_def case_prod_beta key_diff_ok not_key_ok scroll_part_not_key)
qed

lemma viewer_loop_ok: "list_all event_ok (fst (snd (viewer_loop ws st)))"
proof (induction ws arbitrary: st)
  case (Cons w ws)
  with viewer_step_ok [of w st] show ?case
    by (simp add: case_prod_beta Let_def viewer_exit_def release_held_ok) (simp add: event_ok_def)
qed simp

text \<open>Consecutive sequence numbers, from the one after \<open>s\<close> on.\<close>

fun counted :: "u16 \<Rightarrow> ControlFrame list \<Rightarrow> bool" where
  "counted s [] \<longleftrightarrow> True"
| "counted s (f # fs) \<longleftrightarrow> h_sequence (cf_header f) = s + 1 \<and> counted (s + 1) fs"

definition frame_channel :: "ControlFrame \<Rightarrow> Channel" where
  "frame_channel f = channel (payload_type (cf_payload f))"

lemma to_payload_ok:
  assumes "event_ok e" "to_payload e = Some (p, c)"
  shows "payload_wf p \<and> channel (payload_type p) = c \<and> (c = InputKeys \<or> c = InputPointer)"
  using assms by (cases e) (auto simp: event_ok_def channel_def validate_usage_def)

lemma forward_input_all:
  assumes "list_all event_ok evs"
  shows "\<exists>fs. cs_out (forward_input (\<lambda>_. True) now evs cs) = cs_out cs @ fs \<and>
    map cf_payload fs = map (fst \<circ> the \<circ> to_payload) (takeWhile (\<lambda>e. e \<noteq> Quit) evs) \<and>
    list_all (\<lambda>f. wire_frame f \<and> (frame_channel f = InputKeys \<or> frame_channel f = InputPointer)) fs \<and>
    counted (cs_pointer_seq cs) (filter (\<lambda>f. frame_channel f = InputPointer) fs) \<and>
    counted (cs_keys_seq cs) (filter (\<lambda>f. frame_channel f = InputKeys) fs)"
  using assms
proof (induction evs arbitrary: cs)
  case (Cons e evs)
  show ?case
  proof (cases "e = Quit")
    case False
    then obtain p c where pc: "to_payload e = Some (p, c)" by (cases e) auto
    with to_payload_ok Cons.prems have p: "payload_wf p" "channel (payload_type p) = c" "c = InputKeys \<or> c = InputPointer" by auto
    obtain s cs1 where s: "next_input_seq c cs = (s, cs1)" by fastforce
    let ?f = "frame_new p s (ucast now)" let ?cs = "cs1\<lparr>cs_out := cs_out cs1 @ [?f]\<rparr>"
    from Cons.IH [of ?cs] Cons.prems obtain fs where fs:
      "cs_out (forward_input (\<lambda>_. True) now evs ?cs) = cs_out ?cs @ fs"
      "map cf_payload fs = map (fst \<circ> the \<circ> to_payload) (takeWhile (\<lambda>e. e \<noteq> Quit) evs)"
      "list_all (\<lambda>f. wire_frame f \<and> (frame_channel f = InputKeys \<or> frame_channel f = InputPointer)) fs"
      "counted (cs_pointer_seq ?cs) (filter (\<lambda>f. frame_channel f = InputPointer) fs)"
      "counted (cs_keys_seq ?cs) (filter (\<lambda>f. frame_channel f = InputKeys) fs)" by auto
    have f: "wire_frame ?f" "frame_channel ?f = c" "h_sequence (cf_header ?f) = s"
      using p by (simp_all add: wire_frame_new frame_channel_def) (simp add: frame_new_def)
    have "cs_out cs1 = cs_out cs"
      "c = InputPointer \<Longrightarrow> s = cs_pointer_seq cs + 1 \<and> cs_pointer_seq cs1 = s \<and> cs_keys_seq cs1 = cs_keys_seq cs"
      "c = InputKeys \<Longrightarrow> s = cs_keys_seq cs + 1 \<and> cs_keys_seq cs1 = s \<and> cs_pointer_seq cs1 = cs_pointer_seq cs"
      using s by (auto simp: next_input_seq_def split: if_splits)
    with fs f p(3) pc s False show ?thesis by (intro exI [of _ "?f # fs"]) auto
  qed (simp add: exI [of _ "[]"])
qed simp



end
