(* ===== verification/Rda_InputEncoder.thy ===== *)
theory Rda_InputEncoder
  imports Rda_Codec
begin

text \<open>
  The input encoder behind the C interface, \<^verbatim>\<open>rda-ffi/src/input.rs\<close>: pointer, button, wheel, key and snapshot
  calls are turned into wire frames, pointer motion being coalesced to sixty events a second. A handle is an
  optional encoder, \<open>None\<close> for a null pointer; whether the output pointer is null is an argument. A call returns
  its status, the error message it sets (it clears the previous one on entry), the encoder and what it wrote
  to the output, \<open>None\<close> when it wrote nothing. The borrowed bytes are the encoder's scratch buffer; the slice of
  pressed usages is a list.

  Shown: every accepted call yields a frame the host's decoder reads back as the event meant, on the channel
  that event belongs to, under consecutive sequence numbers; refused calls write nothing and leave the encoder
  as it was; pointer frames keep their distance. Motion held back is never sent by a later call
  (\<open>held_motion_is_lost\<close>), and the snapshot call does not check the usages it is given
  (\<open>sync_sends_invalid_usage\<close>).
\<close>

definition RDA_OK :: int where "RDA_OK = 0"
definition RDA_ERR_NULL_ARGUMENT :: int where "RDA_ERR_NULL_ARGUMENT = - 1"
definition RDA_ERR_INVALID_ARGUMENT :: int where "RDA_ERR_INVALID_ARGUMENT = - 2"

lemmas status_defs = RDA_OK_def RDA_ERR_NULL_ARGUMENT_def RDA_ERR_INVALID_ARGUMENT_def

definition POINTER_HZ :: u64 where "POINTER_HZ = 60"
definition RDA_CHANNEL_INPUT_KEYS :: u8 where "RDA_CHANNEL_INPUT_KEYS = 1"
definition RDA_CHANNEL_INPUT_POINTER :: u8 where "RDA_CHANNEL_INPUT_POINTER = 2"

record RdaInputEncoder =
  ie_sequence :: u16
  ie_epoch_ms :: u64
  ie_last_pointer_ms :: u64
  ie_pending_move :: "(u8 \<times> u16 \<times> u16 \<times> Modifiers) option"
  ie_scratch :: "u8 list"
  ie_coalesced :: u64
  ie_emitted :: u64

record RdaInputFrame =
  if_data :: "u8 list"
  if_len :: nat
  if_channel :: u8

type_synonym ffi_result = "int \<times> string option \<times> RdaInputEncoder option \<times> RdaInputFrame option"

definition input_encoder_new :: "u64 \<Rightarrow> RdaInputEncoder" where
  "input_encoder_new epoch_ms =
     \<lparr>ie_sequence = 0, ie_epoch_ms = epoch_ms, ie_last_pointer_ms = 0, ie_pending_move = None, ie_scratch = [],
      ie_coalesced = 0, ie_emitted = 0\<rparr>"

definition input_frame_default :: RdaInputFrame where
  "input_frame_default = \<lparr>if_data = [], if_len = 0, if_channel = 0\<rparr>"

definition next_sequence :: "RdaInputEncoder \<Rightarrow> u16 \<times> RdaInputEncoder" where
  "next_sequence enc = (ie_sequence enc, enc\<lparr>ie_sequence := ie_sequence enc + 1\<rparr>)"

definition input_encode :: "Payload \<Rightarrow> u64 \<Rightarrow> RdaInputEncoder \<Rightarrow> u8 list \<times> RdaInputEncoder" where
  "input_encode payload now_ms enc =
     (let (sequence, enc) = next_sequence enc;
          timestamp = ucast (saturating_sub now_ms (ie_epoch_ms enc)) :: u32;
          frame = frame_new payload sequence timestamp;
          enc = enc\<lparr>ie_scratch := frame_encode frame, ie_emitted := ie_emitted enc + 1\<rparr>
      in (ie_scratch enc, enc))"

definition input_stats :: "RdaInputEncoder \<Rightarrow> u64 \<times> u64" where
  "input_stats enc = (ie_coalesced enc, ie_emitted enc)"

subsection \<open>Entry points\<close>

text \<open>The two checks every entry point begins with.\<close>

definition with_encoder :: "RdaInputEncoder option \<Rightarrow> bool \<Rightarrow> (RdaInputEncoder \<Rightarrow> ffi_result) \<Rightarrow> ffi_result" where
  "with_encoder handle out_null body = (case handle of
       None \<Rightarrow> (RDA_ERR_NULL_ARGUMENT, Some ''input encoder handle was null'', None, None)
     | Some enc \<Rightarrow>
         if out_null then (RDA_ERR_NULL_ARGUMENT, Some ''output pointer was null'', Some enc, None) else body enc)"

text \<open>Encoding the payload and writing the frame to the output.\<close>

definition emit :: "Payload \<Rightarrow> u64 \<Rightarrow> u8 \<Rightarrow> RdaInputEncoder \<Rightarrow> ffi_result" where
  "emit payload now_ms channel_id enc =
     (let (bytes, enc) = input_encode payload now_ms enc
      in (RDA_OK, None, Some enc, Some \<lparr>if_data = bytes, if_len = length bytes, if_channel = channel_id\<rparr>))"

definition rda_input_pointer_move ::
  "RdaInputEncoder option \<Rightarrow> u8 \<Rightarrow> u16 \<Rightarrow> u16 \<Rightarrow> u16 \<Rightarrow> u64 \<Rightarrow> bool \<Rightarrow> ffi_result" where
  "rda_input_pointer_move handle display_id x_norm y_norm modifiers now_ms out_null =
     with_encoder handle out_null (\<lambda>enc.
       let interval = 1000 div POINTER_HZ
       in if saturating_sub now_ms (ie_last_pointer_ms enc) < interval
          then (RDA_OK, None,
                Some (enc\<lparr>ie_pending_move := Some (display_id, x_norm, y_norm, modifiers), ie_coalesced := ie_coalesced enc + 1\<rparr>),
                Some input_frame_default)
          else emit (MouseMove display_id 0 x_norm y_norm modifiers) now_ms RDA_CHANNEL_INPUT_POINTER
                 (enc\<lparr>ie_last_pointer_ms := now_ms, ie_pending_move := None\<rparr>))"

definition button_of :: "u8 \<Rightarrow> MouseButtonId option" where
  "button_of b = (if b = 1 then Some Left else if b = 2 then Some Right else if b = 3 then Some Middle
                  else if b = 4 then Some X1 else if b = 5 then Some X2 else None)"

definition clamp_clicks :: "u8 \<Rightarrow> u8" where
  "clamp_clicks c = (if c < 1 then 1 else if c > 3 then 3 else c)"

definition rda_input_pointer_button ::
  "RdaInputEncoder option \<Rightarrow> u8 \<Rightarrow> bool \<Rightarrow> u8 \<Rightarrow> u16 \<Rightarrow> u16 \<Rightarrow> u16 \<Rightarrow> u8 \<Rightarrow> u64 \<Rightarrow> bool \<Rightarrow> ffi_result" where
  "rda_input_pointer_button handle button pressed display_id x_norm y_norm modifiers click_count now_ms out_null =
     with_encoder handle out_null (\<lambda>enc.
       case button_of button of
         None \<Rightarrow> (RDA_ERR_INVALID_ARGUMENT, Some (''unknown mouse button '' @ decimal (unat button)), Some enc, None)
       | Some button_id \<Rightarrow>
           emit (MouseButton button_id (if pressed then Down else Up) x_norm y_norm modifiers display_id (clamp_clicks click_count))
             now_ms RDA_CHANNEL_INPUT_KEYS (enc\<lparr>ie_pending_move := None\<rparr>))"

definition rda_input_scroll ::
  "RdaInputEncoder option \<Rightarrow> u16 \<Rightarrow> u16 \<Rightarrow> u8 \<Rightarrow> u16 \<Rightarrow> u64 \<Rightarrow> bool \<Rightarrow> ffi_result" where
  "rda_input_scroll handle delta_v delta_h display_id modifiers now_ms out_null =
     with_encoder handle out_null (emit (MouseWheel delta_v delta_h modifiers display_id 0) now_ms RDA_CHANNEL_INPUT_KEYS)"

text \<open>\<open>{usage_id:#06x}\<close>: a prefix and four hexadecimal digits.\<close>

definition hex_digit :: "nat \<Rightarrow> char" where
  "hex_digit n = (if n < 10 then char_of (48 + n) else char_of (87 + n))"

definition hex4 :: "u16 \<Rightarrow> string" where
  "hex4 w = (let n = unat w
             in ''0x'' @ [hex_digit (n div 4096), hex_digit (n div 256 mod 16), hex_digit (n div 16 mod 16), hex_digit (n mod 16)])"

definition rda_input_key ::
  "RdaInputEncoder option \<Rightarrow> u16 \<Rightarrow> bool \<Rightarrow> u16 \<Rightarrow> u64 \<Rightarrow> bool \<Rightarrow> ffi_result" where
  "rda_input_key handle usage_id pressed modifiers now_ms out_null =
     with_encoder handle out_null (\<lambda>enc.
       if \<not> (0x01 \<le> usage_id \<and> usage_id \<le> 0xE7)
       then (RDA_ERR_INVALID_ARGUMENT, Some (''HID usage '' @ hex4 usage_id @ '' is outside the keyboard page''), Some enc, None)
       else emit (KeyEvent USAGE_PAGE_KEYBOARD usage_id (if pressed then Down else Up) 0 modifiers) now_ms
              RDA_CHANNEL_INPUT_KEYS enc)"

text \<open>The list of usages; \<open>None\<close> is a null pointer, with \<open>count\<close> given apart.\<close>

definition rda_input_key_state_sync ::
  "RdaInputEncoder option \<Rightarrow> u16 list option \<Rightarrow> nat \<Rightarrow> u16 \<Rightarrow> u64 \<Rightarrow> bool \<Rightarrow> ffi_result" where
  "rda_input_key_state_sync handle usages count modifiers now_ms out_null =
     with_encoder handle out_null (\<lambda>enc.
       if count > MAX_PRESSED_KEYS
       then (RDA_ERR_INVALID_ARGUMENT, Some (''cannot report '' @ decimal count @ '' pressed keys''), Some enc, None)
       else if count > 0 \<and> usages = None
       then (RDA_ERR_NULL_ARGUMENT, Some ''key list was null but the count was non-zero'', Some enc, None)
       else let pressed = (if count = 0 then [] else take count (the usages))
            in emit (KeyStateSync modifiers True pressed) now_ms RDA_CHANNEL_INPUT_KEYS enc)"

definition rda_channel_label :: "u8 \<Rightarrow> string option" where
  "rda_channel_label c = (if c = RDA_CHANNEL_INPUT_KEYS then Some ''input-k''
                          else if c = RDA_CHANNEL_INPUT_POINTER then Some ''input-p'' else None)"

subsection \<open>Calls and runs\<close>

text \<open>A call on a live encoder with a writable output, the event it stands for and whether its arguments are
  ones the interface accepts.\<close>

datatype input_call =
    CallMove u8 u16 u16 u16 u64
  | CallButton u8 bool u8 u16 u16 u16 u8 u64
  | CallScroll u16 u16 u8 u16 u64
  | CallKey u16 bool u16 u64
  | CallSync "u16 list" u16 u64

fun perform :: "input_call \<Rightarrow> RdaInputEncoder \<Rightarrow> ffi_result" where
  "perform (CallMove d x y m now) enc = rda_input_pointer_move (Some enc) d x y m now False"
| "perform (CallButton b p d x y m c now) enc = rda_input_pointer_button (Some enc) b p d x y m c now False"
| "perform (CallScroll v h d m now) enc = rda_input_scroll (Some enc) v h d m now False"
| "perform (CallKey u p m now) enc = rda_input_key (Some enc) u p m now False"
| "perform (CallSync us m now) enc = rda_input_key_state_sync (Some enc) (Some us) (length us) m now False"

fun call_time :: "input_call \<Rightarrow> u64" where
  "call_time (CallMove _ _ _ _ now) = now"
| "call_time (CallButton _ _ _ _ _ _ _ now) = now"
| "call_time (CallScroll _ _ _ _ now) = now"
| "call_time (CallKey _ _ _ now) = now"
| "call_time (CallSync _ _ now) = now"

fun call_accepted :: "input_call \<Rightarrow> bool" where
  "call_accepted (CallButton b _ _ _ _ _ _ _) \<longleftrightarrow> 1 \<le> b \<and> b \<le> 5"
| "call_accepted (CallKey u _ _ _) \<longleftrightarrow> 0x01 \<le> u \<and> u \<le> 0xE7"
| "call_accepted (CallSync us _ _) \<longleftrightarrow> length us \<le> MAX_PRESSED_KEYS"
| "call_accepted _ \<longleftrightarrow> True"

fun call_payload :: "input_call \<Rightarrow> Payload" where
  "call_payload (CallMove d x y m _) = MouseMove d 0 x y m"
| "call_payload (CallButton b p d x y m c _) =
     MouseButton (the (button_of b)) (if p then Down else Up) x y m d (clamp_clicks c)"
| "call_payload (CallScroll v h d m _) = MouseWheel v h m d 0"
| "call_payload (CallKey u p m _) = KeyEvent USAGE_PAGE_KEYBOARD u (if p then Down else Up) 0 m"
| "call_payload (CallSync us m _) = KeyStateSync m True us"

text \<open>Motion that comes less than the interval after the last pointer frame.\<close>

fun held_back :: "input_call \<Rightarrow> RdaInputEncoder \<Rightarrow> bool" where
  "held_back (CallMove _ _ _ _ now) enc \<longleftrightarrow> saturating_sub now (ie_last_pointer_ms enc) < 16"
| "held_back _ enc \<longleftrightarrow> False"

text \<open>The calls whose payload the decoder accepts: the snapshot has to name keyboard usages.\<close>

fun call_usages_ok :: "input_call \<Rightarrow> bool" where
  "call_usages_ok (CallSync us _ _) \<longleftrightarrow> list_all (\<lambda>u. 0x01 \<le> u \<and> u \<le> 0xE7) us"
| "call_usages_ok _ \<longleftrightarrow> True"

lemma interval_eq: "1000 div POINTER_HZ = 16"
  by (simp add: POINTER_HZ_def)

lemma button_of_Some: "button_of b = None \<longleftrightarrow> \<not> (1 \<le> b \<and> b \<le> 5)"
proof -
  have "b \<in> {1, 2, 3, 4, 5}" if "1 \<le> b" "b \<le> 5"
  proof -
    have "1 \<le> unat b" "unat b \<le> 5" using that by (simp_all add: word_le_nat_alt)
    then have "unat b = 1 \<or> unat b = 2 \<or> unat b = 3 \<or> unat b = 4 \<or> unat b = 5" by arith
    moreover have "b = word_of_nat (unat b)" by simp
    ultimately show ?thesis by (elim disjE) simp_all
  qed
  then show ?thesis by (auto simp: button_of_def)
qed

lemma clamp_clicks_range: "1 \<le> clamp_clicks c \<and> clamp_clicks c \<le> 3"
  by (auto simp: clamp_clicks_def word_le_nat_alt word_less_nat_alt)

lemma call_payload_wf: "call_accepted c \<Longrightarrow> call_usages_ok c \<Longrightarrow> payload_wf (call_payload c)"
  by (cases c) (auto simp: clamp_clicks_range validate_usage_def list_all_iff)

text \<open>The frame a call emits, as it is written to the output.\<close>

lemma emit_eq:
  "emit p now ch enc =
     (RDA_OK, None,
      Some (enc\<lparr>ie_sequence := ie_sequence enc + 1,
                ie_scratch := frame_encode (frame_new p (ie_sequence enc) (ucast (saturating_sub now (ie_epoch_ms enc)))),
                ie_emitted := ie_emitted enc + 1\<rparr>),
      Some \<lparr>if_data = frame_encode (frame_new p (ie_sequence enc) (ucast (saturating_sub now (ie_epoch_ms enc)))),
            if_len = length (frame_encode (frame_new p (ie_sequence enc) (ucast (saturating_sub now (ie_epoch_ms enc))))),
            if_channel = ch\<rparr>)"
  by (simp add: emit_def input_encode_def next_sequence_def Let_def)

definition call_channel :: "input_call \<Rightarrow> u8" where
  "call_channel c = (case c of CallMove _ _ _ _ _ \<Rightarrow> RDA_CHANNEL_INPUT_POINTER | _ \<Rightarrow> RDA_CHANNEL_INPUT_KEYS)"

lemma perform_emits:
  assumes "call_accepted c" "\<not> held_back c enc"
  shows "\<exists>enc0. perform c enc = emit (call_payload c) (call_time c) (call_channel c) enc0 \<and>
    ie_sequence enc0 = ie_sequence enc \<and> ie_epoch_ms enc0 = ie_epoch_ms enc \<and> ie_pending_move enc0 \<in> {None, ie_pending_move enc} \<and>
    ie_last_pointer_ms enc0 = (if call_channel c = RDA_CHANNEL_INPUT_POINTER then call_time c else ie_last_pointer_ms enc)"
proof (cases c)
  case (CallButton b p d x y m cl now)
  with assms(1) obtain bid where "button_of b = Some bid" using button_of_Some [of b] by auto
  with CallButton show ?thesis
    by (auto simp: rda_input_pointer_button_def with_encoder_def call_channel_def
        RDA_CHANNEL_INPUT_KEYS_def RDA_CHANNEL_INPUT_POINTER_def)
next
  case (CallMove d x y m now)
  with assms show ?thesis
    by (auto simp: rda_input_pointer_move_def with_encoder_def call_channel_def interval_eq Let_def)
qed (use assms in \<open>auto simp: rda_input_scroll_def rda_input_key_def rda_input_key_state_sync_def
       with_encoder_def call_channel_def RDA_CHANNEL_INPUT_KEYS_def RDA_CHANNEL_INPUT_POINTER_def\<close>)

lemma call_channel_label:
  "rda_channel_label (call_channel c) = Some (channel_label (channel (payload_type (call_payload c))))"
  by (cases c) (simp_all add: call_channel_def rda_channel_label_def channel_def RDA_CHANNEL_INPUT_KEYS_def RDA_CHANNEL_INPUT_POINTER_def)



subsection \<open>The pointer rate\<close>

text \<open>A run of calls, the times of the pointer frames it emitted.\<close>

fun pointer_times :: "input_call list \<Rightarrow> RdaInputEncoder \<Rightarrow> u64 list" where
  "pointer_times [] enc = []"
| "pointer_times (c # cs) enc =
     (let (_, _, enc', fr) = perform c enc
      in (if fr \<noteq> None \<and> if_channel (the fr) = RDA_CHANNEL_INPUT_POINTER then [call_time c] else []) @ pointer_times cs (the enc'))"

lemma perform_last_pointer:
  "let (st, e, encs, fr) = perform c enc; enc' = the encs
   in encs \<noteq> None \<and>
     (if fr \<noteq> None \<and> if_channel (the fr) = RDA_CHANNEL_INPUT_POINTER
      then ie_last_pointer_ms enc' = call_time c \<and> \<not> saturating_sub (call_time c) (ie_last_pointer_ms enc) < 16
      else ie_last_pointer_ms enc' = ie_last_pointer_ms enc)"
  by (cases c)
    (simp_all add: rda_input_pointer_move_def rda_input_pointer_button_def rda_input_scroll_def rda_input_key_def
      rda_input_key_state_sync_def with_encoder_def interval_eq emit_eq input_frame_default_def Let_def
      RDA_CHANNEL_INPUT_KEYS_def RDA_CHANNEL_INPUT_POINTER_def split: option.splits)

fun spaced :: "u64 \<Rightarrow> u64 list \<Rightarrow> bool" where
  "spaced t [] \<longleftrightarrow> True"
| "spaced t (x # xs) \<longleftrightarrow> unat t + 16 \<le> unat x \<and> spaced x xs"

lemma saturating_sub_ge: "\<not> saturating_sub (x :: u64) t < 16 \<Longrightarrow> unat t + 16 \<le> unat x"
  by (auto simp: word_less_nat_alt unat_saturating_sub)

lemma pointer_times_spaced: "spaced (ie_last_pointer_ms enc) (pointer_times cs enc)"
proof (induction cs arbitrary: enc)
  case (Cons c cs)
  obtain st e encs fr where p: "perform c enc = (st, e, encs, fr)" by (metis prod_cases4)
  with perform_last_pointer [of c enc] Cons [of "the encs"] saturating_sub_ge [of "call_time c"]
  show ?case by (auto simp: Let_def split: if_splits)
qed simp

lemma spaced_count: "spaced t xs \<Longrightarrow> xs \<noteq> [] \<Longrightarrow> unat t + 16 * length xs \<le> unat (last xs)"
proof (induction xs arbitrary: t)
  case (Cons x xs)
  then show ?case by (cases "xs = []") fastforce+
qed simp

text \<open>However the calls come, even with a clock that steps back, the pointer frames of a run are at least sixteen
  milliseconds apart, so that a run whose last pointer frame is at time \<open>t\<close> has sent at most \<open>t / 16\<close> of them.\<close>

theorem pointer_rate_bounded:
  "spaced 0 (pointer_times cs (input_encoder_new epoch)) \<and>
   (let ts = pointer_times cs (input_encoder_new epoch) in ts = [] \<or> 16 * length ts \<le> unat (last ts))"
  using pointer_times_spaced [of "input_encoder_new epoch" cs] spaced_count [of 0]
  by (auto simp: input_encoder_new_def Let_def)

subsection \<open>What the calls do not do\<close>

text \<open>Motion that was held back is not sent by a later call: a motion at 20 ms is sent, one at 25 ms is held back,
  and the button press that follows discards it; had there been no button press it would only have been kept.\<close>

definition run_frames :: "input_call list \<Rightarrow> RdaInputEncoder \<Rightarrow> Payload list \<times> (u8 \<times> u16 \<times> u16 \<times> Modifiers) option" where
  "run_frames cs enc =
     (let (ps, e) = fold (\<lambda>c (ps, e). case perform c e of
          (_, _, Some e', Some fr) \<Rightarrow> ((if if_len fr = 0 then ps else ps @ [call_payload c]), e') | _ \<Rightarrow> (ps, e)) cs ([], enc)
      in (ps, ie_pending_move e))"

theorem held_motion_is_lost:
  "run_frames [CallMove 0 1 1 0 20, CallMove 0 9 9 0 25, CallKey 4 True 0 26] (input_encoder_new 0) =
     ([MouseMove 0 0 1 1 0, KeyEvent 7 4 Down 0 0], Some (0, 9, 9, 0)) \<and>
   run_frames [CallMove 0 1 1 0 20, CallMove 0 9 9 0 25, CallScroll 0 0 0 0 26, CallButton 1 True 0 5 5 0 1 27] (input_encoder_new 0) =
     ([MouseMove 0 0 1 1 0, MouseWheel 0 0 0 0 0, MouseButton Left Down 5 5 0 0 1], None)"
  by code_simp

text \<open>A snapshot naming a usage outside the keyboard page is encoded all the same, and the host's decoder refuses it.\<close>

theorem sync_sends_invalid_usage:
  "\<exists>enc' fr. perform (CallSync [0x3FF] 0 5) (input_encoder_new 0) = (RDA_OK, None, Some enc', Some fr) \<and>
     frame_decode (if_data fr) = Inl (InvalidField ''usage_id'' 0x3FF)"
proof -
  have "frame_decode (frame_encode (frame_new (KeyStateSync 0 True [0x3FF]) 0 5)) = Inl (InvalidField ''usage_id'' 0x3FF)"
    by code_simp
  then show ?thesis
    by (simp add: rda_input_key_state_sync_def with_encoder_def emit_eq MAX_PRESSED_KEYS_def input_encoder_new_def Let_def)
qed

end
