(* ===== verification/Rda_Handshake.thy ===== *)
theory Rda_Handshake
  imports Rda_Transport Rda_Pake Rda_Sas Rda_Token
begin

text \<open>
  The PIN handshake over the control channel, \<^verbatim>\<open>rda-session/src/auth.rs\<close>. Each side is one function in the state
  monad over the events that arrive and the messages it sends; a handshake that fails stops there with its error.
  The end of the event list is the timeout of a step, \<open>None\<close> the end of the event stream; sends do not fail. The
  nonces and SPAKE2 scalars drawn are arguments, the two fingerprints are optional because the DTLS handshake may
  not have produced a certificate. The CBOR encoding of the four bodies belongs to a library: \<open>cbor_bodies\<close> is a record
  of its encoders and decoders, and \<open>bodies_roundtrip\<close> the hypothesis that they fit.

  Shown: an honest run over the wire ends with both sides authenticated, the same words to compare and the
  permissions the host granted; whatever arrives, a host that reports success has seen the fingerprint the peer
  really presented, used a PIN that was usable, and checked the confirmation tag and the signature over this very
  connection. The controller has no such assurance about the host's identity key: it is never signed for
  (\<open>controller_accepts_any_host_key\<close>).
\<close>

datatype AuthError =
    Malformed string | Unexpected | BadPin | BindingFailed | NoCertificate | TimedOut | SessionClosed

record HelloBody =
  hb_pubkey :: "u8 list"
  hb_nonce :: "u8 list"
  hb_fingerprint :: "u8 list"

record PakeBody =
  pb_message :: "u8 list"
  pb_confirm :: "u8 list option"

record ConfirmBody =
  cb_confirm :: "u8 list"
  cb_signature :: "u8 list"

record ReadyBody =
  rb_caps :: "string list"
  rb_sas :: "string list"

record Authenticated =
  au_peer :: PublicIdentity
  au_caps :: SessionCaps
  au_sas :: "string list"

record cbor_bodies =
  hello_enc :: "HelloBody \<Rightarrow> string + u8 list"
  hello_dec :: "u8 list \<Rightarrow> string + HelloBody"
  pake_enc :: "PakeBody \<Rightarrow> string + u8 list"
  pake_dec :: "u8 list \<Rightarrow> string + PakeBody"
  confirm_enc :: "ConfirmBody \<Rightarrow> string + u8 list"
  confirm_dec :: "u8 list \<Rightarrow> string + ConfirmBody"
  ready_enc :: "ReadyBody \<Rightarrow> string + u8 list"
  ready_dec :: "u8 list \<Rightarrow> string + ReadyBody"

definition codec_fits :: "('a \<Rightarrow> string + u8 list) \<Rightarrow> (u8 list \<Rightarrow> string + 'a) \<Rightarrow> bool" where
  "codec_fits enc dec \<longleftrightarrow> (\<forall>x. \<exists>bs. enc x = Inr bs \<and> dec bs = Inr x)"

definition bodies_roundtrip :: "cbor_bodies \<Rightarrow> bool" where
  "bodies_roundtrip C \<longleftrightarrow>
     codec_fits (hello_enc C) (hello_dec C) \<and> codec_fits (pake_enc C) (pake_dec C) \<and>
     codec_fits (confirm_enc C) (confirm_dec C) \<and> codec_fits (ready_enc C) (ready_dec C)"

subsection \<open>Messages\<close>

record handshake_io =
  io_in :: "TransportEvent option list"
  io_out :: "u8 list list"

type_synonym 'a handshake = "(handshake_io, AuthError, 'a) st"

definition lift_err :: "('e \<Rightarrow> AuthError) \<Rightarrow> 'e + 'a \<Rightarrow> 'a handshake" where
  "lift_err f m io = ((case m of Inl e \<Rightarrow> Inl (f e) | Inr x \<Rightarrow> Inr x), io)"

definition hs_encode :: "MessageType \<Rightarrow> string + u8 list \<Rightarrow> u16 \<Rightarrow> AuthError + u8 list" where
  "hs_encode kind cbor_bytes sequence = (case cbor_bytes of
       Inl e \<Rightarrow> Inl (Malformed e)
     | Inr body \<Rightarrow> Inr (frame_encode (frame_new (Unknown (msg_code kind) body) sequence 0)))"

definition hs_decode :: "(u8 list \<Rightarrow> string + 'a) \<Rightarrow> MessageType \<Rightarrow> ControlFrame \<Rightarrow> AuthError + 'a" where
  "hs_decode dec expect frame = (case cf_payload frame of
       Unknown msg_type body \<Rightarrow>
         if msg_type \<noteq> msg_code expect then Inl Unexpected
         else (case dec body of Inl e \<Rightarrow> Inl (Malformed e) | Inr x \<Rightarrow> Inr x)
     | _ \<Rightarrow> Inl Unexpected)"

definition send_message :: "MessageType \<Rightarrow> string + u8 list \<Rightarrow> u16 \<Rightarrow> unit handshake" where
  "send_message kind cbor_bytes sequence io = (case hs_encode kind cbor_bytes sequence of
       Inl e \<Rightarrow> (Inl e, io)
     | Inr bytes \<Rightarrow> (Inr (), io\<lparr>io_out := io_out io @ [bytes]\<rparr>))"

fun next_frame_from :: "TransportEvent option list \<Rightarrow> (AuthError + ControlFrame) \<times> TransportEvent option list" where
  "next_frame_from [] = (Inl TimedOut, [])"
| "next_frame_from (ev # evs) = (case ev of
       Some (Frame c frame) \<Rightarrow> if c = Control then (Inr frame, evs) else next_frame_from evs
     | Some Closed \<Rightarrow> (Inl SessionClosed, evs)
     | None \<Rightarrow> (Inl SessionClosed, evs)
     | Some _ \<Rightarrow> next_frame_from evs)"

definition receive_message :: "(u8 list \<Rightarrow> string + 'a) \<Rightarrow> MessageType \<Rightarrow> 'a handshake" where
  "receive_message dec expect io = (case next_frame_from (io_in io) of
       (Inl e, evs) \<Rightarrow> (Inl e, io\<lparr>io_in := evs\<rparr>)
     | (Inr frame, evs) \<Rightarrow> (hs_decode dec expect frame, io\<lparr>io_in := evs\<rparr>))"

definition require :: "bool \<Rightarrow> AuthError \<Rightarrow> unit handshake" where
  "require b e io = ((if b then Inr () else Inl e), io)"

definition fingerprints :: "Fingerprint option \<Rightarrow> Fingerprint option \<Rightarrow> (Fingerprint \<times> Fingerprint) handshake" where
  "fingerprints l r io = ((case (l, r) of (Some a, Some b) \<Rightarrow> Inr (a, b) | _ \<Rightarrow> Inl NoCertificate), io)"

definition identity_error_text :: "IdentityError \<Rightarrow> string" where
  "identity_error_text e = (case e of MalformedKey \<Rightarrow> ''malformed identity key'' | BadSignature \<Rightarrow> ''signature verification failed''
     | IdMismatch \<Rightarrow> ''device id does not match the identity key''
     | BadKeyLength n \<Rightarrow> ''stored key material is '' @ decimal n @ '' bytes, expected 32'')"

definition parse_identity :: "primitives \<Rightarrow> u8 list \<Rightarrow> PublicIdentity handshake" where
  "parse_identity P bytes =
     sbind (require (length bytes = 32) (Malformed ''identity key is not 32 bytes'')) (\<lambda>_.
       lift_err (\<lambda>e. Malformed (identity_error_text e)) (public_from_bytes P bytes))"

definition parse_nonce :: "u8 list \<Rightarrow> u8 list handshake" where
  "parse_nonce bytes = sbind (require (length bytes = 32) (Malformed ''nonce is not 32 bytes'')) (\<lambda>_. sret bytes)"

definition to_array64 :: "u8 list \<Rightarrow> u8 list handshake" where
  "to_array64 bytes = sbind (require (length bytes = 64) (Malformed ''signature is not 64 bytes'')) (\<lambda>_. sret bytes)"

subsection \<open>The controller\<close>

definition hello_body :: "primitives \<Rightarrow> Identity \<Rightarrow> u8 list \<Rightarrow> Fingerprint \<Rightarrow> HelloBody" where
  "hello_body P identity nonce fp = \<lparr>hb_pubkey = pi_key (public P identity), hb_nonce = nonce, hb_fingerprint = fp\<rparr>"

definition authenticate_as_controller ::
  "primitives \<Rightarrow> cbor_bodies \<Rightarrow> string \<Rightarrow> Identity \<Rightarrow> string \<Rightarrow> Fingerprint option \<Rightarrow> Fingerprint option \<Rightarrow> u8 list \<Rightarrow> u8 list \<Rightarrow> Authenticated handshake" where
  "authenticate_as_controller P C session_id identity pin l r nonce rnd =
     sbind (fingerprints l r) (\<lambda>(local_fp, remote_fp).
     sbind (send_message MessageType.Hello (hello_enc C (hello_body P identity nonce local_fp)) 0) (\<lambda>_.
     sbind (receive_message (hello_dec C) MessageType.HelloAck) (\<lambda>ack.
     sbind (parse_identity P (hb_pubkey ack)) (\<lambda>host_identity.
     sbind (parse_nonce (hb_nonce ack)) (\<lambda>host_nonce.
     sbind (require (hb_fingerprint ack = remote_fp) BindingFailed) (\<lambda>_.
     let binding = binding_new session_id Controller nonce host_nonce local_fp remote_fp in
     sbind (lift_err (\<lambda>_. BadPin) (pin_auth_start P rnd session_id pin)) (\<lambda>auth.
     sbind (send_message MessageType.AuthRequest (pake_enc C \<lparr>pb_message = pa_outbound auth, pb_confirm = None\<rparr>) 1) (\<lambda>_.
     sbind (receive_message (pake_dec C) MessageType.AuthResponse) (\<lambda>response.
     sbind (lift_err (\<lambda>_. BadPin) (pin_auth_finish P auth (pb_message response))) (\<lambda>key.
     sbind (lift_err id (ok_or (pb_confirm response) Unexpected)) (\<lambda>host_tag.
     sbind (require (length host_tag = 32 \<and> confirm_matches (confirm P key ''host'' session_id) host_tag) BadPin) (\<lambda>_.
     let pf = prove P binding identity in
     sbind (send_message MessageType.AuthConfirm
       (confirm_enc C \<lparr>cb_confirm = confirm P key ''controller'' session_id, cb_signature = bp_signature pf\<rparr>) 2) (\<lambda>_.
     sbind (receive_message (ready_dec C) MessageType.SessionReady) (\<lambda>ready.
     sret \<lparr>au_peer = host_identity, au_caps = from_names (rb_caps ready),
           au_sas = short_authentication_string P (transcript_hash P binding) session_id\<rparr>))))))))))))))"

subsection \<open>The host\<close>

text \<open>The verifier works on a copy of the PIN: what it does to it is not handed back.\<close>

definition authenticate_as_host ::
  "primitives \<Rightarrow> cbor_bodies \<Rightarrow> string \<Rightarrow> Identity \<Rightarrow> SessionPin \<Rightarrow> SessionCaps \<Rightarrow> u64 \<Rightarrow> Fingerprint option \<Rightarrow> Fingerprint option \<Rightarrow>
   u8 list \<Rightarrow> u8 list \<Rightarrow> Authenticated handshake" where
  "authenticate_as_host P C session_id identity pin granted now_ms l r nonce rnd =
     sbind (fingerprints l r) (\<lambda>(local_fp, remote_fp).
     sbind (receive_message (hello_dec C) MessageType.Hello) (\<lambda>hello.
     sbind (parse_identity P (hb_pubkey hello)) (\<lambda>peer_identity.
     sbind (parse_nonce (hb_nonce hello)) (\<lambda>peer_nonce.
     sbind (require (hb_fingerprint hello = remote_fp) BindingFailed) (\<lambda>_.
     sbind (send_message MessageType.HelloAck (hello_enc C (hello_body P identity nonce local_fp)) 0) (\<lambda>_.
     let binding = binding_new session_id Host nonce peer_nonce local_fp remote_fp in
     sbind (receive_message (pake_dec C) MessageType.AuthRequest) (\<lambda>request.
     sbind (lift_err (\<lambda>_. BadPin) (fst (respond P rnd (pb_message request) now_ms (pin_verifier_new session_id pin)))) (\<lambda>(our_message, key).
     sbind (send_message MessageType.AuthResponse
       (pake_enc C \<lparr>pb_message = our_message, pb_confirm = Some (confirm P key ''host'' session_id)\<rparr>) 1) (\<lambda>_.
     sbind (receive_message (confirm_dec C) MessageType.AuthConfirm) (\<lambda>cf.
     sbind (require (length (cb_confirm cf) = 32 \<and> confirm_matches (confirm P key ''controller'' session_id) (cb_confirm cf)) BadPin) (\<lambda>_.
     sbind (to_array64 (cb_signature cf)) (\<lambda>signature.
     sbind (lift_err (\<lambda>_. BindingFailed)
       (binding_verify P binding \<lparr>bp_role = Controller, bp_identity = peer_identity, bp_signature = signature\<rparr> None)) (\<lambda>_.
     let sas = short_authentication_string P (transcript_hash P binding) session_id in
     sbind (send_message MessageType.SessionReady (ready_enc C \<lparr>rb_caps = to_names granted, rb_sas = sas\<rparr>) 2) (\<lambda>_.
     sret \<lparr>au_peer = peer_identity, au_caps = granted, au_sas = sas\<rparr>))))))))))))))"

subsection \<open>Steps\<close>

lemma sbind_Inr: "sbind m f s = (Inr y, s') \<longleftrightarrow> (\<exists>x s1. m s = (Inr x, s1) \<and> f x s1 = (Inr y, s'))"
  by (auto simp: sbind_def split: prod.split sum.split)

lemma lift_err_Inr: "lift_err f m io = (Inr x, io') \<longleftrightarrow> m = Inr x \<and> io' = io"
  by (auto simp: lift_err_def split: sum.split)

lemma require_Inr: "require b e io = (Inr x, io') \<longleftrightarrow> b \<and> io' = io"
  by (auto simp: require_def)

lemma sret_Inr: "sret x s = (Inr y, s') \<longleftrightarrow> y = x \<and> s' = s"
  by (auto simp: sret_def)

lemma fingerprints_Inr: "fingerprints l r io = (Inr (a, b), io') \<longleftrightarrow> l = Some a \<and> r = Some b \<and> io' = io"
  by (auto simp: fingerprints_def split: option.split)

lemma parse_identity_Inr:
  "parse_identity P bytes io = (Inr i, io') \<longleftrightarrow> length bytes = 32 \<and> public_from_bytes P bytes = Inr i \<and> io' = io"
  by (auto simp: parse_identity_def sbind_Inr require_Inr lift_err_Inr)

lemma parse_nonce_Inr: "parse_nonce bytes io = (Inr n, io') \<longleftrightarrow> length bytes = 32 \<and> n = bytes \<and> io' = io"
  by (auto simp: parse_nonce_def sbind_Inr require_Inr sret_Inr)

lemma to_array64_Inr: "to_array64 bytes io = (Inr n, io') \<longleftrightarrow> length bytes = 64 \<and> n = bytes \<and> io' = io"
  by (auto simp: to_array64_def sbind_Inr require_Inr sret_Inr)

lemmas handshake_Inr = sbind_Inr lift_err_Inr require_Inr sret_Inr fingerprints_Inr parse_identity_Inr parse_nonce_Inr to_array64_Inr

text \<open>The messages of the handshake on the wire.\<close>

definition message_bytes :: "MessageType \<Rightarrow> u8 list \<Rightarrow> u16 \<Rightarrow> u8 list" where
  "message_bytes kind body s = frame_encode (frame_new (Unknown (msg_code kind) body) s 0)"

definition deliver :: "u8 list \<Rightarrow> TransportEvent option" where
  "deliver bytes = Some (on_message Control bytes)"

definition handshake_type :: "MessageType \<Rightarrow> bool" where
  "handshake_type k \<longleftrightarrow> k \<in> {MessageType.Hello, MessageType.HelloAck, MessageType.AuthRequest, MessageType.AuthResponse,
     MessageType.AuthConfirm, MessageType.SessionReady}"

lemma deliver_message:
  "handshake_type k \<Longrightarrow> deliver (message_bytes k body s) = Some (Frame Control (frame_new (Unknown (msg_code k) body) s 0))"
proof -
  assume "handshake_type k"
  then have "payload_wf (Unknown (msg_code k) body)"
    by (auto simp: handshake_type_def decode_arm_def from_u8_msg_code simp del: msg_code.simps)
  from frame_decode_encode_wf [OF frame_new_wf [OF this]] show ?thesis
    by (simp add: deliver_def on_message_def message_bytes_def)
qed

lemma send_message_ok:
  "enc = Inr body \<Longrightarrow> send_message k enc s io = (Inr (), io\<lparr>io_out := io_out io @ [message_bytes k body s]\<rparr>)"
  by (simp add: send_message_def hs_encode_def message_bytes_def)

lemma receive_message_ok:
  "handshake_type k \<Longrightarrow> io_in io = deliver (message_bytes k body s) # evs \<Longrightarrow> dec body = Inr x \<Longrightarrow>
   receive_message dec k io = (Inr x, io\<lparr>io_in := evs\<rparr>)"
  by (simp add: receive_message_def deliver_message hs_decode_def frame_new_def)

lemma sbind_ok: "m s = (Inr x, s1) \<Longrightarrow> sbind m f s = f x s1"
  by (simp add: sbind_def)

lemma next_frame_from_Inr:
  "next_frame_from evs = (Inr f, rest) \<Longrightarrow> Some (Frame Control f) \<in> set evs \<and> set rest \<subseteq> set evs"
  by (induction evs) (auto split: option.splits TransportEvent.splits if_splits)

lemma receive_message_Inr:
  assumes "receive_message dec k io = (Inr x, io')"
  shows "(\<exists>f. Some (Frame Control f) \<in> set (io_in io) \<and> hs_decode dec k f = Inr x) \<and> set (io_in io') \<subseteq> set (io_in io)"
  using assms next_frame_from_Inr [of "io_in io"] by (force simp: receive_message_def split: prod.splits sum.splits)

lemma send_message_Inr: "send_message k enc s io = (Inr u, io') \<Longrightarrow> io_in io' = io_in io"
  by (auto simp: send_message_def split: sum.splits)

lemma respond_Inr:
  "fst (respond P rnd msg now (pin_verifier_new sid pin)) = Inr (out, key) \<Longrightarrow>
   is_usable pin now \<and> length key = 32 \<and>
   spake_finish_b P rnd (pake_password P sid (sp_digits pin)) ID_CONTROLLER ID_HOST msg = Some key"
  by (auto simp: respond_def pin_verifier_new_def Let_def mapE_def key_array_def split: if_splits sum.splits option.splits)

lemma binding_verify_Inr:
  "binding_verify P (binding_new sid Host nonce pn fl fr) \<lparr>bp_role = Controller, bp_identity = i, bp_signature = sg\<rparr> None = Inr u \<Longrightarrow>
   verify_strict P (pi_key i) (binding_input sid pn nonce fr fl Controller) sg"
  by (auto simp: binding_verify_def binding_new_def peer_role_def public_verify_def verifier_input_def Let_def split: if_splits)

text \<open>A message of the given type was among the events.\<close>

definition got :: "(u8 list \<Rightarrow> string + 'a) \<Rightarrow> MessageType \<Rightarrow> TransportEvent option list \<Rightarrow> 'a \<Rightarrow> bool" where
  "got dec k evs x \<longleftrightarrow> (\<exists>f. Some (Frame Control f) \<in> set evs \<and> hs_decode dec k f = Inr x)"

lemma got_mono: "got dec k evs x \<Longrightarrow> set evs \<subseteq> set evs' \<Longrightarrow> got dec k evs' x"
  by (auto simp: got_def)

text \<open>A host that ends the handshake with success has received, in this session, a greeting with the fingerprint of
  the certificate the peer presented in DTLS, a SPAKE2 message answered with a PIN that was neither used, worn out nor
  expired, the confirmation tag of the key this exchange gave, and a signature, by the key it takes for the
  peer's identity, of this session's identifier, both nonces and both certificate fingerprints in the controller's
  role. What it grants is what it was told to grant.\<close>

theorem host_success_checked:
  assumes "authenticate_as_host P C sid identity pin granted now l r nonce rnd io = (Inr a, io')"
  shows "\<exists>fl fr hello request cf key. l = Some fl \<and> r = Some fr \<and>
    got (hello_dec C) MessageType.Hello (io_in io) hello \<and> got (pake_dec C) MessageType.AuthRequest (io_in io) request \<and>
    got (confirm_dec C) MessageType.AuthConfirm (io_in io) cf \<and>
    hb_fingerprint hello = fr \<and> public_from_bytes P (hb_pubkey hello) = Inr (au_peer a) \<and>
    is_usable pin now \<and>
    spake_finish_b P rnd (pake_password P sid (sp_digits pin)) ID_CONTROLLER ID_HOST (pb_message request) = Some key \<and>
    cb_confirm cf = confirm P key ''controller'' sid \<and>
    verify_strict P (pi_key (au_peer a)) (binding_input sid (hb_nonce hello) nonce fr fl Controller) (cb_signature cf) \<and>
    au_caps a = granted"
proof -
  from assms obtain fl fr where fps: "l = Some fl" "r = Some fr"
    by (auto simp: authenticate_as_host_def sbind_def fingerprints_def split: option.splits)
  from assms [unfolded authenticate_as_host_def Let_def sbind_Inr [of "fingerprints l r"] fps fingerprints_Inr]
  obtain hello io1 i pn io2 request io3 msg key io4 cf io5 u where
    1: "receive_message (hello_dec C) MessageType.Hello io = (Inr hello, io1)"
    and 2: "public_from_bytes P (hb_pubkey hello) = Inr i" "hb_fingerprint hello = fr"
    and 3: "send_message MessageType.HelloAck (hello_enc C (hello_body P identity nonce fl)) 0 io1 = (Inr (), io2)"
    and 4: "receive_message (pake_dec C) MessageType.AuthRequest io2 = (Inr request, io3)"
    and 5: "fst (respond P rnd (pb_message request) now (pin_verifier_new sid pin)) = Inr (msg, key)"
    and 6: "send_message MessageType.AuthResponse (pake_enc C \<lparr>pb_message = msg, pb_confirm = Some (confirm P key ''host'' sid)\<rparr>) 1 io3 = (Inr (), io4)"
    and 7: "receive_message (confirm_dec C) MessageType.AuthConfirm io4 = (Inr cf, io5)"
    and 8: "confirm_matches (confirm P key ''controller'' sid) (cb_confirm cf)"
    and 9: "binding_verify P (binding_new sid Host nonce (hb_nonce hello) fl fr)
        \<lparr>bp_role = Controller, bp_identity = i, bp_signature = cb_signature cf\<rparr> None = Inr u"
    and 10: "au_peer a = i" "au_caps a = granted"
    by (auto simp: handshake_Inr)
  note r1 = receive_message_Inr [OF 1] and r4 = receive_message_Inr [OF 4] and r7 = receive_message_Inr [OF 7]
  have "set (io_in io2) \<subseteq> set (io_in io)" "set (io_in io4) \<subseteq> set (io_in io)"
    using r1 r4 send_message_Inr [OF 3] send_message_Inr [OF 6] by auto
  with r1 r4 r7 have "got (hello_dec C) MessageType.Hello (io_in io) hello" "got (pake_dec C) MessageType.AuthRequest (io_in io) request"
    "got (confirm_dec C) MessageType.AuthConfirm (io_in io) cf" by (auto simp: got_def)
  moreover have "cb_confirm cf = confirm P key ''controller'' sid" using 8 by (simp add: confirm_matches_def)
  moreover have "verify_strict P (pi_key (au_peer a)) (binding_input sid (hb_nonce hello) nonce fr fl Controller) (cb_signature cf)"
    using binding_verify_Inr [OF 9] 10 by simp
  ultimately show ?thesis using fps 2 10 respond_Inr [OF 5] by (auto intro!: exI)
qed

subsection \<open>An honest run\<close>

lemma codec_fitsE:
  assumes "codec_fits enc dec"
  obtains bs where "enc x = Inr bs" "dec bs = Inr x"
  using assms by (auto simp: codec_fits_def)

lemma require_ok: "b \<Longrightarrow> require b e io = (Inr (), io)"
  by (simp add: require_def)

lemma lift_err_ok: "m = Inr x \<Longrightarrow> lift_err f m io = (Inr x, io)"
  by (simp add: lift_err_def)

lemma fingerprints_ok: "fingerprints (Some a) (Some b) io = (Inr (a, b), io)"
  by (simp add: fingerprints_def)

lemma handshake_types [simp]:
  "handshake_type MessageType.Hello" "handshake_type MessageType.HelloAck" "handshake_type MessageType.AuthRequest"
  "handshake_type MessageType.AuthResponse" "handshake_type MessageType.AuthConfirm" "handshake_type MessageType.SessionReady"
  by (simp_all add: handshake_type_def)

text \<open>What an identity needs to be sent and parsed: a key of 32 bytes that is a valid point.\<close>

definition identity_sound :: "primitives \<Rightarrow> Identity \<Rightarrow> bool" where
  "identity_sound P i \<longleftrightarrow> identity_wf P i \<and> length (pi_key (public P i)) = 32 \<and> valid_key P (pi_key (public P i))"

lemma parse_public: "identity_sound P i \<Longrightarrow> parse_identity P (pi_key (public P i)) io = (Inr (public P i), io)"
  by (simp add: identity_sound_def parse_identity_Inr public_from_bytes_def identity_wf_def public_def)

lemma parse_nonce_ok: "length n = 32 \<Longrightarrow> parse_nonce n io = (Inr n, io)"
  by (simp add: parse_nonce_Inr)

lemma controller_signature_accepted:
  assumes "signature_correct P" "identity_wf P ic"
  shows "binding_verify P (binding_new sid Host nh nc fh fc)
    \<lparr>bp_role = Controller, bp_identity = public P ic, bp_signature = bp_signature (prove P (binding_new sid Controller nc nh fc fh) ic)\<rparr> None = Inr ()"
  using assms
  by (simp add: binding_verify_def binding_new_def peer_role_def public_verify_def verifier_input_def prove_def identity_sign_def
      signature_correct_def public_def Let_def)

lemma transcripts_agree:
  "transcript_hash P (binding_new sid Controller nc nh fc fh) = transcript_hash P (binding_new sid Host nh nc fh fc)"
  by (simp add: transcript_hash_def binding_new_def)

lemma pin_exchange:
  assumes "spake_agreement P" "pin_wf digits" "is_usable pin now" "sp_digits pin = digits"
  shows "\<exists>auth out key. pin_auth_start P x sid digits = Inr auth \<and>
    fst (respond P y (pa_outbound auth) now (pin_verifier_new sid pin)) = Inr (out, key) \<and> pin_auth_finish P auth out = Inr key"
proof -
  let ?pw = "pake_password P sid digits"
  from assms(1) obtain k where k: "length k = 32"
    "spake_finish_a P x ?pw ID_CONTROLLER ID_HOST (spake_start_b P y ?pw ID_CONTROLLER ID_HOST) = Some k"
    "spake_finish_b P y ?pw ID_CONTROLLER ID_HOST (spake_start_a P x ?pw ID_CONTROLLER ID_HOST) = Some k"
    unfolding spake_agreement_def by metis
  with assms(2-4) show ?thesis
    by (simp add: pin_auth_start_def pin_wf_def respond_def pin_verifier_new_def Let_def key_array_def mapE_def pin_auth_finish_def)
qed

lemma honest_exchange:
  assumes "spake_agreement P" "signature_correct P" "sha256_length P" "signature_length P" "bodies_roundtrip C"
    and "identity_sound P ic" "identity_sound P ih" "length nc = 32" "length nh = 32"
    and "pin_wf (sp_digits pin)" "is_usable pin now"
  shows "\<exists>c_out h_out sas.
    authenticate_as_controller P C sid ic (sp_digits pin) (Some fc) (Some fh) nc x \<lparr>io_in = map deliver h_out, io_out = []\<rparr> =
      (Inr \<lparr>au_peer = public P ih, au_caps = granted, au_sas = sas\<rparr>, \<lparr>io_in = [], io_out = c_out\<rparr>) \<and>
    authenticate_as_host P C sid ih pin granted now (Some fh) (Some fc) nh y \<lparr>io_in = map deliver c_out, io_out = []\<rparr> =
      (Inr \<lparr>au_peer = public P ic, au_caps = granted, au_sas = sas\<rparr>, \<lparr>io_in = [], io_out = h_out\<rparr>)"
proof -
  let ?bc = "binding_new sid Controller nc nh fc fh" and ?bh = "binding_new sid Host nh nc fh fc"
  let ?sas = "short_authentication_string P (transcript_hash P ?bh) sid"
  from pin_exchange [OF assms(1,10,11) refl, of x sid y] obtain auth out key where
    pin: "pin_auth_start P x sid (sp_digits pin) = Inr auth" "pin_auth_finish P auth out = Inr key"
      "fst (respond P y (pa_outbound auth) now (pin_verifier_new sid pin)) = Inr (out, key)" by blast
  from assms(5) have fits: "codec_fits (hello_enc C) (hello_dec C)" "codec_fits (pake_enc C) (pake_dec C)"
    "codec_fits (confirm_enc C) (confirm_dec C)" "codec_fits (ready_enc C) (ready_dec C)" by (simp_all add: bodies_roundtrip_def)
  obtain b1 where b1: "hello_enc C (hello_body P ic nc fc) = Inr b1" "hello_dec C b1 = Inr (hello_body P ic nc fc)"
    using codec_fitsE [OF fits(1)] .
  obtain b2 where b2: "hello_enc C (hello_body P ih nh fh) = Inr b2" "hello_dec C b2 = Inr (hello_body P ih nh fh)"
    using codec_fitsE [OF fits(1)] .
  let ?p3 = "\<lparr>pb_message = pa_outbound auth, pb_confirm = None\<rparr>"
  let ?p4 = "\<lparr>pb_message = out, pb_confirm = Some (confirm P key ''host'' sid)\<rparr>"
  let ?c5 = "\<lparr>cb_confirm = confirm P key ''controller'' sid, cb_signature = bp_signature (prove P ?bc ic)\<rparr>"
  let ?r6 = "\<lparr>rb_caps = to_names granted, rb_sas = ?sas\<rparr>"
  obtain b3 where b3: "pake_enc C ?p3 = Inr b3" "pake_dec C b3 = Inr ?p3" using codec_fitsE [OF fits(2)] .
  obtain b4 where b4: "pake_enc C ?p4 = Inr b4" "pake_dec C b4 = Inr ?p4" using codec_fitsE [OF fits(2)] .
  obtain b5 where b5: "confirm_enc C ?c5 = Inr b5" "confirm_dec C b5 = Inr ?c5" using codec_fitsE [OF fits(3)] .
  obtain b6 where b6: "ready_enc C ?r6 = Inr b6" "ready_dec C b6 = Inr ?r6" using codec_fitsE [OF fits(4)] .
  let ?c = "[message_bytes MessageType.Hello b1 0, message_bytes MessageType.AuthRequest b3 1, message_bytes MessageType.AuthConfirm b5 2]"
  let ?h = "[message_bytes MessageType.HelloAck b2 0, message_bytes MessageType.AuthResponse b4 1, message_bytes MessageType.SessionReady b6 2]"
  have sig: "length (bp_signature (prove P ?bc ic)) = 64"
    using assms(4) by (simp add: prove_def Let_def identity_sign_def signature_length_def)
  have tag: "length (confirm P key role sid) = 32" for role using assms(3) by (simp add: confirm_def sha256_length_def)
  have ids: "identity_wf P ic" using assms(6) by (simp add: identity_sound_def)
  note hb = hello_body_def [of P]
  have "authenticate_as_controller P C sid ic (sp_digits pin) (Some fc) (Some fh) nc x \<lparr>io_in = map deliver ?h, io_out = []\<rparr> =
      (Inr \<lparr>au_peer = public P ih, au_caps = granted, au_sas = ?sas\<rparr>, \<lparr>io_in = [], io_out = ?c\<rparr>)"
    unfolding authenticate_as_controller_def Let_def
    using b1 b2 b3 b4 b5 b6 pin tag assms(7,9)
    by (simp add: sbind_ok [OF fingerprints_ok] sbind_ok [OF send_message_ok] sbind_ok [OF receive_message_ok]
        sbind_ok [OF require_ok] sbind_ok [OF lift_err_ok] sbind_ok [OF parse_public] sbind_ok [OF parse_nonce_ok] hb
        confirm_matches_def ok_or_def sret_def transcripts_agree)
  moreover have "authenticate_as_host P C sid ih pin granted now (Some fh) (Some fc) nh y \<lparr>io_in = map deliver ?c, io_out = []\<rparr> =
      (Inr \<lparr>au_peer = public P ic, au_caps = granted, au_sas = ?sas\<rparr>, \<lparr>io_in = [], io_out = ?h\<rparr>)"
    unfolding authenticate_as_host_def Let_def
    using b1 b2 b3 b4 b5 b6 pin tag sig assms(6,8) controller_signature_accepted [OF assms(2) ids, of sid nh nc fh fc]
    by (simp add: sbind_ok [OF fingerprints_ok] sbind_ok [OF send_message_ok] sbind_ok [OF receive_message_ok]
        sbind_ok [OF require_ok] sbind_ok [OF lift_err_ok] sbind_ok [OF parse_public] sbind_ok [OF parse_nonce_ok] hb
        confirm_matches_def to_array64_def sbind_def [of "sbind _ _"] sret_def)
  ultimately show ?thesis by blast
qed

text \<open>A stand-in for the CBOR library that fits, for the witness: byte strings with a mark before every byte.\<close>

fun enc_bytes :: "u8 list \<Rightarrow> u8 list" where
  "enc_bytes [] = [0]"
| "enc_bytes (b # bs) = 1 # b # enc_bytes bs"

fun dec_bytes :: "u8 list \<Rightarrow> u8 list \<times> u8 list" where
  "dec_bytes [] = ([], [])"
| "dec_bytes [m] = ([], [])"
| "dec_bytes (m # b # bs) = (if m = 0 then ([], b # bs) else let (xs, r) = dec_bytes bs in (b # xs, r))"

lemma dec_enc_bytes [simp]: "dec_bytes (enc_bytes bs @ r) = (bs, r)"
proof (induction bs)
  case Nil
  show ?case by (cases r) simp_all
qed simp

text \<open>Lists of such strings, with a mark before every element.\<close>

fun enc_list :: "u8 list list \<Rightarrow> u8 list" where
  "enc_list [] = [0]"
| "enc_list (x # xs) = 1 # enc_bytes x @ enc_list xs"

fun dec_list :: "nat \<Rightarrow> u8 list \<Rightarrow> u8 list list \<times> u8 list" where
  "dec_list (Suc n) (m # bs) =
     (if m = 0 then ([], bs) else let (x, r) = dec_bytes bs; (xs, r) = dec_list n r in (x # xs, r))"
| "dec_list _ bs = ([], bs)"

lemma toy_dec_enc_list [simp]: "length xs < n \<Longrightarrow> dec_list n (enc_list xs @ r) = (xs, r)"
proof (induction xs arbitrary: n)
  case Nil
  then show ?case by (cases n) simp_all
next
  case (Cons x xs)
  then show ?case by (cases n) simp_all
qed

lemma length_enc_list: "length xs < length (enc_list xs)"
  by (induction xs) simp_all

definition dec_all :: "u8 list \<Rightarrow> u8 list list \<times> u8 list" where
  "dec_all bs = dec_list (length bs) bs"

lemma dec_all_enc [simp]: "dec_all (enc_list xs @ r) = (xs, r)"
  using length_enc_list [of xs] by (simp add: dec_all_def trans_less_add1)

definition unascii :: "u8 list \<Rightarrow> string" where
  "unascii bs = map (\<lambda>b. char_of (unat b)) bs"

lemma unascii_ascii [simp]: "unascii (ascii s) = s"
proof -
  have "char_of (unat (word_of_nat (of_char c) :: u8)) = c" for c
    by (simp add: unsigned_of_nat take_bit_eq_mod)
  then show ?thesis by (simp add: unascii_def ascii_def comp_def)
qed

definition toy_bodies :: cbor_bodies where
  "toy_bodies =
    \<lparr>hello_enc = (\<lambda>h. Inr (enc_list [hb_pubkey h, hb_nonce h, hb_fingerprint h])),
     hello_dec = (\<lambda>bs. let xs = fst (dec_all bs) in Inr \<lparr>hb_pubkey = xs ! 0, hb_nonce = xs ! 1, hb_fingerprint = xs ! 2\<rparr>),
     pake_enc = (\<lambda>p. Inr (enc_list (pb_message p # (case pb_confirm p of None \<Rightarrow> [] | Some c \<Rightarrow> [c])))),
     pake_dec = (\<lambda>bs. let xs = fst (dec_all bs)
        in Inr \<lparr>pb_message = xs ! 0, pb_confirm = (if length xs = 1 then None else Some (xs ! 1))\<rparr>),
     confirm_enc = (\<lambda>c. Inr (enc_list [cb_confirm c, cb_signature c])),
     confirm_dec = (\<lambda>bs. let xs = fst (dec_all bs) in Inr \<lparr>cb_confirm = xs ! 0, cb_signature = xs ! 1\<rparr>),
     ready_enc = (\<lambda>r. Inr (enc_list (map ascii (rb_caps r)) @ enc_list (map ascii (rb_sas r)))),
     ready_dec = (\<lambda>bs. let (xs, r) = dec_all bs in Inr \<lparr>rb_caps = map unascii xs, rb_sas = map unascii (fst (dec_all r))\<rparr>)\<rparr>"

lemma dec_all_enc_list [simp]: "dec_all (enc_list xs) = (xs, [])"
  using dec_all_enc [of xs "[]"] by simp

lemma toy_bodies_fit: "bodies_roundtrip toy_bodies"
  unfolding bodies_roundtrip_def codec_fits_def toy_bodies_def
  by (simp add: Let_def comp_def del: enc_list.simps split: option.split)

lemma toy_identity_sound: "identity_sound toy_primitives (from_signing_key toy_primitives (replicate 32 k))"
  by (simp add: identity_sound_def identity_wf_from_signing_key) (simp add: public_def from_signing_key_def toy_primitives_def)

lemma toy_pin: "pin_wf (sp_digits (pin_generate 42 9))" "is_usable (pin_generate 42 9) 10"
  by (rule pin_wf_generate, simp) code_simp

lemma toy_signature_length: "signature_length toy_primitives"
  by (auto simp: signature_length_def toy_primitives_def toy_hash_def min_def)

lemma toy_nonces: "length (replicate 32 (3 :: u8)) = 32" "length (replicate 32 (4 :: u8)) = 32"
  by simp_all

lemmas toy_ok = toy_primitives_ok(5,3,1) toy_signature_length toy_bodies_fit toy_identity_sound [of 5] toy_identity_sound [of 7]
  toy_nonces toy_pin



text \<open>The host's checks, met in such a run.\<close>

theorem host_success_checked_witness:
  "\<exists>(io :: handshake_io) hello (cf :: ConfirmBody) key. got (hello_dec toy_bodies) MessageType.Hello (io_in io) hello \<and> hb_fingerprint hello = [1] \<and>
     is_usable (pin_generate 42 9) 10 \<and> cb_confirm cf = confirm toy_primitives key ''controller'' ''s'' \<and>
     verify_strict toy_primitives (replicate 32 5)
       (binding_input ''s'' (hb_nonce hello) (replicate 32 4) [1] [2] Controller) (cb_signature cf)"
proof -
  from honest_exchange [of toy_primitives toy_bodies _ _ "replicate 32 3" "replicate 32 4" "pin_generate 42 9" 10 "''s''" "[1]" "[2]" "[6]" view_only "[8]",
      OF toy_ok] obtain io a io' where
    r: "authenticate_as_host toy_primitives toy_bodies ''s'' (from_signing_key toy_primitives (replicate 32 7)) (pin_generate 42 9) view_only 10
       (Some [2]) (Some [1]) (replicate 32 4) [8] io = (Inr a, io')" and peer: "au_peer a = public toy_primitives (from_signing_key toy_primitives (replicate 32 5))"
    by fastforce
  from peer have key: "pi_key (au_peer a) = replicate 32 5" by (simp add: public_def from_signing_key_def toy_primitives_def)
  from host_success_checked [OF r, unfolded key] show ?thesis
  proof (elim exE conjE, goal_cases)
    case (1 fl fr hello request cf k)
    then have "fl = [2]" "fr = [1]" by simp_all
    with 1 show ?case by - (intro exI [of _ io] exI [of _ hello] exI [of _ cf] exI [of _ k] conjI, simp_all only:)
  qed
qed

subsection \<open>What the controller does not check\<close>

text \<open>No message of the host is signed. Whatever key a man in the middle writes into the host's greeting, provided it is
  a valid key, the controller completes the handshake just the same and reports that key as the peer's identity.\<close>

theorem controller_accepts_any_host_key:
  assumes "hello_dec C b = Inr ack" "hello_dec C b' = Inr (ack\<lparr>hb_pubkey := k\<rparr>)"
    and "length k = 32" "public_from_bytes P k = Inr other"
    and "authenticate_as_controller P C sid identity pin (Some fl) (Some fr) nonce rnd
      \<lparr>io_in = deliver (message_bytes MessageType.HelloAck b 0) # evs, io_out = []\<rparr> = (Inr a, io')"
  shows "authenticate_as_controller P C sid identity pin (Some fl) (Some fr) nonce rnd
      \<lparr>io_in = deliver (message_bytes MessageType.HelloAck b' 0) # evs, io_out = []\<rparr> = (Inr (a\<lparr>au_peer := other\<rparr>), io')"
proof (cases "hello_enc C (hello_body P identity nonce fl)")
  case (Inl e)
  with assms(5) show ?thesis
    by (simp add: authenticate_as_controller_def sbind_def fingerprints_def send_message_def hs_encode_def)
next
  case (Inr b0)
  note start = sbind_ok [OF fingerprints_ok] sbind_ok [OF send_message_ok [OF Inr]]
    sbind_ok [OF receive_message_ok [of MessageType.HelloAck _ b 0 evs "hello_dec C", OF _ _ assms(1)]]
    sbind_ok [OF receive_message_ok [of MessageType.HelloAck _ b' 0 evs "hello_dec C", OF _ _ assms(2)]]
  from assms(5) obtain i where "parse_identity P (hb_pubkey ack) io = (Inr i, io)" for io
    by (auto simp: authenticate_as_controller_def start sbind_Inr parse_identity_Inr)
  moreover have "parse_identity P k io = (Inr other, io)" for io using assms(3,4) by (simp add: parse_identity_Inr)
  ultimately show ?thesis
    using assms(5) unfolding authenticate_as_controller_def Let_def
    by (simp add: start sbind_ok [where m = "parse_identity _ _"] handshake_Inr) (elim exE conjE, auto)
qed

end
