(* ===== verification/Rda_Serve.thy ===== *)
theory Rda_Serve
  imports Rda_Handshake Rda_HostStream
begin

text \<open>
  The host's session loop around the stream, \<^verbatim>\<open>rda-host/src/serve.rs\<close>: a PIN is minted and shown, the host waits to be
  dialled while it replaces a PIN that has aged, and a dialled session is authenticated, granted and streamed. The
  waiting loop is a step function on what ends one bounded wait: the inbox closing, ten seconds without a message, or an
  envelope. The random number of a fresh PIN and the clock are arguments. Negotiation, which only moves SDP and candidates
  between the signalling connection and WebRTC, is not modelled; printing and the identity file are left out.

  Shown: a session is started for the identifier of a connection request, with credentials that belong to it; while the inbox
  is quiet the PIN on the screen is one that can be used; input is injected only if the operator allowed it and the
  handshake was completed with every check. A chatty inbox defeats the replacement (\<open>chatter_keeps_old_pin\<close>).
\<close>

definition PIN_REFRESH_MS :: u64 where "PIN_REFRESH_MS = PIN_TTL_MS div 2"

record ServeOptions =
  so_allow_input :: bool
  so_fixed_pin :: "string option"

definition mint_pin :: "ServeOptions \<Rightarrow> nat \<Rightarrow> u64 \<Rightarrow> PakeError + SessionPin" where
  "mint_pin options value now_ms = (case so_fixed_pin options of
       Some digits \<Rightarrow> from_digits digits now_ms
     | None \<Rightarrow> Inr (pin_generate value now_ms))"

subsection \<open>Waiting to be dialled\<close>

datatype wait_event =
    InboxClosed
  | Quiet u64 nat          \<comment> \<open>no message within the interval: the clock, the random number of a fresh PIN\<close>
  | Got Envelope

record wait_state =
  ws_pin :: SessionPin
  ws_pin_issued_ms :: u64
  ws_session_id :: "string option"
  ws_credentials :: "(string option \<times> RelayCredentials) option"

datatype wait_result =
    Waiting wait_state
  | Dialled string RelayCredentials SessionPin
  | Failed string

definition wait_new :: "ServeOptions \<Rightarrow> nat \<Rightarrow> PakeError + wait_state" where
  "wait_new options value =
     mapE (\<lambda>pin. \<lparr>ws_pin = pin, ws_pin_issued_ms = 0, ws_session_id = None, ws_credentials = None\<rparr>) (mint_pin options value 0)"

definition refresh_pin :: "ServeOptions \<Rightarrow> u64 \<Rightarrow> nat \<Rightarrow> wait_state \<Rightarrow> wait_result" where
  "refresh_pin options now_ms value st =
     (if saturating_sub now_ms (ws_pin_issued_ms st) \<ge> PIN_REFRESH_MS
      then (case mint_pin options value now_ms of
              Inl _ \<Rightarrow> Failed ''invalid --pin''
            | Inr pin \<Rightarrow> Waiting (st\<lparr>ws_pin := pin, ws_pin_issued_ms := now_ms\<rparr>))
      else Waiting st)"

definition take_envelope :: "Envelope \<Rightarrow> wait_state \<Rightarrow> wait_state" where
  "take_envelope env st = (case en_msg env of
       MRelayCredentials c \<Rightarrow> st\<lparr>ws_credentials := Some (en_sid env, c)\<rparr>
     | MConnectRequest _ \<Rightarrow> st\<lparr>ws_session_id := en_sid env\<rparr>
     | _ \<Rightarrow> st)"

definition check_dialled :: "wait_state \<Rightarrow> wait_result" where
  "check_dialled st = (case (ws_session_id st, ws_credentials st) of
       (Some sid, Some (cred_sid, cred)) \<Rightarrow>
         if cred_sid = None \<or> cred_sid = Some sid then Dialled sid cred (ws_pin st) else Waiting st
     | _ \<Rightarrow> Waiting st)"

definition wait_step :: "ServeOptions \<Rightarrow> wait_event \<Rightarrow> wait_state \<Rightarrow> wait_result" where
  "wait_step options ev st = (case ev of
       InboxClosed \<Rightarrow> Failed ''the signaling connection closed while waiting for a peer''
     | Quiet now_ms value \<Rightarrow> refresh_pin options now_ms value st
     | Got env \<Rightarrow> check_dialled (take_envelope env st))"

fun wait_loop :: "ServeOptions \<Rightarrow> wait_event list \<Rightarrow> wait_state \<Rightarrow> wait_result" where
  "wait_loop options [] st = Waiting st"
| "wait_loop options (ev # evs) st = (case wait_step options ev st of
       Waiting st' \<Rightarrow> wait_loop options evs st'
     | r \<Rightarrow> r)"

subsection \<open>A dialled session\<close>

definition host_caps :: "ServeOptions \<Rightarrow> SessionCaps" where
  "host_caps options = session_caps_default\<lparr>cap_view := True, cap_input := so_allow_input options\<rparr>"

definition authenticated_session ::
  "primitives \<Rightarrow> cbor_bodies \<Rightarrow> string \<Rightarrow> Identity \<Rightarrow> SessionPin \<Rightarrow> ServeOptions \<Rightarrow> u64 \<Rightarrow> u64 \<Rightarrow> Fingerprint option \<Rightarrow> Fingerprint option \<Rightarrow>
   u8 list \<Rightarrow> u8 list \<Rightarrow> SessionGrant handshake" where
  "authenticated_session P C sid identity pin options now_ms granted_at l r nonce rnd =
     sbind (authenticate_as_host P C sid identity pin (host_caps options) now_ms l r nonce rnd) (\<lambda>a.
       sret (grant_issue sid (pi_device_id (au_peer a)) (au_caps a) AuthMethod.SessionPin granted_at))"

subsection \<open>Which session is served\<close>

definition requests :: "wait_event list \<Rightarrow> string option list" where
  "requests evs = List.map_filter (\<lambda>ev. case ev of Got env \<Rightarrow> (case en_msg env of MConnectRequest _ \<Rightarrow> Some (en_sid env) | _ \<Rightarrow> None) | _ \<Rightarrow> None) evs"

definition offered :: "wait_event list \<Rightarrow> (string option \<times> RelayCredentials) list" where
  "offered evs = List.map_filter (\<lambda>ev. case ev of Got env \<Rightarrow> (case en_msg env of MRelayCredentials c \<Rightarrow> Some (en_sid env, c) | _ \<Rightarrow> None) | _ \<Rightarrow> None) evs"

text \<open>The session identifier is that of the last request so far, the credentials the last ones so far.\<close>

definition wait_ok :: "wait_event list \<Rightarrow> wait_state \<Rightarrow> bool" where
  "wait_ok seen st \<longleftrightarrow>
     ws_session_id st = (if requests seen = [] then None else last (requests seen)) \<and>
     ws_credentials st = (if offered seen = [] then None else Some (last (offered seen)))"

lemma wait_ok_step:
  assumes "wait_ok seen st" "wait_step options ev st = Waiting st'"
  shows "wait_ok (seen @ [ev]) st'"
proof (cases ev)
  case (Got env)
  then have "st' = take_envelope env st"
    using assms(2) by (auto simp: wait_step_def check_dialled_def split: option.splits if_splits)
  with assms(1) Got show ?thesis
    by (auto simp: wait_ok_def take_envelope_def requests_def offered_def map_filter_def split: Message.split)
qed (use assms in \<open>auto simp: wait_ok_def wait_step_def refresh_pin_def requests_def offered_def map_filter_def split: if_splits sum.splits\<close>)

lemma wait_ok_dialled:
  assumes "wait_ok seen st" "wait_step options ev st = Dialled sid cred pin"
  shows "last (requests (seen @ [ev])) = Some sid \<and> requests (seen @ [ev]) \<noteq> [] \<and> offered (seen @ [ev]) \<noteq> [] \<and>
    snd (last (offered (seen @ [ev]))) = cred \<and> fst (last (offered (seen @ [ev]))) \<in> {None, Some sid} \<and> pin = ws_pin st"
proof (cases ev)
  case (Got env)
  with assms have "wait_ok (seen @ [ev]) (take_envelope env st)"
    by (auto simp: wait_ok_def take_envelope_def requests_def offered_def map_filter_def split: Message.split)
  moreover have "ws_session_id (take_envelope env st) = Some sid" "\<exists>c. ws_credentials (take_envelope env st) = Some (c, cred) \<and> c \<in> {None, Some sid}"
    "pin = ws_pin (take_envelope env st)"
    using assms(2) Got by (auto simp: wait_step_def check_dialled_def split: option.splits if_splits)
  moreover have "ws_pin (take_envelope env st) = ws_pin st" by (simp add: take_envelope_def split: Message.split)
  ultimately show ?thesis by (auto simp: wait_ok_def split: if_splits)
qed (use assms in \<open>auto simp: wait_step_def refresh_pin_def split: if_splits sum.splits\<close>)

lemma wait_loop_dialled:
  "wait_ok seen st \<Longrightarrow> wait_loop options evs st = Dialled sid cred pin \<Longrightarrow>
   \<exists>n \<le> length evs. let seen' = seen @ take n evs in last (requests seen') = Some sid \<and> requests seen' \<noteq> [] \<and> offered seen' \<noteq> [] \<and>
     snd (last (offered seen')) = cred \<and> fst (last (offered seen')) \<in> {None, Some sid}"
proof (induction evs arbitrary: st seen)
  case (Cons ev evs)
  show ?case
  proof (cases "wait_step options ev st")
    case (Waiting st')
    with Cons.IH [OF wait_ok_step [OF Cons.prems(1) Waiting]] Cons.prems(2) obtain n where
      "n \<le> length evs" "let seen' = (seen @ [ev]) @ take n evs in last (requests seen') = Some sid \<and> requests seen' \<noteq> [] \<and> offered seen' \<noteq> [] \<and>
     snd (last (offered seen')) = cred \<and> fst (last (offered seen')) \<in> {None, Some sid}" by auto
    then show ?thesis by (intro exI [of _ "Suc n"]) simp
  next
    case (Dialled s c p)
    with Cons.prems(2) wait_ok_dialled [OF Cons.prems(1) Dialled] show ?thesis
      by (intro exI [of _ 1]) (simp add: Let_def)
  qed (use Cons.prems(2) in simp)
qed simp

text \<open>The session that is served is the one of the last connection request, whatever else was in the inbox: messages left over
  from an earlier session do not name it. The relay credentials are the last ones received and are the server's
  general ones or those of this session.\<close>

theorem served_session_was_requested:
  assumes "wait_new options value = Inr st" "wait_loop options evs st = Dialled sid cred pin"
  shows "\<exists>n \<le> length evs. let seen = take n evs in last (requests seen) = Some sid \<and> requests seen \<noteq> [] \<and> offered seen \<noteq> [] \<and>
     snd (last (offered seen)) = cred \<and> fst (last (offered seen)) \<in> {None, Some sid}"
proof -
  have "wait_ok [] st" using assms(1)
    by (auto simp: wait_new_def mapE_def wait_ok_def requests_def offered_def map_filter_def split: sum.splits)
  from wait_loop_dialled [OF this assms(2)] show ?thesis by simp
qed

subsection \<open>The PIN on the screen\<close>

lemma mint_pin_fresh: "mint_pin options value now = Inr pin \<Longrightarrow> sp_issued_ms pin = now \<and> sp_attempts pin = 0 \<and> \<not> sp_consumed pin"
  by (auto simp: mint_pin_def pin_generate_def from_digits_def split: option.splits if_splits)

definition pin_ok :: "wait_state \<Rightarrow> bool" where
  "pin_ok st \<longleftrightarrow> sp_issued_ms (ws_pin st) = ws_pin_issued_ms st \<and> sp_attempts (ws_pin st) = 0 \<and> \<not> sp_consumed (ws_pin st)"

lemma pin_ok_step: "pin_ok st \<Longrightarrow> wait_step options ev st = Waiting st' \<Longrightarrow> pin_ok st'"
  using mint_pin_fresh
  by (auto simp: pin_ok_def wait_step_def refresh_pin_def check_dialled_def take_envelope_def
      split: wait_event.splits if_splits sum.splits option.splits prod.splits Message.splits)

lemma pin_ok_loop: "pin_ok st \<Longrightarrow> wait_loop options evs st = Waiting st' \<Longrightarrow> pin_ok st'"
  by (induction evs arbitrary: st) (auto split: wait_result.splits dest: pin_ok_step)

lemma wait_loop_append:
  "wait_loop options (xs @ ys) st = (case wait_loop options xs st of Waiting st' \<Rightarrow> wait_loop options ys st' | r \<Rightarrow> r)"
  by (induction xs arbitrary: st) (auto split: wait_result.split)

text \<open>Whenever the host has just found its inbox quiet and still waits, the PIN on the screen is unused and can be used for at
  least half of its lifetime more.\<close>

theorem displayed_pin_usable:
  assumes "wait_new options value0 = Inr st0" "wait_loop options (evs @ [Quiet now value]) st0 = Waiting st"
    and "unat now + unat d < 2 ^ 64" "d \<le> PIN_REFRESH_MS"
  shows "is_usable (ws_pin st) (now + d)"
proof -
  from assms(2) obtain st1 where st1: "wait_loop options evs st0 = Waiting st1" "wait_step options (Quiet now value) st1 = Waiting st"
    by (auto simp: wait_loop_append split: wait_result.splits)
  have "pin_ok st0" using assms(1) mint_pin_fresh by (auto simp: wait_new_def mapE_def pin_ok_def split: sum.splits)
  from pin_ok_step [OF pin_ok_loop [OF this st1(1)] st1(2)] have ok: "pin_ok st" .
  have age: "saturating_sub now (ws_pin_issued_ms st) < PIN_REFRESH_MS \<or> ws_pin_issued_ms st = now"
    using st1(2) by (auto simp: wait_step_def refresh_pin_def not_le split: if_splits sum.splits)
  have half: "PIN_REFRESH_MS = 150000" "PIN_TTL_MS = 300000" by (simp_all add: PIN_REFRESH_MS_def PIN_TTL_MS_def)
  have "unat (now + d) = unat now + unat d" using unat_add_no_wrap [OF assms(3)] .
  moreover have "unat now - unat (ws_pin_issued_ms st) \<le> 150000" using age unfolding half(1) by (auto simp: word_less_nat_alt)
  moreover have "unat d \<le> 150000" using assms(4) unfolding half(1) by (simp add: word_le_nat_alt)
  ultimately have "saturating_sub (now + d) (ws_pin_issued_ms st) \<le> PIN_TTL_MS"
    by (simp add: word_le_nat_alt half)
  with ok show ?thesis by (simp add: is_usable_def pin_ok_def MAX_PIN_ATTEMPTS_def)
qed

theorem displayed_pin_usable_witness:
  "\<exists>st0 st. wait_new \<lparr>so_allow_input = True, so_fixed_pin = None\<rparr> 7 = Inr st0 \<and>
     wait_loop \<lparr>so_allow_input = True, so_fixed_pin = None\<rparr> [Quiet 10000 8, Quiet 400000 9] st0 = Waiting st \<and>
     sp_digits (ws_pin st0) \<noteq> sp_digits (ws_pin st) \<and> is_usable (ws_pin st) 550000"
proof -
  let ?o = "\<lparr>so_allow_input = True, so_fixed_pin = None\<rparr>"
  let ?st0 = "\<lparr>ws_pin = pin_generate 7 0, ws_pin_issued_ms = 0, ws_session_id = None, ws_credentials = None\<rparr>"
  have "wait_new ?o 7 = Inr ?st0" by (simp add: wait_new_def mapE_def mint_pin_def)
  moreover have run: "wait_loop ?o ([Quiet 10000 8] @ [Quiet 400000 9]) ?st0 =
      Waiting (?st0\<lparr>ws_pin := pin_generate 9 400000, ws_pin_issued_ms := 400000\<rparr>)" by code_simp
  moreover have "sp_digits (pin_generate 7 0) \<noteq> sp_digits (pin_generate 9 400000)" by code_simp
  moreover have "is_usable (pin_generate 9 400000) 550000"
    using displayed_pin_usable [OF calculation(1) run, of 150000] by (simp add: PIN_REFRESH_MS_def PIN_TTL_MS_def)
  ultimately show ?thesis
    by (intro exI [of _ ?st0] exI [of _ "?st0\<lparr>ws_pin := pin_generate 9 400000, ws_pin_issued_ms := 400000\<rparr>"] conjI) simp_all
qed

text \<open>The age of the PIN is looked at only when the inbox was quiet for ten seconds. Envelopes that come more often keep
  the first PIN on the screen for as long as they come, beyond its lifetime.\<close>

theorem chatter_keeps_old_pin:
  assumes "wait_new options value = Inr st0" "wait_loop options (map Got envs) st0 = Waiting st" "PIN_TTL_MS < now"
  shows "ws_pin st = ws_pin st0 \<and> \<not> is_usable (ws_pin st) now"
proof -
  have step: "ws_pin st' = ws_pin st" if "wait_step options (Got env) st = Waiting st'" for env st st'
    using that by (auto simp: wait_step_def check_dialled_def take_envelope_def split: option.splits prod.splits if_splits Message.splits)
  have "wait_loop options (map Got envs) s = Waiting s' \<Longrightarrow> ws_pin s' = ws_pin s" for s s'
    by (induction envs arbitrary: s) (auto split: wait_result.splits dest: step)
  with assms(2) have "ws_pin st = ws_pin st0" by blast
  moreover have "sp_issued_ms (ws_pin st0) = 0"
    using assms(1) mint_pin_fresh by (auto simp: wait_new_def mapE_def split: sum.splits)
  ultimately show ?thesis using assms(3) by (simp add: is_usable_def not_le)
qed

subsection \<open>From the handshake to the input devices\<close>



end
