(* ===== verification/Rda_Rng.thy ===== *)
theory Rda_Rng
  imports Rda_Float
begin

text \<open>
  The seeded generator of the link simulator, \<^verbatim>\<open>rda-netsim/src/rng.rs\<close>: xoshiro256++ on four \<open>u64\<close> words, seeded with
  SplitMix64, and the draws made from it. The state is passed and returned.

  Shown: whatever the seed, the generator is never in the state of four zero words, from which it would produce zeros for
  ever; a uniform draw is below one, a draw from a range is in the range, a normal deviate is within six standard
  deviations of its mean, rounding included.
\<close>

record Rng =
  r0 :: u64
  r1 :: u64
  r2 :: u64
  r3 :: u64

subsection \<open>Operations\<close>

definition splitmix_mix :: "u64 \<Rightarrow> u64" where
  "splitmix_mix z =
     (let x = (z XOR drop_bit 30 z) * 0xBF58476D1CE4E5B9;
          x = (x XOR drop_bit 27 x) * 0x94D049BB133111EB
      in x XOR drop_bit 31 x)"

definition SPLITMIX_STEP :: u64 where "SPLITMIX_STEP = 0x9E3779B97F4A7C15"

definition rng_new :: "u64 \<Rightarrow> Rng" where
  "rng_new seed =
     (let z1 = seed + SPLITMIX_STEP; z2 = z1 + SPLITMIX_STEP; z3 = z2 + SPLITMIX_STEP; z4 = z3 + SPLITMIX_STEP
      in \<lparr>r0 = splitmix_mix z1, r1 = splitmix_mix z2, r2 = splitmix_mix z3, r3 = splitmix_mix z4\<rparr>)"

definition next_u64 :: "Rng \<Rightarrow> u64 \<times> Rng" where
  "next_u64 g =
     (let result = word_rotl 23 (r0 g + r3 g) + r0 g;
          t = push_bit 17 (r1 g);
          s2 = r2 g XOR r0 g;
          s3 = r3 g XOR r1 g;
          s1 = r1 g XOR s2;
          s0 = r0 g XOR s3;
          s2 = s2 XOR t;
          s3 = word_rotl 45 s3
      in (result, \<lparr>r0 = s0, r1 = s1, r2 = s2, r3 = s3\<rparr>))"

definition next_f64 :: "Rng \<Rightarrow> f64 \<times> Rng" where
  "next_f64 g = (let (r, g) = next_u64 g in (f64_div (f64_round (of_int (uint (drop_bit 11 r)))) (2 ^ 53), g))"

definition chance :: "f64 \<Rightarrow> Rng \<Rightarrow> bool \<times> Rng" where
  "chance p g =
     (if p \<le> 0 then (False, g)
      else if p \<ge> 1 then (True, g)
      else let (x, g) = next_f64 g in (x < p, g))"

definition range_u32 :: "u32 \<Rightarrow> u32 \<Rightarrow> Rng \<Rightarrow> u32 \<times> Rng" where
  "range_u32 low high g =
     (if high \<le> low then (low, g)
      else let span = (ucast (high - low) :: u64) + 1; (r, g) = next_u64 g
           in (low + ucast (r mod span), g))"

fun sum_f64 :: "nat \<Rightarrow> f64 \<Rightarrow> Rng \<Rightarrow> f64 \<times> Rng" where
  "sum_f64 0 acc g = (acc, g)"
| "sum_f64 (Suc n) acc g = (let (x, g) = next_f64 g in sum_f64 n (f64_add acc x) g)"

definition normal :: "f64 \<Rightarrow> f64 \<Rightarrow> Rng \<Rightarrow> f64 \<times> Rng" where
  "normal mean std_dev g =
     (let (sum, g) = sum_f64 12 0 g in (f64_add mean (f64_mul (f64_sub sum 6) std_dev), g))"

subsection \<open>The state is never zero\<close>

definition rng_zero :: "Rng \<Rightarrow> bool" where
  "rng_zero g \<longleftrightarrow> r0 g = 0 \<and> r1 g = 0 \<and> r2 g = 0 \<and> r3 g = 0"

text \<open>A word is determined by its exclusive or with itself shifted right.\<close>

lemma xorshift_inj:
  fixes x y :: u64
  assumes "x XOR drop_bit k x = y XOR drop_bit k y" "0 < k"
  shows "x = y"
proof (rule bit_word_eqI)
  have step: "bit x n = bit y n" if "bit x (n + k) = bit y (n + k)" for n
  proof -
    have "bit (x XOR drop_bit k x) n = bit (y XOR drop_bit k y) n" by (simp only: assms(1))
    then show ?thesis using that by (auto simp: bit_simps add.commute)
  qed
  have "bit x n = bit y n" if "64 \<le> n + m * k" for n m
    using that
  proof (induction m arbitrary: n)
    case 0
    then show ?case using bit_imp_le_length [of x n] bit_imp_le_length [of y n] by auto
  next
    case (Suc m)
    then have "64 \<le> (n + k) + m * k" by simp
    from Suc.IH [OF this] show ?case by (rule step)
  qed
  moreover have "64 \<le> n + 64 * k" for n using assms(2) by (cases k) auto
  ultimately show "bit x n = bit y n" for n by blast
qed

lemma mult_inj:
  fixes x y c d :: u64
  assumes "x * c = y * c" "c * d = 1"
  shows "x = y"
proof -
  have "x * c * d = y * c * d" by (simp only: assms(1))
  then show ?thesis by (simp only: mult.assoc assms(2) mult_1_right)
qed

lemma splitmix_mix_inj: "splitmix_mix x = splitmix_mix y \<Longrightarrow> x = y"
  unfolding splitmix_mix_def Let_def
  by (drule xorshift_inj, simp, drule mult_inj [where d = "0x319642B2D24D8EC3"], simp, drule xorshift_inj, simp,
      drule mult_inj [where d = "0x96DE1B173F119089"], simp, drule xorshift_inj, simp)

lemma rng_new_nonzero: "\<not> rng_zero (rng_new seed)"
proof
  assume "rng_zero (rng_new seed)"
  then have "splitmix_mix (seed + SPLITMIX_STEP) = splitmix_mix (seed + SPLITMIX_STEP + SPLITMIX_STEP)"
    by (simp add: rng_zero_def rng_new_def Let_def)
  from splitmix_mix_inj [OF this] show False by (simp add: SPLITMIX_STEP_def)
qed

lemma shift_fixpoint:
  fixes x :: u64
  assumes "x = push_bit k x" "0 < k"
  shows "x = 0"
proof -
  have "\<not> bit x n" for n
  proof (induction n rule: less_induct)
    case (less n)
    have "bit x n \<longleftrightarrow> k \<le> n \<and> n < 64 \<and> bit x (n - k)" by (subst assms(1)) (auto simp: bit_simps)
    with less [of "n - k"] assms(2) show ?case by auto
  qed
  then show ?thesis by (simp add: bit_word_eqI)
qed

lemma xor_zero_eq:
  fixes x y :: u64
  assumes "x XOR y = 0"
  shows "x = y"
proof -
  have "(x XOR y) XOR y = 0 XOR y" by (simp only: assms)
  then show ?thesis by (simp add: xor.assoc)
qed

lemma next_u64_nonzero:
  assumes "\<not> rng_zero g"
  shows "\<not> rng_zero (snd (next_u64 g))"
proof
  let ?s2 = "r2 g XOR r0 g" and ?s3 = "r3 g XOR r1 g"
  assume "rng_zero (snd (next_u64 g))"
  then have z: "r0 g XOR ?s3 = 0" "r1 g XOR ?s2 = 0" "?s2 XOR push_bit 17 (r1 g) = 0" "word_rotl 45 ?s3 = 0"
    by (simp_all add: rng_zero_def next_u64_def Let_def)
  from z(4) have s3: "?s3 = 0" by (metis word_rot_lr word_rotx_0)
  with z(1) have a: "r0 g = 0" by simp
  from z(2) have b: "r1 g = ?s2" by (rule xor_zero_eq)
  from xor_zero_eq [OF z(3)] have "?s2 = push_bit 17 ?s2" by (simp only: b)
  from shift_fixpoint [OF this] have "?s2 = 0" by simp
  with a b s3 have "rng_zero g" by (simp add: rng_zero_def)
  with assms show False by simp
qed

subsection \<open>The range of the draws\<close>

text \<open>Rounding commutes with scaling by a power of two, so a uniform draw is exact.\<close>

lemma exponent2_unique:
  assumes "2 powi k \<le> x" "x < 2 powi (k + 1)"
  shows "exponent2 x = k"
proof -
  have x: "0 < x" by (rule less_le_trans [OF _ assms(1)]) simp
  have "exponent2 x < k + 1"
  proof (rule ccontr)
    assume "\<not> exponent2 x < k + 1"
    then have "(2 :: rat) powi (k + 1) \<le> 2 powi (exponent2 x)" by (intro power_int_increasing) auto
    with assms(2) exponent2_bounds(1) [OF x] show False by linarith
  qed
  moreover have "k < exponent2 x + 1"
  proof (rule ccontr)
    assume "\<not> k < exponent2 x + 1"
    then have "(2 :: rat) powi (exponent2 x + 1) \<le> 2 powi k" by (intro power_int_increasing) auto
    with assms(1) exponent2_bounds(2) [OF x] show False by linarith
  qed
  ultimately show ?thesis by simp
qed

lemma f64_round_scale:
  assumes "0 < x"
  shows "f64_round (x / 2 ^ k) = f64_round x / 2 ^ k"
proof -
  let ?e = "exponent2 x"
  have p: "(2 :: rat) powi (i - int k) = 2 powi i / 2 ^ k" for i by (simp add: power_int_diff)
  have "exponent2 (x / 2 ^ k) = ?e - int k"
    by (rule exponent2_unique) (use exponent2_bounds [OF assms] p [of ?e] p [of "?e + 1"] in \<open>simp_all add: divide_right_mono divide_strict_right_mono algebra_simps\<close>)
  moreover have "?e - int k - (int 53 - 1) = (?e - (int 53 - 1)) - int k" by simp
  ultimately have "fp_round_pos 53 (x / 2 ^ k) = fp_round_pos 53 x / 2 ^ k"
    by (simp only: fp_round_pos_def Let_def p) simp
  moreover have "0 < x / 2 ^ k" using assms by simp
  moreover have "f64_round y = fp_round_pos 53 y" if "0 < y" for y using that by (simp add: f64_round_def fp_round_def)
  ultimately show ?thesis using assms by simp
qed

lemma next_f64_range: "0 \<le> fst (next_f64 g) \<and> fst (next_f64 g) < 1"
proof -
  obtain r g' where r: "next_u64 g = (r, g')" by fastforce
  let ?m = "uint (drop_bit 11 r)"
  have m: "0 \<le> ?m" "?m < 2 ^ 53"
    using unsigned_less [of r, where ?'a = int] by (simp_all add: unsigned_drop_bit_eq drop_bit_int_def take_bit_int_eq_self div_int_pos_iff)
  then have e: "f64_round (of_int ?m) = of_int ?m" by (intro f64_round_of_int) simp
  have "f64_round (of_int ?m / 2 ^ 53) = of_int ?m / 2 ^ 53"
  proof (cases "?m = 0")
    case False
    with m(1) have "0 < rat_of_int ?m" by (simp only: of_int_0_less_iff)
    from f64_round_scale [OF this, of 53] show ?thesis by (simp only: e)
  qed (simp add: f64_round_def)
  then have val: "fst (next_f64 g) = of_int ?m / 2 ^ 53"
    by (simp only: next_f64_def r Let_def prod.case fst_conv f64_div_def e)
  have "rat_of_int ?m < of_int (2 ^ 53)" "(0 :: rat) \<le> of_int ?m" using m by (simp_all only: of_int_less_iff of_int_0_le_iff)
  then show ?thesis unfolding val by (simp del: of_int_uint)
qed

lemma range_u32_range:
  assumes "low \<le> high"
  shows "low \<le> fst (range_u32 low high g) \<and> fst (range_u32 low high g) \<le> high"
proof (cases "high \<le> low")
  case False
  obtain r g' where r: "next_u64 g = (r, g')" by fastforce
  define d where "d = high - low"
  have ud: "unat d = unat high - unat low" using False assms by (simp add: d_def unat_sub)
  have d32: "unat d < 2 ^ 32" using unsigned_less [of d, where ?'a = nat] by simp
  have span: "unat ((ucast d :: u64) + 1) = unat d + 1"
    using d32 by (subst unat_add_lem [THEN iffD1]) (simp_all add: unsigned_ucast_eq take_bit_nat_eq_self)
  let ?o = "r mod (ucast d + 1)"
  have o: "unat ?o \<le> unat d" using span mod_less_divisor [of "unat d + 1" "unat r"] by (simp add: unat_mod)
  then have uo: "unat (ucast ?o :: u32) = unat ?o" using d32 by (simp add: unsigned_ucast_eq take_bit_nat_eq_self)
  have "unat (low + ucast ?o) = unat low + unat ?o"
    using o ud unsigned_less [of high, where ?'a = nat] assms
    by (subst unat_add_lem [THEN iffD1]) (simp_all add: uo word_le_nat_alt)
  with o ud assms show ?thesis using False by (simp add: range_u32_def r word_le_nat_alt Let_def flip: d_def)
qed (use assms in \<open>simp add: range_u32_def\<close>)

lemma sum_f64_range:
  assumes "0 \<le> acc" "acc \<le> of_nat k" "k + n \<le> 12"
  shows "0 \<le> fst (sum_f64 n acc g) \<and> fst (sum_f64 n acc g) \<le> of_nat (k + n)"
  using assms
proof (induction n arbitrary: acc k g)
  case (Suc n)
  obtain x g' where x: "next_f64 g = (x, g')" by fastforce
  with next_f64_range [of g] have x01: "0 \<le> x" "x < 1" by simp_all
  have "0 \<le> f64_add acc x" unfolding f64_add_def
    using f64_round_ge_int [of 0 "acc + x"] Suc.prems(1) x01 by simp
  moreover have "f64_add acc x \<le> of_nat (Suc k)" unfolding f64_add_def
    using f64_round_le_int [of "acc + x" "int (Suc k)"] Suc.prems x01 by simp
  ultimately show ?case using Suc.IH [of "f64_add acc x" "Suc k" g'] Suc.prems(3) by (simp add: x)
qed simp

text \<open>A normal deviate around zero is within six standard deviations.\<close>

lemma normal_range:
  assumes "s < 2 ^ 40"
  shows "\<bar>fst (normal 0 (of_nat s) g)\<bar> \<le> of_nat (6 * s)"
proof -
  obtain t g' where t: "sum_f64 12 0 g = (t, g')" by fastforce
  from sum_f64_range [of 0 0 12 g] have "0 \<le> t" "t \<le> 12" by (simp_all add: t)
  then have d: "- 6 \<le> f64_sub t 6" "f64_sub t 6 \<le> 6"
    using f64_round_ge_int [of "- 6" "t - 6"] f64_round_le_int [of "t - 6" 6] by (simp_all add: f64_sub_def)
  have "- 6 * of_nat s \<le> f64_sub t 6 * of_nat s" "f64_sub t 6 * of_nat s \<le> 6 * of_nat s"
    using d by (auto intro: mult_right_mono simp del: mult_minus_left)
  then have m: "- of_int (6 * int s) \<le> f64_mul (f64_sub t 6) (of_nat s)" "f64_mul (f64_sub t 6) (of_nat s) \<le> of_int (6 * int s)"
    using assms f64_round_ge_int [of "- (6 * int s)" "f64_sub t 6 * of_nat s"] f64_round_le_int [of "f64_sub t 6 * of_nat s" "6 * int s"]
    by (simp_all add: f64_mul_def)
  then have "- of_int (6 * int s) \<le> f64_round (f64_mul (f64_sub t 6) (of_nat s))" "f64_round (f64_mul (f64_sub t 6) (of_nat s)) \<le> of_int (6 * int s)"
    using assms f64_round_ge_int [of "- (6 * int s)" "f64_mul (f64_sub t 6) (of_nat s)"] f64_round_le_int [of "f64_mul (f64_sub t 6) (of_nat s)" "6 * int s"] by simp_all
  then show ?thesis by (simp add: normal_def t f64_add_def abs_le_iff)
qed

subsection \<open>A run of the generator\<close>

fun rng_run :: "nat \<Rightarrow> Rng \<Rightarrow> u64 list \<times> Rng" where
  "rng_run 0 g = ([], g)"
| "rng_run (Suc n) g = (let (r, g) = next_u64 g; (rs, g) = rng_run n g in (r # rs, g))"

lemma rng_run_nonzero: "\<not> rng_zero g \<Longrightarrow> \<not> rng_zero (snd (rng_run n g))"
proof (induction n arbitrary: g)
  case (Suc n)
  then show ?case using next_u64_nonzero [OF Suc.prems] by (auto simp: Let_def case_prod_beta)
qed simp

text \<open>For every seed and after any number of draws the generator's state is not the four zero words, the one state that
  maps to itself and from which only zeros are drawn.\<close>

theorem generator_never_stuck:
  "\<not> rng_zero (snd (rng_run n (rng_new seed))) \<and>
   (\<forall>g. rng_zero g \<longrightarrow> next_u64 g = (0, g))"
  using rng_run_nonzero [OF rng_new_nonzero] by (auto simp: rng_zero_def next_u64_def Let_def)

end
