(* ===== verification/Rda_NetSim.thy ===== *)
theory Rda_NetSim
  imports Rda_Rng "HOL-Library.Multiset" "HOL-Library.Product_Lexorder"
begin

text \<open>
  The simulated one-way link of \<^verbatim>\<open>rda-netsim/src/link.rs\<close> and the profiles of \<^verbatim>\<open>rda-netsim/src/profile.rs\<close>: a
  bottleneck queue, Bernoulli or Gilbert-Elliott loss, propagation delay with jitter, reordering. Time is the caller's clock, an
  argument of \<open>link_send\<close> and \<open>link_poll\<close>; the draws come from the generator of \<open>Rda_Rng\<close> in the order the code makes them.

  Shown: the link neither invents, alters, duplicates nor forgets a packet; its counters account for every packet offered; a
  packet arrives after it was sent and within the time its queue takes to drain at line rate plus propagation plus six times the
  jitter. The queue's occupancy is released all at once or not at all, so under steady load it overflows with a short backlog
  (\<open>queue_fills_under_steady_load\<close>).
\<close>

subsection \<open>Profiles\<close>

datatype LossModel =
    Bernoulli f64
  | GilbertElliott (good_to_bad: f64) (bad_to_good: f64) (loss_in_good: f64) (loss_in_bad: f64)

definition f64_clamp :: "f64 \<Rightarrow> f64 \<Rightarrow> f64 \<Rightarrow> f64" where
  "f64_clamp lo hi x = (if x < lo then lo else if x > hi then hi else x)"

definition bursty :: "f64 \<Rightarrow> LossModel" where
  "bursty rate =
     (let rate = f64_clamp 0 (f64_lit (95 / 100)) rate;
          btg = f64_lit (1 / 10);
          lib = f64_lit (8 / 10);
          gtb = (if rate \<le> 0 then 0
                 else let bad_fraction = min (f64_div rate lib) (f64_lit (95 / 100))
                      in f64_div (f64_mul bad_fraction btg) (f64_sub 1 bad_fraction))
      in GilbertElliott gtb btg 0 lib)"

definition loss_none :: LossModel where "loss_none = Bernoulli 0"

record LinkProfile =
  lp_name :: string
  lp_base_delay_ms :: u32
  lp_jitter_ms :: u32
  lp_loss :: LossModel
  lp_reorder_rate :: f64
  lp_bandwidth_bps :: u32
  lp_queue_bytes :: nat

definition profile_rtt_ms :: "LinkProfile \<Rightarrow> u32" where "profile_rtt_ms p = lp_base_delay_ms p * 2"

definition lan :: LinkProfile where
  "lan = \<lparr>lp_name = ''lan'', lp_base_delay_ms = 1, lp_jitter_ms = 0, lp_loss = loss_none, lp_reorder_rate = 0,
     lp_bandwidth_bps = 1000000000, lp_queue_bytes = 2 ^ 20\<rparr>"

definition us_kenya_direct :: LinkProfile where
  "us_kenya_direct = \<lparr>lp_name = ''us-kenya-direct'', lp_base_delay_ms = 110, lp_jitter_ms = 12, lp_loss = bursty (f64_lit (5 / 1000)),
     lp_reorder_rate = f64_lit (1 / 1000), lp_bandwidth_bps = 8000000, lp_queue_bytes = 256 * 1024\<rparr>"

definition us_kenya_relayed :: LinkProfile where
  "us_kenya_relayed = \<lparr>lp_name = ''us-kenya-relayed'', lp_base_delay_ms = 130, lp_jitter_ms = 20, lp_loss = bursty (f64_lit (2 / 100)),
     lp_reorder_rate = f64_lit (2 / 1000), lp_bandwidth_bps = 4000000, lp_queue_bytes = 192 * 1024\<rparr>"

definition us_kenya_congested :: LinkProfile where
  "us_kenya_congested = \<lparr>lp_name = ''us-kenya-congested'', lp_base_delay_ms = 125, lp_jitter_ms = 45, lp_loss = bursty (f64_lit (10 / 100)),
     lp_reorder_rate = f64_lit (1 / 100), lp_bandwidth_bps = 800000, lp_queue_bytes = 64 * 1024\<rparr>"

definition hostile :: LinkProfile where
  "hostile = \<lparr>lp_name = ''hostile'', lp_base_delay_ms = 125, lp_jitter_ms = 60, lp_loss = bursty (f64_lit (20 / 100)),
     lp_reorder_rate = f64_lit (2 / 100), lp_bandwidth_bps = 400000, lp_queue_bytes = 32 * 1024\<rparr>"

definition all_profiles :: "LinkProfile list" where
  "all_profiles = [lan, us_kenya_direct, us_kenya_relayed, us_kenya_congested, hostile]"

subsection \<open>The link\<close>

record Packet =
  pk_payload :: "u8 list"
  pk_sent_ms :: u64
  pk_deliver_ms :: u64
  pk_sequence :: u64

definition latency_ms :: "Packet \<Rightarrow> u64" where "latency_ms p = saturating_sub (pk_deliver_ms p) (pk_sent_ms p)"

datatype Delivery = Queued u64 | Lost | QueueOverflow

definition is_delivered :: "Delivery \<Rightarrow> bool" where "is_delivered d = (case d of Queued _ \<Rightarrow> True | _ \<Rightarrow> False)"

record LinkStats =
  ls_sent :: u64
  ls_delivered :: u64
  ls_lost :: u64
  ls_overflowed :: u64
  ls_reordered :: u64
  ls_bytes_sent :: u64
  ls_latency_sum_ms :: u64
  ls_max_latency_ms :: u64

definition link_stats_default :: LinkStats where
  "link_stats_default = \<lparr>ls_sent = 0, ls_delivered = 0, ls_lost = 0, ls_overflowed = 0, ls_reordered = 0, ls_bytes_sent = 0,
     ls_latency_sum_ms = 0, ls_max_latency_ms = 0\<rparr>"

definition loss_rate :: "LinkStats \<Rightarrow> f64" where
  "loss_rate s = (if ls_sent s = 0 then 0 else f64_div (f64_round (f64_of (ls_lost s + ls_overflowed s))) (f64_round (f64_of (ls_sent s))))"

definition mean_latency_ms :: "LinkStats \<Rightarrow> f64" where
  "mean_latency_ms s = (if ls_delivered s = 0 then 0
     else f64_div (f64_round (f64_of (ls_latency_sum_ms s))) (f64_round (f64_of (ls_delivered s))))"

record LinkSim =
  lk_profile :: LinkProfile
  lk_rng :: Rng
  lk_in_flight :: "Packet list"
  lk_ready :: "Packet list"
  lk_queue_bytes :: nat
  lk_queue_drains_at_ms :: u64
  lk_in_bad_state :: bool
  lk_sequence :: u64
  lk_last_delivered_sequence :: "u64 option"
  lk_stats :: LinkStats

definition link_new :: "LinkProfile \<Rightarrow> u64 \<Rightarrow> LinkSim" where
  "link_new profile seed =
     \<lparr>lk_profile = profile, lk_rng = rng_new seed, lk_in_flight = [], lk_ready = [], lk_queue_bytes = 0, lk_queue_drains_at_ms = 0,
      lk_in_bad_state = False, lk_sequence = 0, lk_last_delivered_sequence = None, lk_stats = link_stats_default\<rparr>"

definition with_rng :: "(Rng \<Rightarrow> 'a \<times> Rng) \<Rightarrow> LinkSim \<Rightarrow> 'a \<times> LinkSim" where
  "with_rng f l = (let (x, g) = f (lk_rng l) in (x, l\<lparr>lk_rng := g\<rparr>))"

definition roll_loss :: "LinkSim \<Rightarrow> bool \<times> LinkSim" where
  "roll_loss l = (case lp_loss (lk_profile l) of
       Bernoulli rate \<Rightarrow> with_rng (chance rate) l
     | GilbertElliott gtb btg lig lib \<Rightarrow>
         (let (bad, l) = (if lk_in_bad_state l then (let (c, l) = with_rng (chance btg) l in (\<not> c, l)) else with_rng (chance gtb) l);
              l = l\<lparr>lk_in_bad_state := bad\<rparr>
          in with_rng (chance (if bad then lib else lig)) l))"

definition drain_queue :: "u64 \<Rightarrow> LinkSim \<Rightarrow> LinkSim" where
  "drain_queue now_ms l =
     (if now_ms \<ge> lk_queue_drains_at_ms l then l\<lparr>lk_queue_bytes := 0, lk_queue_drains_at_ms := now_ms\<rparr> else l)"

definition as_u64 :: "f64 \<Rightarrow> u64" where
  "as_u64 x = (if x < 0 then 0 else if x \<ge> 2 ^ 64 then - 1 else word_of_int \<lfloor>x\<rfloor>)"

definition earliest :: "Packet list \<Rightarrow> u64 option" where
  "earliest ps = (case map pk_deliver_ms ps of [] \<Rightarrow> None | d # ds \<Rightarrow> Some (foldl min d ds))"

definition draw_delay :: "LinkSim \<Rightarrow> u64 \<times> LinkSim" where
  "draw_delay l =
     (let (jitter, l) = (if lp_jitter_ms (lk_profile l) = 0 then (0, l) else with_rng (normal 0 (f64_of (lp_jitter_ms (lk_profile l)))) l)
      in (as_u64 (max (f64_add (f64_of (lp_base_delay_ms (lk_profile l))) jitter) 1), l))"

definition draw_reorder :: "u64 \<Rightarrow> u64 \<Rightarrow> LinkSim \<Rightarrow> u64 \<times> LinkSim" where
  "draw_reorder now_ms deliver_ms l =
     (let (c, l) = with_rng (chance (lp_reorder_rate (lk_profile l))) l
      in (case (c, earliest (lk_in_flight l)) of
            (True, Some e) \<Rightarrow> max (saturating_sub e 1) (now_ms + 1)
          | _ \<Rightarrow> deliver_ms, l))"

text \<open>\<open>LinkSim::send\<close> in its three stages: counting the packet and draining the queue, the drop decisions, and the scheduling of
  a packet that survives.\<close>

definition offer :: "u8 list \<Rightarrow> u64 \<Rightarrow> LinkSim \<Rightarrow> LinkSim" where
  "offer payload now_ms l =
     drain_queue now_ms (l\<lparr>lk_stats := (lk_stats l)\<lparr>ls_sent := ls_sent (lk_stats l) + 1,
         ls_bytes_sent := ls_bytes_sent (lk_stats l) + word_of_nat (length payload)\<rparr>,
       lk_sequence := lk_sequence l + 1\<rparr>)"

definition serialise_ms :: "LinkProfile \<Rightarrow> u8 list \<Rightarrow> u64" where
  "serialise_ms p payload = (let bits = word_of_nat (length payload * 8) in bits * 1000 div ucast (max (lp_bandwidth_bps p) 1))"

definition occupy :: "u8 list \<Rightarrow> u64 \<Rightarrow> LinkSim \<Rightarrow> LinkSim" where
  "occupy payload now_ms l =
     (let start_ms = max now_ms (lk_queue_drains_at_ms l)
      in l\<lparr>lk_queue_drains_at_ms := start_ms + serialise_ms (lk_profile l) payload, lk_queue_bytes := lk_queue_bytes l + length payload\<rparr>)"

definition enqueue :: "u64 \<Rightarrow> u8 list \<Rightarrow> u64 \<Rightarrow> LinkSim \<Rightarrow> Delivery \<times> LinkSim" where
  "enqueue sequence payload now_ms l =
     (let (delay, l) = draw_delay (occupy payload now_ms l);
          (deliver_ms, l) = draw_reorder now_ms (lk_queue_drains_at_ms l + delay) l;
          st = lk_stats l;
          l = l\<lparr>lk_stats := st\<lparr>ls_delivered := ls_delivered st + 1,
                  ls_latency_sum_ms := ls_latency_sum_ms st + saturating_sub deliver_ms now_ms,
                  ls_max_latency_ms := max (ls_max_latency_ms st) (saturating_sub deliver_ms now_ms)\<rparr>,
               lk_in_flight := lk_in_flight l @ [\<lparr>pk_payload = payload, pk_sent_ms = now_ms, pk_deliver_ms = deliver_ms,
                  pk_sequence = sequence\<rparr>]\<rparr>
      in (Queued deliver_ms, l))"

definition link_send :: "u8 list \<Rightarrow> u64 \<Rightarrow> LinkSim \<Rightarrow> Delivery \<times> LinkSim" where
  "link_send payload now_ms l =
     (let sequence = lk_sequence l;
          l = offer payload now_ms l
      in if lk_queue_bytes l + length payload > lp_queue_bytes (lk_profile l)
         then (QueueOverflow, l\<lparr>lk_stats := (lk_stats l)\<lparr>ls_overflowed := ls_overflowed (lk_stats l) + 1\<rparr>\<rparr>)
         else let (dropped, l) = roll_loss l
              in if dropped
                 then (Lost, l\<lparr>lk_stats := (lk_stats l)\<lparr>ls_lost := ls_lost (lk_stats l) + 1\<rparr>\<rparr>)
                 else enqueue sequence payload now_ms l)"

fun note_delivered :: "Packet list \<Rightarrow> LinkSim \<Rightarrow> LinkSim" where
  "note_delivered [] l = l"
| "note_delivered (p # ps) l =
     (let l = (case lk_last_delivered_sequence l of
                 Some prev \<Rightarrow> if pk_sequence p < prev then l\<lparr>lk_stats := (lk_stats l)\<lparr>ls_reordered := ls_reordered (lk_stats l) + 1\<rparr>\<rparr> else l
               | None \<Rightarrow> l);
          l = l\<lparr>lk_last_delivered_sequence := Some (case lk_last_delivered_sequence l of None \<Rightarrow> pk_sequence p | Some q \<Rightarrow> max q (pk_sequence p))\<rparr>
      in note_delivered ps l)"

definition link_poll :: "u64 \<Rightarrow> LinkSim \<Rightarrow> Packet list \<times> LinkSim" where
  "link_poll now_ms l =
     (let due = filter (\<lambda>p. pk_deliver_ms p \<le> now_ms) (lk_in_flight l);
          l = l\<lparr>lk_in_flight := filter (\<lambda>p. \<not> pk_deliver_ms p \<le> now_ms) (lk_in_flight l)\<rparr>;
          due = sort_key (\<lambda>p. (pk_deliver_ms p, pk_sequence p)) due;
          l = note_delivered due l
      in (lk_ready l @ due, l\<lparr>lk_ready := []\<rparr>))"

definition next_delivery_ms :: "LinkSim \<Rightarrow> u64 option" where "next_delivery_ms l = earliest (lk_in_flight l)"

subsection \<open>What the parts of a send leave alone\<close>

text \<open>The fields that only \<open>link_send\<close> and \<open>link_poll\<close> themselves change.\<close>

definition same_queue :: "LinkSim \<Rightarrow> LinkSim \<Rightarrow> bool" where
  "same_queue l l' \<longleftrightarrow> lk_profile l' = lk_profile l \<and> lk_in_flight l' = lk_in_flight l \<and> lk_ready l' = lk_ready l \<and>
     lk_queue_bytes l' = lk_queue_bytes l \<and> lk_queue_drains_at_ms l' = lk_queue_drains_at_ms l \<and> lk_stats l' = lk_stats l \<and>
     lk_sequence l' = lk_sequence l"

lemma same_queue_refl: "same_queue l l"
  by (simp add: same_queue_def)

lemma with_rng_same: "same_queue l (snd (with_rng f l))"
  by (simp add: with_rng_def same_queue_def case_prod_beta Let_def)

lemma roll_loss_same: "same_queue l (snd (roll_loss l))"
  by (cases "lp_loss (lk_profile l)")
    (simp_all add: roll_loss_def with_rng_def same_queue_def case_prod_beta Let_def)

lemma draw_delay_same: "same_queue l (snd (draw_delay l))"
  by (simp add: draw_delay_def with_rng_def same_queue_def case_prod_beta Let_def)

lemma draw_reorder_same: "same_queue l (snd (draw_reorder now d l))"
  by (simp add: draw_reorder_def with_rng_def same_queue_def case_prod_beta Let_def)

lemma earliest_in:
  assumes "earliest ps = Some e"
  obtains p where "p \<in> set ps" "e = pk_deliver_ms p"
proof -
  have "foldl min d ds \<in> insert d (set ds)" for d and ds :: "u64 list"
    by (induction ds arbitrary: d) (auto simp: min_def)
  moreover from assms obtain d ds where "map pk_deliver_ms ps = d # ds" "e = foldl min d ds"
    by (auto simp: earliest_def split: list.splits)
  ultimately have "e \<in> set (map pk_deliver_ms ps)" by simp
  then show ?thesis using that by auto
qed

lemma draw_reorder_time:
  "fst (draw_reorder now d l) = d \<or>
   (\<exists>p \<in> set (lk_in_flight l). fst (draw_reorder now d l) = max (saturating_sub (pk_deliver_ms p) 1) (now + 1))"
proof -
  have "lk_in_flight (snd (with_rng (chance (lp_reorder_rate (lk_profile l))) l)) = lk_in_flight l"
    using with_rng_same [of l "chance (lp_reorder_rate (lk_profile l))"] by (simp add: same_queue_def)
  then show ?thesis
    by (auto simp: draw_reorder_def Let_def case_prod_beta split: bool.split option.split elim!: earliest_in)
qed

subsection \<open>The delay\<close>

definition max_delay :: "LinkProfile \<Rightarrow> nat" where
  "max_delay p = max 1 (unat (lp_base_delay_ms p) + 6 * unat (lp_jitter_ms p))"

lemma as_u64_bounds:
  assumes "1 \<le> x" "x \<le> of_nat n" "n < 2 ^ 64"
  shows "1 \<le> unat (as_u64 x) \<and> unat (as_u64 x) \<le> n"
proof -
  have "rat_of_nat n < of_nat (2 ^ 64)" using assms(3) by (simp only: of_nat_less_iff)
  with assms have "x < 2 ^ 64" by simp
  moreover have f: "1 \<le> \<lfloor>x\<rfloor>" "\<lfloor>x\<rfloor> \<le> int n" using assms floor_mono [OF assms(2)] by (simp_all add: le_floor_iff)
  moreover from f(1) obtain k where k: "\<lfloor>x\<rfloor> = int k" by (metis zero_le_imp_eq_int order_trans zero_le_one)
  ultimately have "as_u64 x = word_of_nat k" using assms(1) by (simp add: as_u64_def)
  then have "unat (as_u64 x) = k" using f assms(3) unfolding k by (simp add: unsigned_of_nat take_bit_nat_eq_self)
  with f show ?thesis by (simp add: k)
qed

lemma draw_delay_bounds: "1 \<le> unat (fst (draw_delay l)) \<and> unat (fst (draw_delay l)) \<le> max_delay (lk_profile l)"
proof -
  define b j where "b = unat (lp_base_delay_ms (lk_profile l))" and "j = unat (lp_jitter_ms (lk_profile l))"
  have small: "b < 2 ^ 32" "j < 2 ^ 32"
    using unsigned_less [of "lp_base_delay_ms (lk_profile l)", where ?'a = nat]
      unsigned_less [of "lp_jitter_ms (lk_profile l)", where ?'a = nat] by (simp_all add: b_def j_def)
  have fb: "f64_of (lp_base_delay_ms (lk_profile l)) = of_nat b" "f64_of (lp_jitter_ms (lk_profile l)) = of_nat j"
    by (simp_all add: f64_of_nat b_def j_def)
  have j0: "lp_jitter_ms (lk_profile l) = 0 \<longleftrightarrow> j = 0" by (simp add: j_def unat_eq_zero)
  obtain x where x: "fst (draw_delay l) = as_u64 (max (f64_add (of_nat b) x) 1)" and "\<bar>x\<bar> \<le> of_nat (6 * j)"
  proof (cases "j = 0")
    case True
    then show ?thesis by (intro that [of 0]) (simp_all add: draw_delay_def fb j0)
  next
    case False
    then show ?thesis using normal_range [of j "lk_rng l"] small(2)
      by (intro that [of "fst (normal 0 (of_nat j) (lk_rng l))"])
        (simp_all add: draw_delay_def with_rng_def fb j0 case_prod_beta Let_def)
  qed
  then have "of_nat b + x \<le> of_int (int (b + 6 * j))" by (simp add: abs_le_iff)
  from f64_round_le_int [OF this] small have "f64_add (of_nat b) x \<le> of_nat (b + 6 * j)"
    by (simp add: f64_add_def)
  moreover have "rat_of_nat (b + 6 * j) \<le> of_nat (max 1 (b + 6 * j))" "rat_of_nat 1 \<le> of_nat (max 1 (b + 6 * j))"
    by (simp_all only: of_nat_le_iff max.cobounded1 max.cobounded2)
  ultimately have "max (f64_add (of_nat b) x) 1 \<le> of_nat (max 1 (b + 6 * j))" by (simp only: of_nat_1)
  moreover have "max 1 (b + 6 * j) < 2 ^ 64" using small by simp
  ultimately show ?thesis unfolding x max_delay_def b_def [symmetric] j_def [symmetric] by (intro as_u64_bounds) simp_all
qed

subsection \<open>The outcomes of a send\<close>

lemma drain_queue_frame [simp]:
  "lk_profile (drain_queue now l) = lk_profile l" "lk_in_flight (drain_queue now l) = lk_in_flight l"
  "lk_ready (drain_queue now l) = lk_ready l" "lk_stats (drain_queue now l) = lk_stats l" "lk_sequence (drain_queue now l) = lk_sequence l"
  by (simp_all add: drain_queue_def)

lemma offer_frame:
  "lk_profile (offer payload now l) = lk_profile l" "lk_in_flight (offer payload now l) = lk_in_flight l"
  "lk_ready (offer payload now l) = lk_ready l" "lk_queue_bytes (offer payload now l) = lk_queue_bytes (drain_queue now l)"
  "lk_queue_drains_at_ms (offer payload now l) = lk_queue_drains_at_ms (drain_queue now l)"
  "ls_sent (lk_stats (offer payload now l)) = ls_sent (lk_stats l) + 1" "ls_delivered (lk_stats (offer payload now l)) = ls_delivered (lk_stats l)"
  "ls_lost (lk_stats (offer payload now l)) = ls_lost (lk_stats l)" "ls_overflowed (lk_stats (offer payload now l)) = ls_overflowed (lk_stats l)"
  "ls_max_latency_ms (lk_stats (offer payload now l)) = ls_max_latency_ms (lk_stats l)"
  by (simp_all add: offer_def) (simp_all add: drain_queue_def)

lemma link_send_cases:
  assumes "link_send payload now l = (d, l')"
  defines "l0 \<equiv> drain_queue now l" and "p \<equiv> lk_profile l" and "st \<equiv> lk_stats l" and "st' \<equiv> lk_stats l'"
  shows "lk_profile l' = p \<and> lk_ready l' = lk_ready l \<and> ls_sent st' = ls_sent st + 1 \<and>
    (case d of
       QueueOverflow \<Rightarrow> lk_in_flight l' = lk_in_flight l \<and> lk_queue_bytes l' = lk_queue_bytes l0 \<and>
         lk_queue_drains_at_ms l' = lk_queue_drains_at_ms l0 \<and> ls_max_latency_ms st' = ls_max_latency_ms st \<and>
         ls_delivered st' = ls_delivered st \<and> ls_lost st' = ls_lost st \<and> ls_overflowed st' = ls_overflowed st + 1
     | Lost \<Rightarrow> lk_in_flight l' = lk_in_flight l \<and> lk_queue_bytes l' = lk_queue_bytes l0 \<and>
         lk_queue_drains_at_ms l' = lk_queue_drains_at_ms l0 \<and> ls_max_latency_ms st' = ls_max_latency_ms st \<and>
         ls_delivered st' = ls_delivered st \<and> ls_lost st' = ls_lost st + 1 \<and> ls_overflowed st' = ls_overflowed st
     | Queued t \<Rightarrow> lk_in_flight l' = lk_in_flight l @ [\<lparr>pk_payload = payload, pk_sent_ms = now, pk_deliver_ms = t, pk_sequence = lk_sequence l\<rparr>] \<and>
         lk_queue_bytes l' = lk_queue_bytes l0 + length payload \<and> lk_queue_bytes l' \<le> lp_queue_bytes p \<and>
         lk_queue_drains_at_ms l' = max now (lk_queue_drains_at_ms l0) + serialise_ms p payload \<and>
         ls_max_latency_ms st' = max (ls_max_latency_ms st) (saturating_sub t now) \<and>
         ls_delivered st' = ls_delivered st + 1 \<and> ls_lost st' = ls_lost st \<and> ls_overflowed st' = ls_overflowed st \<and>
         (\<exists>delay. 1 \<le> unat delay \<and> unat delay \<le> max_delay p \<and>
           (t = lk_queue_drains_at_ms l' + delay \<or>
            (\<exists>q \<in> set (lk_in_flight l). t = max (saturating_sub (pk_deliver_ms q) 1) (now + 1)))))"
proof -
  define l1 where "l1 = offer payload now l"
  note l1 = offer_frame [of payload now l, folded l1_def l0_def p_def st_def]
  note send = link_send_def [of payload now l, folded l1_def]
  show ?thesis
  proof (cases "lk_queue_bytes l1 + length payload > lp_queue_bytes (lk_profile l1)")
    case True
    with assms(1) show ?thesis by (auto simp: send st'_def l1)
  next
    case room: False
    obtain dropped l2 where l2: "roll_loss l1 = (dropped, l2)" by fastforce
    with roll_loss_same [of l1] have s2: "same_queue l1 l2" by simp
    show ?thesis
    proof (cases dropped)
      case True
      with assms(1) room l2 s2 show ?thesis by (auto simp: send st'_def l1 same_queue_def)
    next
      case False
      define l3 where "l3 = occupy payload now l2"
      obtain delay l4 where l4: "draw_delay l3 = (delay, l4)" by fastforce
      with draw_delay_same [of l3] have s4: "same_queue l3 l4" by simp
      obtain t l5 where l5: "draw_reorder now (lk_queue_drains_at_ms l4 + delay) l4 = (t, l5)" by fastforce
      with draw_reorder_same [of l4 now "lk_queue_drains_at_ms l4 + delay"] have s5: "same_queue l4 l5" by simp
      note frames = same_queue_def l3_def occupy_def l1
      have "enqueue (lk_sequence l) payload now l2 = (d, l')" using assms(1) room l2 False by (simp add: send)
      then have "d = Queued t" "l' = l5\<lparr>lk_stats := (lk_stats l5)\<lparr>ls_delivered := ls_delivered (lk_stats l5) + 1,
             ls_latency_sum_ms := ls_latency_sum_ms (lk_stats l5) + saturating_sub t now,
             ls_max_latency_ms := max (ls_max_latency_ms (lk_stats l5)) (saturating_sub t now)\<rparr>,
           lk_in_flight := lk_in_flight l5 @ [\<lparr>pk_payload = payload, pk_sent_ms = now, pk_deliver_ms = t, pk_sequence = lk_sequence l\<rparr>]\<rparr>"
        using l4 l5 by (auto simp: enqueue_def l3_def Let_def)
      moreover have "1 \<le> unat delay" "unat delay \<le> max_delay p"
        using draw_delay_bounds [of l3] l4 s2 by (simp_all add: frames)
      moreover have "t = lk_queue_drains_at_ms l4 + delay \<or>
          (\<exists>q \<in> set (lk_in_flight l). t = max (saturating_sub (pk_deliver_ms q) 1) (now + 1))"
        using draw_reorder_time [of now "lk_queue_drains_at_ms l4 + delay" l4] l5 s2 s4 by (simp add: frames)
      ultimately show ?thesis using s2 s4 s5 room by (auto simp: frames st'_def)
    qed
  qed
qed

subsection \<open>The latency bound\<close>

definition line_rate :: "LinkProfile \<Rightarrow> nat" where "line_rate p = max 1 (unat (lp_bandwidth_bps p))"

text \<open>How long a full queue takes to drain at line rate, plus the longest delay.\<close>

definition latency_bound :: "LinkProfile \<Rightarrow> nat" where
  "latency_bound p = 8000 * lp_queue_bytes p div line_rate p + max_delay p"

lemma unat_serialise:
  assumes "8000 * length payload < 2 ^ 64"
  shows "unat (serialise_ms p payload) = 8000 * length payload div line_rate p"
proof -
  have m: "unat (ucast (max (lp_bandwidth_bps p) 1) :: u64) = line_rate p"
    by (simp add: unsigned_ucast_eq line_rate_def max_def word_le_nat_alt take_bit_nat_eq_self_iff)
      (use unsigned_less [of "lp_bandwidth_bps p", where ?'a = nat] in auto)
  have "unat (word_of_nat (length payload * 8) * 1000 :: u64) = 8000 * length payload"
  proof -
    have "(word_of_nat (length payload * 8) * 1000 :: u64) = word_of_nat (8000 * length payload)" by simp
    then show ?thesis using assms by (simp add: unsigned_of_nat take_bit_nat_eq_self del: of_nat_mult)
  qed
  then show ?thesis by (simp add: serialise_ms_def Let_def unat_div m)
qed

definition link_ok :: "nat \<Rightarrow> LinkSim \<Rightarrow> bool" where
  "link_ok T l \<longleftrightarrow> (let p = lk_profile l in
     lk_ready l = [] \<and> lk_queue_bytes l \<le> lp_queue_bytes p \<and>
     unat (lk_queue_drains_at_ms l) \<le> T + 8000 * lk_queue_bytes l div line_rate p \<and>
     (\<forall>q \<in> set (lk_in_flight l). unat (pk_sent_ms q) \<le> T \<and> unat (pk_sent_ms q) < unat (pk_deliver_ms q) \<and>
        unat (pk_deliver_ms q) \<le> unat (pk_sent_ms q) + latency_bound p) \<and>
     unat (ls_max_latency_ms (lk_stats l)) \<le> latency_bound p)"

definition link_fits :: "LinkProfile \<Rightarrow> u64 \<Rightarrow> bool" where
  "link_fits p now \<longleftrightarrow> 8000 * lp_queue_bytes p < 2 ^ 64 \<and> unat now + latency_bound p < 2 ^ 64"

lemma drain_ok:
  assumes "link_ok T l" "T \<le> unat now"
  shows "now \<le> lk_queue_drains_at_ms (drain_queue now l)" "lk_queue_bytes (drain_queue now l) \<le> lp_queue_bytes (lk_profile l)"
    "unat (lk_queue_drains_at_ms (drain_queue now l)) \<le> unat now + 8000 * lk_queue_bytes (drain_queue now l) div line_rate (lk_profile l)"
  using assms by (auto simp: drain_queue_def link_ok_def Let_def)

lemma div_add_le: "(a :: nat) div c + b div c \<le> (a + b) div c"
  using add_mono [OF div_times_less_eq_dividend [of a c] div_times_less_eq_dividend [of b c]]
  by (cases "c = 0") (simp_all add: less_eq_div_iff_mult_less_eq distrib_right)

lemma send_ok:
  assumes "link_ok T l" "T \<le> unat now" "link_fits (lk_profile l) now" "link_send payload now l = (d, l')"
  shows "link_ok (unat now) l'"
proof -
  let ?p = "lk_profile l" and ?l0 = "drain_queue now l"
  note c = link_send_cases [OF assms(4)] and dr = drain_ok [OF assms(1,2)]
  have old: "\<forall>q \<in> set (lk_in_flight l). unat (pk_sent_ms q) \<le> unat now \<and> unat (pk_sent_ms q) < unat (pk_deliver_ms q) \<and>
        unat (pk_deliver_ms q) \<le> unat (pk_sent_ms q) + latency_bound ?p"
    "unat (ls_max_latency_ms (lk_stats l)) \<le> latency_bound ?p" "lk_ready l = []"
    using assms(1,2) by (auto simp: link_ok_def Let_def)
  show ?thesis
  proof (cases d)
    case (Queued t)
    with c have l': "lk_queue_bytes l' = lk_queue_bytes ?l0 + length payload" "lk_queue_bytes l' \<le> lp_queue_bytes ?p"
      "lk_queue_drains_at_ms l' = lk_queue_drains_at_ms ?l0 + serialise_ms ?p payload"
      using dr(1) by (simp_all add: max_def)
    have ser: "unat (serialise_ms ?p payload) = 8000 * length payload div line_rate ?p"
      using l'(1,2) assms(3) by (intro unat_serialise) (simp add: link_fits_def)
    let ?q = "8000 * lk_queue_bytes l' div line_rate ?p"
    have q: "?q \<le> 8000 * lp_queue_bytes ?p div line_rate ?p" using l'(2) by (intro div_le_mono) simp
    have sum: "unat (lk_queue_drains_at_ms ?l0) + unat (serialise_ms ?p payload) \<le> unat now + ?q"
      using dr(3) div_add_le [of "8000 * lk_queue_bytes ?l0" "line_rate ?p" "8000 * length payload"]
      by (simp add: ser l'(1) algebra_simps)
    then have drains: "unat (lk_queue_drains_at_ms l') = unat (lk_queue_drains_at_ms ?l0) + unat (serialise_ms ?p payload)"
      using q assms(3) unfolding l'(3) by (intro unat_add_lem [THEN iffD1]) (simp add: link_fits_def latency_bound_def)
    have "unat now < unat t \<and> unat t \<le> unat now + latency_bound ?p"
    proof -
      from c Queued obtain delay where delay: "1 \<le> unat delay" "unat delay \<le> max_delay ?p"
        and t: "t = lk_queue_drains_at_ms l' + delay \<or> (\<exists>q \<in> set (lk_in_flight l). t = max (saturating_sub (pk_deliver_ms q) 1) (now + 1))"
        by auto
      have le: "unat (lk_queue_drains_at_ms l') + unat delay \<le> unat now + latency_bound ?p"
        using sum q delay(2) by (simp add: drains latency_bound_def)
      have pos: "1 \<le> latency_bound ?p" by (simp add: latency_bound_def max_delay_def)
      then have one: "unat (now + 1) = unat now + 1"
        using assms(3) unat_add_lem [of now 1] by (simp add: link_fits_def)
      from t show ?thesis
      proof (elim disjE bexE)
        assume "t = lk_queue_drains_at_ms l' + delay"
        then have "unat t = unat (lk_queue_drains_at_ms l') + unat delay"
          using le assms(3) by (auto simp: link_fits_def intro!: unat_add_lem [THEN iffD1])
        moreover have "unat now \<le> unat (lk_queue_drains_at_ms l')" using dr(1) by (simp add: drains word_le_nat_alt)
        ultimately show ?thesis using delay le by simp
      next
        fix q assume "q \<in> set (lk_in_flight l)" "t = max (saturating_sub (pk_deliver_ms q) 1) (now + 1)"
        with old(1) one pos show ?thesis by (fastforce simp: max_def word_le_nat_alt)
      qed
    qed
    with c Queued l'(1,2) old sum drains show ?thesis by (auto simp: link_ok_def Let_def max_def)
  qed (use c old dr in \<open>auto simp: link_ok_def Let_def\<close>)
qed

subsection \<open>Polling\<close>

lemma note_delivered_frame:
  "lk_profile (note_delivered ps l) = lk_profile l \<and> lk_in_flight (note_delivered ps l) = lk_in_flight l \<and>
   lk_ready (note_delivered ps l) = lk_ready l \<and> lk_queue_bytes (note_delivered ps l) = lk_queue_bytes l \<and>
   lk_queue_drains_at_ms (note_delivered ps l) = lk_queue_drains_at_ms l \<and>
   ls_sent (lk_stats (note_delivered ps l)) = ls_sent (lk_stats l) \<and> ls_delivered (lk_stats (note_delivered ps l)) = ls_delivered (lk_stats l) \<and>
   ls_lost (lk_stats (note_delivered ps l)) = ls_lost (lk_stats l) \<and> ls_overflowed (lk_stats (note_delivered ps l)) = ls_overflowed (lk_stats l) \<and>
   ls_max_latency_ms (lk_stats (note_delivered ps l)) = ls_max_latency_ms (lk_stats l)"
  by (induction ps arbitrary: l) (auto simp: Let_def split: option.split)

lemma poll_frame:
  "lk_profile (snd (link_poll now l)) = lk_profile l" "lk_ready (snd (link_poll now l)) = []"
  "lk_in_flight (snd (link_poll now l)) = filter (\<lambda>p. \<not> pk_deliver_ms p \<le> now) (lk_in_flight l)"
  "lk_queue_bytes (snd (link_poll now l)) = lk_queue_bytes l"
  "lk_queue_drains_at_ms (snd (link_poll now l)) = lk_queue_drains_at_ms l"
  "ls_sent (lk_stats (snd (link_poll now l))) = ls_sent (lk_stats l)" "ls_delivered (lk_stats (snd (link_poll now l))) = ls_delivered (lk_stats l)"
  "ls_lost (lk_stats (snd (link_poll now l))) = ls_lost (lk_stats l)" "ls_overflowed (lk_stats (snd (link_poll now l))) = ls_overflowed (lk_stats l)"
  "ls_max_latency_ms (lk_stats (snd (link_poll now l))) = ls_max_latency_ms (lk_stats l)"
  by (simp_all add: link_poll_def Let_def note_delivered_frame)

lemma poll_out:
  "fst (link_poll now l) = lk_ready l @ sort_key (\<lambda>p. (pk_deliver_ms p, pk_sequence p)) (filter (\<lambda>p. pk_deliver_ms p \<le> now) (lk_in_flight l))"
  by (simp add: link_poll_def Let_def note_delivered_frame)

lemma poll_ok: "link_ok T l \<Longrightarrow> T \<le> T' \<Longrightarrow> link_ok T' (snd (link_poll now l))"
  by (auto simp: link_ok_def Let_def poll_frame)

subsection \<open>Runs\<close>

datatype link_op = SendOp "u8 list" u64 | PollOp u64

fun op_time :: "link_op \<Rightarrow> u64" where
  "op_time (SendOp _ now) = now"
| "op_time (PollOp now) = now"

type_synonym schedule = "u8 list \<times> u64 \<times> u64"

definition schedule_of :: "Packet \<Rightarrow> schedule" where
  "schedule_of p = (pk_payload p, pk_sent_ms p, pk_deliver_ms p)"

text \<open>A run: what was accepted, with its payload, sending and delivery time; what the polls returned, each with the poll's time.\<close>

fun link_run :: "link_op list \<Rightarrow> LinkSim \<Rightarrow> schedule list \<times> (u64 \<times> Packet) list \<times> LinkSim" where
  "link_run [] l = ([], [], l)"
| "link_run (SendOp payload now # ops) l =
     (let (d, l) = link_send payload now l; (acc, out, l) = link_run ops l
      in ((case d of Queued t \<Rightarrow> [(payload, now, t)] | _ \<Rightarrow> []) @ acc, out, l))"
| "link_run (PollOp now # ops) l =
     (let (ps, l) = link_poll now l; (acc, out, l) = link_run ops l in (acc, map (Pair now) ps @ out, l))"

definition is_send :: "link_op \<Rightarrow> bool" where "is_send op = (case op of SendOp _ _ \<Rightarrow> True | PollOp _ \<Rightarrow> False)"

lemma run_conserves:
  assumes "link_run ops l = (acc, out, l')" "lk_ready l = []"
  shows "image_mset schedule_of (mset (lk_in_flight l)) + mset acc =
      image_mset (schedule_of \<circ> snd) (mset out) + image_mset schedule_of (mset (lk_in_flight l')) \<and>
    (\<forall>(now, p) \<in> set out. pk_deliver_ms p \<le> now) \<and>
    ls_sent (lk_stats l') = ls_sent (lk_stats l) + word_of_nat (length (filter is_send ops)) \<and>
    ls_delivered (lk_stats l') = ls_delivered (lk_stats l) + word_of_nat (length acc) \<and>
    ls_sent (lk_stats l') - ls_delivered (lk_stats l') - ls_lost (lk_stats l') - ls_overflowed (lk_stats l') =
    ls_sent (lk_stats l) - ls_delivered (lk_stats l) - ls_lost (lk_stats l) - ls_overflowed (lk_stats l)"
  using assms
proof (induction ops l arbitrary: acc out rule: link_run.induct)
  case (2 payload now ops l)
  obtain d l1 where d: "link_send payload now l = (d, l1)" by fastforce
  obtain acc1 out1 l2 where r: "link_run ops l1 = (acc1, out1, l2)" by (metis prod_cases3)
  note c = link_send_cases [OF d]
  with 2(3) have "lk_ready l1 = []" by simp
  from 2(2) d r have e: "out = out1" "l' = l2" "acc = (case d of Queued t \<Rightarrow> [(payload, now, t)] | _ \<Rightarrow> []) @ acc1" by auto
  note ih = 2(1) [OF d [symmetric] refl r [folded e(2)] \<open>lk_ready l1 = []\<close>]
  show ?case
    by (cases d) (use c ih e in \<open>auto simp: is_send_def schedule_of_def algebra_simps\<close>)
next
  case (3 now ops l)
  obtain acc1 out1 l2 where r: "link_run ops (snd (link_poll now l)) = (acc1, out1, l2)" by (metis prod_cases3)
  from 3(2) r have e: "acc = acc1" "l' = l2" "out = map (Pair now) (fst (link_poll now l)) @ out1"
    by (auto simp: case_prod_beta Let_def)
  note ih = 3(1) [OF refl prod.collapse r [folded e(2)] poll_frame(2)]
  have ms: "mset (lk_in_flight l) = mset (fst (link_poll now l)) + mset (lk_in_flight (snd (link_poll now l)))"
    using 3(3) by (simp add: poll_out poll_frame)
  have due: "\<forall>p \<in> set (fst (link_poll now l)). pk_deliver_ms p \<le> now" using 3(3) by (simp add: poll_out)
  have out: "image_mset (schedule_of \<circ> snd) (mset out) = image_mset schedule_of (mset (fst (link_poll now l))) + image_mset (schedule_of \<circ> snd) (mset out1)"
    by (simp add: e comp_def multiset.map_comp)
  show ?case using ih due unfolding ms out by (auto simp: e poll_frame is_send_def comp_def)
qed simp

text \<open>The link is honest. In every run from a fresh link, the packets that were accepted are, as a multiset with their payloads, sending
  and delivery times, those the polls have returned together with those still in flight: none is altered, duplicated,
  invented or forgotten. None is returned before its delivery time, and the counters add up to the packets offered.\<close>

theorem link_conserves_packets:
  assumes "link_run ops (link_new profile seed) = (acc, out, l)"
  shows "mset acc = image_mset (schedule_of \<circ> snd) (mset out) + image_mset schedule_of (mset (lk_in_flight l)) \<and>
    (\<forall>(now, p) \<in> set out. pk_deliver_ms p \<le> now) \<and>
    ls_sent (lk_stats l) = word_of_nat (length (filter is_send ops)) \<and> ls_delivered (lk_stats l) = word_of_nat (length acc) \<and>
    ls_sent (lk_stats l) = ls_delivered (lk_stats l) + ls_lost (lk_stats l) + ls_overflowed (lk_stats l)"
  using run_conserves [OF assms] by (auto simp: link_new_def link_stats_default_def algebra_simps)

theorem link_conserves_packets_witness:
  "\<exists>acc out l. link_run [SendOp [1, 2] 0, SendOp [3] 4, PollOp 5] (link_new lan 9) = (acc, out, l) \<and>
     mset acc = image_mset (schedule_of \<circ> snd) (mset out) + image_mset schedule_of (mset (lk_in_flight l)) \<and> length acc = 2"
proof -
  obtain acc out l where r: "link_run [SendOp [1, 2] 0, SendOp [3] 4, PollOp 5] (link_new lan 9) = (acc, out, l)" by (metis prod_cases3)
  have "length (fst (link_run [SendOp [1, 2] 0, SendOp [3] 4, PollOp 5] (link_new lan 9))) = 2"
    by (simp add: link_send_def offer_def drain_queue_def roll_loss_def chance_def with_rng_def enqueue_def draw_delay_def
        draw_reorder_def occupy_def link_new_def lan_def loss_none_def Let_def case_prod_beta)
  with r link_conserves_packets [OF r] show ?thesis by auto
qed

lemma link_run_ok:
  assumes "link_run ops l = (acc, out, l')" "link_ok T l" "T \<le> T'" "\<forall>op \<in> set ops. unat (op_time op) \<le> T'"
    and "sorted (T # map (unat \<circ> op_time) ops)" "\<forall>op \<in> set ops. link_fits (lk_profile l) (op_time op)"
  shows "link_ok T' l' \<and> lk_profile l' = lk_profile l \<and>
    (\<forall>(payload, sent, deliver) \<in> set acc. unat sent < unat deliver \<and> unat deliver \<le> unat sent + latency_bound (lk_profile l))"
  using assms
proof (induction ops l arbitrary: acc out T rule: link_run.induct)
  case (2 payload now ops l)
  obtain d l1 where d: "link_send payload now l = (d, l1)" by fastforce
  obtain acc1 out1 l2 where r: "link_run ops l1 = (acc1, out1, l2)" by (metis prod_cases3)
  from 2(2) d r have e: "l' = l2" "acc = (case d of Queued t \<Rightarrow> [(payload, now, t)] | _ \<Rightarrow> []) @ acc1" by auto
  have ok: "link_ok (unat now) l1" using 2(3,6,7) by (intro send_ok [OF _ _ _ d]) auto
  have p: "lk_profile l1 = lk_profile l" using link_send_cases [OF d] by simp
  have ih: "link_ok T' l' \<and> lk_profile l' = lk_profile l1 \<and> (\<forall>(payload, sent, deliver) \<in> set acc1. unat sent < unat deliver \<and>
      unat deliver \<le> unat sent + latency_bound (lk_profile l1))"
    by (rule 2(1) [OF d [symmetric] refl r [folded e(1)] ok]) (use 2(5,6,7) p in auto)
  have "unat now < unat t \<and> unat t \<le> unat now + latency_bound (lk_profile l)" if "d = Queued t" for t
    using link_send_cases [OF d] ok that by (auto simp: link_ok_def Let_def p)
  with ih show ?case by (auto simp: e p split: Delivery.splits)
next
  case (3 now ops l)
  obtain acc1 out1 l2 where r: "link_run ops (snd (link_poll now l)) = (acc1, out1, l2)" by (metis prod_cases3)
  from 3(2) r have e: "acc = acc1" "l' = l2" by (auto simp: case_prod_beta Let_def)
  have ok: "link_ok (unat now) (snd (link_poll now l))" using 3(3,6) by (intro poll_ok) auto
  show ?case
    using 3(1) [OF refl prod.collapse r [folded e(2)] ok] 3(5,6,7) by (auto simp: e poll_frame)
qed (auto simp: link_ok_def Let_def intro: order_trans)

text \<open>C29. The link is timely. In a run whose clock does not go back and whose times leave room for the sum, every accepted packet arrives
  strictly after it was sent and no later than the time the full queue takes to drain at line rate, plus the base delay,
  plus six times the jitter: a reordered packet too, floating-point rounding included. The largest latency counted is within
  the same bound, the queue is never over its capacity, and a poll that much later than the last operation leaves nothing in
  flight.\<close>

theorem link_latency_bounded:
  assumes "link_run ops (link_new profile seed) = (acc, out, l)"
    and "sorted (map (unat \<circ> op_time) ops)" "\<forall>op \<in> set ops. link_fits profile (op_time op)"
  shows "(\<forall>(payload, sent, deliver) \<in> set acc. unat sent < unat deliver \<and> unat deliver \<le> unat sent + latency_bound profile) \<and>
    unat (ls_max_latency_ms (lk_stats l)) \<le> latency_bound profile \<and> lk_queue_bytes l \<le> lp_queue_bytes profile \<and>
    (\<forall>t. (\<forall>op \<in> set ops. unat (op_time op) + latency_bound profile \<le> unat t) \<longrightarrow> lk_in_flight (snd (link_poll t l)) = [])"
proof -
  have new: "link_ok 0 (link_new profile seed)" "lk_profile (link_new profile seed) = profile"
    by (simp_all add: link_new_def link_ok_def link_stats_default_def Let_def)
  have run: "link_ok T l \<and> lk_profile l = profile \<and>
      (\<forall>(payload, sent, deliver) \<in> set acc. unat sent < unat deliver \<and> unat deliver \<le> unat sent + latency_bound profile)"
    if "\<forall>op \<in> set ops. unat (op_time op) \<le> T" for T
    using link_run_ok [OF assms(1) new(1) _ that] assms(2,3) by (simp add: new(2))
  obtain T where T: "\<forall>op \<in> set ops. unat (op_time op) \<le> T"
    using finite_nat_set_iff_bounded_le [of "(unat \<circ> op_time) ` set ops"] by auto
  have "lk_in_flight (snd (link_poll t l)) = []" if t: "\<forall>op \<in> set ops. unat (op_time op) + latency_bound profile \<le> unat t" for t
  proof (cases "ops = []")
    case True
    with assms(1) show ?thesis by (auto simp: link_new_def poll_frame)
  next
    case False
    with t have "latency_bound profile \<le> unat t" by (cases ops) auto
    moreover have "\<forall>op \<in> set ops. unat (op_time op) \<le> unat t - latency_bound profile" using t by auto
    note run [OF this]
    ultimately show ?thesis by (fastforce simp: link_ok_def Let_def poll_frame filter_empty_conv word_le_nat_alt)
  qed
  moreover have "lk_profile l = profile" "link_ok T l" using run [OF T] by simp_all
  ultimately show ?thesis using run [OF T] by (auto simp: link_ok_def Let_def)
qed

theorem link_latency_bounded_witness:
  "latency_bound us_kenya_direct = 444 \<and>
   list_all (\<lambda>(payload, sent, deliver). unat sent < unat deliver \<and> unat deliver \<le> unat sent + 444)
     (fst (link_run [SendOp [1, 2] 5, PollOp 900] (link_new us_kenya_direct 7)))"
proof -
  have b: "latency_bound us_kenya_direct = 444"
    by (simp add: latency_bound_def max_delay_def line_rate_def us_kenya_direct_def)
  obtain acc out l where r: "link_run [SendOp [1, 2] 5, PollOp 900] (link_new us_kenya_direct 7) = (acc, out, l)" by (metis prod_cases3)
  have "\<forall>op \<in> set [SendOp [1, 2] 5, PollOp 900]. link_fits us_kenya_direct (op_time op)"
    by (simp add: link_fits_def b) (simp add: us_kenya_direct_def)
  from link_latency_bounded [OF r _ this] r b show ?thesis by (simp add: list_all_iff)
qed

subsection \<open>The queue under steady load\<close>

lemma send_no_loss:
  assumes "lp_loss (lk_profile l) = loss_none" "lk_queue_bytes (drain_queue now l) + length payload \<le> lp_queue_bytes (lk_profile l)"
  shows "is_delivered (fst (link_send payload now l))"
proof -
  have "lp_loss (lk_profile (offer payload now l)) = Bernoulli 0" using assms(1) by (simp add: offer_frame loss_none_def)
  then have "\<not> fst (roll_loss (offer payload now l))" by (simp add: roll_loss_def with_rng_def chance_def)
  then show ?thesis
    using assms(2) by (simp add: link_send_def Let_def case_prod_beta offer_frame enqueue_def is_delivered_def)
qed

text \<open>The healthy path without jitter, loss and reordering: at eight megabits a second a kilobyte takes a millisecond.\<close>

definition steady :: LinkProfile where
  "steady = us_kenya_direct\<lparr>lp_jitter_ms := 0, lp_loss := loss_none, lp_reorder_rate := 0\<rparr>"

fun steady_load :: "u64 \<Rightarrow> nat \<Rightarrow> LinkSim" where
  "steady_load seed 0 = snd (link_send (replicate 2000 0) 0 (link_new steady seed))"
| "steady_load seed (Suc n) = snd (link_send (replicate 1000 0) (word_of_nat (Suc n)) (steady_load seed n))"

lemma steady_send:
  assumes "lk_profile l = steady" "k * 1000 + lk_queue_bytes (drain_queue now l) \<le> 262144" "now \<le> lk_queue_drains_at_ms (drain_queue now l)"
  defines "l' \<equiv> snd (link_send (replicate (k * 1000) 0) now l)"
  shows "lk_profile l' = steady" "lk_queue_bytes l' = lk_queue_bytes (drain_queue now l) + k * 1000"
    "lk_queue_drains_at_ms l' = lk_queue_drains_at_ms (drain_queue now l) + word_of_nat k"
proof -
  obtain d where d: "link_send (replicate (k * 1000) 0) now l = (d, l')" unfolding l'_def by (metis prod.collapse)
  have "is_delivered d"
    using send_no_loss [of l now "replicate (k * 1000) 0"] assms(1,2) d by (simp add: steady_def us_kenya_direct_def)
  then obtain t where t: "d = Queued t" by (auto simp: is_delivered_def split: Delivery.splits)
  have k: "k < 300" using assms(2) by simp
  have "unat (serialise_ms steady (replicate (k * 1000) 0)) = k"
    using k by (subst unat_serialise) (simp_all add: line_rate_def steady_def us_kenya_direct_def)
  then have "serialise_ms steady (replicate (k * 1000) 0) = word_of_nat k" using k by (simp add: word_unat_eq_iff unsigned_of_nat take_bit_nat_eq_self)
  with link_send_cases [OF d] t assms(1,3) show "lk_profile l' = steady" "lk_queue_bytes l' = lk_queue_bytes (drain_queue now l) + k * 1000"
    "lk_queue_drains_at_ms l' = lk_queue_drains_at_ms (drain_queue now l) + word_of_nat k"
    by (simp_all add: max_def)
qed

lemma steady_load_state:
  "n \<le> 260 \<Longrightarrow> lk_profile (steady_load seed n) = steady \<and> lk_queue_bytes (steady_load seed n) = 2000 + 1000 * n \<and>
     lk_queue_drains_at_ms (steady_load seed n) = word_of_nat (n + 2)"
proof (induction n)
  case 0
  have "lk_profile (link_new steady seed) = steady" "lk_queue_bytes (drain_queue 0 (link_new steady seed)) = 0"
    "lk_queue_drains_at_ms (drain_queue 0 (link_new steady seed)) = 0" by (simp_all add: link_new_def drain_queue_def)
  with steady_send [of "link_new steady seed" 2 0] show ?case by simp
next
  case (Suc n)
  let ?l = "steady_load seed n" and ?now = "word_of_nat (Suc n) :: u64"
  from Suc have ih: "lk_profile ?l = steady" "lk_queue_bytes ?l = 2000 + 1000 * n" "lk_queue_drains_at_ms ?l = word_of_nat (n + 2)"
    by simp_all
  have u: "unat ?now = Suc n" "unat (word_of_nat (n + 2) :: u64) = n + 2"
    using Suc.prems by (simp_all only: unsigned_of_nat) (simp_all add: take_bit_nat_eq_self)
  then have "\<not> lk_queue_drains_at_ms ?l \<le> ?now" unfolding ih word_le_nat_alt by simp
  then have "drain_queue ?now ?l = ?l" "?now \<le> lk_queue_drains_at_ms ?l" by (simp_all add: drain_queue_def)
  with steady_send [of ?l 1 ?now] ih Suc.prems show ?case by simp
qed

text \<open>The occupancy of the queue is released only when everything in it has been transmitted. On an otherwise perfect link, one packet of
  two milliseconds followed by packets of one millisecond every millisecond never lets the line go idle: at every arrival one
  millisecond of data, a thousand bytes, is left to transmit, but the queue counts every byte since the start, and the 262nd
  packet is dropped as an overflow of a queue of 256 KiB.\<close>

theorem queue_fills_under_steady_load:
  "lk_queue_drains_at_ms (steady_load seed 260) = 261 + 1 \<and> lk_queue_bytes (steady_load seed 260) = 262000 \<and>
   fst (link_send (replicate 1000 0) 261 (steady_load seed 260)) = QueueOverflow"
proof -
  have s: "lk_profile (steady_load seed 260) = steady" "lk_queue_bytes (steady_load seed 260) = 262000"
    "lk_queue_drains_at_ms (steady_load seed 260) = 262" using steady_load_state [of 260 seed] by simp_all
  then have "lk_queue_bytes (drain_queue 261 (steady_load seed 260)) = 262000" by (simp add: drain_queue_def)
  with s show ?thesis by (simp add: link_send_def Let_def offer_frame steady_def us_kenya_direct_def)
qed

end
