(* ===== verification/Rda_Negotiate.thy ===== *)
theory Rda_Negotiate
  imports Rda_Transport
begin

text \<open>
  Negotiation of a peer connection over the signalling server, \<^verbatim>\<open>rda-session/src/negotiate.rs\<close>, and the retry loop of
  \<^verbatim>\<open>rda-client/src/session.rs\<close>. \<open>pump\<close> is the loop both ends run. One pass of it is a function of what the outside world
  contributes to that pass: the clock, the arm of the \<open>select\<close> that fired with what it received, and the readings of
  \<open>Session::unopened_channels\<close>. The WebRTC session is a parameter, a record of the three calls the loop makes; the
  signalling connection is the list of messages sent, with a function of it that says whether the next send succeeds.

  Shown: the loop returns by its deadline; when it returns successfully, the connection is up, every channel is open and the peer has
  announced its own, and the frames that came too early are handed over complete and in order; the host applies the
  peer's candidates in the order they came, none before the remote description and none lost. Three theorems show where
  the code does not do what its comments say: the last end to get ready does not announce it, the controller applies
  candidates that come before the answer instead of keeping them, and a refusal is not noticed once the relay credentials
  have come.
\<close>

definition NEGOTIATION_TIMEOUT :: u64 where "NEGOTIATION_TIMEOUT = 30000"
definition CHANNEL_OPEN_TIMEOUT :: u64 where "CHANNEL_OPEN_TIMEOUT = 5000"

datatype NegotiateError =
    Signaling string
  | Transport string
  | Refused ConnectStatus
  | TimedOut
  | IceFailed
  | ConnClosed
  | ChannelsNotOpen "Channel list"
  | PeerNeverReady

definition is_transient :: "NegotiateError \<Rightarrow> bool" where
  "is_transient e = (case e of ChannelsNotOpen _ \<Rightarrow> True | TimedOut \<Rightarrow> True | IceFailed \<Rightarrow> True | ConnClosed \<Rightarrow> True | _ \<Rightarrow> False)"

subsection \<open>The pump\<close>

text \<open>The calls of the WebRTC session that negotiation makes.\<close>

record 'w webrtc =
  accept_offer :: "string \<Rightarrow> 'w \<Rightarrow> (string + string) \<times> 'w"
  accept_answer :: "string \<Rightarrow> 'w \<Rightarrow> (string + unit) \<times> 'w"
  add_remote_candidate :: "IceCandidate \<Rightarrow> 'w \<Rightarrow> (string + unit) \<times> 'w"

type_synonym outbox = "(string option \<times> Message) list"

record 'w pump_state =
  ps_pending :: "IceCandidate list"
  ps_remote_described :: bool
  ps_connected :: bool
  ps_all_open :: bool
  ps_connected_at :: "u64 option"
  ps_announced_ready :: bool
  ps_peer_ready :: bool
  ps_early_frames :: "(Channel \<times> ControlFrame) list"
  ps_session :: 'w
  ps_out :: outbox

datatype arm = ArmEnvelope "Envelope option" | ArmEvent "TransportEvent option" | ArmSleep

record pump_input =
  pi_now :: u64
  pi_unopened :: "nat \<Rightarrow> Channel list"
  pi_arm :: arm

definition pump_new :: "bool \<Rightarrow> 'w \<Rightarrow> outbox \<Rightarrow> 'w pump_state" where
  "pump_new expect_offer session out =
     \<lparr>ps_pending = [], ps_remote_described = (\<not> expect_offer), ps_connected = False, ps_all_open = False, ps_connected_at = None,
      ps_announced_ready = False, ps_peer_ready = False, ps_early_frames = [], ps_session = session, ps_out = out\<rparr>"

type_synonym ('w, 'a) pump_st = "('w pump_state, NegotiateError, 'a) st"

definition signal_send :: "(outbox \<Rightarrow> bool) \<Rightarrow> string option \<Rightarrow> Message \<Rightarrow> ('w, unit) pump_st" where
  "signal_send send_ok sid msg st =
     (if send_ok (ps_out st) then (Inr (), st\<lparr>ps_out := ps_out st @ [(sid, msg)]\<rparr>)
      else (Inl (Signaling ''connection closed by server''), st))"

definition apply_candidate :: "'w webrtc \<Rightarrow> IceCandidate \<Rightarrow> 'w pump_state \<Rightarrow> 'w pump_state" where
  "apply_candidate W c st = st\<lparr>ps_session := snd (add_remote_candidate W c (ps_session st))\<rparr>"

definition drain_pending :: "'w webrtc \<Rightarrow> 'w pump_state \<Rightarrow> 'w pump_state" where
  "drain_pending W st = (fold (apply_candidate W) (ps_pending st) st)\<lparr>ps_pending := []\<rparr>"

definition transport_call :: "('w \<Rightarrow> (string + 'a) \<times> 'w) \<Rightarrow> ('w, 'a) pump_st" where
  "transport_call f st = (case f (ps_session st) of
       (Inl e, w) \<Rightarrow> (Inl (Transport e), st\<lparr>ps_session := w\<rparr>)
     | (Inr x, w) \<Rightarrow> (Inr x, st\<lparr>ps_session := w\<rparr>))"

definition described :: "'w webrtc \<Rightarrow> ('w, unit) pump_st" where
  "described W = smodify (\<lambda>st. drain_pending W (st\<lparr>ps_remote_described := True\<rparr>))"

definition on_envelope :: "'w webrtc \<Rightarrow> (outbox \<Rightarrow> bool) \<Rightarrow> string \<Rightarrow> bool \<Rightarrow> Envelope \<Rightarrow> ('w, unit) pump_st" where
  "on_envelope W send_ok session_id expect_offer env = (case en_msg env of
       Offer sdp \<Rightarrow>
         if \<not> expect_offer then sret ()
         else (case sd_sdp sdp of
                 None \<Rightarrow> sret ()
               | Some s \<Rightarrow> sbind (transport_call (accept_offer W s)) (\<lambda>answer.
                   sbind (signal_send send_ok (Some session_id) (Answer (sdp_plain answer))) (\<lambda>_. described W)))
     | Answer sdp \<Rightarrow>
         if expect_offer then sret ()
         else (case sd_sdp sdp of
                 None \<Rightarrow> sret ()
               | Some s \<Rightarrow> sbind (transport_call (accept_answer W s)) (\<lambda>_. described W))
     | MIceCandidate candidate \<Rightarrow> smodify (\<lambda>st.
         if ps_remote_described st then apply_candidate W candidate st else st\<lparr>ps_pending := ps_pending st @ [candidate]\<rparr>)
     | ChannelsReady \<Rightarrow> smodify (\<lambda>st. st\<lparr>ps_peer_ready := True\<rparr>)
     | MPeerGone _ \<Rightarrow> sfail ConnClosed
     | _ \<Rightarrow> sret ())"

definition on_transport_event :: "(outbox \<Rightarrow> bool) \<Rightarrow> string \<Rightarrow> u64 \<Rightarrow> Channel list \<Rightarrow> TransportEvent \<Rightarrow> ('w, unit) pump_st" where
  "on_transport_event send_ok session_id now unopened ev = (case ev of
       LocalCandidate candidate \<Rightarrow> signal_send send_ok (Some session_id) (MIceCandidate candidate)
     | GatheringComplete \<Rightarrow> sret ()
     | ChannelOpen _ \<Rightarrow> smodify (\<lambda>st. st\<lparr>ps_all_open := (unopened = [])\<rparr>)
     | Frame ch frame \<Rightarrow> smodify (\<lambda>st. st\<lparr>ps_early_frames := ps_early_frames st @ [(ch, frame)]\<rparr>)
     | Closed \<Rightarrow> sfail ConnClosed
     | ConnectionState state \<Rightarrow>
         (case state of
            PcConnected \<Rightarrow> smodify (\<lambda>st. st\<lparr>ps_connected := True,
              ps_connected_at := Some (case ps_connected_at st of Some t \<Rightarrow> t | None \<Rightarrow> now)\<rparr>)
          | PcFailed \<Rightarrow> sfail IceFailed
          | _ \<Rightarrow> sret ())
     | MalformedFrame _ _ \<Rightarrow> sret ())"

definition select_arm :: "'w webrtc \<Rightarrow> (outbox \<Rightarrow> bool) \<Rightarrow> string \<Rightarrow> bool \<Rightarrow> u64 \<Rightarrow> Channel list \<Rightarrow> arm \<Rightarrow> ('w, unit) pump_st" where
  "select_arm W send_ok session_id expect_offer now unopened a = (case a of
       ArmEnvelope None \<Rightarrow> sfail ConnClosed
     | ArmEnvelope (Some env) \<Rightarrow> on_envelope W send_ok session_id expect_offer env
     | ArmEvent None \<Rightarrow> sfail ConnClosed
     | ArmEvent (Some ev) \<Rightarrow> on_transport_event send_ok session_id now unopened ev
     | ArmSleep \<Rightarrow> smodify (\<lambda>st. if ps_connected st then st\<lparr>ps_all_open := (unopened = [])\<rparr> else st))"

definition channels_late :: "u64 \<Rightarrow> Channel list \<Rightarrow> ('w, unit) pump_st" where
  "channels_late now unopened st = (case ps_connected_at st of
       Some since \<Rightarrow> if saturating_sub now since \<ge> CHANNEL_OPEN_TIMEOUT \<and> unopened \<noteq> [] then (Inl (ChannelsNotOpen unopened), st) else (Inr (), st)
     | None \<Rightarrow> (Inr (), st))"

definition announce :: "(outbox \<Rightarrow> bool) \<Rightarrow> string \<Rightarrow> ('w, unit) pump_st" where
  "announce send_ok session_id st =
     (if ps_all_open st \<and> \<not> ps_announced_ready st
      then signal_send send_ok (Some session_id) ChannelsReady (st\<lparr>ps_announced_ready := True\<rparr>)
      else (Inr (), st))"

definition past_deadline :: "u64 \<Rightarrow> u64 \<Rightarrow> Channel list \<Rightarrow> ('w, unit) pump_st" where
  "past_deadline deadline now unopened st =
     (if now \<ge> deadline
      then (Inl (if ps_connected st \<and> unopened \<noteq> [] then ChannelsNotOpen unopened
                 else if ps_all_open st \<and> \<not> ps_peer_ready st then PeerNeverReady else TimedOut), st)
      else (Inr (), st))"

definition pump_pass :: "'w webrtc \<Rightarrow> (outbox \<Rightarrow> bool) \<Rightarrow> string \<Rightarrow> u64 \<Rightarrow> bool \<Rightarrow> pump_input \<Rightarrow> ('w, unit) pump_st" where
  "pump_pass W send_ok session_id deadline expect_offer i =
     sbind (channels_late (pi_now i) (pi_unopened i 0)) (\<lambda>_.
     sbind (announce send_ok session_id) (\<lambda>_.
     sbind (past_deadline deadline (pi_now i) (pi_unopened i 1)) (\<lambda>_.
     select_arm W send_ok session_id expect_offer (pi_now i) (pi_unopened i 2) (pi_arm i))))"

definition pump_done :: "'w pump_state \<Rightarrow> bool" where
  "pump_done st \<longleftrightarrow> ps_connected st \<and> ps_all_open st \<and> ps_peer_ready st"

text \<open>The loop over the passes that happen; \<open>None\<close> is a loop that has not returned yet.\<close>

fun pump :: "'w webrtc \<Rightarrow> (outbox \<Rightarrow> bool) \<Rightarrow> string \<Rightarrow> u64 \<Rightarrow> bool \<Rightarrow> pump_input list \<Rightarrow> 'w pump_state \<Rightarrow>
    (NegotiateError + (Channel \<times> ControlFrame) list) option \<times> 'w pump_state" where
  "pump W send_ok session_id deadline expect_offer inputs st =
     (if pump_done st then (Some (Inr (ps_early_frames st)), st)
      else case inputs of
             [] \<Rightarrow> (None, st)
           | i # rest \<Rightarrow>
               (case pump_pass W send_ok session_id deadline expect_offer i st of
                  (Inl e, st) \<Rightarrow> (Some (Inl e), st)
                | (Inr _, st) \<Rightarrow> pump W send_ok session_id deadline expect_offer rest st))"

declare pump.simps [simp del]

subsection \<open>Dialling\<close>

record dial_state =
  ds_credentials :: "RelayCredentials option"
  ds_session_id :: "string option"

datatype next_env = NextEnvelope Envelope | NextClosed | NextTimeout

definition dial_envelope :: "Envelope \<Rightarrow> dial_state \<Rightarrow> NegotiateError + dial_state" where
  "dial_envelope env st =
     (let st = (case (en_sid env, ds_session_id st) of (Some sid, None) \<Rightarrow> st\<lparr>ds_session_id := Some sid\<rparr> | _ \<Rightarrow> st)
      in case en_msg env of
           MRelayCredentials c \<Rightarrow> Inr (st\<lparr>ds_credentials := Some c\<rparr>)
         | MConnectResponse r \<Rightarrow>
             if cp_status r \<noteq> Accepted then Inl (Refused (cp_status r))
             else (case cp_session_id r of Some sid \<Rightarrow> Inr (st\<lparr>ds_session_id := Some sid\<rparr>) | None \<Rightarrow> Inr st)
         | _ \<Rightarrow> Inr st)"

fun dial_loop :: "next_env list \<Rightarrow> dial_state \<Rightarrow> (NegotiateError + string \<times> RelayCredentials) option \<times> next_env list" where
  "dial_loop inputs st =
     (case (ds_credentials st, ds_session_id st) of
        (Some c, Some sid) \<Rightarrow> (Some (Inr (sid, c)), inputs)
      | _ \<Rightarrow> (case inputs of
                [] \<Rightarrow> (None, [])
              | NextClosed # rest \<Rightarrow> (Some (Inl ConnClosed), rest)
              | NextTimeout # rest \<Rightarrow> (Some (Inl TimedOut), rest)
              | NextEnvelope env # rest \<Rightarrow>
                  (case dial_envelope env st of Inl e \<Rightarrow> (Some (Inl e), rest) | Inr st' \<Rightarrow> dial_loop rest st')))"

declare dial_loop.simps [simp del]

definition dial_new :: dial_state where "dial_new = \<lparr>ds_credentials = None, ds_session_id = None\<rparr>"

definition connect_request_message :: "DeviceId \<Rightarrow> string \<Rightarrow> string option \<Rightarrow> Message" where
  "connect_request_message target our_pubkey_b64 label =
     MConnectRequest \<lparr>cr_target = target, cr_from_pubkey = our_pubkey_b64, cr_from_label = label, cr_auth_mode = Pin, cr_token = None,
       cr_requested_caps = [''view'', ''input'']\<rparr>"

text \<open>After the dial loop: the session made from the credentials, its offer, and the pump. The two WebRTC calls are the parameter
  \<open>make_offer\<close>: the offer and the new session, or an error.\<close>

definition connect_to_host ::
  "'w webrtc \<Rightarrow> (RelayCredentials \<Rightarrow> string + string \<times> 'w) \<Rightarrow> (outbox \<Rightarrow> bool) \<Rightarrow> DeviceId \<Rightarrow> string \<Rightarrow> string option \<Rightarrow> u64 \<Rightarrow>
   next_env list \<Rightarrow> pump_input list \<Rightarrow> (NegotiateError + string \<times> (Channel \<times> ControlFrame) list) option \<times> outbox" where
  "connect_to_host W make_offer send_ok target our_pubkey_b64 label deadline envs inputs =
     (if \<not> send_ok [] then (Some (Inl (Signaling ''connection closed by server'')), [])
      else let out = [(None, connect_request_message target our_pubkey_b64 label)]
      in case fst (dial_loop envs dial_new) of
           None \<Rightarrow> (None, out)
         | Some (Inl e) \<Rightarrow> (Some (Inl e), out)
         | Some (Inr (session_id, credentials)) \<Rightarrow>
             (case make_offer credentials of
                Inl e \<Rightarrow> (Some (Inl (Transport e)), out)
              | Inr (offer, session) \<Rightarrow>
                  if \<not> send_ok out then (Some (Inl (Signaling ''connection closed by server'')), out)
                  else (case pump W send_ok session_id deadline False inputs
                            (pump_new False session (out @ [(Some session_id, Offer (sdp_plain offer))])) of
                          (r, st) \<Rightarrow> (map_option (mapE (Pair session_id)) r, ps_out st))))"

definition accept_connection ::
  "'w webrtc \<Rightarrow> (RelayCredentials \<Rightarrow> string + 'w) \<Rightarrow> (outbox \<Rightarrow> bool) \<Rightarrow> string \<Rightarrow> RelayCredentials \<Rightarrow> SessionCaps \<Rightarrow> u64 \<Rightarrow>
   pump_input list \<Rightarrow> (NegotiateError + string \<times> (Channel \<times> ControlFrame) list) option \<times> outbox" where
  "accept_connection W make_session send_ok session_id credentials granted deadline inputs =
     (if \<not> send_ok [] then (Some (Inl (Signaling ''connection closed by server'')), [])
      else let out = [(Some session_id, MConnectResponse (response_accept session_id (to_names granted) granted))]
      in case make_session credentials of
           Inl e \<Rightarrow> (Some (Inl (Transport e)), out)
         | Inr session \<Rightarrow>
             (case pump W send_ok session_id deadline True inputs (pump_new True session out) of
                (r, st) \<Rightarrow> (map_option (mapE (Pair session_id)) r, ps_out st)))"

subsection \<open>Retrying\<close>

definition SETUP_ATTEMPTS :: nat where "SETUP_ATTEMPTS = 3"

text \<open>A failed attempt is an error of negotiation or some other error.\<close>

datatype setup_error = NegotiationFailed NegotiateError | OtherFailure string

function run_with_retry :: "nat \<Rightarrow> (nat \<Rightarrow> setup_error + 'a) \<Rightarrow> setup_error + 'a" where
  "run_with_retry attempt run = (case run attempt of
       Inr report \<Rightarrow> Inr report
     | Inl e \<Rightarrow>
         if \<not> (case e of NegotiationFailed n \<Rightarrow> is_transient n | OtherFailure _ \<Rightarrow> False) \<or> attempt \<ge> SETUP_ATTEMPTS
         then Inl e else run_with_retry (Suc attempt) run)"
  by pat_completeness auto

termination by (relation "measure (\<lambda>(attempt, _). SETUP_ATTEMPTS - attempt)") auto

declare run_with_retry.simps [simp del]

subsection \<open>What a pass does\<close>

definition frames_of :: "pump_input list \<Rightarrow> (Channel \<times> ControlFrame) list" where
  "frames_of is = List.map_filter (\<lambda>i. case pi_arm i of ArmEvent (Some (Frame c f)) \<Rightarrow> Some (c, f) | _ \<Rightarrow> None) is"

definition candidates_of :: "pump_input list \<Rightarrow> IceCandidate list" where
  "candidates_of is = List.map_filter (\<lambda>i. case pi_arm i of
     ArmEnvelope (Some env) \<Rightarrow> (case en_msg env of MIceCandidate c \<Rightarrow> Some c | _ \<Rightarrow> None) | _ \<Rightarrow> None) is"

definition brings_ready :: "pump_input \<Rightarrow> bool" where
  "brings_ready i \<longleftrightarrow> (case pi_arm i of ArmEnvelope (Some env) \<Rightarrow> en_msg env = ChannelsReady | _ \<Rightarrow> False)"

definition brings_connected :: "pump_input \<Rightarrow> bool" where
  "brings_connected i \<longleftrightarrow> pi_arm i = ArmEvent (Some (ConnectionState PcConnected))"

lemma of_snoc [simp]:
  "frames_of (is @ js) = frames_of is @ frames_of js" "candidates_of (is @ js) = candidates_of is @ candidates_of js"
  "frames_of [] = []" "candidates_of [] = []"
  by (simp_all add: frames_of_def candidates_of_def map_filter_def)

text \<open>The part of the state that the signalling and transport arms share, seen through the steps before the \<open>select\<close>.\<close>

lemma pre_select:
  assumes "pump_pass W send_ok sid dl eo i st = (Inr u, st')"
  obtains st1 where "select_arm W send_ok sid eo (pi_now i) (pi_unopened i 2) (pi_arm i) st1 = (Inr u, st')"
    "st1 = st \<or> (\<exists>out. st1 = st\<lparr>ps_announced_ready := True, ps_out := out\<rparr>)" "pi_now i < dl"
proof -
  obtain st1 where st1: "announce send_ok sid st = (Inr (), st1)" "past_deadline dl (pi_now i) (pi_unopened i 1) st1 = (Inr (), st1)"
    "select_arm W send_ok sid eo (pi_now i) (pi_unopened i 2) (pi_arm i) st1 = (Inr u, st')"
    using assms
    by (auto simp: pump_pass_def sbind_def channels_late_def past_deadline_def split: prod.splits sum.splits option.splits if_splits)
  show ?thesis
    by (rule that [OF st1(3)]) (use st1(1,2) in \<open>auto simp: announce_def signal_send_def past_deadline_def split: if_splits\<close>)
qed

lemma drain_pending_frame:
  "ps_remote_described (drain_pending W st) = ps_remote_described st \<and> ps_connected (drain_pending W st) = ps_connected st \<and>
   ps_all_open (drain_pending W st) = ps_all_open st \<and> ps_peer_ready (drain_pending W st) = ps_peer_ready st \<and>
   ps_early_frames (drain_pending W st) = ps_early_frames st \<and> ps_out (drain_pending W st) = ps_out st \<and>
   ps_announced_ready (drain_pending W st) = ps_announced_ready st"
proof -
  have "\<exists>w. fold (apply_candidate W) cs st = st\<lparr>ps_session := w\<rparr>" for cs
  proof (induction cs arbitrary: st)
    case Nil
    show ?case by (rule exI [of _ "ps_session st"]) simp
  next
    case (Cons c cs)
    from Cons.IH [of "apply_candidate W c st"] show ?case by (auto simp: apply_candidate_def)
  qed
  from this [of "ps_pending st"] show ?thesis by (auto simp: drain_pending_def)
qed

lemma select_flags:
  assumes "select_arm W send_ok sid eo now un a st = (r, st')"
  shows "ps_early_frames st' = ps_early_frames st @ (case a of ArmEvent (Some (Frame c f)) \<Rightarrow> [(c, f)] | _ \<Rightarrow> [])"
    and "ps_peer_ready st' \<longleftrightarrow> ps_peer_ready st \<or> (case a of ArmEnvelope (Some env) \<Rightarrow> en_msg env = ChannelsReady | _ \<Rightarrow> False)"
    and "ps_connected st' \<longleftrightarrow> ps_connected st \<or> a = ArmEvent (Some (ConnectionState PcConnected))"
    and "ps_all_open st' \<Longrightarrow> ps_all_open st \<or> un = []"
  using assms
  by (auto simp: select_arm_def on_envelope_def on_transport_event_def described_def drain_pending_frame transport_call_def
      signal_send_def apply_candidate_def sbind_def
      split: arm.splits option.splits Message.splits TransportEvent.splits PeerConnectionState.splits if_splits prod.splits sum.splits)

text \<open>A completed pass, by what it received.\<close>

lemma pass_flags:
  assumes "pump_pass W send_ok sid dl eo i st = (Inr u, st')"
  shows "ps_early_frames st' = ps_early_frames st @ frames_of [i]" "ps_peer_ready st' \<longleftrightarrow> ps_peer_ready st \<or> brings_ready i"
    "ps_connected st' \<longleftrightarrow> ps_connected st \<or> brings_connected i" "ps_all_open st' \<Longrightarrow> ps_all_open st \<or> pi_unopened i 2 = []"
proof -
  from pre_select [OF assms] obtain st1 where
    sel: "select_arm W send_ok sid eo (pi_now i) (pi_unopened i 2) (pi_arm i) st1 = (Inr u, st')"
    and st1: "st1 = st \<or> (\<exists>out. st1 = st\<lparr>ps_announced_ready := True, ps_out := out\<rparr>)" by metis
  then have "ps_early_frames st1 = ps_early_frames st" "ps_peer_ready st1 = ps_peer_ready st" "ps_connected st1 = ps_connected st"
    "ps_all_open st1 = ps_all_open st" by auto
  then show "ps_early_frames st' = ps_early_frames st @ frames_of [i]" "ps_peer_ready st' \<longleftrightarrow> ps_peer_ready st \<or> brings_ready i"
    "ps_connected st' \<longleftrightarrow> ps_connected st \<or> brings_connected i" "ps_all_open st' \<Longrightarrow> ps_all_open st \<or> pi_unopened i 2 = []"
    using select_flags [OF sel]
    by (auto simp: frames_of_def brings_ready_def brings_connected_def map_filter_def
        split: arm.split option.split TransportEvent.split)
qed

subsection \<open>Runs of the pump\<close>

lemma pump_unfold:
  "pump W send_ok sid dl eo inputs st =
     (if pump_done st then (Some (Inr (ps_early_frames st)), st)
      else case inputs of
             [] \<Rightarrow> (None, st)
           | i # rest \<Rightarrow>
               (case pump_pass W send_ok sid dl eo i st of
                  (Inl e, st) \<Rightarrow> (Some (Inl e), st)
                | (Inr _, st) \<Rightarrow> pump W send_ok sid dl eo rest st))"
  by (subst pump.simps) simp

lemma pump_success:
  assumes "pump W send_ok sid dl eo inputs st = (Some (Inr frames), st')"
  shows "\<exists>n \<le> length inputs. frames = ps_early_frames st @ frames_of (take n inputs) \<and> pump_done st' \<and>
    (ps_peer_ready st \<or> (\<exists>i \<in> set (take n inputs). brings_ready i)) \<and>
    (ps_connected st \<or> (\<exists>i \<in> set (take n inputs). brings_connected i)) \<and>
    (ps_all_open st \<or> (\<exists>i \<in> set (take n inputs). pi_unopened i 2 = []))"
  using assms
proof (induction inputs arbitrary: st)
  case Nil
  then show ?case by (subst (asm) pump_unfold) (auto simp: pump_done_def split: if_splits)
next
  case (Cons i rest)
  show ?case
  proof (cases "pump_done st")
    case True
    with Cons.prems show ?thesis by (subst (asm) pump_unfold) (auto simp: pump_done_def intro!: exI [of _ 0])
  next
    case False
    with Cons.prems obtain u st1 where p: "pump_pass W send_ok sid dl eo i st = (Inr u, st1)"
      "pump W send_ok sid dl eo rest st1 = (Some (Inr frames), st')"
      by (subst (asm) pump_unfold) (auto split: prod.splits sum.splits)
    from Cons.IH [OF p(2)] obtain n where n: "n \<le> length rest" "frames = ps_early_frames st1 @ frames_of (take n rest)" "pump_done st'"
      "ps_peer_ready st1 \<or> (\<exists>i \<in> set (take n rest). brings_ready i)"
      "ps_connected st1 \<or> (\<exists>i \<in> set (take n rest). brings_connected i)"
      "ps_all_open st1 \<or> (\<exists>i \<in> set (take n rest). pi_unopened i 2 = [])" by blast
    note f = pass_flags [OF p(1)]
    have "frames_of (i # take n rest) = frames_of [i] @ frames_of (take n rest)" by (simp flip: of_snoc(1))
    with n f show ?thesis by (intro exI [of _ "Suc n"]) auto
  qed
qed

lemma pass_past_deadline: "dl \<le> pi_now i \<Longrightarrow> \<exists>e st'. pump_pass W send_ok sid dl eo i st = (Inl e, st')"
  using pre_select [of W send_ok sid dl eo i st] by (metis linorder_not_le old.sum.exhaust prod.collapse)

lemma pump_returns: "\<exists>i \<in> set inputs. dl \<le> pi_now i \<Longrightarrow> fst (pump W send_ok sid dl eo inputs st) \<noteq> None"
proof (induction inputs arbitrary: st)
  case (Cons i rest)
  show ?case
  proof (cases "dl \<le> pi_now i")
    case True
    from pass_past_deadline [OF True, of W send_ok sid eo st] show ?thesis by (subst pump_unfold) auto
  next
    case False
    with Cons show ?thesis by (subst pump_unfold) (auto split: prod.split sum.split)
  qed
qed simp

text \<open>C31. Negotiation ends, and ends well only when both sides can talk. If the clock reaches the deadline in some pass, the
  loop has returned. If it returned successfully, the peer connection was reported up, a reading showed no channel
  unopened and the peer announced its own channels, all within the passes made; and the frames handed over are exactly the
  frames the transport delivered in these passes, in order.\<close>

theorem negotiation_outcome:
  "((\<exists>i \<in> set inputs. deadline \<le> pi_now i) \<longrightarrow> fst (pump W send_ok sid deadline eo inputs (pump_new eo w out)) \<noteq> None) \<and>
   (\<forall>frames st. pump W send_ok sid deadline eo inputs (pump_new eo w out) = (Some (Inr frames), st) \<longrightarrow>
      (\<exists>n \<le> length inputs. frames = frames_of (take n inputs) \<and> (\<exists>i \<in> set (take n inputs). brings_ready i) \<and>
        (\<exists>i \<in> set (take n inputs). brings_connected i) \<and> (\<exists>i \<in> set (take n inputs). pi_unopened i 2 = [])))"
proof -
  have "\<exists>n \<le> length inputs. frames = frames_of (take n inputs) \<and> (\<exists>i \<in> set (take n inputs). brings_ready i) \<and>
        (\<exists>i \<in> set (take n inputs). brings_connected i) \<and> (\<exists>i \<in> set (take n inputs). pi_unopened i 2 = [])"
    if "pump W send_ok sid deadline eo inputs (pump_new eo w out) = (Some (Inr frames), st)" for frames st
    using pump_success [OF that] by (auto simp: pump_new_def)
  with pump_returns show ?thesis by blast
qed

text \<open>A run that succeeds: the connection comes up, a look finds every channel open, the peer says it is ready.\<close>

definition idle_session :: "unit webrtc" where
  "idle_session = \<lparr>accept_offer = (\<lambda>_ w. (Inl [], w)), accept_answer = (\<lambda>_ w. (Inl [], w)), add_remote_candidate = (\<lambda>_ w. (Inl [], w))\<rparr>"

definition good_inputs :: "pump_input list" where
  "good_inputs = map (\<lambda>a. \<lparr>pi_now = 1, pi_unopened = (\<lambda>_. []), pi_arm = a\<rparr>)
     [ArmEvent (Some (ConnectionState PcConnected)), ArmSleep, ArmEnvelope (Some (envelope_new ''1'' 0 None ChannelsReady))]"

theorem negotiation_outcome_witness:
  "fst (pump idle_session (\<lambda>_. True) ''s'' 30000 True [\<lparr>pi_now = 40000, pi_unopened = (\<lambda>_. []), pi_arm = ArmSleep\<rparr>] (pump_new True () [])) \<noteq> None \<and>
   (\<exists>st n. pump idle_session (\<lambda>_. True) ''s'' 30000 True good_inputs (pump_new True () []) = (Some (Inr []), st) \<and>
      [] = frames_of (take n good_inputs) \<and> list_ex brings_ready (take n good_inputs))"
proof
  show "fst (pump idle_session (\<lambda>_. True) ''s'' 30000 True [\<lparr>pi_now = 40000, pi_unopened = (\<lambda>_. []), pi_arm = ArmSleep\<rparr>] (pump_new True () [])) \<noteq> None"
    by (rule negotiation_outcome [THEN conjunct1, THEN mp]) simp
  obtain st where r: "pump idle_session (\<lambda>_. True) ''s'' 30000 True good_inputs (pump_new True () []) = (Some (Inr []), st)"
    by (simp add: good_inputs_def pump_new_def pump.simps pump_done_def pump_pass_def sbind_def channels_late_def announce_def
        past_deadline_def select_arm_def on_transport_event_def on_envelope_def signal_send_def CHANNEL_OPEN_TIMEOUT_def
        saturating_sub_def envelope_new_def word_le_nat_alt)
  from negotiation_outcome [THEN conjunct2, rule_format, OF r]
  show "\<exists>st n. pump idle_session (\<lambda>_. True) ''s'' 30000 True good_inputs (pump_new True () []) = (Some (Inr []), st) \<and>
      [] = frames_of (take n good_inputs) \<and> list_ex brings_ready (take n good_inputs)"
    using r by (auto simp: list_ex_iff)
qed

subsection \<open>Candidates\<close>

text \<open>A session that logs the calls made on it and answers as an arbitrary function of the log.\<close>

datatype call = CallOffer string | CallAnswer string | CallCandidate IceCandidate

definition logging :: "(call list \<Rightarrow> call \<Rightarrow> string option) \<Rightarrow> string \<Rightarrow> call list webrtc" where
  "logging fails answer =
     \<lparr>accept_offer = (\<lambda>s w. (case fails w (CallOffer s) of None \<Rightarrow> Inr answer | Some e \<Rightarrow> Inl e, w @ [CallOffer s])),
      accept_answer = (\<lambda>s w. (case fails w (CallAnswer s) of None \<Rightarrow> Inr () | Some e \<Rightarrow> Inl e, w @ [CallAnswer s])),
      add_remote_candidate = (\<lambda>c w. (case fails w (CallCandidate c) of None \<Rightarrow> Inr () | Some e \<Rightarrow> Inl e, w @ [CallCandidate c]))\<rparr>"

definition candidate_calls :: "call list \<Rightarrow> IceCandidate list" where
  "candidate_calls w = List.map_filter (\<lambda>c. case c of CallCandidate i \<Rightarrow> Some i | _ \<Rightarrow> None) w"

lemma candidate_calls_simps [simp]:
  "candidate_calls [] = []" "candidate_calls (w @ v) = candidate_calls w @ candidate_calls v"
  "candidate_calls [CallCandidate c] = [c]" "candidate_calls [CallOffer s] = []" "candidate_calls [CallAnswer s] = []"
  "candidate_calls (map CallCandidate cs) = cs"
  by (simp_all add: candidate_calls_def map_filter_def comp_def)

lemma drain_pending_logging:
  "drain_pending (logging fails answer) st = st\<lparr>ps_session := ps_session st @ map CallCandidate (ps_pending st), ps_pending := []\<rparr>"
proof -
  have "fold (apply_candidate (logging fails answer)) cs st = st\<lparr>ps_session := ps_session st @ map CallCandidate cs\<rparr>" for cs
    by (induction cs arbitrary: st) (simp_all add: apply_candidate_def logging_def)
  then show ?thesis by (simp add: drain_pending_def)
qed

text \<open>The host's side: what came, in order, is what was applied followed by what is kept; the first call is the offer.\<close>

definition cands_kept :: "pump_input list \<Rightarrow> call list pump_state \<Rightarrow> bool" where
  "cands_kept seen st \<longleftrightarrow> candidate_calls (ps_session st) @ ps_pending st = candidates_of seen \<and>
     (ps_session st = [] \<or> (\<exists>s. hd (ps_session st) = CallOffer s)) \<and> (ps_remote_described st \<longrightarrow> ps_pending st = [])"

definition cands_ok :: "pump_input list \<Rightarrow> call list pump_state \<Rightarrow> bool" where
  "cands_ok seen st \<longleftrightarrow> cands_kept seen st \<and> (ps_remote_described st \<longleftrightarrow> ps_session st \<noteq> [])"

lemma cands_frame:
  assumes "ps_session st' = ps_session st" "ps_pending st' = ps_pending st" "ps_remote_described st' = ps_remote_described st"
  shows "cands_ok seen st' = cands_ok seen st" "cands_kept seen st' = cands_kept seen st"
  using assms by (simp_all add: cands_ok_def cands_kept_def)

lemma offer_step:
  assumes "sd_sdp sdp = Some s" "en_msg env = Offer sdp" "on_envelope (logging fails answer) send_ok sid True env st = (r, st')"
  defines "w \<equiv> ps_session st @ [CallOffer s]"
  shows "(\<exists>e. r = Inl e) \<and> st' = st\<lparr>ps_session := w\<rparr> \<or>
    r = Inr () \<and> st' = drain_pending (logging fails answer) (st\<lparr>ps_session := w, ps_out := ps_out st @ [(Some sid, Answer (sdp_plain answer))],
      ps_remote_described := True\<rparr>)"
proof -
  have offer: "accept_offer (logging fails answer) s (ps_session st) =
      (case fails (ps_session st) (CallOffer s) of None \<Rightarrow> Inr answer | Some e \<Rightarrow> Inl e, w)" by (simp add: logging_def w_def)
  show ?thesis
    using assms(1-3)
    by (simp add: on_envelope_def sbind_def transport_call_def offer signal_send_def described_def split: option.splits if_splits) blast+
qed

lemma offer_cands:
  assumes "cands_ok seen st" "sd_sdp sdp = Some s" "en_msg env = Offer sdp"
    "on_envelope (logging fails answer) send_ok sid True env st = (r, st')"
  shows "case r of Inr _ \<Rightarrow> cands_ok seen st' | Inl _ \<Rightarrow> cands_kept seen st'"
proof -
  define w where "w = ps_session st @ [CallOffer s]"
  have "\<exists>s. hd w = CallOffer s"
  proof (cases "ps_session st = []")
    case False
    with assms(1) show ?thesis by (simp add: w_def cands_ok_def cands_kept_def)
  qed (simp add: w_def)
  moreover have "w \<noteq> []" "candidate_calls w = candidate_calls (ps_session st)" by (simp_all add: w_def)
  ultimately have "cands_kept seen (st\<lparr>ps_session := w\<rparr>)"
    "cands_ok seen (drain_pending (logging fails answer) (st\<lparr>ps_session := w, ps_out := out, ps_remote_described := True\<rparr>))" for out
    using assms(1) by (simp_all add: cands_ok_def cands_kept_def drain_pending_logging)
  with offer_step [OF assms(2-4), folded w_def] show ?thesis by auto
qed

lemma candidate_cands:
  assumes "cands_ok seen st" "candidates_of [i] = [c]"
  shows "cands_ok (seen @ [i]) (if ps_remote_described st then apply_candidate (logging fails answer) c st
      else st\<lparr>ps_pending := ps_pending st @ [c]\<rparr>)"
  using assms by (auto simp: cands_ok_def cands_kept_def apply_candidate_def logging_def)

lemma select_cands:
  assumes "cands_ok seen st" "select_arm (logging fails answer) send_ok sid True now un (pi_arm i) st = (r, st')"
  shows "case r of Inr _ \<Rightarrow> cands_ok (seen @ [i]) st' | Inl _ \<Rightarrow> cands_kept seen st'"
proof -
  have other: "case r of Inr _ \<Rightarrow> cands_ok (seen @ [i]) st' | Inl _ \<Rightarrow> cands_kept seen st'"
    if "candidates_of [i] = []" "ps_session st' = ps_session st" "ps_pending st' = ps_pending st" "ps_remote_described st' = ps_remote_described st"
  proof -
    have "cands_ok (seen @ [i]) st = cands_ok seen st" using that(1) by (simp add: cands_ok_def cands_kept_def)
    then show ?thesis using assms(1) cands_frame [OF that(2-4)] by (auto simp: cands_ok_def split: sum.split)
  qed
  show ?thesis
  proof (cases "pi_arm i")
    case (ArmEnvelope e)
    show ?thesis
    proof (cases e)
      case None
      with ArmEnvelope show ?thesis using assms(2) by (intro other) (auto simp: candidates_of_def map_filter_def select_arm_def)
    next
      case (Some env)
      note arm = assms(2) [unfolded ArmEnvelope Some select_arm_def, simplified]
      have cs: "candidates_of [i] = (case en_msg env of MIceCandidate c \<Rightarrow> [c] | _ \<Rightarrow> [])"
        by (simp add: candidates_of_def map_filter_def ArmEnvelope Some split: Message.split)
      consider (offer) sdp s where "en_msg env = Offer sdp" "sd_sdp sdp = Some s" | (cand) c where "en_msg env = MIceCandidate c"
        | (rest) "\<forall>c. en_msg env \<noteq> MIceCandidate c" "\<forall>sdp. en_msg env = Offer sdp \<longrightarrow> sd_sdp sdp = None" by (metis not_None_eq)
      then show ?thesis
      proof cases
        case offer
        from offer_cands [OF assms(1) offer(2,1) arm] show ?thesis
          by (auto simp: cands_ok_def cands_kept_def cs offer(1) split: sum.splits)
      next
        case cand
        with arm candidate_cands [OF assms(1), of i c fails answer] show ?thesis by (auto simp: on_envelope_def cs)
      next
        case rest
        with arm show ?thesis
          by (intro other) (auto simp: on_envelope_def cs split: Message.splits)
      qed
    qed
  next
    case (ArmEvent e)
    show ?thesis
      by (rule other) (use assms(2) ArmEvent in \<open>auto simp: candidates_of_def map_filter_def select_arm_def on_transport_event_def signal_send_def
          split: option.splits TransportEvent.splits PeerConnectionState.splits if_splits\<close>)
  next
    case ArmSleep
    with assms(2) show ?thesis by (intro other) (auto simp: candidates_of_def map_filter_def select_arm_def split: if_splits)
  qed
qed

lemma pass_cands:
  assumes "cands_ok seen st" "pump_pass (logging fails answer) send_ok sid dl True i st = (r, st')"
  shows "case r of Inr _ \<Rightarrow> cands_ok (seen @ [i]) st' | Inl _ \<Rightarrow> cands_kept seen st'"
proof -
  obtain a st1 where a: "announce send_ok sid st = (a, st1)" by fastforce
  then have f: "ps_session st1 = ps_session st" "ps_pending st1 = ps_pending st" "ps_remote_described st1 = ps_remote_described st"
    by (auto simp: announce_def signal_send_def split: if_splits)
  have kept: "cands_kept seen st" "cands_kept seen st1" "cands_ok seen st1" 
    using assms(1) cands_frame [OF f, of seen] by (auto simp: cands_ok_def f)
  consider e where "r = Inl e" "st' = st \<or> st' = st1"
    | "select_arm (logging fails answer) send_ok sid True (pi_now i) (pi_unopened i 2) (pi_arm i) st1 = (r, st')"
    using assms(2) a
    by (auto simp: pump_pass_def sbind_def channels_late_def past_deadline_def split: sum.splits option.splits if_splits)
  then show ?thesis using kept select_cands [OF kept(3)] by cases auto
qed

lemma pump_cands:
  assumes "cands_ok seen st" "pump (logging fails answer) send_ok sid dl True inputs st = (r, st')"
  shows "\<exists>n \<le> length inputs. cands_kept (seen @ take n inputs) st'"
  using assms
proof (induction inputs arbitrary: seen st)
  case Nil
  then show ?case by (subst (asm) pump_unfold) (auto simp: cands_ok_def split: if_splits)
next
  case (Cons i rest)
  obtain q st1 where q: "pump_pass (logging fails answer) send_ok sid dl True i st = (q, st1)" by fastforce
  note c = pass_cands [OF Cons.prems(1) q]
  consider "st' = st" | e where "q = Inl e" "st' = st1" | u where "q = Inr u" "pump (logging fails answer) send_ok sid dl True rest st1 = (r, st')"
    using Cons.prems(2) q by (subst (asm) pump_unfold) (auto split: if_splits sum.splits)
  then show ?case
  proof cases
    case 1
    with Cons.prems(1) show ?thesis by (intro exI [of _ 0]) (simp add: cands_ok_def)
  next
    case 2
    with c show ?thesis by (intro exI [of _ 0]) simp
  next
    case 3
    with c have "cands_ok (seen @ [i]) st1" by simp
    from Cons.IH [OF this 3(2)] obtain n where "n \<le> length rest" "cands_kept (seen @ [i] @ take n rest) st'" by auto
    then show ?thesis by (intro exI [of _ "Suc n"]) simp
  qed
qed


definition sample_inputs :: "pump_input list" where
  "sample_inputs =
    [\<lparr>pi_now = 1, pi_unopened = (\<lambda>_. []), pi_arm = ArmEnvelope (Some (envelope_new ''1'' 0 None (MIceCandidate
        \<lparr>ic_candidate = ''c'', ic_sdp_mid = None, ic_sdp_mline_index = None, ic_username_fragment = None\<rparr>)))\<rparr>,
     \<lparr>pi_now = 2, pi_unopened = (\<lambda>_. []), pi_arm = ArmEnvelope (Some (envelope_new ''2'' 0 None (Offer (sdp_plain ''o''))))\<rparr>]"


subsection \<open>Where the loop falls short\<close>

text \<open>The last end to get ready does not say so. Readiness is announced at the top of a pass, but the loop ends as soon as the
  connection is up, the channels are open and the peer is ready. If the peer's announcement and the connection came first, the
  event that opens the last channel ends the loop with nothing announced; and an end that receives no announcement never
  succeeds, whatever else it receives.\<close>

theorem last_ready_end_not_announced:
  assumes "ps_connected st" "ps_peer_ready st" "\<not> ps_all_open st" "ps_connected_at st = Some t"
    and "saturating_sub (pi_now i) t < CHANNEL_OPEN_TIMEOUT" "pi_now i < deadline"
    and "pi_arm i = ArmEvent (Some (ChannelOpen ch))" "pi_unopened i 2 = []" "\<forall>j \<in> set inputs. \<not> brings_ready j"
  shows "\<exists>st'. pump W send_ok sid deadline eo (i # rest) st = (Some (Inr (ps_early_frames st)), st') \<and> ps_out st' = ps_out st \<and>
    (\<forall>frames. fst (pump W' send_ok' sid deadline' eo' inputs (pump_new eo' w out)) \<noteq> Some (Inr frames))"
proof -
  have "pump_pass W send_ok sid deadline eo i st = (Inr (), st\<lparr>ps_all_open := True\<rparr>)"
    using assms(3-8)
    by (simp add: pump_pass_def sbind_def channels_late_def announce_def past_deadline_def select_arm_def on_transport_event_def not_le)
  then have "pump W send_ok sid deadline eo (i # rest) st = (Some (Inr (ps_early_frames st)), st\<lparr>ps_all_open := True\<rparr>)"
    using assms(1-3) by (simp add: pump_unfold [of _ _ _ _ _ "i # rest"] pump_unfold [of _ _ _ _ _ rest] pump_done_def)
  moreover have "fst (pump W' send_ok' sid deadline' eo' inputs (pump_new eo' w out)) \<noteq> Some (Inr frames)" for frames
  proof
    assume "fst (pump W' send_ok' sid deadline' eo' inputs (pump_new eo' w out)) = Some (Inr frames)"
    then obtain st' where "pump W' send_ok' sid deadline' eo' inputs (pump_new eo' w out) = (Some (Inr frames), st')" by (metis prod.collapse)
    from pump_success [OF this] assms(9) show False by (auto simp: pump_new_def dest: in_set_takeD)
  qed
  ultimately show ?thesis by simp
qed

text \<open>The controller's loop takes the remote description for set from the start. A candidate that comes before the answer is handed to
  the session at once, refused by it because there is no description yet, and not tried again after the answer.\<close>

theorem controller_loses_early_candidate:
  fixes c :: IceCandidate and s :: string
  assumes "\<And>w. fails w (CallCandidate c) = (if \<exists>s. CallAnswer s \<in> set w then None else Some ''no remote description'')"
    and "\<And>w s. fails w (CallAnswer s) = None" "0 < deadline"
  defines "early \<equiv> \<lparr>pi_now = 0, pi_unopened = (\<lambda>_. []), pi_arm = ArmEnvelope (Some (envelope_new ''1'' 0 None (MIceCandidate c)))\<rparr>"
    and "answered \<equiv> \<lparr>pi_now = 0, pi_unopened = (\<lambda>_. []), pi_arm = ArmEnvelope (Some (envelope_new ''2'' 0 None (Answer (sdp_plain s))))\<rparr>"
  shows "\<exists>st. pump (logging fails a) send_ok sid deadline False [early, answered] (pump_new False [] out) = (None, st) \<and>
    ps_session st = [CallCandidate c, CallAnswer s] \<and> ps_pending st = [] \<and>
    fst (add_remote_candidate (logging fails a) c []) = Inl ''no remote description''"
proof -
  let ?st0 = "pump_new False [] out :: call list pump_state"
  have p1: "pump_pass (logging fails a) send_ok sid deadline False early ?st0 = (Inr (), ?st0\<lparr>ps_session := [CallCandidate c]\<rparr>)"
    using assms(3) by (simp add: early_def pump_pass_def sbind_def channels_late_def announce_def past_deadline_def select_arm_def
        on_envelope_def envelope_new_def pump_new_def apply_candidate_def logging_def not_le)
  have p2: "pump_pass (logging fails a) send_ok sid deadline False answered (?st0\<lparr>ps_session := [CallCandidate c]\<rparr>) =
      (Inr (), ?st0\<lparr>ps_session := [CallCandidate c, CallAnswer s]\<rparr>)"
    using assms(2,3) by (simp add: answered_def pump_pass_def sbind_def channels_late_def announce_def past_deadline_def select_arm_def
        on_envelope_def envelope_new_def pump_new_def sdp_plain_def transport_call_def described_def drain_pending_logging not_le)
      (simp add: logging_def)
  show ?thesis
    using assms(1) by (simp add: pump_unfold [of _ _ _ _ _ "[early, answered]"] pump_unfold [of _ _ _ _ _ "[answered]"]
        pump_unfold [of _ _ _ _ _ "[]"] p1 p2 pump_done_def) (simp add: pump_new_def logging_def)
qed

text \<open>The dial loop takes any envelope's session identifier, and the relay credentials come with one: it ends at once, before the host
  has answered. A refusal then reaches the pump, which passes over it, and negotiation ends in a timeout at the deadline:
  an error that is retried, unlike a refusal.\<close>

theorem refusal_unnoticed:
  assumes "en_sid env = Some sid" "en_msg env = MRelayCredentials creds" "make_offer creds = Inr (offer, session)"
    and "en_msg refusal = MConnectResponse (response_refuse Rejected reason)" "t < deadline" "deadline \<le> t'"
  shows "fst (connect_to_host W make_offer (\<lambda>_. True) target key label deadline [NextEnvelope env]
      [\<lparr>pi_now = t, pi_unopened = u, pi_arm = ArmEnvelope (Some refusal)\<rparr>, \<lparr>pi_now = t', pi_unopened = u', pi_arm = a\<rparr>]) = Some (Inl TimedOut) \<and>
    is_transient TimedOut \<and> \<not> is_transient (Refused Rejected) \<and>
    dial_envelope refusal dial_new = Inl (Refused Rejected)"
proof -
  have dial: "dial_loop [NextEnvelope env] dial_new = (Some (Inr (sid, creds)), [])"
    using assms(1,2) by (simp add: dial_loop.simps dial_new_def dial_envelope_def)
  let ?i = "\<lparr>pi_now = t, pi_unopened = u, pi_arm = ArmEnvelope (Some refusal)\<rparr>" and ?j = "\<lparr>pi_now = t', pi_unopened = u', pi_arm = a\<rparr>"
  have "pump_pass W (\<lambda>_. True) sid deadline False ?i (pump_new False session out) = (Inr (), pump_new False session out)"
    "pump_pass W (\<lambda>_. True) sid deadline False ?j (pump_new False session out) = (Inl TimedOut, pump_new False session out)"
    "\<not> pump_done (pump_new False session out)" for out
    using assms(4-6) by (simp_all add: pump_pass_def sbind_def channels_late_def announce_def past_deadline_def select_arm_def on_envelope_def
        pump_new_def pump_done_def not_le)
  then have "pump W (\<lambda>_. True) sid deadline False [?i, ?j] (pump_new False session out) = (Some (Inl TimedOut), pump_new False session out)" for out
    by (subst pump_unfold, subst pump_unfold) simp
  then show ?thesis
    using assms(3,4) by (auto simp: connect_to_host_def dial mapE_def is_transient_def dial_envelope_def response_refuse_def Let_def
        split: prod.splits option.splits)
qed

text \<open>The pump does not look at the session identifier of an envelope: a \<open>peer_gone\<close> that is left over from an earlier session ends this
  one's negotiation.\<close>

theorem stale_peer_gone_ends_negotiation:
  assumes "en_sid env = Some old" "old \<noteq> sid" "en_msg env = MPeerGone reason" "t < deadline"
  shows "fst (pump W send_ok sid deadline eo [\<lparr>pi_now = t, pi_unopened = u, pi_arm = ArmEnvelope (Some env)\<rparr>] (pump_new eo w out)) = Some (Inl ConnClosed)"
  using assms(3,4)
  by (subst pump_unfold) (simp add: pump_done_def pump_new_def pump_pass_def sbind_def channels_late_def announce_def past_deadline_def
      select_arm_def on_envelope_def not_le)

subsection \<open>Retrying\<close>

definition retried :: "setup_error + 'a \<Rightarrow> bool" where
  "retried r \<longleftrightarrow> (\<exists>e. r = Inl (NegotiationFailed e) \<and> is_transient e)"

text \<open>The result is that of the first attempt that is not a transient failure of negotiation, or of the third.\<close>

theorem retry_result:
  "\<exists>n. 1 \<le> n \<and> n \<le> SETUP_ATTEMPTS \<and> run_with_retry 1 run = run n \<and> (\<forall>k. 1 \<le> k \<and> k < n \<longrightarrow> retried (run k)) \<and>
     (n < SETUP_ATTEMPTS \<longrightarrow> \<not> retried (run n))"
proof -
  have "\<exists>n. a \<le> n \<and> n \<le> SETUP_ATTEMPTS \<and> run_with_retry a run = run n \<and> (\<forall>k. a \<le> k \<and> k < n \<longrightarrow> retried (run k)) \<and>
     (n < SETUP_ATTEMPTS \<longrightarrow> \<not> retried (run n))" if "a \<le> SETUP_ATTEMPTS" for a
    using that
  proof (induction "SETUP_ATTEMPTS - a" arbitrary: a)
    case 0
    then have "a = SETUP_ATTEMPTS" by simp
    then show ?case by (intro exI [of _ a]) (auto simp: run_with_retry.simps [of SETUP_ATTEMPTS] split: sum.split)
  next
    case (Suc d)
    show ?case
    proof (cases "retried (run a)")
      case True
      with Suc have "run_with_retry a run = run_with_retry (Suc a) run"
        by (auto simp: run_with_retry.simps [of a] retried_def)
      moreover have "d = SETUP_ATTEMPTS - Suc a" "Suc a \<le> SETUP_ATTEMPTS" using Suc(2) by simp_all
      from Suc(1) [OF this] obtain n where "Suc a \<le> n" "n \<le> SETUP_ATTEMPTS" "run_with_retry (Suc a) run = run n"
        "\<forall>k. Suc a \<le> k \<and> k < n \<longrightarrow> retried (run k)" "n < SETUP_ATTEMPTS \<longrightarrow> \<not> retried (run n)" by blast
      moreover from this True have "\<forall>k. a \<le> k \<and> k < n \<longrightarrow> retried (run k)" by (metis Suc_leI le_neq_implies_less)
      ultimately show ?thesis by (intro exI [of _ n]) simp
    next
      case False
      with Suc.prems show ?thesis
        by (intro exI [of _ a]) (auto simp: run_with_retry.simps [of a] retried_def split: sum.split setup_error.split)
    qed
  qed
  from this [of 1] show ?thesis by (simp add: SETUP_ATTEMPTS_def)
qed

end
