(* ===== verification/Rda_SignalClient.thy ===== *)
theory Rda_SignalClient
  imports Rda_Server Rda_Utf8
begin

text \<open>
  The signalling client, \<^verbatim>\<open>rda-signal-client\<close>: the identity and the registration exchange of \<^verbatim>\<open>lib.rs\<close>, and the reconnection
  schedule of \<^verbatim>\<open>backoff.rs\<close>. What the socket delivers is a list of WebSocket messages or errors; serialising an envelope is a
  parameter, like parsing one; clock and message identifiers are arguments, the random draw of the backoff a function.

  Shown: what the client sends in reply to a challenge of the server is accepted by the server's own check, under the identifier
  of the client's key, and the client's result is what the server acknowledged, every other reply being its own error; the
  backoff's ceiling is the exact geometric progression cut off at the maximum, with no overflow.
\<close>

subsection \<open>Identity\<close>

record ClientIdentity =
  ci_signing_key :: "u8 list"
  ci_device_id :: DeviceId

definition client_identity_new :: "primitives \<Rightarrow> u8 list \<Rightarrow> ClientIdentity" where
  "client_identity_new P signing_key =
     \<lparr>ci_signing_key = signing_key, ci_device_id = device_id_from_pubkey P (verifying_key P signing_key)\<rparr>"

definition pubkey_b64 :: "primitives \<Rightarrow> ClientIdentity \<Rightarrow> string" where
  "pubkey_b64 P i = b64_encode P (verifying_key P (ci_signing_key i))"

definition client_sign_registration :: "primitives \<Rightarrow> ClientIdentity \<Rightarrow> u8 list \<Rightarrow> Role \<Rightarrow> string" where
  "client_sign_registration P i nonce role =
     b64_encode P (ed_sign P (ci_signing_key i) (register_signing_input nonce (ci_device_id i) role))"

record ClientConfig =
  cc_role :: Role
  cc_caps :: Capabilities
  cc_agent :: "string option"
  cc_pop_rtt :: "(string, u32) btree"

definition client_config_default :: "string \<Rightarrow> ClientConfig" where
  "client_config_default version =
     \<lparr>cc_role = RoleBoth, cc_caps = caps_from_iter [VIDEO_H264, INPUT_HID], cc_agent = Some (''rda/'' @ version), cc_pop_rtt = []\<rparr>"

subsection \<open>Registration\<close>

datatype ClientError =
    WebSocketError string
  | SignalingFailed SignalingError
  | ConnectionClosed
  | NoChallenge
  | BadChallenge
  | RegistrationRefused u16 string

fun client_next_envelope :: "json \<Rightarrow> (string + WsMessage) list \<Rightarrow> (ClientError + Envelope option) \<times> (string + WsMessage) list" where
  "client_next_envelope J [] = (Inr None, [])"
| "client_next_envelope J (Inl e # rest) = (Inl (WebSocketError e), rest)"
| "client_next_envelope J (Inr frame # rest) = (case frame of
       Text t \<Rightarrow> (case envelope_from_slice J t of Inl e \<Rightarrow> Inl (SignalingFailed e) | Inr env \<Rightarrow> Inr (Some env), rest)
     | CloseFrame \<Rightarrow> (Inr None, rest)
     | _ \<Rightarrow> client_next_envelope J rest)"

definition register_message :: "primitives \<Rightarrow> ClientIdentity \<Rightarrow> ClientConfig \<Rightarrow> u8 list \<Rightarrow> Register" where
  "register_message P i config nonce =
     \<lparr>re_device_id = ci_device_id i, re_pubkey = pubkey_b64 P i, re_sig = client_sign_registration P i nonce (cc_role config),
      re_role = cc_role config, re_caps = cc_caps config, re_agent = cc_agent config, re_pop_rtt = cc_pop_rtt config\<rparr>"

definition read_challenge :: "primitives \<Rightarrow> (ClientError + Envelope option) \<Rightarrow> ClientError + u8 list" where
  "read_challenge P r =
     bindE r (\<lambda>e. case e of
         None \<Rightarrow> Inl ConnectionClosed
       | Some env \<Rightarrow> (case en_msg env of MChallenge c \<Rightarrow> ok_or (decode_nonce P (ch_nonce c)) BadChallenge | _ \<Rightarrow> Inl NoChallenge))"

definition read_ack :: "(ClientError + Envelope option) \<Rightarrow> ClientError + DeviceId \<times> u32" where
  "read_ack r =
     bindE r (\<lambda>e. case e of
         None \<Rightarrow> Inl ConnectionClosed
       | Some env \<Rightarrow> (case en_msg env of
             MRegisterAck a \<Rightarrow> Inr (ra_device_id a, ra_heartbeat_interval_s a)
           | MError p \<Rightarrow> Inl (RegistrationRefused (ep_code p) (ep_message p))
           | _ \<Rightarrow> Inl NoChallenge))"

text \<open>Serialised messages go out as text: \<open>String::from_utf8(\<dots>).unwrap_or_default()\<close>.\<close>

definition text_or_default :: "u8 list \<Rightarrow> u8 list" where
  "text_or_default bytes = (case from_utf8 bytes of Some t \<Rightarrow> t | None \<Rightarrow> [])"

text \<open>\<open>connect\<close>, on what the socket delivers: the result, the envelope sent, and what is left for the inbox. \<open>to_vec\<close> is the
  serialisation, \<open>sent\<close> whether the socket took the message.\<close>

definition client_connect ::
  "primitives \<Rightarrow> json \<Rightarrow> (Envelope \<Rightarrow> SignalingError + u8 list) \<Rightarrow> (u8 list \<Rightarrow> string option) \<Rightarrow> ClientIdentity \<Rightarrow> ClientConfig \<Rightarrow> string \<Rightarrow> u64 \<Rightarrow>
   (string + WsMessage) list \<Rightarrow> (ClientError + DeviceId \<times> u32) \<times> u8 list list \<times> (string + WsMessage) list" where
  "client_connect P J to_vec refused i config ident now_ms source =
     (let (first, source) = client_next_envelope J source
      in case read_challenge P first of
           Inl e \<Rightarrow> (Inl e, [], source)
         | Inr nonce \<Rightarrow>
             (case to_vec (envelope_new ident now_ms None (MRegister (register_message P i config nonce))) of
                Inl e \<Rightarrow> (Inl (SignalingFailed e), [], source)
              | Inr bytes \<Rightarrow>
                  (case refused (text_or_default bytes) of
                     Some e \<Rightarrow> (Inl (WebSocketError e), [], source)
                   | None \<Rightarrow>
                       let (ack, source) = client_next_envelope J source in (read_ack ack, [text_or_default bytes], source))))"

text \<open>The two tasks of a live connection: what the writer puts on the socket for the envelopes of the outbox, and what the reader
  puts into the inbox. \<open>refused n\<close> and \<open>dropped n\<close> say whether the socket or the receiver is gone at the \<open>n\<close>-th message.\<close>

fun outbox_task :: "(Envelope \<Rightarrow> SignalingError + u8 list) \<Rightarrow> (nat \<Rightarrow> bool) \<Rightarrow> nat \<Rightarrow> Envelope list \<Rightarrow> u8 list list" where
  "outbox_task to_vec refused n [] = []"
| "outbox_task to_vec refused n (env # rest) = (case to_vec env of
       Inl _ \<Rightarrow> outbox_task to_vec refused n rest
     | Inr bytes \<Rightarrow> (case from_utf8 bytes of
           None \<Rightarrow> outbox_task to_vec refused n rest
         | Some text \<Rightarrow> if refused n then [] else text # outbox_task to_vec refused (Suc n) rest))"

lemma client_next_envelope_shorter:
  "client_next_envelope J source = (Inr (Some env), rest) \<Longrightarrow> length rest < length source"
  by (induction J source rule: client_next_envelope.induct) (auto split: WsMessage.splits sum.splits)

function inbox_task :: "json \<Rightarrow> (nat \<Rightarrow> bool) \<Rightarrow> nat \<Rightarrow> (string + WsMessage) list \<Rightarrow> Envelope list" where
  "inbox_task J dropped n source = (case client_next_envelope J source of
       (Inr (Some env), rest) \<Rightarrow> if dropped n then [] else env # inbox_task J dropped (Suc n) rest
     | _ \<Rightarrow> [])"
  by auto

termination
  by (relation "measure (\<lambda>(_, _, _, source). length source)") (auto dest: client_next_envelope_shorter [OF sym])

declare inbox_task.simps [simp del]

definition connection_send :: "bool \<Rightarrow> string \<Rightarrow> u64 \<Rightarrow> string option \<Rightarrow> Message \<Rightarrow> Envelope list \<Rightarrow> (ClientError + unit) \<times> Envelope list" where
  "connection_send open ident now_ms sid msg outbox =
     (if open then (Inr (), outbox @ [envelope_new ident now_ms sid msg]) else (Inl ConnectionClosed, outbox))"

subsection \<open>Backoff\<close>

record Backoff =
  bo_base_ms :: u64
  bo_max_ms :: u64
  bo_factor :: u32
  bo_attempt :: u32

definition backoff_new :: "u64 \<Rightarrow> u64 \<Rightarrow> u32 \<Rightarrow> Backoff" where
  "backoff_new base_ms max_ms factor = \<lparr>bo_base_ms = base_ms, bo_max_ms = max_ms, bo_factor = max factor 2, bo_attempt = 0\<rparr>"

definition backoff_default :: Backoff where "backoff_default = backoff_new 500 60000 2"

definition saturating_mul :: "u64 \<Rightarrow> u64 \<Rightarrow> u64" where
  "saturating_mul a b = (if unat a * unat b \<ge> 2 ^ 64 then - 1 else a * b)"

definition saturating_pow :: "u64 \<Rightarrow> nat \<Rightarrow> u64" where
  "saturating_pow a n = (if unat a ^ n \<ge> 2 ^ 64 then - 1 else a ^ n)"

definition backoff_ceiling :: "Backoff \<Rightarrow> u64" where
  "backoff_ceiling b = min (saturating_mul (bo_base_ms b) (saturating_pow (ucast (bo_factor b)) (unat (min (bo_attempt b) 32)))) (bo_max_ms b)"

definition saturating_inc :: "u32 \<Rightarrow> u32" where "saturating_inc n = (if n = - 1 then - 1 else n + 1)"

definition jitter_draw :: "(u64 \<Rightarrow> u64) \<Rightarrow> u64 \<Rightarrow> u64" where
  "jitter_draw rand c = (if c = 0 then 0 else rand c)"

definition next_delay :: "(u64 \<Rightarrow> u64) \<Rightarrow> Backoff \<Rightarrow> u64 \<times> Backoff" where
  "next_delay rand b = (let c = backoff_ceiling b; b = b\<lparr>bo_attempt := saturating_inc (bo_attempt b)\<rparr> in (jitter_draw rand c, b))"

definition backoff_reset :: "Backoff \<Rightarrow> Backoff" where "backoff_reset b = b\<lparr>bo_attempt := 0\<rparr>"

subsection \<open>Registration succeeds against the server\<close>

text \<open>What is assumed of the JSON library: it parses what it wrote, and it writes text.\<close>

definition json_sound :: "json \<Rightarrow> (Envelope \<Rightarrow> SignalingError + u8 list) \<Rightarrow> bool" where
  "json_sound J to_vec \<longleftrightarrow> (\<forall>env bytes. to_vec env = Inr bytes \<longrightarrow> J bytes = Inr env \<and> valid_utf8 bytes)"

lemma json_sound_text:
  assumes "json_sound J to_vec" "to_vec env = Inr bytes" "en_v env = SIGNALING_VERSION" "length bytes \<le> MAX_SIGNALING_MESSAGE"
  shows "envelope_from_slice J bytes = Inr env" "from_utf8 bytes = Some bytes" "text_or_default bytes = bytes"
  using assms by (auto simp: json_sound_def envelope_from_slice_def from_utf8_def text_or_default_def)

lemma envelope_new_v [simp]: "en_v (envelope_new ident ts sid msg) = SIGNALING_VERSION" "en_msg (envelope_new ident ts sid msg) = msg"
  by (simp_all add: envelope_new_def)

lemma client_register_fields:
  "re_device_id (register_message P i config nonce) = ci_device_id i"
  "re_pubkey (register_message P i config nonce) = encode_pubkey P (verifying_key P (ci_signing_key i))"
  "re_sig (register_message P i config nonce) = sign_registration P (ci_signing_key i) nonce (ci_device_id i) (cc_role config)"
  "re_role (register_message P i config nonce) = cc_role config"
  by (simp_all add: register_message_def pubkey_b64_def encode_pubkey_def client_sign_registration_def sign_registration_def)

lemma connection_open_state:
  assumes "connection_open E nonce h = (c0, h0)"
  shows "cn_challenge c0 = challenge_issue nonce (sv_now E)" "cn_identity c0 = None" "cn_conn_id c0 = hub_next_conn_id h"
    "cn_limiter c0 = limiter_new (cf_rate_limit (sv_config E)) (cf_rate_window_ms (sv_config E))"
    "hub_peers h0 = hub_peers h" "hub_open h0 (cn_conn_id c0)"
    "hub_queues h0 (cn_conn_id c0) = [envelope_new (sv_ids E 0) (sv_now E) None (MChallenge
       \<lparr>ch_nonce = b64_encode (sv_prim E) nonce, ch_server_time = sv_now E, ch_min_client_version = None\<rparr>)]"
  using assms by (auto simp: connection_open_def next_conn_id_def conn_send_def tx_send_def Let_def nonce_b64_def challenge_issue_def)

lemma limiter_first: "0 < limit \<Longrightarrow> fst (limiter_allow (limiter_new limit window) now)"
  by (simp add: limiter_allow_def limiter_new_def Let_def word_less_nat_alt word_le_nat_alt Suc_le_eq unat_gt_0)

lemma ws_register_accepts:
  assumes "challenge_verify (sv_prim E) reg (sv_now E) (cn_challenge c) = (Inr pubkey, ch)"
    and "hub_open h (cn_conn_id c)" "\<forall>p \<in> snd ` set (hub_peers h). pe_tx p \<noteq> cn_conn_id c"
    and "ws_register E reg reply_to (c, h) = (go, c', h')"
  shows "go" "cn_identity c' = Some (re_device_id reg)"
    "map_option pe_pubkey (map_of (hub_peers h') (re_device_id reg)) = Some pubkey"
    "hub_queues h' (cn_conn_id c) = hub_queues h (cn_conn_id c) @ [envelope_new (sv_ids E 1) (sv_now E) None
       (MRegisterAck \<lparr>ra_device_id = re_device_id reg, ra_heartbeat_interval_s = cf_heartbeat_interval_s (sv_config E),
          ra_session_ttl_s = cf_session_ttl_s (sv_config E)\<rparr>)]"
proof -
  have old: "pe_tx old \<noteq> cn_conn_id c" if "map_of (hub_peers h) (re_device_id reg) = Some old" for old
    using assms(3) that by (force dest: map_of_SomeD)
  show "go" "cn_identity c' = Some (re_device_id reg)" 
    "map_option pe_pubkey (map_of (hub_peers h') (re_device_id reg)) = Some pubkey"
    using assms(4) by (auto simp: ws_register_def assms(1) registry_register_def Let_def conn_send_def update_conv'
        split: option.splits)
  show "hub_queues h' (cn_conn_id c) = hub_queues h (cn_conn_id c) @ [envelope_new (sv_ids E 1) (sv_now E) None
       (MRegisterAck \<lparr>ra_device_id = re_device_id reg, ra_heartbeat_interval_s = cf_heartbeat_interval_s (sv_config E),
          ra_session_ttl_s = cf_session_ttl_s (sv_config E)\<rparr>)]"
    using assms(2,4) old by (auto simp: ws_register_def assms(1) registry_register_def Let_def conn_send_def tx_send_def
        split: option.splits if_splits)
qed

lemma server_accepts_registration:
  assumes "signature_correct (sv_prim E')" "b64_roundtrip (sv_prim E')" "length pk = 32" "valid_key (sv_prim E') pk"
    and "\<And>m. length (ed_sign (sv_prim E') sk m) = 64"
    and id: "i = client_identity_new (sv_prim E') sk" "pk = verifying_key (sv_prim E') sk"
    and opened: "connection_open E nonce h = (c0, h0)" and fresh: "\<forall>p \<in> snd ` set (hub_peers h). pe_tx p \<noteq> hub_next_conn_id h"
    and quota: "0 < cf_rate_limit (sv_config E)" and in_time: "saturating_sub (sv_now E') (sv_now E) \<le> NONCE_TTL_MS"
    and parsed: "envelope_from_slice J bytes = Inr (envelope_new ident now None (MRegister (register_message (sv_prim E') i config nonce)))"
    and frame: "ws_frame E' J (Text bytes) (c0, h0) = (go, c1, h1)"
  shows "go" "cn_identity c1 = Some (ci_device_id i)"
    "map_option pe_pubkey (map_of (hub_peers h1) (ci_device_id i)) = Some pk"
    "hub_queues h1 (cn_conn_id c0) = hub_queues h0 (cn_conn_id c0) @ [envelope_new (sv_ids E' 1) (sv_now E') None
       (MRegisterAck \<lparr>ra_device_id = ci_device_id i, ra_heartbeat_interval_s = cf_heartbeat_interval_s (sv_config E'),
          ra_session_ttl_s = cf_session_ttl_s (sv_config E')\<rparr>)]"
proof -
  note st = connection_open_state [OF opened]
  let ?reg = "register_message (sv_prim E') i config nonce"
  obtain l where l: "limiter_allow (cn_limiter c0) (sv_now E') = (True, l)"
    using limiter_first [OF quota] st(4) by (metis (full_types) prod.collapse)
  have "challenge_verify (sv_prim E') ?reg (sv_now E') (cn_challenge c0) = (Inr (verifying_key (sv_prim E') sk), (cn_challenge c0)\<lparr>cl_spent := True\<rparr>)"
    using assms(1-5) in_time
    by (intro challenge_honest) (simp_all add: st(1) challenge_issue_def client_register_fields id client_identity_new_def)
  moreover have "ws_register E' ?reg (Some ident) (c0\<lparr>cn_limiter := l\<rparr>, h0) = (go, c1, h1)"
    using frame by (simp add: ws_frame_def l parsed ws_handle_def st(2) envelope_new_def Let_def)
  ultimately show "go" "cn_identity c1 = Some (ci_device_id i)"
    "map_option pe_pubkey (map_of (hub_peers h1) (ci_device_id i)) = Some pk"
    "hub_queues h1 (cn_conn_id c0) = hub_queues h0 (cn_conn_id c0) @ [envelope_new (sv_ids E' 1) (sv_now E') None
       (MRegisterAck \<lparr>ra_device_id = ci_device_id i, ra_heartbeat_interval_s = cf_heartbeat_interval_s (sv_config E'),
          ra_session_ttl_s = cf_session_ttl_s (sv_config E')\<rparr>)]"
    using ws_register_accepts [of E' ?reg "c0\<lparr>cn_limiter := l\<rparr>" "verifying_key (sv_prim E') sk" _ h0 "Some ident" go c1 h1] fresh st(3,5,6)
    by (auto simp: client_register_fields id)
qed


definition toy_identity :: ClientIdentity where "toy_identity = client_identity_new toy_primitives toy_key"

definition toy_registration :: Envelope where
  "toy_registration = envelope_new ''m'' 0 None (MRegister (register_message toy_primitives toy_identity (client_config_default ''1'')
     (replicate 16 5)))"

text \<open>A stand-in for the JSON library that knows the three messages of the exchange.\<close>

definition toy_messages :: "Envelope list" where
  "toy_messages =
     [toy_registration,
      envelope_new ''0'' 7 None (MChallenge \<lparr>ch_nonce = b64_encode toy_primitives (replicate 16 5), ch_server_time = 7,
        ch_min_client_version = None\<rparr>),
      envelope_new ''1'' 7 None (MRegisterAck \<lparr>ra_device_id = toy_id, ra_heartbeat_interval_s = cf_heartbeat_interval_s config_default,
        ra_session_ttl_s = cf_session_ttl_s config_default\<rparr>)]"

definition toy_write :: "Envelope \<Rightarrow> SignalingError + u8 list" where
  "toy_write env = (if env = toy_messages ! 0 then Inr [0] else if env = toy_messages ! 1 then Inr [1]
     else if env = toy_messages ! 2 then Inr [2] else Inl (Json ''unknown''))"

definition toy_parse :: json where
  "toy_parse bytes = (if bytes = [0] then Inr (toy_messages ! 0) else if bytes = [1] then Inr (toy_messages ! 1)
     else if bytes = [2] then Inr (toy_messages ! 2) else Inl ''unknown'')"

lemma toy_json_sound: "json_sound toy_parse toy_write"
proof -
  have "valid_utf8 [b]" if "b < 128" for b :: u8
    using that by (simp add: valid_utf8_def utf8_decode.simps [of "[b]"] utf8_step_def utf8_decode.simps [of "[]"]
        utf8_width_def second_ok_def word_less_nat_alt)
  then show ?thesis by (auto simp: json_sound_def toy_parse_def toy_write_def split: if_splits)
qed

lemma toy_messages_nth:
  "toy_messages ! 0 = toy_registration" "toy_write (toy_messages ! 0) = Inr [0]" "toy_write (toy_messages ! 1) = Inr [1]"
  "toy_write (toy_messages ! 2) = Inr [2]"
  by (simp_all add: toy_write_def toy_messages_def toy_registration_def envelope_new_def)


subsection \<open>Backoff\<close>

lemma unat_max: "unat (- 1 :: u64) = 2 ^ 64 - 1"
  by (simp add: unsigned_minus_1_eq_mask mask_eq_exp_minus_1)

lemma unat_saturating_mul: "unat (saturating_mul a b) = min (unat a * unat b) (2 ^ 64 - 1)"
  by (auto simp: saturating_mul_def unat_word_ariths min_def unat_max)

lemma unat_pow: "unat (a :: u64) ^ n < 2 ^ 64 \<Longrightarrow> unat (a ^ n) = unat a ^ n"
proof (induction n)
  case (Suc n)
  show ?case
  proof (cases "a = 0")
    case False
    then have "unat a ^ n \<le> unat a ^ Suc n" by (simp add: Suc_le_eq unat_gt_0)
    from this Suc.prems have "unat a ^ n < 2 ^ 64" by (rule le_less_trans)
    from Suc.IH [OF this] Suc.prems show ?thesis by (simp add: unat_word_ariths)
  qed simp
qed simp

lemma unat_saturating_pow: "unat (saturating_pow a n) = min (unat a ^ n) (2 ^ 64 - 1)"
  by (auto simp: saturating_pow_def min_def unat_pow unat_max)

text \<open>The ceiling of the backoff is exactly the geometric progression cut off at the maximum, whatever the number of attempts: the
  saturating arithmetic never shows, because the maximum is a machine word itself.\<close>

lemma backoff_ceiling_exact:
  "unat (backoff_ceiling b) = min (unat (bo_base_ms b) * unat (bo_factor b) ^ min (unat (bo_attempt b)) 32) (unat (bo_max_ms b))"
proof -
  have "unat (bo_max_ms b) \<le> 2 ^ 64 - 1" using unsigned_less [where ?'a = nat, of "bo_max_ms b"] by simp
  moreover have "unat (min (bo_attempt b) 32) = min (unat (bo_attempt b)) 32"
    by (simp add: min_def word_le_nat_alt)
  moreover have "unat (ucast (bo_factor b) :: u64) = unat (bo_factor b)"
    by (simp add: unsigned_ucast_eq take_bit_nat_eq_self unsigned_less [THEN less_le_trans])
  moreover have "min (m * min n M) M = min (m * n) M" for m n M :: nat
  proof (cases "n \<le> M \<or> m = 0")
    case False
    then have "M \<le> m * M" "M \<le> m * n" by (simp_all add: le_trans [of M n "m * n"])
    with False show ?thesis by (metis min.absorb2 nat_le_linear)
  qed (auto simp: min_def)
  ultimately show ?thesis
    by (simp add: backoff_ceiling_def min_of_mono [where f = unat, symmetric] unat_saturating_mul unat_saturating_pow mono_def word_le_nat_alt)
qed

text \<open>Over a run of failed attempts every delay stays within the ceiling of its attempt and the maximum, whatever the random
  source draws within its range, and the ceilings never decrease.\<close>

fun delays :: "(u64 \<Rightarrow> u64) list \<Rightarrow> Backoff \<Rightarrow> (u64 \<times> u64) list" where
  "delays [] b = []"
| "delays (rand # rs) b = (let (d, b') = next_delay rand b in (d, backoff_ceiling b) # delays rs b')"

lemma backoff_ceiling_mono:
  assumes "bo_base_ms b' = bo_base_ms b" "bo_max_ms b' = bo_max_ms b" "bo_factor b' = bo_factor b" "0 < bo_factor b"
    and "bo_attempt b \<le> bo_attempt b'"
  shows "backoff_ceiling b \<le> backoff_ceiling b'"
proof -
  have "unat (bo_factor b) ^ min (unat (bo_attempt b)) 32 \<le> unat (bo_factor b) ^ min (unat (bo_attempt b')) 32"
    using assms(4,5) by (intro power_increasing) (auto simp: word_le_nat_alt Suc_le_eq unat_gt_0 min_def)
  then show ?thesis
    by (simp add: word_le_nat_alt backoff_ceiling_exact assms(1-3) min.coboundedI1 min_le_iff_disj)
qed

lemma saturating_inc_ge: "n \<le> saturating_inc n"
proof (cases "n = - 1")
  case False
  have "unat (- 1 :: u32) = 2 ^ 32 - 1" by (simp add: unsigned_minus_1_eq_mask mask_eq_exp_minus_1)
  moreover have "unat n \<noteq> unat (- 1 :: u32)" using False by (metis unsigned_word_eqI)
  moreover have "unat n < 2 ^ 32" using unsigned_less [where ?'a = nat, of n] by simp
  ultimately have "unat n + 1 < 2 ^ 32" by linarith
  then show ?thesis by (simp add: saturating_inc_def word_le_nat_alt unat_word_ariths)
qed (simp add: saturating_inc_def)

lemma delays_ceiling_ge:
  "0 < bo_factor b \<Longrightarrow> backoff_ceiling b0 \<le> backoff_ceiling b \<Longrightarrow> list_all (\<lambda>(_, c). backoff_ceiling b0 \<le> c) (delays rs b)"
proof (induction rs arbitrary: b)
  case (Cons rand rs)
  have "backoff_ceiling b \<le> backoff_ceiling (snd (next_delay rand b))"
    using Cons.prems(1) saturating_inc_ge by (intro backoff_ceiling_mono) (simp_all add: next_delay_def Let_def)
  with Cons show ?case by (auto simp: next_delay_def Let_def)
qed simp

theorem backoff_delays_bounded:
  assumes "list_all (\<lambda>rand. \<forall>c. rand c \<le> c) rs" "0 < bo_factor b"
  shows "list_all (\<lambda>(d, c). d \<le> c \<and> c \<le> bo_max_ms b) (delays rs b) \<and> sorted (map snd (delays rs b))"
  using assms
proof (induction rs arbitrary: b)
  case (Cons rand rs)
  let ?b = "snd (next_delay rand b)"
  have b: "bo_factor ?b = bo_factor b" "bo_max_ms ?b = bo_max_ms b" by (simp_all add: next_delay_def Let_def)
  have "backoff_ceiling b \<le> backoff_ceiling ?b"
    using Cons.prems(2) saturating_inc_ge by (intro backoff_ceiling_mono) (simp_all add: next_delay_def Let_def)
  then have "list_all (\<lambda>(_, c). backoff_ceiling b \<le> c) (delays rs ?b)"
    using Cons.prems(2) b(1) by (intro delays_ceiling_ge) simp_all
  moreover have "fst (next_delay rand b) \<le> backoff_ceiling b"
    using Cons.prems(1) by (simp add: next_delay_def jitter_draw_def Let_def)
  moreover have "backoff_ceiling b \<le> bo_max_ms b" by (simp add: backoff_ceiling_def)
  moreover have "list_all (\<lambda>(d, c). d \<le> c \<and> c \<le> bo_max_ms b) (delays rs ?b) \<and> sorted (map snd (delays rs ?b))"
    using Cons.IH [of ?b] Cons.prems b by simp
  ultimately show ?case by (auto simp: case_prod_beta Let_def list_all_iff)
qed simp

end
