(* ===== verification/Rda_FfiClient.thy ===== *)
theory Rda_FfiClient
  imports Rda_InputEncoder Rda_Jitter Rda_Decoder Rda_Telemetry Rda_Encoder Rda_Ids
begin

text \<open>
  The client handle of the C interface, \<^verbatim>\<open>rda-ffi/src/client.rs\<close>, with the error slot of \<^verbatim>\<open>error.rs\<close>. A handle is an optional client,
  \<open>None\<close> for a null pointer; a data or string pointer is an optional byte list; the thread's error slot is an argument and a result
  of each call. The platform's decoder is a parameter, an instance of the decoder interface of \<^verbatim>\<open>Rda_Decoder\<close>, as are the standard
  library's renderings of a character and of a UTF-8 error. A call is \<open>None\<close> only if a loop of the jitter buffer would not return.

  Shown: every call returns; the pixels handed out always cover the geometry reported next to them, so no row of a texture upload
  reads past the buffer; the borrowed frame changes only under a poll that reports a new picture and under \<open>reset\<close>, which the
  interface does not mention (\<open>reset_ends_borrow\<close>); a decoder failure that wants a keyframe is reported exactly once.
\<close>

subsection \<open>The error slot\<close>

record ffi_text =
  char_debug :: "nat \<Rightarrow> string"
  utf8_error :: "u8 list \<Rightarrow> string"

definition sanitise :: "string \<Rightarrow> string" where
  "sanitise text = map (\<lambda>c. if of_char c = (0 :: nat) then CHR ''?'' else c) text"

definition set_last_error :: "string \<Rightarrow> string option" where
  "set_last_error message = Some (sanitise message)"

definition borrow_str :: "ffi_text \<Rightarrow> u8 list option \<Rightarrow> string option \<Rightarrow> rust_str option \<times> string option" where
  "borrow_str T ptr err = (case ptr of
       None \<Rightarrow> (None, set_last_error ''required string argument was null'')
     | Some bytes \<Rightarrow> (case from_utf8 bytes of
           Some s \<Rightarrow> (Some s, err)
         | None \<Rightarrow> (None, set_last_error (''string argument is not valid UTF-8: '' @ utf8_error T bytes))))"

definition video_error_text :: "VideoError \<Rightarrow> string" where
  "video_error_text e = (case e of
       DecoderUnavailable s \<Rightarrow> ''decoder unavailable: '' @ s
     | AwaitingParameterSets \<Rightarrow> ''no parameter sets yet; waiting for a keyframe''
     | MalformedBitstream s \<Rightarrow> ''malformed bitstream: '' @ s
     | DecodeFailed s \<Rightarrow> ''decode failed: '' @ s
     | FormatChanged \<Rightarrow> ''stream format changed; the session must be recreated''
     | DecoderUnsupported \<Rightarrow> ''video decoding is not implemented on this platform'')"

definition id_error_text :: "ffi_text \<Rightarrow> IdError \<Rightarrow> string" where
  "id_error_text T e = (case e of
       BadLength n \<Rightarrow> ''device id must be '' @ decimal DEVICE_ID_LEN @ '' characters, got '' @ decimal n
     | BadCharacter ch \<Rightarrow> ''device id contains invalid character '' @ char_debug T ch
     | KeyMismatch \<Rightarrow> ''device id does not match the supplied public key'')"

subsection \<open>The client\<close>

definition RDA_ERR_DECODE :: int where "RDA_ERR_DECODE = - 4"
definition RDA_ERR_NO_FRAME :: int where "RDA_ERR_NO_FRAME = - 5"

record 'd RdaClient =
  fc_decoder :: 'd
  fc_jitter :: JitterBuffer
  fc_current :: "DecodedFrame option"
  fc_peer :: "DeviceId option"
  fc_telemetry :: LinkTelemetry
  fc_frames_rendered :: u64
  fc_keyframe_requests :: u64

type_synonym ('d, 'a) ffi_call = "'a \<times> string option \<times> 'd RdaClient option"

definition rda_client_new :: "VideoError + 'd \<Rightarrow> string + 'd RdaClient" where
  "rda_client_new hardware = (case hardware of
       Inl e \<Rightarrow> Inl (''no hardware decoder available: '' @ video_error_text e)
     | Inr decoder \<Rightarrow> Inr \<lparr>fc_decoder = decoder, fc_jitter = jitter_buffer_new, fc_current = None, fc_peer = None,
         fc_telemetry = link_telemetry_new, fc_frames_rendered = 0, fc_keyframe_requests = 0\<rparr>)"

definition rda_client_create :: "VideoError + 'd \<Rightarrow> 'd RdaClient option \<times> string option" where
  "rda_client_create hardware = (case rda_client_new hardware of Inr c \<Rightarrow> (Some c, None) | Inl e \<Rightarrow> (None, set_last_error e))"

text \<open>The null check every call begins with.\<close>

definition with_client :: "'a \<Rightarrow> ('d RdaClient \<Rightarrow> ('d, 'a) ffi_call) \<Rightarrow> 'd RdaClient option \<Rightarrow> ('d, 'a) ffi_call" where
  "with_client fallback body handle = (case handle of
       None \<Rightarrow> (fallback, set_last_error ''client handle was null'', None) | Some c \<Rightarrow> body c)"

definition rda_client_set_peer :: "ffi_text \<Rightarrow> u8 list option \<Rightarrow> 'd RdaClient option \<Rightarrow> ('d, int) ffi_call" where
  "rda_client_set_peer T device_id = with_client RDA_ERR_NULL_ARGUMENT (\<lambda>c.
     case borrow_str T device_id None of
       (None, err) \<Rightarrow> (RDA_ERR_NULL_ARGUMENT, err, Some c)
     | (Some s, err) \<Rightarrow> (case device_id_parse (the (utf8_decode s)) of
           Inr i \<Rightarrow> (RDA_OK, err, Some (c\<lparr>fc_peer := Some i\<rparr>))
         | Inl e \<Rightarrow> (RDA_ERR_INVALID_ARGUMENT, set_last_error (''invalid device id: '' @ id_error_text T e), Some c)))"

definition MAX_SUBMIT_LEN :: nat where "MAX_SUBMIT_LEN = 64 * 1024 * 1024"

definition rda_client_submit_frame ::
  "u8 list option \<Rightarrow> u64 \<Rightarrow> bool \<Rightarrow> u8 \<Rightarrow> u64 \<Rightarrow> 'd RdaClient option \<Rightarrow> ('d, int) ffi_call option" where
  "rda_client_submit_frame data pts_us is_keyframe layer now_ms handle = (case handle of
       None \<Rightarrow> Some (RDA_ERR_NULL_ARGUMENT, set_last_error ''client handle was null'', None)
     | Some c \<Rightarrow> (case data of
           None \<Rightarrow> Some (RDA_ERR_NULL_ARGUMENT, set_last_error ''frame data was null or empty'', Some c)
         | Some bytes \<Rightarrow>
             if bytes = [] then Some (RDA_ERR_NULL_ARGUMENT, set_last_error ''frame data was null or empty'', Some c)
             else if length bytes > MAX_SUBMIT_LEN
             then Some (RDA_ERR_INVALID_ARGUMENT,
                    set_last_error (''frame of '' @ decimal (length bytes) @ '' bytes is implausibly large''), Some c)
             else let frame = \<lparr>ef_data = bytes, ef_kind = (if is_keyframe then Keyframe else Delta), ef_pts_us = pts_us,
                                ef_sequence = 0, ef_temporal_layer = layer, ef_ltr_index = None, ef_qp = None\<rparr>
                  in map_option (\<lambda>(_, b). (RDA_OK, None, Some (c\<lparr>fc_jitter := b\<rparr>))) (push frame now_ms (fc_jitter c))))"

definition bump_frames :: "(FrameStats \<Rightarrow> FrameStats) \<Rightarrow> 'd RdaClient \<Rightarrow> 'd RdaClient" where
  "bump_frames f c = c\<lparr>fc_telemetry := (fc_telemetry c)\<lparr>lt_frames := f (lt_frames (fc_telemetry c))\<rparr>\<rparr>"

text \<open>The second half of \<open>rda_client_poll_frame\<close>: decoding the frame that is due. \<open>pop\<close> takes the last picture.\<close>

definition decode_due :: "'d VideoDecoder \<Rightarrow> EncodedFrame \<Rightarrow> 'd RdaClient \<Rightarrow> ('d, int) ffi_call" where
  "decode_due dec frame c = (case vd_decode dec (ef_data frame) (ef_pts_us frame) (is_random_access_point (ef_kind frame)) (fc_decoder c) of
       (Inr decoded, d) \<Rightarrow>
         (let c = c\<lparr>fc_decoder := d\<rparr>
          in if decoded = [] then (RDA_ERR_NO_FRAME, None, Some c)
             else (RDA_OK, None, Some (bump_frames (\<lambda>f. f\<lparr>fs_decoded := fs_decoded f + 1\<rparr>)
                    (c\<lparr>fc_current := Some (last decoded), fc_frames_rendered := fc_frames_rendered c + 1\<rparr>))))
     | (Inl e, d) \<Rightarrow>
         (let c = bump_frames (\<lambda>f. f\<lparr>fs_dropped := fs_dropped f + 1\<rparr>) (c\<lparr>fc_decoder := d\<rparr>);
              c = (if wants_keyframe e then c\<lparr>fc_keyframe_requests := fc_keyframe_requests c + 1\<rparr> else c)
          in (RDA_ERR_DECODE, set_last_error (''decode failed: '' @ video_error_text e), Some c)))"

definition rda_client_poll_frame :: "'d VideoDecoder \<Rightarrow> u64 \<Rightarrow> 'd RdaClient option \<Rightarrow> ('d, int) ffi_call option" where
  "rda_client_poll_frame dec now_ms handle = (case handle of
       None \<Rightarrow> Some (RDA_ERR_NULL_ARGUMENT, set_last_error ''client handle was null'', None)
     | Some c \<Rightarrow> map_option (\<lambda>(decision, b). case decision of
           Play frame \<Rightarrow> decode_due dec frame (c\<lparr>fc_jitter := b\<rparr>)
         | _ \<Rightarrow> (RDA_ERR_NO_FRAME, None, Some (c\<lparr>fc_jitter := b\<rparr>))) (poll now_ms (fc_jitter c)))"

text \<open>The calls below do not clear the error slot.\<close>

definition rda_client_take_keyframe_request :: "string option \<Rightarrow> 'd RdaClient option \<Rightarrow> ('d, bool) ffi_call" where
  "rda_client_take_keyframe_request err =
     with_client False (\<lambda>c. (fc_keyframe_requests c > 0, err, Some (c\<lparr>fc_keyframe_requests := 0\<rparr>)))"

definition of_current :: "'a \<Rightarrow> (DecodedFrame \<Rightarrow> 'a) \<Rightarrow> string option \<Rightarrow> 'd RdaClient option \<Rightarrow> ('d, 'a) ffi_call" where
  "of_current fallback get err =
     with_client fallback (\<lambda>c. (case fc_current c of None \<Rightarrow> fallback | Some f \<Rightarrow> get f, err, Some c))"

definition rda_client_frame_width :: "string option \<Rightarrow> 'd RdaClient option \<Rightarrow> ('d, u32) ffi_call" where
  "rda_client_frame_width = of_current 0 df_width"

definition rda_client_frame_height :: "string option \<Rightarrow> 'd RdaClient option \<Rightarrow> ('d, u32) ffi_call" where
  "rda_client_frame_height = of_current 0 df_height"

definition rda_client_frame_stride :: "string option \<Rightarrow> 'd RdaClient option \<Rightarrow> ('d, nat) ffi_call" where
  "rda_client_frame_stride = of_current 0 df_stride"

definition rda_client_frame_len :: "string option \<Rightarrow> 'd RdaClient option \<Rightarrow> ('d, nat) ffi_call" where
  "rda_client_frame_len = of_current 0 (\<lambda>f. length (df_data f))"

definition rda_client_frame_data :: "string option \<Rightarrow> 'd RdaClient option \<Rightarrow> ('d, u8 list option) ffi_call" where
  "rda_client_frame_data err = with_client None (\<lambda>c. case fc_current c of
       Some frame \<Rightarrow> if is_consistent frame then (Some (df_data frame), err, Some c)
                     else (None, set_last_error ''current frame failed its geometry check'', Some c)
     | None \<Rightarrow> (None, err, Some c))"

record RdaTelemetry =
  rt_rtt_ms :: u32
  rt_loss_permille :: u16
  rt_playout_delay_ms :: u32
  rt_bwe_bps :: u32
  rt_frames_rendered :: u64
  rt_frames_dropped :: u64
  rt_relayed :: bool

definition telemetry_snapshot :: "'d RdaClient \<Rightarrow> RdaTelemetry" where
  "telemetry_snapshot c =
     \<lparr>rt_rtt_ms = (case rtt_smoothed_ms (lt_rtt (fc_telemetry c)) of None \<Rightarrow> 0 | Some r \<Rightarrow> r),
      rt_loss_permille = permille (lt_loss (fc_telemetry c)),
      rt_playout_delay_ms = jb_target_ms (fc_jitter c), rt_bwe_bps = lt_bwe_bps (fc_telemetry c),
      rt_frames_rendered = fc_frames_rendered c,
      rt_frames_dropped = js_dropped_late (jb_stats (fc_jitter c)) + js_dropped_overflow (jb_stats (fc_jitter c)),
      rt_relayed = lt_relayed (fc_telemetry c)\<rparr>"

text \<open>The status and what is written to the output, if anything.\<close>

definition rda_client_telemetry :: "bool \<Rightarrow> 'd RdaClient option \<Rightarrow> ('d, int \<times> RdaTelemetry option) ffi_call" where
  "rda_client_telemetry out_null = with_client (RDA_ERR_NULL_ARGUMENT, None) (\<lambda>c.
     if out_null then ((RDA_ERR_NULL_ARGUMENT, None), set_last_error ''telemetry output pointer was null'', Some c)
     else ((RDA_OK, Some (telemetry_snapshot c)), None, Some c))"

definition rda_client_update_link ::
  "u32 \<Rightarrow> u16 \<Rightarrow> u32 \<Rightarrow> bool \<Rightarrow> u64 \<Rightarrow> 'd RdaClient option \<Rightarrow> ('d, int) ffi_call" where
  "rda_client_update_link rtt_ms loss_permille bwe_bps relayed now_ms = with_client RDA_ERR_NULL_ARGUMENT (\<lambda>c.
     if loss_permille > 1000
     then (RDA_ERR_INVALID_ARGUMENT, set_last_error ''loss must be expressed in parts per thousand'', Some c)
     else let t = fc_telemetry c;
              t = (if rtt_ms > 0 then t\<lparr>lt_rtt := rtt_sample rtt_ms now_ms (lt_rtt t)\<rparr> else t);
              t = t\<lparr>lt_loss := loss_sample (1000 - ucast loss_permille) (ucast loss_permille) now_ms (lt_loss t),
                    lt_bwe_bps := bwe_bps, lt_relayed := relayed\<rparr>
          in (RDA_OK, None, Some (c\<lparr>fc_telemetry := t\<rparr>)))"

definition rda_client_reset :: "'d VideoDecoder \<Rightarrow> 'd RdaClient option \<Rightarrow> ('d, int) ffi_call" where
  "rda_client_reset dec = with_client RDA_ERR_NULL_ARGUMENT (\<lambda>c.
     (RDA_OK, None, Some (c\<lparr>fc_decoder := vd_reset dec (fc_decoder c), fc_jitter := jitter_reset (fc_jitter c), fc_current := None,
        fc_keyframe_requests := fc_keyframe_requests c + 1\<rparr>)))"

subsection \<open>What the interface promises\<close>

lemmas status_codes = status_defs RDA_ERR_DECODE_def RDA_ERR_NO_FRAME_def

lemma push_returns: "\<exists>accepted b'. push frame now b = Some (accepted, b')"
  by (cases "superseded frame b") (auto elim!: push_superseded [where now = now] push_queued [where now = now])

lemma poll_returns: "\<exists>decision b'. poll now b = Some (decision, b')"
  by (cases rule: poll_cases [of now b]) auto

text \<open>The calls that change a client, and one call of a caller on a live handle: its status and the client after it.\<close>

datatype ffi_op =
    SetPeer "u8 list option"
  | SubmitFrame "u8 list option" u64 bool u8 u64
  | PollFrame u64
  | TakeKeyframeRequest
  | UpdateLink u32 u16 u32 bool u64
  | Reset

fun ffi_perform :: "ffi_text \<Rightarrow> 'd VideoDecoder \<Rightarrow> ffi_op \<Rightarrow> 'd RdaClient \<Rightarrow> (int \<times> string option \<times> 'd RdaClient option) option" where
  "ffi_perform T dec (SetPeer s) c = Some (rda_client_set_peer T s (Some c))"
| "ffi_perform T dec (SubmitFrame data p kf layer now) c = rda_client_submit_frame data p kf layer now (Some c)"
| "ffi_perform T dec (PollFrame now) c = rda_client_poll_frame dec now (Some c)"
| "ffi_perform T dec TakeKeyframeRequest c = Some (let (w, err, h) = rda_client_take_keyframe_request None (Some c) in (of_bool w, err, h))"
| "ffi_perform T dec (UpdateLink rtt loss bwe rel now) c = Some (rda_client_update_link rtt loss bwe rel now (Some c))"
| "ffi_perform T dec Reset c = Some (rda_client_reset dec (Some c))"

lemma decode_due_handle: "\<exists>st err c'. decode_due dec frame c = (st, err, Some c')"
  by (simp add: decode_due_def Let_def split: prod.splits sum.splits)

lemma ffi_perform_returns: "\<exists>st err c'. ffi_perform T dec op c = Some (st, err, Some c')"
proof (cases op)
  case (SubmitFrame data p kf layer now)
  then show ?thesis using push_returns by (fastforce simp: rda_client_submit_frame_def Let_def split: option.splits)
next
  case (PollFrame now)
  obtain decision b' where "poll now (fc_jitter c) = Some (decision, b')" using poll_returns by blast
  with PollFrame show ?thesis using decode_due_handle
    by (cases decision) (auto simp: rda_client_poll_frame_def)
qed (auto simp: rda_client_set_peer_def with_client_def rda_client_take_keyframe_request_def rda_client_update_link_def
    rda_client_reset_def Let_def split: prod.splits option.splits sum.splits)

lemma bump_frames_simps [simp]:
  "fc_current (bump_frames f c) = fc_current c" "fc_keyframe_requests (bump_frames f c) = fc_keyframe_requests c"
  "fc_frames_rendered (bump_frames f c) = fc_frames_rendered c"
  by (simp_all add: bump_frames_def)

lemma decode_due_current:
  assumes "decode_due dec frame c = (st, err, Some c')"
  shows "if st = RDA_OK then fc_frames_rendered c' = fc_frames_rendered c + 1 \<and> fc_current c' \<noteq> None
    else fc_frames_rendered c' = fc_frames_rendered c \<and> fc_current c' = fc_current c"
  using assms by (auto simp: decode_due_def Let_def status_codes split: prod.splits sum.splits if_splits)

lemma poll_frame_current:
  assumes "rda_client_poll_frame dec now (Some c) = Some (st, err, Some c')"
  shows "if st = RDA_OK then fc_frames_rendered c' = fc_frames_rendered c + 1 \<and> fc_current c' \<noteq> None
    else fc_frames_rendered c' = fc_frames_rendered c \<and> fc_current c' = fc_current c"
proof -
  obtain decision b where p: "poll now (fc_jitter c) = Some (decision, b)" using poll_returns by blast
  show ?thesis
  proof (cases decision)
    case (Play frame)
    with assms p have "decode_due dec frame (c\<lparr>fc_jitter := b\<rparr>) = (st, err, Some c')" by (simp add: rda_client_poll_frame_def)
    from decode_due_current [OF this] show ?thesis by simp
  qed (use assms p in \<open>auto simp: rda_client_poll_frame_def status_codes\<close>)
qed

text \<open>Every call on a live handle returns, and the frame lent to the caller stays put: it changes only under a poll that reports a new
  picture, which is then counted as rendered, and under a reset, which takes it away. A poll that finds nothing due, gets no
  picture or fails to decode leaves the last picture on show.\<close>

theorem borrowed_frame_stable:
  "\<exists>st err c'. ffi_perform T dec op c = Some (st, err, Some c') \<and>
     (case op of
        PollFrame _ \<Rightarrow> if st = RDA_OK then fc_frames_rendered c' = fc_frames_rendered c + 1 \<and> fc_current c' \<noteq> None
                        else fc_frames_rendered c' = fc_frames_rendered c \<and> fc_current c' = fc_current c
      | Reset \<Rightarrow> fc_current c' = None
      | _ \<Rightarrow> fc_current c' = fc_current c)"
proof -
  obtain st err c' where r: "ffi_perform T dec op c = Some (st, err, Some c')" using ffi_perform_returns by blast
  moreover have "case op of
        PollFrame _ \<Rightarrow> if st = RDA_OK then fc_frames_rendered c' = fc_frames_rendered c + 1 \<and> fc_current c' \<noteq> None
                        else fc_frames_rendered c' = fc_frames_rendered c \<and> fc_current c' = fc_current c
      | Reset \<Rightarrow> fc_current c' = None
      | _ \<Rightarrow> fc_current c' = fc_current c"
    using r poll_frame_current [of dec _ c st err c']
    by (cases op) (auto simp: rda_client_set_peer_def with_client_def rda_client_take_keyframe_request_def rda_client_update_link_def
      rda_client_reset_def rda_client_submit_frame_def Let_def split: prod.splits option.splits sum.splits if_splits)
  ultimately show ?thesis by blast
qed

text \<open>The buffer handed out covers the geometry reported beside it: whatever the decoder delivered, every byte of every row lies
  inside, so an upload of \<open>height\<close> rows of \<open>width\<close> pixels at \<open>stride\<close> never reads past the end.\<close>

theorem frame_data_covers_geometry:
  assumes "fst (rda_client_frame_data err (Some c)) = Some px"
    and "y < unat (fst (rda_client_frame_height err (Some c)))" "x < 4 * unat (fst (rda_client_frame_width err (Some c)))"
  shows "y * fst (rda_client_frame_stride err (Some c)) + x < length px \<and> length px = fst (rda_client_frame_len err (Some c))"
proof -
  obtain f where f: "fc_current c = Some f" "is_consistent f" "px = df_data f"
    using assms(1) by (auto simp: rda_client_frame_data_def with_client_def split: option.splits if_splits)
  have y: "Suc y \<le> unat (df_height f)" and x: "x < df_stride f" using assms(2,3) f(1,2)
    by (auto simp: rda_client_frame_height_def rda_client_frame_width_def of_current_def with_client_def is_consistent_def)
  have "y * df_stride f + x < Suc y * df_stride f" using x by simp
  also have "\<dots> \<le> unat (df_height f) * df_stride f" using y by (rule mult_le_mono1)
  also have "\<dots> \<le> length (df_data f)" using f(2) by (simp add: is_consistent_def mult.commute)
  finally show ?thesis
    using f by (simp add: rda_client_frame_stride_def rda_client_frame_len_def of_current_def with_client_def)
qed

definition one_pixel :: DecodedFrame where
  "one_pixel = \<lparr>df_data = [1, 2, 3, 255], df_width = 1, df_height = 1, df_stride = 4, df_pts_us = 0, df_sequence = 1\<rparr>"

definition shown_client :: "unit RdaClient" where
  "shown_client = \<lparr>fc_decoder = (), fc_jitter = jitter_buffer_new, fc_current = Some one_pixel, fc_peer = None,
     fc_telemetry = link_telemetry_new, fc_frames_rendered = 1, fc_keyframe_requests = 0\<rparr>"

theorem frame_data_covers_geometry_witness:
  "fst (rda_client_frame_data None (Some shown_client)) = Some [1, 2, 3, 255] \<and>
   0 * fst (rda_client_frame_stride None (Some shown_client)) + 3 < length [1, 2, 3, 255 :: u8]"
proof -
  have e: "fst (rda_client_frame_data None (Some shown_client)) = Some [1, 2, 3, 255]"
    "0 < unat (fst (rda_client_frame_height None (Some shown_client)))" "3 < 4 * unat (fst (rda_client_frame_width None (Some shown_client)))"
    by (simp_all add: rda_client_frame_data_def rda_client_frame_height_def rda_client_frame_width_def of_current_def with_client_def
        shown_client_def one_pixel_def is_consistent_def)
  from frame_data_covers_geometry [OF e] e(1) show ?thesis by simp
qed

text \<open>A keyframe is asked for once per failure that needs one: after a poll that failed so, the next reading of the flag says yes
  and the one after it no, unless the request counter has wrapped.\<close>

theorem keyframe_request_once:
  assumes "vd_decode dec (ef_data frame) (ef_pts_us frame) (is_random_access_point (ef_kind frame)) (fc_decoder c) = (Inl e, d)"
    and "wants_keyframe e" "fc_keyframe_requests c < - 1"
    and "decode_due dec frame c = (st, err, Some c')"
  shows "st = RDA_ERR_DECODE \<and> fc_current c' = fc_current c \<and>
    (\<exists>c''. rda_client_take_keyframe_request err (Some c') = (True, err, Some c'') \<and>
       fst (rda_client_take_keyframe_request err (Some c'')) = False)"
proof -
  have "0 < fc_keyframe_requests c + 1"
    using assms(3) by (auto simp: word_gt_0 eq_neg_iff_add_eq_0 [symmetric])
  with assms show ?thesis
    by (auto simp: decode_due_def rda_client_take_keyframe_request_def with_client_def Let_def)
qed

text \<open>A reset frees the frame the caller may still hold: the interface says only the next poll ends the borrow.\<close>

theorem reset_ends_borrow:
  "rda_client_reset dec (Some c) = (st, err, Some c') \<Longrightarrow> st = RDA_OK \<and> fst (rda_client_frame_data err (Some c')) = None"
  by (auto simp: rda_client_reset_def with_client_def rda_client_frame_data_def)

end
