(* ===== verification/Rda_Keystore.thy ===== *)
theory Rda_Keystore
  imports Rda_Identity Rda_Utf8
begin

unbundle bit_operations_syntax

text \<open>
  The identity file of \<^verbatim>\<open>rda-crypto/src/keystore.rs\<close>. The file system is a map from paths to permission bits and bytes; which calls
  fail, and how much of a line a failing write leaves behind, is an argument, as are the umask, the platform and the
  environment variables. The standard base64 engine is a parameter. The \<open>Keystore\<close> trait is a locale over its two required
  methods, with the provided method \<open>load_or_create\<close> defined once; the file and the in-memory implementations interpret it.

  Shown: an identity created on the first run is the one every later run gets, and its file is private; a file others can read is
  never loaded; a store that fails half-way never leaves a file that loads as some other identity. Storing over a file that others
  can already read keeps its permissions (\<open>store_keeps_wide_mode\<close>).
\<close>

subsection \<open>Files\<close>

record standard_b64 =
  std_encode :: "u8 list \<Rightarrow> string"
  std_decode :: "nat list \<Rightarrow> u8 list option"

datatype io_error = NotFound | InvalidData | IoOther string

record stored_file =
  fl_mode :: u32
  fl_content :: "u8 list"

type_synonym filesystem = "string \<Rightarrow> stored_file option"

text \<open>Which calls fail: a write that fails has written a number of bytes before.\<close>

record faults =
  fa_read :: "io_error option"
  fa_metadata :: "io_error option"
  fa_create_dir :: "io_error option"
  fa_open :: "io_error option"
  fa_write :: "nat \<Rightarrow> (nat \<times> io_error) option"
  fa_flush :: "io_error option"

record platform =
  pf_unix :: bool
  pf_umask :: u32

definition no_faults :: faults where
  "no_faults = \<lparr>fa_read = None, fa_metadata = None, fa_create_dir = None, fa_open = None, fa_write = (\<lambda>_. None), fa_flush = None\<rparr>"

definition read_to_string :: "faults \<Rightarrow> string \<Rightarrow> filesystem \<Rightarrow> io_error + nat list" where
  "read_to_string fa path fs = (case fa_read fa of
       Some e \<Rightarrow> Inl e
     | None \<Rightarrow> (case fs path of
           None \<Rightarrow> Inl NotFound
         | Some f \<Rightarrow> (case utf8_decode (fl_content f) of None \<Rightarrow> Inl InvalidData | Some cs \<Rightarrow> Inr cs)))"

text \<open>\<open>str::lines\<close>: split after every line feed, then drop the line feed and a carriage return before it.\<close>

definition strip_return :: "nat list \<Rightarrow> nat list" where
  "strip_return l = (if l \<noteq> [] \<and> last l = 13 then butlast l else l)"

function str_lines :: "nat list \<Rightarrow> nat list list" where
  "str_lines cs =
     (if cs = [] then []
      else let l = takeWhile (\<lambda>c. c \<noteq> 10) cs
           in if length l = length cs then [l] else strip_return l # str_lines (drop (Suc (length l)) cs))"
  by auto

termination by (relation "measure length") (auto simp: Let_def)

declare str_lines.simps [simp del]

text \<open>\<open>char::is_whitespace\<close> and \<open>str::trim\<close>.\<close>

definition is_whitespace :: "nat \<Rightarrow> bool" where
  "is_whitespace c \<longleftrightarrow> (9 \<le> c \<and> c \<le> 13) \<or> c \<in> {0x20, 0x85, 0xA0, 0x1680, 0x2028, 0x2029, 0x202F, 0x205F, 0x3000} \<or>
     (0x2000 \<le> c \<and> c \<le> 0x200A)"

definition str_trim :: "nat list \<Rightarrow> nat list" where
  "str_trim s = rev (dropWhile is_whitespace (rev (dropWhile is_whitespace s)))"

subsection \<open>The file keystore\<close>

definition MAGIC :: string where "MAGIC = ''rda-identity-v1''"

datatype KeystoreError =
    KsIo string io_error
  | BadFormat string
  | BadKey string IdentityError
  | Permissions string u32
  | NoConfigDir

datatype os = Linux | MacOs | WindowsOs

definition path_join :: "string \<Rightarrow> string \<Rightarrow> string" where
  "path_join a b =
     (if b \<noteq> [] \<and> hd b = CHR ''/'' then b else if a = [] \<or> last a = CHR ''/'' then a @ b else a @ ''/'' @ b)"

definition default_path :: "os \<Rightarrow> (string \<Rightarrow> string option) \<Rightarrow> string \<Rightarrow> KeystoreError + string" where
  "default_path os env agent =
     (let base = (case os of
            WindowsOs \<Rightarrow> env ''APPDATA''
          | MacOs \<Rightarrow> map_option (\<lambda>h. path_join (path_join h ''Library'') ''Application Support'') (env ''HOME'')
          | Linux \<Rightarrow> (case env ''XDG_CONFIG_HOME'' of
                Some b \<Rightarrow> Some b
              | None \<Rightarrow> map_option (\<lambda>h. path_join h ''.config'') (env ''HOME'')))
      in bindE (ok_or base NoConfigDir) (\<lambda>b. Inr (path_join (path_join b ''rda'') (agent @ ''.key''))))"

definition check_permissions :: "platform \<Rightarrow> faults \<Rightarrow> string \<Rightarrow> filesystem \<Rightarrow> KeystoreError + unit" where
  "check_permissions pf fa path fs =
     (if \<not> pf_unix pf then Inr ()
      else case fa_metadata fa of
          Some e \<Rightarrow> Inl (KsIo path e)
        | None \<Rightarrow> (case fs path of
              None \<Rightarrow> Inl (KsIo path NotFound)
            | Some f \<Rightarrow> let mode = fl_mode f AND 0x1FF
                        in if mode AND 0x3F \<noteq> 0 then Inl (Permissions path mode) else Inr ()))"

text \<open>Opening truncates a file that is there and keeps its permissions; the mode of the call applies to a new file.\<close>

definition create_private :: "platform \<Rightarrow> faults \<Rightarrow> string \<Rightarrow> filesystem \<Rightarrow> (KeystoreError + unit) \<times> filesystem" where
  "create_private pf fa path fs = (case fa_open fa of
       Some e \<Rightarrow> (Inl (KsIo path e), fs)
     | None \<Rightarrow>
         (Inr (), fs(path \<mapsto> (case fs path of
              Some f \<Rightarrow> f\<lparr>fl_content := []\<rparr>
            | None \<Rightarrow> \<lparr>fl_mode = (if pf_unix pf then 0x180 else 0x1B6) AND NOT (pf_umask pf), fl_content = []\<rparr>))))"

definition append_to :: "string \<Rightarrow> u8 list \<Rightarrow> filesystem \<Rightarrow> filesystem" where
  "append_to path bytes fs = (case fs path of None \<Rightarrow> fs | Some f \<Rightarrow> fs(path \<mapsto> f\<lparr>fl_content := fl_content f @ bytes\<rparr>))"

definition write_line :: "faults \<Rightarrow> string \<Rightarrow> nat \<Rightarrow> u8 list \<Rightarrow> filesystem \<Rightarrow> (KeystoreError + unit) \<times> filesystem" where
  "write_line fa path n line fs = (case fa_write fa n of
       Some (k, e) \<Rightarrow> (Inl (KsIo path e), append_to path (take k (line @ [10])) fs)
     | None \<Rightarrow> (Inr (), append_to path (line @ [10]) fs))"

text \<open>The three lines: the dash of the comment is U+2014.\<close>

definition comment_line :: "Identity \<Rightarrow> u8 list" where
  "comment_line i = ascii (''# device id '' @ grouped (id_device_id i) @ '' '') @ [0xE2, 0x80, 0x94] @
     ascii '' this is a private key, treat it like ~/.ssh/id_ed25519''"

definition has_parent :: "string \<Rightarrow> bool" where
  "has_parent path \<longleftrightarrow> list_ex (\<lambda>c. c \<noteq> CHR ''/'') path"

definition file_store ::
  "standard_b64 \<Rightarrow> platform \<Rightarrow> faults \<Rightarrow> string \<Rightarrow> Identity \<Rightarrow> (filesystem, KeystoreError, unit) st" where
  "file_store B pf fa path i =
     sbind (\<lambda>fs. (if has_parent path then (case fa_create_dir fa of Some e \<Rightarrow> Inl (KsIo path e) | None \<Rightarrow> Inr ()) else Inr (), fs)) (\<lambda>_.
     sbind (create_private pf fa path) (\<lambda>_.
     sbind (write_line fa path 0 (ascii MAGIC)) (\<lambda>_.
     sbind (write_line fa path 1 (ascii (std_encode B (secret_bytes_for_keystore i)))) (\<lambda>_.
     sbind (write_line fa path 2 (comment_line i)) (\<lambda>_ fs.
       (case fa_flush fa of Some e \<Rightarrow> Inl (KsIo path e) | None \<Rightarrow> Inr (), fs))))))"

definition parse_identity_file :: "primitives \<Rightarrow> standard_b64 \<Rightarrow> string \<Rightarrow> nat list \<Rightarrow> KeystoreError + Identity" where
  "parse_identity_file P B path contents = (case str_lines contents of
       [] \<Rightarrow> Inl (BadFormat path)
     | first # rest \<Rightarrow>
         if str_trim first \<noteq> code_points MAGIC then Inl (BadFormat path)
         else (case rest of
             [] \<Rightarrow> Inl (BadFormat path)
           | second # _ \<Rightarrow>
               bindE (ok_or (std_decode B (str_trim second)) (BadFormat path)) (\<lambda>bytes.
                 (case from_secret_bytes P bytes of Inl e \<Rightarrow> Inl (BadKey path e) | Inr i \<Rightarrow> Inr i))))"

definition file_load ::
  "primitives \<Rightarrow> standard_b64 \<Rightarrow> platform \<Rightarrow> faults \<Rightarrow> string \<Rightarrow> filesystem \<Rightarrow> KeystoreError + Identity option" where
  "file_load P B pf fa path fs = (case read_to_string fa path fs of
       Inl NotFound \<Rightarrow> Inr None
     | Inl e \<Rightarrow> Inl (KsIo path e)
     | Inr contents \<Rightarrow>
         bindE (check_permissions pf fa path fs) (\<lambda>_. bindE (parse_identity_file P B path contents) (\<lambda>i. Inr (Some i))))"

definition ephemeral_load :: "'s \<Rightarrow> KeystoreError + Identity option" where "ephemeral_load s = Inr None"

definition ephemeral_store :: "Identity \<Rightarrow> ('s, KeystoreError, unit) st" where "ephemeral_store i s = (Inr (), s)"

text \<open>The provided method of the trait; \<open>rnd\<close> is what the generator returns.\<close>

definition load_or_create ::
  "primitives \<Rightarrow> ('s \<Rightarrow> KeystoreError + Identity option) \<Rightarrow> (Identity \<Rightarrow> ('s, KeystoreError, unit) st) \<Rightarrow> u8 list \<Rightarrow> ('s, KeystoreError, Identity) st" where
  "load_or_create P load store rnd s = (case load s of
       Inl e \<Rightarrow> (Inl e, s)
     | Inr (Some i) \<Rightarrow> (Inr i, s)
     | Inr None \<Rightarrow> (let i = identity_generate P rnd in case store i s of (Inl e, s) \<Rightarrow> (Inl e, s) | (Inr _, s) \<Rightarrow> (Inr i, s)))"

subsection \<open>The trait\<close>

text \<open>What every keystore owes: an identity it loads is one whose identifier belongs to its key. What \<open>load_or_create\<close> then promises
  is proved once.\<close>

locale keystore =
  fixes P :: primitives and load :: "'s \<Rightarrow> KeystoreError + Identity option" and store :: "Identity \<Rightarrow> ('s, KeystoreError, unit) st"
  assumes load_wf: "load s = Inr (Some i) \<Longrightarrow> identity_wf P i"
begin

lemma load_or_create_wf: "load_or_create P load store rnd s = (Inr i, s') \<Longrightarrow> identity_wf P i"
  using load_wf by (auto simp: load_or_create_def identity_generate_def Let_def split: sum.splits option.splits prod.splits)

lemma load_or_create_stored: "load s = Inr (Some i) \<Longrightarrow> load_or_create P load store rnd s = (Inr i, s)"
  by (simp add: load_or_create_def)

lemma load_or_create_refused: "load s = Inl e \<Longrightarrow> load_or_create P load store rnd s = (Inl e, s)"
  by (simp add: load_or_create_def)

end

interpretation file_keystore: keystore P "file_load P B pf fa path" "file_store B pf fa' path" for P B pf fa fa' path
  by unfold_locales
    (auto simp: file_load_def parse_identity_file_def bindE_eq_Inr from_secret_bytes_def
      split: sum.splits io_error.splits list.splits if_splits)

interpretation ephemeral_keystore: keystore P ephemeral_load ephemeral_store for P
  by unfold_locales (simp add: ephemeral_load_def)

subsection \<open>Reading what was written\<close>

text \<open>What is assumed of the base64 engine: it decodes what it encoded, its alphabet is printable ASCII, and a text cut short decodes to
  fewer bytes, if at all.\<close>

definition b64_sound :: "standard_b64 \<Rightarrow> bool" where
  "b64_sound B \<longleftrightarrow> (\<forall>bs. std_decode B (code_points (std_encode B bs)) = Some bs \<and>
     list_all (\<lambda>c. 33 \<le> (of_char c :: nat) \<and> of_char c < (127 :: nat)) (std_encode B bs) \<and>
     (\<forall>p q cs. std_encode B bs = p @ q \<and> q \<noteq> [] \<and> std_decode B (code_points p) = Some cs \<longrightarrow> length cs < length bs))"

lemma utf8_decode_ascii_byte:
  assumes "b < 128"
  shows "utf8_decode (b # bs) = map_option (Cons (unat b)) (utf8_decode bs)"
proof -
  have "utf8_step (b # bs) = Some (lead_bits b, 1)"
    using assms by (simp add: utf8_step_def utf8_width_def second_ok_def word_less_nat_alt)
  moreover have "lead_bits b = unat b"
    using assms by (simp add: lead_bits_def word_less_nat_alt)
  ultimately show ?thesis by (simp add: utf8_decode_step)
qed

definition printable :: "string \<Rightarrow> bool" where
  "printable s \<longleftrightarrow> list_all (\<lambda>c. 33 \<le> (of_char c :: nat) \<and> of_char c < (127 :: nat)) s"

lemma utf8_decode_ascii:
  "list_all (\<lambda>c. of_char c < (128 :: nat)) s \<Longrightarrow> utf8_decode (ascii s @ bs) = map_option ((@) (code_points s)) (utf8_decode bs)"
proof (induction s)
  case (Cons c s)
  then have "unat (word_of_nat (of_char c) :: u8) = of_char c" by (simp add: unat_of_nat take_bit_nat_eq_self)
  moreover have "(word_of_nat (of_char c) :: u8) < 128" using Cons.prems calculation by (simp add: word_less_nat_alt)
  ultimately show ?case
    using Cons by (simp add: ascii_def utf8_decode_ascii_byte code_points_Cons option.map_comp comp_def)
qed (simp add: ascii_def option.map_ident_strong)

lemma utf8_decode_printable:
  "printable s \<Longrightarrow> utf8_decode (ascii s @ bs) = map_option ((@) (code_points s)) (utf8_decode bs)"
  by (rule utf8_decode_ascii) (auto simp: printable_def list_all_iff)

lemma utf8_decode_newline: "utf8_decode (10 # bs) = map_option (Cons 10) (utf8_decode bs)"
  by (subst utf8_decode_ascii_byte) simp_all

lemma str_lines_line: "10 \<notin> set l \<Longrightarrow> str_lines (l @ 10 # cs) = strip_return l # str_lines cs"
proof -
  assume "10 \<notin> set l"
  then have "takeWhile (\<lambda>c. c \<noteq> 10) (l @ 10 # cs) = l" by (subst takeWhile_append2) auto
  then show ?thesis by (subst str_lines.simps) (simp add: Let_def)
qed

lemma str_lines_last: "10 \<notin> set l \<Longrightarrow> str_lines l = (if l = [] then [] else [l])"
proof -
  assume "10 \<notin> set l"
  then have tw: "takeWhile (\<lambda>c. c \<noteq> 10) l = l" by (auto simp: takeWhile_eq_all_conv)
  show ?thesis by (subst str_lines.simps) (simp only: Let_def tw if_True refl)
qed

lemma printable_code_points:
  assumes "printable s"
  shows "10 \<notin> set (code_points s)" "strip_return (code_points s) = code_points s" "str_trim (code_points s) = code_points s"
proof -
  have c: "33 \<le> c \<and> c < 127" if "c \<in> set (code_points s)" for c
    using assms that by (auto simp: printable_def code_points_def list_all_iff)
  then show "10 \<notin> set (code_points s)" by force
  have "last (code_points s) \<noteq> 13" if "code_points s \<noteq> []" using c [of "last (code_points s)"] last_in_set [OF that] by linarith
  then show "strip_return (code_points s) = code_points s" by (auto simp: strip_return_def)
  have w: "\<not> is_whitespace c" if "c \<in> set (code_points s)" for c
    using c [OF that] by (auto simp: is_whitespace_def)
  then have "dropWhile is_whitespace (code_points s) = code_points s" "dropWhile is_whitespace (rev (code_points s)) = rev (code_points s)"
    by (simp_all add: dropWhile_eq_self_iff)
       (metis list.set_sel(1) set_rev rev_is_Nil_conv)+
  then show "str_trim (code_points s) = code_points s" by (simp add: str_trim_def)
qed

lemma code_points_eq_Nil [simp]: "code_points s = [] \<longleftrightarrow> s = []"
  by (simp add: code_points_def)

lemma parse_lines:
  assumes "printable enc"
  shows "parse_identity_file P B path (code_points MAGIC @ 10 # code_points enc @ 10 # cs) =
      bindE (ok_or (std_decode B (code_points enc)) (BadFormat path))
        (\<lambda>bytes. case from_secret_bytes P bytes of Inl e \<Rightarrow> Inl (BadKey path e) | Inr i \<Rightarrow> Inr i)"
    "enc \<noteq> [] \<Longrightarrow> parse_identity_file P B path (code_points MAGIC @ 10 # code_points enc) =
      bindE (ok_or (std_decode B (code_points enc)) (BadFormat path))
        (\<lambda>bytes. case from_secret_bytes P bytes of Inl e \<Rightarrow> Inl (BadKey path e) | Inr i \<Rightarrow> Inr i)"
    "parse_identity_file P B path (code_points MAGIC @ [10]) = Inl (BadFormat path)"
proof -
  have m: "printable MAGIC" by (simp add: printable_def MAGIC_def)
  note l = str_lines_line [OF printable_code_points(1) [OF m]] printable_code_points [OF m] printable_code_points [OF assms]
  show "parse_identity_file P B path (code_points MAGIC @ 10 # code_points enc @ 10 # cs) =
      bindE (ok_or (std_decode B (code_points enc)) (BadFormat path))
        (\<lambda>bytes. case from_secret_bytes P bytes of Inl e \<Rightarrow> Inl (BadKey path e) | Inr i \<Rightarrow> Inr i)"
    by (simp add: parse_identity_file_def l str_lines_line [OF l(5)])
  show "parse_identity_file P B path (code_points MAGIC @ 10 # code_points enc) =
      bindE (ok_or (std_decode B (code_points enc)) (BadFormat path))
        (\<lambda>bytes. case from_secret_bytes P bytes of Inl e \<Rightarrow> Inl (BadKey path e) | Inr i \<Rightarrow> Inr i)" if "enc \<noteq> []"
    using that by (simp add: parse_identity_file_def l str_lines_last [OF l(5)] code_points_eq_Nil)
  show "parse_identity_file P B path (code_points MAGIC @ [10]) = Inl (BadFormat path)"
    using l(1) [of "[]"] by (simp add: parse_identity_file_def str_lines.simps [of "[]"])
qed

lemma parse_one_line: "10 \<notin> set l \<Longrightarrow> parse_identity_file P B path l = Inl (BadFormat path)"
  by (simp add: parse_identity_file_def str_lines_last)

subsection \<open>What a store leaves behind\<close>

definition file_text :: "standard_b64 \<Rightarrow> Identity \<Rightarrow> u8 list" where
  "file_text B i = ascii MAGIC @ 10 # ascii (std_encode B (secret_bytes_for_keystore i)) @ 10 # comment_line i @ [10]"

definition opened_mode :: "platform \<Rightarrow> stored_file option \<Rightarrow> u32" where
  "opened_mode pf f = (case f of Some f \<Rightarrow> fl_mode f | None \<Rightarrow> (if pf_unix pf then 0x180 else 0x1B6) AND NOT (pf_umask pf))"

lemma take_prefixes:
  "\<exists>m. take k (a @ [10]) = take m (a @ 10 # b)" "\<exists>m. a @ 10 # take k (b @ [10]) = take m (a @ 10 # b @ 10 # c)"
  "\<exists>m. a @ 10 # b @ 10 # take k (c @ [10]) = take m (a @ 10 # b @ 10 # c @ [10])"
proof -
  show "\<exists>m. take k (a @ [10]) = take m (a @ 10 # b)"
    by (intro exI [of _ "min k (Suc (length a))"]) (simp add: min_def take_Cons')
  show "\<exists>m. a @ 10 # take k (b @ [10]) = take m (a @ 10 # b @ 10 # c)"
    by (intro exI [of _ "length a + Suc (min k (Suc (length b)))"]) (simp add: min_def take_Cons')
  show "\<exists>m. a @ 10 # b @ 10 # take k (c @ [10]) = take m (a @ 10 # b @ 10 # c @ [10])"
    by (intro exI [of _ "length a + Suc (length b + Suc k)"]) simp
qed

lemma file_store_leaves:
  assumes "file_store B pf fa path i fs = (r, fs')"
  shows "fs' = fs \<and> r \<noteq> Inr () \<or>
    (\<exists>f k. fs' = fs(path \<mapsto> f) \<and> fl_mode f = opened_mode pf (fs path) \<and> fl_content f = take k (file_text B i) \<and>
       (r = Inr () \<longrightarrow> fl_content f = file_text B i))"
proof (cases "(has_parent path \<and> fa_create_dir fa \<noteq> None) \<or> fa_open fa \<noteq> None")
  case True
  then have "\<exists>e. file_store B pf fa path i fs = (Inl e, fs)"
    by (cases "fa_create_dir fa"; cases "fa_open fa") (auto simp: file_store_def sbind_def create_private_def)
  with assms show ?thesis by auto
next
  case False
  let ?a = "ascii MAGIC" and ?b = "ascii (std_encode B (secret_bytes_for_keystore i))" and ?c = "comment_line i"
  define f0 where "f0 = (case fs path of Some f \<Rightarrow> f\<lparr>fl_content := []\<rparr>
      | None \<Rightarrow> \<lparr>fl_mode = (if pf_unix pf then 0x180 else 0x1B6) AND NOT (pf_umask pf), fl_content = []\<rparr>)"
  have f0: "fl_content f0 = []" "fl_mode f0 = opened_mode pf (fs path)" by (simp_all add: f0_def opened_mode_def split: option.split)
  have w: "file_store B pf fa path i fs = sbind (write_line fa path 0 ?a) (\<lambda>_. sbind (write_line fa path 1 ?b) (\<lambda>_. sbind (write_line fa path 2 ?c)
      (\<lambda>_ fs. (case fa_flush fa of Some e \<Rightarrow> Inl (KsIo path e) | None \<Rightarrow> Inr (), fs)))) (fs(path \<mapsto> f0))"
    using False by (auto simp: file_store_def sbind_def create_private_def f0_def)
  obtain c where c: "fs' = fs(path \<mapsto> f0\<lparr>fl_content := c\<rparr>)" and t: "c = file_text B i \<or> r \<noteq> Inr () \<and>
      (\<exists>k. c = take k (?a @ [10]) \<or> c = ?a @ 10 # take k (?b @ [10]) \<or> c = ?a @ 10 # ?b @ 10 # take k (?c @ [10]))"
  proof (cases "fa_write fa 0")
    case (Some p)
    with assms have "fs' = fs(path \<mapsto> f0\<lparr>fl_content := take (fst p) (?a @ [10])\<rparr>)" "r \<noteq> Inr ()"
      by (auto simp: w sbind_def write_line_def append_to_def f0(1) simp del: take_append split: prod.splits)
    then show thesis by (intro that) blast+
  next
    case n0: None
    show thesis
    proof (cases "fa_write fa 1")
      case (Some p)
      with n0 assms have "fs' = fs(path \<mapsto> f0\<lparr>fl_content := ?a @ 10 # take (fst p) (?b @ [10])\<rparr>)" "r \<noteq> Inr ()"
        by (auto simp: w sbind_def write_line_def append_to_def f0(1) simp del: take_append split: prod.splits)
      then show thesis by (intro that) blast+
    next
      case n1: None
      show thesis
      proof (cases "fa_write fa 2")
        case (Some p)
        with n0 n1 assms have "fs' = fs(path \<mapsto> f0\<lparr>fl_content := ?a @ 10 # ?b @ 10 # take (fst p) (?c @ [10])\<rparr>)" "r \<noteq> Inr ()"
          by (auto simp: w sbind_def write_line_def append_to_def f0(1) simp del: take_append split: prod.splits)
        then show thesis by (intro that) blast+
      next
        case None
        with n0 n1 assms that [of "file_text B i"] show thesis
          by (auto simp: w sbind_def write_line_def append_to_def f0(1) file_text_def)
      qed
    qed
  qed
  have "\<exists>k. c = take k (file_text B i)"
    using t take_prefixes(1) [of _ ?a "?b @ 10 # ?c @ [10]"] take_prefixes(2) [of ?a _ ?b "?c @ [10]"] take_prefixes(3) [of ?a ?b _ ?c]
    unfolding file_text_def by (metis take_all order_refl)
  then show ?thesis using c t f0(2) by (intro disjI2 exI [of _ "f0\<lparr>fl_content := c\<rparr>"]) auto
qed

subsection \<open>A file that loads is the one that was stored\<close>

lemma b64_soundD:
  assumes "b64_sound B"
  shows "std_decode B (code_points (std_encode B bs)) = Some bs" "printable (std_encode B bs)"
    "std_encode B bs = p @ q \<Longrightarrow> q \<noteq> [] \<Longrightarrow> std_decode B (code_points p) = Some cs \<Longrightarrow> length cs < length bs"
  using assms by (auto simp: b64_sound_def printable_def)

lemma key_case: "(case x of Inl e \<Rightarrow> Inl (BadKey path e) | Inr i \<Rightarrow> Inr i) = Inr j \<longleftrightarrow> x = Inr j"
  by (cases x) simp_all

lemma take_ascii: "take n (ascii s) = ascii (take n s)"
  by (simp add: ascii_def take_map)

lemma printable_take: "printable s \<Longrightarrow> printable (take n s)"
  by (auto simp: printable_def list_all_iff dest: in_set_takeD)

lemma map_option_append [simp]: "map_option ((@) xs) (Some ys) = Some (xs @ ys)"
  by simp

lemma split_position:
  fixes k m l :: nat
  shows "k \<le> m \<or> (\<exists>n. k = m + Suc n \<and> n \<le> l) \<or> (\<exists>n. k = m + Suc (l + Suc n))"
  by presburger

text \<open>Whatever prefix of the file is there, it loads as the stored identity or not at all.\<close>

lemma parse_prefix:
  assumes b64: "b64_sound B" and key: "length (id_signing_key i) = 32" and wf: "identity_wf P i"
    and dec: "utf8_decode (take k (file_text B i)) = Some cs" and ok: "parse_identity_file P B path cs = Inr j"
  shows "j = i"
proof -
  let ?enc = "std_encode B (secret_bytes_for_keystore i)" and ?m = "length MAGIC"
  have m: "printable MAGIC" by (simp add: printable_def MAGIC_def)
  note b = b64_soundD [OF b64, of "secret_bytes_for_keystore i"]
  note dm = utf8_decode_printable [OF m]
  consider "k \<le> ?m" | n where "k = ?m + Suc n" "n \<le> length ?enc" | n where "k = ?m + Suc (length ?enc + Suc n)"
    using split_position [of k ?m "length ?enc"] by blast
  then show ?thesis
  proof cases
    case 1
    then have "take k (file_text B i) = ascii (take k MAGIC) @ []" by (simp add: file_text_def take_ascii)
    with dec utf8_decode_printable [OF printable_take [OF m], of k "[]"] have "cs = code_points (take k MAGIC)"
      by (simp add: utf8_decode.simps [of "[]"])
    with ok parse_one_line printable_code_points(1) [OF printable_take [OF m]] show ?thesis by simp
  next
    case (2 n)
    then have "take k (file_text B i) = ascii MAGIC @ 10 # ascii (take n ?enc) @ []" by (simp add: file_text_def take_ascii)
    with dec utf8_decode_printable [OF printable_take [OF b(2)], of n "[]"]
    have cs: "cs = code_points MAGIC @ 10 # code_points (take n ?enc)"
      by (simp add: dm utf8_decode_newline utf8_decode.simps [of "[]"])
    show ?thesis
    proof (cases "take n ?enc = []")
      case True
      with ok cs parse_lines(3) [of "[]"] show ?thesis by (simp add: printable_def)
    next
      case False
      from ok obtain bytes where d: "std_decode B (code_points (take n ?enc)) = Some bytes" "from_secret_bytes P bytes = Inr j"
        unfolding cs parse_lines(2) [OF printable_take [OF b(2)] False] by (auto simp: bindE_eq_Inr key_case)
      show ?thesis
      proof (cases "n = length ?enc")
        case True
        with d b(1) identity_wf_restore [OF wf key] show ?thesis by simp
      next
        case False
        with 2 have "drop n ?enc \<noteq> []" by simp
        from b(3) [OF append_take_drop_id [symmetric] this d(1)] d(2) key show ?thesis
          by (simp add: from_secret_bytes_def secret_bytes_for_keystore_def split: if_splits)
      qed
    qed
  next
    case (3 n)
    then have "take k (file_text B i) = ascii MAGIC @ 10 # ascii ?enc @ 10 # take n (comment_line i @ [10])" by (simp add: file_text_def)
    with dec obtain rest where "cs = code_points MAGIC @ 10 # code_points ?enc @ 10 # rest"
      by (auto simp: dm utf8_decode_newline utf8_decode_printable [OF b(2)] simp del: take_append)
    with ok b(1) identity_wf_restore [OF wf key] show ?thesis
      by (simp add: parse_lines(1) [OF b(2)] split: sum.splits)
  qed
qed


lemma mode_mask: "(m AND 0x1FF) AND 0x3F = m AND (0x3F :: u32)"
  by (simp add: and.assoc)

lemma fresh_mode_private: "(0x180 AND NOT umask) AND (0x3F :: u32) = 0"
proof -
  have "(0x180 AND NOT umask) AND 0x3F = (0x180 AND 0x3F) AND NOT umask" by (simp add: ac_simps)
  then show ?thesis by simp
qed

lemma utf8_dash: "utf8_decode (0xE2 # 0x80 # 0x94 # bs) = map_option (Cons 0x2014) (utf8_decode bs)"
proof -
  have "utf8_step (0xE2 # 0x80 # 0x94 # bs) = Some (0x2014, 3)"
    by (simp add: utf8_step_def utf8_width_def second_ok_def is_continuation_def lead_bits_def cont_bits_def word_less_nat_alt word_le_nat_alt)
  from utf8_decode_step [OF this] show ?thesis by simp
qed

lemma comment_line_text:
  assumes "base32_symbols P" "sha256_length P"
  shows "\<exists>cs. utf8_decode (comment_line (from_signing_key P sk) @ [10]) = Some cs"
proof -
  have "list_all (\<lambda>c. of_char c < (128 :: nat)) crockford_symbols" by (simp add: crockford_symbols_def)
  moreover have "set (as_str (id_device_id (from_signing_key P sk))) \<subseteq> set crockford_symbols"
    using device_id_from_pubkey_wf [OF assms] by (simp add: from_signing_key_def device_id_wf_def)
  ultimately have "list_all (\<lambda>c. of_char c < (128 :: nat)) (grouped (id_device_id (from_signing_key P sk)))"
    by (auto simp: grouped_def Let_def list_all_iff dest!: in_set_takeD in_set_dropD)
  then have a: "list_all (\<lambda>c. of_char c < (128 :: nat)) (''# device id '' @ grouped (id_device_id (from_signing_key P sk)) @ '' '')"
    by simp
  have e: "list_all (\<lambda>c. of_char c < (128 :: nat)) '' this is a private key, treat it like ~/.ssh/id_ed25519''" by simp
  show ?thesis
    unfolding comment_line_def
    using utf8_decode_ascii [OF a] utf8_decode_ascii [OF e, of "[10]"]
    by (simp add: utf8_dash utf8_decode_newline utf8_decode.simps [of "[]"] del: ascii_append)
qed

lemma load_stored:
  assumes b64: "b64_sound B" and prim: "base32_symbols P" "sha256_length P" and key: "length sk = 32"
    and f: "fs path = Some f" "fl_content f = file_text B (from_signing_key P sk)" "pf_unix pf \<longrightarrow> fl_mode f AND 0x3F = 0"
  shows "file_load P B pf no_faults path fs = Inr (Some (from_signing_key P sk))"
proof -
  let ?i = "from_signing_key P sk" and ?enc = "std_encode B (secret_bytes_for_keystore (from_signing_key P sk))"
  note b = b64_soundD [OF b64, of "secret_bytes_for_keystore ?i"]
  have m: "printable MAGIC" by (simp add: printable_def MAGIC_def)
  obtain cs where "utf8_decode (comment_line ?i @ [10]) = Some cs" using comment_line_text [OF prim] by blast
  then have d: "utf8_decode (file_text B ?i) = Some (code_points MAGIC @ 10 # code_points ?enc @ 10 # cs)"
    by (simp add: file_text_def utf8_decode_printable [OF m] utf8_decode_newline utf8_decode_printable [OF b(2)])
  have "identity_wf P ?i" "length (id_signing_key ?i) = 32" using key by (simp_all add: from_signing_key_def identity_wf_def)
  then have "parse_identity_file P B path (code_points MAGIC @ 10 # code_points ?enc @ 10 # cs) = Inr ?i"
    using b(1) identity_wf_restore by (simp add: parse_lines(1) [OF b(2)])
  then show ?thesis
    using f d by (simp add: file_load_def read_to_string_def no_faults_def check_permissions_def mode_mask Let_def)
qed

text \<open>C33. The address of a device survives a restart. The first run on a machine with no identity file generates an identity and stores it; if
  nothing fails, every later run, whatever its generator would return, loads that same identity and writes nothing, and on Unix
  the file is readable by nobody else, whatever the umask.\<close>

theorem identity_survives_restart:
  assumes "b64_sound B" "base32_symbols P" "sha256_length P" "length sk = 32" "fs path = None"
  shows "\<exists>f. load_or_create P (file_load P B pf no_faults path) (file_store B pf no_faults path) sk fs =
      (Inr (identity_generate P sk), fs(path \<mapsto> f)) \<and> (pf_unix pf \<longrightarrow> fl_mode f AND 0x3F = 0) \<and>
    load_or_create P (file_load P B pf no_faults path) (file_store B pf no_faults path) sk' (fs(path \<mapsto> f)) =
      (Inr (identity_generate P sk), fs(path \<mapsto> f))"
proof -
  let ?i = "from_signing_key P sk"
  have none: "file_load P B pf no_faults path fs = Inr None"
    using assms(5) by (simp add: file_load_def read_to_string_def no_faults_def)
  have "fst (file_store B pf no_faults path ?i fs) = Inr ()"
    by (simp add: file_store_def sbind_def no_faults_def create_private_def write_line_def)
  then obtain fs' where st: "file_store B pf no_faults path ?i fs = (Inr (), fs')" by (metis prod.collapse)
  from file_store_leaves [OF st] obtain f where f: "fs' = fs(path \<mapsto> f)" "fl_mode f = opened_mode pf None" "fl_content f = file_text B ?i"
    using assms(5) by auto
  have mode: "pf_unix pf \<longrightarrow> fl_mode f AND 0x3F = 0"
    using f(2) fresh_mode_private [of "pf_umask pf"] by (simp add: opened_mode_def)
  have "file_load P B pf no_faults path fs' = Inr (Some ?i)"
    using f mode by (intro load_stored [OF assms(1-4), where f = f]) auto
  with none st f(1) mode show ?thesis
    by (intro exI [of _ f]) (simp add: load_or_create_def identity_generate_def file_keystore.load_or_create_stored)
qed

text \<open>A file others can read is not loaded, and the run stops there instead of making a new identity.\<close>

theorem readable_file_refused:
  assumes "pf_unix pf" "fs path = Some f" "fl_mode f AND 0x3F \<noteq> 0" "fa_read fa = None"
  shows "\<exists>e. load_or_create P (file_load P B pf fa path) store rnd fs = (Inl e, fs)"
proof -
  have "\<exists>e. check_permissions pf fa path fs = Inl e"
    using assms(1-3) by (cases "fa_metadata fa") (simp_all add: check_permissions_def mode_mask Let_def)
  then obtain e where "file_load P B pf fa path fs = Inl e"
    using assms(2,4) by (cases "utf8_decode (fl_content f)") (auto simp: file_load_def read_to_string_def)
  then show ?thesis by (simp add: load_or_create_def)
qed

text \<open>Storing over a file that others can read leaves it so: the mode given to \<open>open\<close> applies to a new file only. The key is then on disk
  under the old permissions, and the next load refuses it.\<close>

theorem store_keeps_wide_mode:
  assumes "fs path = Some f" "fl_mode f = 0x1A4"
  shows "\<exists>g. file_store B pf no_faults path i fs = (Inr (), fs(path \<mapsto> g)) \<and> fl_mode g = 0x1A4 \<and> fl_content g = file_text B i"
proof -
  have "fst (file_store B pf no_faults path i fs) = Inr ()"
    by (simp add: file_store_def sbind_def no_faults_def create_private_def write_line_def)
  then obtain fs' where "file_store B pf no_faults path i fs = (Inr (), fs')" by (metis prod.collapse)
  with file_store_leaves [OF this] assms show ?thesis by (auto simp: opened_mode_def)
qed

subsection \<open>A concrete engine\<close>

text \<open>Two letters a byte.\<close>

definition letter :: "nat \<Rightarrow> char" where "letter n = char_of (65 + n)"

fun pairs_encode :: "u8 list \<Rightarrow> string" where
  "pairs_encode [] = []"
| "pairs_encode (b # bs) = letter (unat b div 16) # letter (unat b mod 16) # pairs_encode bs"

fun pairs_decode :: "nat list \<Rightarrow> u8 list option" where
  "pairs_decode [] = Some []"
| "pairs_decode [x] = None"
| "pairs_decode (x # y # r) = map_option (Cons (word_of_nat ((x - 65) * 16 + (y - 65)))) (pairs_decode r)"

definition pairs :: standard_b64 where "pairs = \<lparr>std_encode = pairs_encode, std_decode = pairs_decode\<rparr>"

lemma of_letter: "n < 16 \<Longrightarrow> of_char (letter n) = 65 + n"
  by (simp add: letter_def)

lemma pairs_encode_decode: "pairs_decode (code_points (pairs_encode bs)) = Some bs"
proof (induction bs)
  case (Cons b bs)
  have b: "unat b div 16 < 16" using unsigned_less [where ?'a = nat, of b] by simp
  show ?case using Cons of_letter [OF b] of_letter [of "unat b mod 16"] by (simp add: code_points_Cons)
qed simp

lemma pairs_printable: "list_all (\<lambda>c. 33 \<le> (of_char c :: nat) \<and> of_char c < (127 :: nat)) (pairs_encode bs)"
proof (induction bs)
  case (Cons b bs)
  have b: "unat b div 16 < 16" using unsigned_less [where ?'a = nat, of b] by simp
  show ?case using Cons of_letter [OF b] of_letter [of "unat b mod 16"] b by simp
qed simp

lemma pairs_decode_length: "pairs_decode xs = Some cs \<Longrightarrow> 2 * length cs = length xs"
  by (induction xs arbitrary: cs rule: pairs_decode.induct) auto

lemma length_pairs_encode: "length (pairs_encode bs) = 2 * length bs"
  by (induction bs) simp_all

lemma pairs_sound: "b64_sound pairs"
proof -
  have "length cs < length bs" if "pairs_encode bs = p @ q" "q \<noteq> []" "pairs_decode (code_points p) = Some cs" for bs p q cs
  proof -
    have "0 < length q" "length p + length q = 2 * length bs" "2 * length cs = length p"
      using that(1,2) pairs_decode_length [OF that(3)] length_pairs_encode [of bs] by (simp_all add: code_points_def)
    then show ?thesis by linarith
  qed
  then show ?thesis by (auto simp: b64_sound_def pairs_def pairs_encode_decode pairs_printable)
qed

theorem identity_survives_restart_witness:
  "\<exists>f. load_or_create toy_primitives (file_load toy_primitives pairs \<lparr>pf_unix = True, pf_umask = 0x12\<rparr> no_faults ''k'')
     (file_store pairs \<lparr>pf_unix = True, pf_umask = 0x12\<rparr> no_faults ''k'') (replicate 32 9) ((\<lambda>_. None)(''k'' \<mapsto> f)) =
     (Inr (identity_generate toy_primitives (replicate 32 3)), (\<lambda>_. None)(''k'' \<mapsto> f)) \<and> fl_mode f AND 0x3F = 0"
  using identity_survives_restart [OF pairs_sound toy_primitives_ok(2,1), of "replicate 32 3" "\<lambda>_. None" "''k''"
      "\<lparr>pf_unix = True, pf_umask = 0x12\<rparr>" "replicate 32 9"] by auto

text \<open>A store that loses its third line still leaves the identity readable.\<close>

definition third_line_fails :: faults where
  "third_line_fails = no_faults\<lparr>fa_write := (\<lambda>n. if n = 2 then Some (0, IoOther ''disk full'') else None)\<rparr>"


end
