(* ===== verification/Rda_CaptureThread.thy ===== *)
theory Rda_CaptureThread
  imports Rda_Convert
begin

text \<open>
  The capture thread of the host, \<^verbatim>\<open>rda-host/src/capture_thread.rs\<close>, over the \<open>ScreenCapturer\<close> trait of \<^verbatim>\<open>rda-capture/src/lib.rs\<close>, a record of
  its methods over a capturer state, and the synthetic capturer of \<^verbatim>\<open>backend/test_pattern.rs\<close>. The thread shares the frame slot with a
  consumer: a run is any interleaving of the thread's passes, each with the stop flag it reads and the clock, and of the
  consumer's receives. Spawning and joining the operating system thread are left out.

  Shown: whatever the capturer does, the consumer gets only frames the capturer returned in this run, each worth encoding, and the
  slot's counters add up; session losses never end the thread as long as restarts succeed; the synthetic capturer's frames
  always pass the converter's checks. The retry after a failed restart never happens with a capturer that refuses
  to deliver while stopped, as both capturers of the repository do (\<open>one_failed_restart_ends_capture\<close>).
\<close>

record 'c ScreenCapturer =
  sc_displays :: "'c \<Rightarrow> CaptureError + DisplayInfo list"
  sc_start :: "u8 \<Rightarrow> CaptureConfig \<Rightarrow> ('c, CaptureError, unit) st"
  sc_next_frame :: "u64 \<Rightarrow> ('c, CaptureError, Frame option) st"
  sc_stop :: "('c, CaptureError, unit) st"

subsection \<open>The synthetic capturer\<close>

record TestPatternCapturer =
  tp_display :: DisplayInfo
  tp_started :: bool
  tp_sequence :: u64
  tp_always_static :: bool
  tp_inject_error :: "CaptureError option"

definition test_pattern_new :: "u32 \<Rightarrow> u32 \<Rightarrow> TestPatternCapturer" where
  "test_pattern_new width height =
     \<lparr>tp_display = \<lparr>di_id = 0, di_native_id = 0, di_name = ''Test Pattern'', di_x = 0, di_y = 0, di_width = width, di_height = height,
        di_scale_permille = 1000, di_primary = True\<rparr>,
      tp_started = False, tp_sequence = 0, tp_always_static = False, tp_inject_error = None\<rparr>"

definition test_pattern_start :: "u8 \<Rightarrow> CaptureConfig \<Rightarrow> (TestPatternCapturer, CaptureError, unit) st" where
  "test_pattern_start display_id config t =
     (if display_id \<noteq> di_id (tp_display t) then (Inl (UnknownDisplay display_id), t) else (Inr (), t\<lparr>tp_started := True\<rparr>))"

definition pattern_pixel :: "u8 \<Rightarrow> nat \<Rightarrow> u8 list" where
  "pattern_pixel phase i = [word_of_nat (i mod 256), phase, word_of_nat (i div 256 mod 256), 0xFF]"

definition test_pattern_next_frame :: "u64 \<Rightarrow> (TestPatternCapturer, CaptureError, Frame option) st" where
  "test_pattern_next_frame now t =
     (if \<not> tp_started t then (Inl (Unavailable ''capture not started''), t)
      else case tp_inject_error t of
        Some e \<Rightarrow> (Inl e, t\<lparr>tp_inject_error := None\<rparr>)
      | None \<Rightarrow>
          (let d = tp_display t;
               stride = unat (di_width d) * 4;
               phase = ucast (tp_sequence t mod 256) :: u8;
               data = concat (map (pattern_pixel phase) [0..<unat (di_width d) * unat (di_height d)]);
               dirty = (if tp_always_static t then Unchanged else if tp_sequence t = 0 then Full
                        else Rects [\<lparr>rect_x = 0, rect_y = 0, rect_width = di_width d, rect_height = 16\<rparr>])
           in (Inr (Some \<lparr>fr_surface = Cpu data stride Bgra8, fr_display_id = di_id d, fr_width = di_width d, fr_height = di_height d,
                          fr_captured_at = now, fr_dirty = dirty, fr_sequence = tp_sequence t\<rparr>),
               t\<lparr>tp_sequence := tp_sequence t + 1\<rparr>)))"

definition test_pattern_stop :: "(TestPatternCapturer, CaptureError, unit) st" where
  "test_pattern_stop t = (Inr (), t\<lparr>tp_started := False\<rparr>)"

definition test_pattern :: "TestPatternCapturer ScreenCapturer" where
  "test_pattern = \<lparr>sc_displays = (\<lambda>t. Inr [tp_display t]), sc_start = test_pattern_start, sc_next_frame = test_pattern_next_frame,
     sc_stop = test_pattern_stop\<rparr>"

subsection \<open>The thread\<close>

definition MAX_CONSECUTIVE_FAILURES :: u32 where "MAX_CONSECUTIVE_FAILURES = 5"

record 'c capture_thread =
  ct_capturer :: 'c
  ct_sink :: Sink
  ct_restarts :: u64
  ct_failures :: u32

text \<open>\<open>spawn\<close>: the displays and the running thread.\<close>

definition capture_spawn :: "'c ScreenCapturer \<Rightarrow> u8 \<Rightarrow> CaptureConfig \<Rightarrow> 'c \<Rightarrow> CaptureError + DisplayInfo list \<times> 'c capture_thread" where
  "capture_spawn C display_id config c =
     bindE (sc_displays C c) (\<lambda>displays. case sc_start C display_id config c of
         (Inl e, _) \<Rightarrow> Inl e
       | (Inr _, c) \<Rightarrow> Inr (displays, \<lparr>ct_capturer = c, ct_sink = sink_channel, ct_restarts = 0, ct_failures = 0\<rparr>))"

text \<open>Rebuilding the session after it was lost; \<open>False\<close> is \<open>break\<close>.\<close>

definition capture_restart :: "'c ScreenCapturer \<Rightarrow> u8 \<Rightarrow> CaptureConfig \<Rightarrow> 'c capture_thread \<Rightarrow> bool \<times> 'c capture_thread" where
  "capture_restart C display_id config t =
     (let t = t\<lparr>ct_restarts := ct_restarts t + 1, ct_capturer := snd (sc_stop C (ct_capturer t))\<rparr>
      in case sc_start C display_id config (ct_capturer t) of
           (Inr _, c) \<Rightarrow> (True, t\<lparr>ct_capturer := c\<rparr>)
         | (Inl e, c) \<Rightarrow>
             (let t = t\<lparr>ct_capturer := c, ct_failures := ct_failures t + 1\<rparr>
              in (\<not> ct_failures t \<ge> MAX_CONSECUTIVE_FAILURES, t)))"

definition capture_pass :: "'c ScreenCapturer \<Rightarrow> u8 \<Rightarrow> CaptureConfig \<Rightarrow> u64 \<Rightarrow> 'c capture_thread \<Rightarrow> bool \<times> 'c capture_thread" where
  "capture_pass C display_id config now t = (case sc_next_frame C now (ct_capturer t) of
       (Inr (Some frame), c) \<Rightarrow>
         (let t = t\<lparr>ct_capturer := c, ct_failures := 0\<rparr>
          in (True, if is_worth_encoding frame then t\<lparr>ct_sink := publish frame (ct_sink t)\<rparr> else t))
     | (Inr None, c) \<Rightarrow> (True, t\<lparr>ct_capturer := c, ct_failures := 0\<rparr>)
     | (Inl e, c) \<Rightarrow>
         if capture_is_recoverable e
         then (if e = Timeout then (True, t\<lparr>ct_capturer := c\<rparr>) else capture_restart C display_id config (t\<lparr>ct_capturer := c\<rparr>))
         else (False, t\<lparr>ct_capturer := c\<rparr>))"

text \<open>The end of the thread, and a run of passes and receives: what the consumer received, and whether the thread is still running.
  A pass whose stop flag is set ends the loop.\<close>

datatype tick = Pass (tick_stop: bool) (tick_now: u64) | Receive

definition capture_end :: "'c ScreenCapturer \<Rightarrow> 'c capture_thread \<Rightarrow> 'c capture_thread" where
  "capture_end C t = t\<lparr>ct_capturer := snd (sc_stop C (ct_capturer t))\<rparr>"

definition receive :: "'c capture_thread \<Rightarrow> Frame list \<times> 'c capture_thread" where
  "receive t = (case try_recv (ct_sink t) of (f, s) \<Rightarrow> (case f of None \<Rightarrow> [] | Some f \<Rightarrow> [f], t\<lparr>ct_sink := s\<rparr>))"

fun capture_run ::
  "'c ScreenCapturer \<Rightarrow> u8 \<Rightarrow> CaptureConfig \<Rightarrow> tick list \<Rightarrow> bool \<Rightarrow> 'c capture_thread \<Rightarrow> Frame list \<times> bool \<times> 'c capture_thread" where
  "capture_run C display_id config [] running t = ([], running, t)"
| "capture_run C display_id config (Receive # ticks) running t =
     (let (fs, t) = receive t; (gs, r) = capture_run C display_id config ticks running t in (fs @ gs, r))"
| "capture_run C display_id config (Pass stop now # ticks) running t =
     (if \<not> running then capture_run C display_id config ticks False t
      else if stop then capture_run C display_id config ticks False (capture_end C t)
      else case capture_pass C display_id config now t of
             (True, t) \<Rightarrow> capture_run C display_id config ticks True t
           | (False, t) \<Rightarrow> capture_run C display_id config ticks False (capture_end C t))"

subsection \<open>What the consumer gets\<close>

text \<open>The operations on the slot that a run should amount to: a publication of every changed frame the capturer returned while the
  thread ran, in order, and the consumer's receives.\<close>

definition pass_ops :: "'c ScreenCapturer \<Rightarrow> u64 \<Rightarrow> 'c capture_thread \<Rightarrow> sink_op list" where
  "pass_ops C now t = (case fst (sc_next_frame C now (ct_capturer t)) of
       Inr (Some f) \<Rightarrow> if is_worth_encoding f then [Publish f] else [] | _ \<Rightarrow> [])"

fun slot_ops :: "'c ScreenCapturer \<Rightarrow> u8 \<Rightarrow> CaptureConfig \<Rightarrow> tick list \<Rightarrow> bool \<Rightarrow> 'c capture_thread \<Rightarrow> sink_op list" where
  "slot_ops C d cfg [] running t = []"
| "slot_ops C d cfg (Receive # ticks) running t = Recv # slot_ops C d cfg ticks running (snd (receive t))"
| "slot_ops C d cfg (Pass stop now # ticks) running t =
     (if \<not> running then slot_ops C d cfg ticks False t
      else if stop then slot_ops C d cfg ticks False (capture_end C t)
      else let (go, t') = capture_pass C d cfg now t
           in pass_ops C now t @ slot_ops C d cfg ticks go (if go then t' else capture_end C t'))"

lemma capture_end_sink [simp]: "ct_sink (capture_end C t) = ct_sink t"
  by (simp add: capture_end_def)

lemma capture_restart_sink: "ct_sink (snd (capture_restart C d cfg t)) = ct_sink t"
  by (simp add: capture_restart_def Let_def split: prod.split sum.split)

lemma capture_pass_sink: "sink_run (ct_sink t) (pass_ops C now t @ ops) = sink_run (ct_sink (snd (capture_pass C d cfg now t))) ops"
  by (auto simp: pass_ops_def capture_pass_def capture_restart_sink Let_def split: prod.split sum.split option.split)

lemma capture_run_slot:
  "sink_run (ct_sink t) (slot_ops C d cfg ticks running t) =
     (case capture_run C d cfg ticks running t of (fs, _, t') \<Rightarrow> (fs, ct_sink t'))"
proof (induction C d cfg ticks running t rule: capture_run.induct)
  case (2 C d cfg ticks running t)
  then show ?case by (auto simp: receive_def Let_def split: prod.splits option.splits)
next
  case (3 C d cfg stop now ticks running t)
  show ?case
  proof (cases "running \<and> \<not> stop")
    case True
    obtain go t' where p: "capture_pass C d cfg now t = (go, t')" by fastforce
    then show ?thesis
      using True 3(3,4) [of go t'] capture_pass_sink [of t C now _ d cfg] by (cases go) simp_all
  qed (use 3(1,2) in \<open>auto\<close>)
qed simp

lemma slot_ops_worth: "Publish f \<in> set (slot_ops C d cfg ticks running t) \<Longrightarrow> is_worth_encoding f"
  by (induction C d cfg ticks running t rule: slot_ops.induct)
    (auto simp: pass_ops_def Let_def split: if_splits prod.splits sum.splits option.splits)

lemma latest_wins_published: "f \<in> set (latest_wins p os) \<Longrightarrow> p = Some f \<or> Publish f \<in> set os"
  by (induction p os rule: latest_wins.induct) auto

text \<open>C35. The consumer of the capture thread gets the latest changed frame. Over every interleaving of passes and receives, whatever the
  capturer does, losses and failed restarts included, what the consumer receives is exactly what a latest-frame-wins channel
  delivers for the changed frames the capturer returned; so no unchanged frame reaches the encoder, and every frame
  published is counted as consumed, dropped or waiting.\<close>

theorem capture_delivers_latest:
  assumes "ct_sink t = sink_channel" "capture_run C d cfg ticks True t = (fs, running, t')"
  shows "fs = latest_wins None (slot_ops C d cfg ticks True t) \<and> list_all is_worth_encoding fs \<and> sink_balanced (ct_sink t')"
proof -
  have r: "sink_run sink_channel (slot_ops C d cfg ticks True t) = (fs, ct_sink t')"
    using capture_run_slot [of t C d cfg ticks True] assms by simp
  then have fs: "fs = latest_wins None (slot_ops C d cfg ticks True t)"
    using sink_run_latest [of sink_channel "slot_ops C d cfg ticks True t"] by (simp add: sink_channel_def)
  moreover have "list_all is_worth_encoding fs"
    unfolding fs list_all_iff using latest_wins_published [of _ None] slot_ops_worth by fastforce
  moreover have "sink_balanced (ct_sink t')"
    using sink_run_balanced [of sink_channel "slot_ops C d cfg ticks True t"] r by (simp add: sink_balanced_def sink_channel_def)
  ultimately show ?thesis by blast
qed

subsection \<open>Losing the session\<close>

lemma capture_pass_recovers:
  assumes "\<And>now c e c'. sc_next_frame C now c = (Inl e, c') \<Longrightarrow> capture_is_recoverable e" "\<And>c. fst (sc_start C d cfg c) = Inr ()"
  shows "fst (capture_pass C d cfg now t)"
proof -
  have "fst (capture_restart C d cfg t')" for t'
    using assms(2) by (auto simp: capture_restart_def Let_def split: prod.split sum.split) (metis fst_conv sum.distinct(1))
  with assms(1) show ?thesis
    by (auto simp: capture_pass_def Let_def split: prod.split sum.split option.split)
qed

text \<open>Losing the session does not end the thread: if the capturer's errors are losses and timeouts and restarting succeeds, the thread
  runs until it is told to stop.\<close>

theorem capture_survives_session_loss:
  assumes "\<And>now c e c'. sc_next_frame C now c = (Inl e, c') \<Longrightarrow> capture_is_recoverable e" "\<And>c. fst (sc_start C d cfg c) = Inr ()"
    and "list_all (\<lambda>k. case k of Pass stop _ \<Rightarrow> \<not> stop | Receive \<Rightarrow> True) ticks"
  shows "fst (snd (capture_run C d cfg ticks True t))"
  using assms(3)
proof (induction ticks arbitrary: t)
  case (Cons k ticks)
  have pass: "fst (capture_pass C d cfg now t)" for now t
    by (rule capture_pass_recovers) (use assms(1,2) in auto)
  show ?case
  proof (cases k)
    case (Pass stop now)
    with Cons pass [of now t] show ?thesis by (auto split: prod.splits bool.splits)
  next
    case Receive
    with Cons show ?thesis by (auto simp: case_prod_beta Let_def)
  qed
qed simp

lemma not_running: "fst (snd (capture_run C d cfg ticks False t)) = False"
proof (induction ticks arbitrary: t)
  case (Cons k ticks)
  then show ?case by (cases k) (simp_all add: case_prod_beta Let_def)
qed simp

text \<open>What the capturers of the repository have in common: one that is not started delivers nothing and says it is unavailable, stopping
  stops it, and a start that fails does not start it.\<close>

locale screen_capturer =
  fixes C :: "'c ScreenCapturer" and started :: "'c \<Rightarrow> bool"
  assumes stopped_unavailable: "\<not> started c \<Longrightarrow> \<exists>m. sc_next_frame C now c = (Inl (Unavailable m), c)"
    and stop_stops: "\<not> started (snd (sc_stop C c))"
    and failed_start: "sc_start C d cfg c = (Inl e, c') \<Longrightarrow> \<not> started c \<Longrightarrow> \<not> started c'"
begin

lemma failed_restart_stops:
  assumes "sc_next_frame C now (ct_capturer t) = (Inl (SessionLost m), c)" "fst (sc_start C d cfg (snd (sc_stop C c))) = Inl e"
    "ct_failures t = 0"
  shows "\<exists>t'. capture_pass C d cfg now t = (True, t') \<and> \<not> started (ct_capturer t')"
proof -
  obtain c' where c': "sc_start C d cfg (snd (sc_stop C c)) = (Inl e, c')" using assms(2) by (metis prod.collapse)
  then have "\<not> started c'" using failed_start stop_stops by blast
  with c' assms(1,3) show ?thesis
    by (simp add: capture_pass_def capture_restart_def Let_def MAX_CONSECUTIVE_FAILURES_def word_le_nat_alt)
qed

lemma stopped_pass_ends: "\<not> started (ct_capturer t) \<Longrightarrow> \<exists>t'. capture_pass C d cfg now t = (False, t')"
  using stopped_unavailable [of "ct_capturer t" now] by (auto simp: capture_pass_def)

lemma failed_restart_ends:
  assumes "sc_next_frame C now (ct_capturer t) = (Inl (SessionLost m), c)" "fst (sc_start C d cfg (snd (sc_stop C c))) = Inl e"
    "ct_failures t = 0"
  shows "fst (snd (capture_run C d cfg (Pass False now # Pass False now' # ticks) True t)) = False"
proof -
  obtain t1 where t1: "capture_pass C d cfg now t = (True, t1)" "\<not> started (ct_capturer t1)"
    using failed_restart_stops [OF assms] by blast
  obtain t2 where "capture_pass C d cfg now' t1 = (False, t2)" using stopped_pass_ends [OF t1(2)] by blast
  with t1(1) show ?thesis by (simp add: not_running)
qed

end

interpretation pattern: screen_capturer test_pattern tp_started
  by unfold_locales (auto simp: test_pattern_def test_pattern_next_frame_def test_pattern_stop_def test_pattern_start_def split: if_splits)

text \<open>One failed restart ends the capture of the synthetic capturer: the failure is counted, the loop goes on, and its next pass asks a
  stopped capturer for a frame, which is an unrecoverable error. The limit of five consecutive failures is never reached. The
  same holds for every capturer that is unavailable while stopped.\<close>

theorem one_failed_restart_ends_capture:
  assumes "test_pattern_next_frame now (ct_capturer t) = (Inl (SessionLost m), c)" "d \<noteq> di_id (tp_display c)" "ct_failures t = 0"
  shows "fst (snd (capture_run test_pattern d cfg (Pass False now # Pass False now' # ticks) True t)) = False"
  using assms
  by (intro pattern.failed_restart_ends [where e = "UnknownDisplay d" and m = m and c = c])
    (simp_all add: test_pattern_def test_pattern_start_def test_pattern_stop_def)

subsection \<open>The synthetic frames\<close>

text \<open>Every frame of the synthetic capturer has the pixels its geometry announces and passes the checks of the colour conversion.\<close>

theorem pattern_frames_convertible:
  assumes "test_pattern_next_frame now t = (Inr (Some f), t')" "0 < di_width (tp_display t)" "di_width (tp_display t) \<le> 16384"
    and "0 < di_height (tp_display t)" "di_height (tp_display t) \<le> 16384"
  shows "\<exists>data stride. fr_surface f = Cpu data stride Bgra8 \<and> length data = stride * unat (fr_height f) \<and>
    validate data (fr_width f) (fr_height f) stride = Inr ()"
proof -
  have len: "length (concat (map (pattern_pixel ph) xs)) = 4 * length xs" for ph xs
    by (induction xs) (simp_all add: pattern_pixel_def)
  have h: "0 < unat (di_height (tp_display t))" using assms(4) by (simp add: unat_gt_0 word_gt_0)
  have "unat (di_width (tp_display t)) * 4 * (unat (di_height (tp_display t)) - 1) + unat (di_width (tp_display t)) * 4 =
      unat (di_width (tp_display t)) * 4 * unat (di_height (tp_display t))"
    using h by (cases "unat (di_height (tp_display t))") simp_all
  note size = this
  obtain data where f: "fr_surface f = Cpu data (unat (di_width (tp_display t)) * 4) Bgra8"
    "length data = unat (di_width (tp_display t)) * 4 * unat (di_height (tp_display t))"
    "fr_width f = di_width (tp_display t)" "fr_height f = di_height (tp_display t)"
    using assms(1) by (auto simp: test_pattern_next_frame_def len Let_def split: if_splits option.splits)
  have "validate data (fr_width f) (fr_height f) (unat (di_width (tp_display t)) * 4) = Inr ()"
    using assms(2-5) size by (simp add: validate_def f(2-4) Let_def not_less word_gt_0)
  with f show ?thesis by auto
qed

text \<open>A run of the synthetic capturer: two passes, a receive and a stop deliver the second of the two frames.\<close>

definition tiny_thread :: "TestPatternCapturer capture_thread" where
  "tiny_thread = \<lparr>ct_capturer = (test_pattern_new 1 1)\<lparr>tp_started := True\<rparr>, ct_sink = sink_channel, ct_restarts = 0, ct_failures = 0\<rparr>"

lemma tiny_spawn: "capture_spawn test_pattern 0 capture_config_default (test_pattern_new 1 1) = Inr ([tp_display (test_pattern_new 1 1)], tiny_thread)"
  by (simp add: capture_spawn_def test_pattern_def test_pattern_start_def test_pattern_new_def tiny_thread_def)

theorem capture_delivers_latest_witness:
  "\<exists>f r. capture_run test_pattern 0 capture_config_default [Pass False 1, Pass False 2, Receive, Pass True 3] True tiny_thread = ([f], r) \<and>
     is_worth_encoding f \<and> fr_sequence f = 1"
proof -
  have run: "\<exists>f t'. capture_run test_pattern 0 capture_config_default [Pass False 1, Pass False 2, Receive, Pass True 3] True tiny_thread = ([f], False, t') \<and>
      fr_sequence f = 1"
    by (simp add: tiny_thread_def test_pattern_new_def test_pattern_def capture_pass_def test_pattern_next_frame_def is_worth_encoding_def
        publish_def sink_channel_def receive_def try_recv_def Let_def rect_area_def rect_is_empty_def)
  then obtain f t' where r: "capture_run test_pattern 0 capture_config_default [Pass False 1, Pass False 2, Receive, Pass True 3] True tiny_thread = ([f], False, t')"
    "fr_sequence f = 1" by blast
  have "ct_sink tiny_thread = sink_channel" by (simp add: tiny_thread_def)
  from capture_delivers_latest [OF this r(1)] have "is_worth_encoding f" by (simp del: capture_run.simps slot_ops.simps)
  with r show ?thesis by (intro exI [of _ f] exI [of _ "(False, t')"] conjI)
qed

end
