(* ===== verification/Rda_VideoToolbox.thy ===== *)
theory Rda_VideoToolbox
  imports Rda_Encoder Rda_Decoder Rda_Primitives
begin

text \<open>
  The hardware codecs of macOS, \<^verbatim>\<open>rda-encode/src/backend/videotoolbox.rs\<close> and \<^verbatim>\<open>rda-decode/src/backend/videotoolbox.rs\<close>: what they do around the
  operating system's sessions. A compression or decompression session is a parameter, a record of the calls the code makes on
  it with the samples and images it delivers to the callbacks; the copying of pixel rows, the callbacks, the repackaging of
  the bitstream and the book-keeping are modelled.

  Shown: a keyframe the encoder emits starts a decoder on its own, which receives exactly the parameter sets and the sample the hardware
  made; pictures handed on are consistent; the decoder has a session only while it has both parameter sets. A stream that is Annex B
  already can be corrupted by the conversion that promises to leave it alone (\<open>annex_b_input_corrupted\<close>), and a recovery request
  is forgotten when the hardware drops the frame (\<open>dropped_keyframe_forgets_request\<close>).
\<close>

definition show_int :: "int \<Rightarrow> string" where
  "show_int i = (if i < 0 then ''-'' @ decimal (nat (- i)) else decimal (nat i))"

subsection \<open>Repackaging\<close>

definition START_CODE :: "u8 list" where "START_CODE = [0, 0, 0, 1]"

text \<open>The loop of \<open>avcc_to_annex_b\<close> from an offset with the output so far; \<open>None\<close> is the early return of the input.\<close>

function avcc_loop :: "u8 list \<Rightarrow> nat \<Rightarrow> u8 list \<Rightarrow> (nat \<times> u8 list) option" where
  "avcc_loop avcc offset out =
     (if \<not> offset + 4 \<le> length avcc then Some (offset, out)
      else let len = unat (from_be_bytes32 (avcc ! offset) (avcc ! (offset + 1)) (avcc ! (offset + 2)) (avcc ! (offset + 3)));
               start = offset + 4
           in if len = 0 \<or> start + len > length avcc then None
              else avcc_loop avcc (start + len) (out @ START_CODE @ take len (drop start avcc)))"
  by auto

termination by (relation "measure (\<lambda>(avcc, offset, _). length avcc - offset)") (auto simp: Let_def)

declare avcc_loop.simps [simp del]

definition avcc_to_annex_b :: "u8 list \<Rightarrow> u8 list" where
  "avcc_to_annex_b avcc = (case avcc_loop avcc 0 [] of
       None \<Rightarrow> avcc
     | Some (offset, out) \<Rightarrow> if offset = length avcc \<and> out \<noteq> [] then out else avcc)"

definition is_parameter_set :: "u8 list \<Rightarrow> bool" where
  "is_parameter_set u \<longleftrightarrow> nal_type u = Some NAL_SPS \<or> nal_type u = Some NAL_PPS"

definition annex_b_to_avcc :: "u8 list \<Rightarrow> u8 list" where
  "annex_b_to_avcc data =
     concat (map (\<lambda>u. if is_parameter_set u then [] else to_be_bytes32 (word_of_nat (length u)) @ u) (split_annex_b data))"

subsection \<open>The encoder\<close>

definition four_cc :: "string \<Rightarrow> u32" where
  "four_cc s = (case ascii s of [a, b, c, d] \<Rightarrow> from_be_bytes32 a b c d | _ \<Rightarrow> 0)"

definition PIXEL_FORMAT_NV12_FULL :: u32 where "PIXEL_FORMAT_NV12_FULL = four_cc ''420f''"
definition PIXEL_FORMAT_NV12_VIDEO :: u32 where "PIXEL_FORMAT_NV12_VIDEO = four_cc ''420v''"
definition CODEC_H264 :: u32 where "CODEC_H264 = four_cc ''avc1''"
definition CODEC_HEVC :: u32 where "CODEC_HEVC = four_cc ''hvc1''"

datatype vt_value = VtBool bool | VtInt int

text \<open>One invocation of the output callback: the status, whether the frame was dropped or came without a sample, the bytes of the sample
  if they could be copied, and the parameter sets of its format description (a set that cannot be read is empty).\<close>

record vt_sample =
  vs_status :: int
  vs_dropped :: bool
  vs_data :: "u8 list option"
  vs_sets :: "u8 list list option"

text \<open>The calls on a compression session. A plane is its number of bytes per row, or \<open>None\<close> if it has no address; the encode call gets the
  rows copied into the two planes, the timestamp, the frame rate and whether a keyframe is forced.\<close>

record 'h vt_encode_hw =
  eh_create :: "u32 \<Rightarrow> u32 \<Rightarrow> u32 \<Rightarrow> int + 'h"
  eh_set :: "string \<Rightarrow> vt_value \<Rightarrow> 'h \<Rightarrow> int \<times> 'h"
  eh_buffer :: "u32 \<Rightarrow> u32 \<Rightarrow> u32 \<Rightarrow> int"
  eh_lock :: int
  eh_plane :: "u32 \<Rightarrow> u32 \<Rightarrow> nat \<Rightarrow> nat option"
  eh_encode :: "u8 list list list \<Rightarrow> u64 \<Rightarrow> u8 \<Rightarrow> bool \<Rightarrow> 'h \<Rightarrow> int \<times> vt_sample list \<times> 'h"
  eh_complete :: "'h \<Rightarrow> int \<times> vt_sample list \<times> 'h"

record 'h VtEncoder =
  te_session :: 'h
  te_config :: EncoderConfig
  te_sequence :: u64
  te_pending_recovery :: "u8 option"
  te_expect_keyframe :: bool
  te_pts_us :: u64
  te_queue :: "EncodedFrame list"
  te_pixel_format :: u32
  te_force_keyframe :: bool
  te_pending_ltr :: "u8 option"

definition set_property :: "'h vt_encode_hw \<Rightarrow> string \<Rightarrow> vt_value \<Rightarrow> ('h VtEncoder, EncodeError, unit) st" where
  "set_property H key value e = (case eh_set H key value (te_session e) of (status, h) \<Rightarrow>
     (if status = 0 then Inr () else Inl (EncodeFailed (''property '' @ key @ '' rejected with status '' @ show_int status)),
      e\<lparr>te_session := h\<rparr>))"

definition ignoring :: "('s, 'e, unit) st \<Rightarrow> ('s, 'e, unit) st" where
  "ignoring m s = (Inr (), snd (m s))"

definition I32_MAX :: int where "I32_MAX = 2147483647"

definition vt_configure :: "'h vt_encode_hw \<Rightarrow> ('h VtEncoder, EncodeError, unit) st" where
  "vt_configure H e =
     (let c = te_config e;
          interval = (if ec_keyframe_interval_s c = 0 then I32_MAX else sint (ec_keyframe_interval_s c * ucast (ec_fps c)))
      in sbind (set_property H ''RealTime'' (VtBool True)) (\<lambda>_.
         sbind (set_property H ''AllowFrameReordering'' (VtBool False)) (\<lambda>_.
         sbind (set_property H ''MaxKeyFrameInterval'' (VtInt interval)) (\<lambda>_.
         sbind (set_property H ''MaxKeyFrameIntervalDuration'' (VtInt I32_MAX)) (\<lambda>_.
         sbind (set_property H ''AverageBitRate'' (VtInt (sint (ec_bitrate_bps c)))) (\<lambda>_.
         sbind (set_property H ''ExpectedFrameRate'' (VtInt (int (unat (ec_fps c))))) (\<lambda>_.
         sbind (ignoring (set_property H ''EnableHardwareAcceleratedVideoEncoder'' (VtBool True))) (\<lambda>_.
         ignoring (set_property H ''MaxAllowedFrameQP'' (VtInt 51))))))))) e)"

definition vt_encoder_new :: "'h vt_encode_hw \<Rightarrow> EncoderConfig \<Rightarrow> EncodeError + 'h VtEncoder" where
  "vt_encoder_new H config =
     (if \<not> config_is_valid config
      then Inl (BadConfig (decimal (unat (ec_width config)) @ ''x'' @ decimal (unat (ec_height config)) @ '' @ '' @
             decimal (unat (ec_fps config)) @ '' fps''))
      else case ec_codec config of
        Av1 \<Rightarrow> Inl (NoHardware Av1)
      | codec \<Rightarrow>
          (case eh_create H (ec_width config) (ec_height config) (if codec = H264 then CODEC_H264 else CODEC_HEVC) of
             Inl status \<Rightarrow> Inl (EncoderUnavailable (''VTCompressionSessionCreate failed with status '' @ show_int status))
           | Inr h \<Rightarrow>
               (case vt_configure H \<lparr>te_session = h, te_config = config, te_sequence = 0, te_pending_recovery = None, te_expect_keyframe = False,
                       te_pts_us = 0, te_queue = [], te_pixel_format = PIXEL_FORMAT_NV12_FULL, te_force_keyframe = False, te_pending_ltr = None\<rparr> of
                  (Inl e, _) \<Rightarrow> Inl e
                | (Inr _, e) \<Rightarrow> Inr e)))"

text \<open>Copying one plane: the rows written to the destination.\<close>

definition copy_plane :: "nat \<Rightarrow> nat option \<Rightarrow> u8 list \<Rightarrow> nat \<Rightarrow> nat \<Rightarrow> nat \<Rightarrow> EncodeError + u8 list list" where
  "copy_plane plane dst src rows row_bytes src_stride = (case dst of
       None \<Rightarrow> Inl (EncodeFailed (''plane '' @ decimal plane @ '' has no base address''))
     | Some dst_stride \<Rightarrow>
         if dst_stride < row_bytes
         then Inl (EncodeFailed (''plane '' @ decimal plane @ '' stride '' @ decimal dst_stride @ '' is smaller than '' @ decimal row_bytes @ '' bytes per row''))
         else (case find (\<lambda>row. row * src_stride + row_bytes > length src) [0..<rows] of
             Some row \<Rightarrow> Inl (EncodeFailed (''source plane '' @ decimal plane @ '' is short at row '' @ decimal row))
           | None \<Rightarrow> Inr (map (\<lambda>row. take row_bytes (drop (row * src_stride) src)) [0..<rows])))"

definition copy_planes :: "'h vt_encode_hw \<Rightarrow> PlanarFrame \<Rightarrow> EncodeError + u8 list list list" where
  "copy_planes H frame =
     bindE (copy_plane 0 (eh_plane H (pf_width frame) (pf_height frame) 0) (planar_luma frame) (unat (pf_height frame)) (unat (pf_width frame)) (pf_luma_stride frame)) (\<lambda>luma.
     bindE (copy_plane 1 (eh_plane H (pf_width frame) (pf_height frame) 1) (planar_chroma frame) (div_ceil (unat (pf_height frame)) 2) (div_ceil (unat (pf_width frame)) 2 * 2) (pf_chroma_stride frame)) (\<lambda>chroma.
       Inr [luma, chroma]))"

definition make_pixel_buffer :: "'h vt_encode_hw \<Rightarrow> PlanarFrame \<Rightarrow> 'h VtEncoder \<Rightarrow> EncodeError + u8 list list list" where
  "make_pixel_buffer H frame e =
     (if pf_format frame \<noteq> Nv12 then Inl (BadConfig ''VideoToolbox requires NV12 input'')
      else let status = eh_buffer H (pf_width frame) (pf_height frame) (te_pixel_format e)
           in if status \<noteq> 0 then Inl (EncodeFailed (''CVPixelBufferCreate failed: '' @ show_int status))
              else if eh_lock H \<noteq> 0 then Inl (EncodeFailed (''could not lock pixel buffer: '' @ show_int (eh_lock H)))
              else copy_planes H frame)"

definition extract_parameter_sets :: "vt_sample \<Rightarrow> u8 list option" where
  "extract_parameter_sets s = (case vs_sets s of
       None \<Rightarrow> None
     | Some sets \<Rightarrow> if sets = [] \<or> [] \<in> set sets then None else Some (concat (map (\<lambda>u. START_CODE @ u) sets)))"

definition extract_annex_b :: "vt_sample \<Rightarrow> u8 list option" where
  "extract_annex_b s = (case vs_data s of None \<Rightarrow> None | Some avcc \<Rightarrow> if avcc = [] then None else Some (avcc_to_annex_b avcc))"

definition output_callback :: "vt_sample \<Rightarrow> 'h VtEncoder \<Rightarrow> 'h VtEncoder" where
  "output_callback s e =
     (if vs_status s \<noteq> 0 \<or> vs_dropped s then e
      else case extract_annex_b s of
          None \<Rightarrow> e
        | Some data \<Rightarrow>
            (let sequence = te_sequence e;
                 ltr_index = te_pending_recovery e;
                 e = e\<lparr>te_sequence := sequence + 1, te_pending_recovery := None\<rparr>;
                 (kind, e) = (if sequence = 0 then (Keyframe, e)
                              else if te_expect_keyframe e then (Keyframe, e\<lparr>te_expect_keyframe := False\<rparr>)
                              else if ltr_index \<noteq> None then (LtrRecovery, e) else (Delta, e));
                 data = (if kind = Keyframe then (case extract_parameter_sets s of Some sets \<Rightarrow> sets @ data | None \<Rightarrow> data) else data)
             in e\<lparr>te_queue := te_queue e @ [\<lparr>ef_data = data, ef_kind = kind, ef_pts_us = te_pts_us e, ef_sequence = sequence,
                    ef_temporal_layer = 0, ef_ltr_index = ltr_index, ef_qp = None\<rparr>]\<rparr>))"

definition complete_frames :: "'h vt_encode_hw \<Rightarrow> string \<Rightarrow> ('h VtEncoder, EncodeError, EncodedFrame list) st" where
  "complete_frames H what e = (case eh_complete H (te_session e) of (status, samples, h) \<Rightarrow>
     let e = fold output_callback samples (e\<lparr>te_session := h\<rparr>)
     in if status \<noteq> 0 then (Inl (EncodeFailed (what @ show_int status)), e) else (Inr (te_queue e), e\<lparr>te_queue := []\<rparr>))"

definition vt_encode :: "'h vt_encode_hw \<Rightarrow> PlanarFrame \<Rightarrow> u64 \<Rightarrow> ('h VtEncoder, EncodeError, EncodedFrame list) st" where
  "vt_encode H frame pts_us e =
     (if pf_width frame \<noteq> ec_width (te_config e) \<or> pf_height frame \<noteq> ec_height (te_config e)
      then (Inl (GeometryMismatch (pf_width frame) (pf_height frame) (ec_width (te_config e)) (ec_height (te_config e))), e)
      else let e = e\<lparr>te_pixel_format := (case cv_range (pf_config frame) of FullRange \<Rightarrow> PIXEL_FORMAT_NV12_FULL | Limited \<Rightarrow> PIXEL_FORMAT_NV12_VIDEO)\<rparr>
           in case make_pixel_buffer H frame e of
                Inl err \<Rightarrow> (Inl err, e)
              | Inr planes \<Rightarrow>
                  (let e = e\<lparr>te_pending_recovery := te_pending_ltr e, te_pending_ltr := None, te_expect_keyframe := te_force_keyframe e, te_pts_us := pts_us\<rparr>
                   in case eh_encode H planes pts_us (max (ec_fps (te_config e)) 1) (te_force_keyframe e) (te_session e) of
                        (status, samples, h) \<Rightarrow>
                          (let e = fold output_callback samples (e\<lparr>te_session := h\<rparr>)
                           in if status \<noteq> 0 then (Inl (EncodeFailed (''encode_frame failed: '' @ show_int status)), e)
                              else complete_frames H ''complete_frames failed: '' (e\<lparr>te_force_keyframe := False\<rparr>))))"

definition vt_request_recovery :: "RecoveryMode \<Rightarrow> ('h VtEncoder, EncodeError, unit) st" where
  "vt_request_recovery mode e = (Inr (), e\<lparr>te_force_keyframe := True, te_pending_ltr := None\<rparr>)"

definition vt_set_bitrate :: "'h vt_encode_hw \<Rightarrow> u32 \<Rightarrow> ('h VtEncoder, EncodeError, unit) st" where
  "vt_set_bitrate H bps e = set_property H ''AverageBitRate'' (VtInt (sint bps)) (e\<lparr>te_config := (te_config e)\<lparr>ec_bitrate_bps := bps\<rparr>\<rparr>)"

definition vt_set_fps :: "'h vt_encode_hw \<Rightarrow> u8 \<Rightarrow> ('h VtEncoder, EncodeError, unit) st" where
  "vt_set_fps H fps e = set_property H ''ExpectedFrameRate'' (VtInt (int (unat (max fps 1)))) (e\<lparr>te_config := (te_config e)\<lparr>ec_fps := max fps 1\<rparr>\<rparr>)"

definition vt_video_encoder :: "'h vt_encode_hw \<Rightarrow> ('h VtEncoder) VideoEncoder" where
  "vt_video_encoder H =
     \<lparr>ve_encode = vt_encode H, ve_set_bitrate = vt_set_bitrate H, ve_set_fps = vt_set_fps H, ve_request_recovery = vt_request_recovery,
      ve_flush = complete_frames H ''flush failed: '', ve_config = te_config\<rparr>"

subsection \<open>The decoder\<close>

text \<open>One invocation of the decoded-frame callback; the bytes are those readable at the base address of the locked buffer.\<close>

record vt_image =
  vi_status :: int
  vi_present :: bool
  vi_lock :: int
  vi_width :: nat
  vi_height :: nat
  vi_stride :: nat
  vi_base :: "u8 list option"

text \<open>The calls on a decompression session: building the format description (the code sets and drops it together with the session) and
  the session from the two parameter sets, allocating a block, copying the bytes into it and wrapping it as a sample, decoding it,
  and waiting for what is outstanding. A call that may hand out a null pointer answers with the status of its failure.\<close>

record 'h vt_decode_hw =
  dh_format :: "u8 list \<Rightarrow> u8 list \<Rightarrow> int option"
  dh_create :: "u8 list \<Rightarrow> u8 list \<Rightarrow> int + 'h"
  dh_block :: "nat \<Rightarrow> int option"
  dh_replace :: "u8 list \<Rightarrow> int"
  dh_sample :: "u8 list \<Rightarrow> u64 \<Rightarrow> int option"
  dh_decode :: "u8 list \<Rightarrow> u64 \<Rightarrow> 'h \<Rightarrow> int \<times> vt_image list \<times> 'h"
  dh_wait :: "'h \<Rightarrow> vt_image list \<times> 'h"

record 'h VtDecoder =
  td_session :: "'h option"
  td_sps :: "u8 list option"
  td_pps :: "u8 list option"
  td_queue :: "DecodedFrame list"
  td_sequence :: u64
  td_pts_us :: u64

definition vt_decoder_new :: "'h VtDecoder" where
  "vt_decoder_new = \<lparr>td_session = None, td_sps = None, td_pps = None, td_queue = [], td_sequence = 0, td_pts_us = 0\<rparr>"

definition absorb_unit :: "u8 list \<Rightarrow> bool \<times> 'h VtDecoder \<Rightarrow> bool \<times> 'h VtDecoder" where
  "absorb_unit u = (\<lambda>(changed, d).
     if nal_type u = Some NAL_SPS \<and> td_sps d \<noteq> Some u then (True, d\<lparr>td_sps := Some u\<rparr>)
     else if nal_type u = Some NAL_PPS \<and> td_pps d \<noteq> Some u then (True, d\<lparr>td_pps := Some u\<rparr>)
     else (changed, d))"

definition absorb_parameter_sets :: "u8 list \<Rightarrow> 'h VtDecoder \<Rightarrow> bool \<times> 'h VtDecoder" where
  "absorb_parameter_sets data d = fold absorb_unit (split_annex_b data) (False, d)"

definition decoded_callback :: "vt_image \<Rightarrow> 'h VtDecoder \<Rightarrow> 'h VtDecoder" where
  "decoded_callback i d =
     (if vi_status i \<noteq> 0 \<or> \<not> vi_present i \<or> vi_lock i \<noteq> 0 then d
      else let width = word_of_nat (vi_width i) :: u32; height = word_of_nat (vi_height i) :: u32
           in case vi_base i of
                None \<Rightarrow> d
              | Some base \<Rightarrow> d\<lparr>td_sequence := td_sequence d + 1, td_queue := td_queue d @
                    [\<lparr>df_data = take (vi_stride i * unat height) base, df_width = width, df_height = height, df_stride = vi_stride i,
                      df_pts_us = td_pts_us d, df_sequence = td_sequence d\<rparr>]\<rparr>)"

definition build_session :: "'h vt_decode_hw \<Rightarrow> 'h VtDecoder \<Rightarrow> VideoError + 'h" where
  "build_session H d = (case (td_sps d, td_pps d) of
       (Some sps, Some pps) \<Rightarrow>
         (case dh_format H sps pps of
            Some status \<Rightarrow> Inl (MalformedBitstream (''could not build a format description from the parameter sets: '' @ show_int status))
          | None \<Rightarrow>
              (case dh_create H sps pps of
                 Inl status \<Rightarrow> Inl (DecoderUnavailable (''VTDecompressionSessionCreate failed with status '' @ show_int status))
               | Inr h \<Rightarrow> Inr h))
     | _ \<Rightarrow> Inl AwaitingParameterSets)"

definition make_sample_buffer :: "'h vt_decode_hw \<Rightarrow> u8 list \<Rightarrow> u64 \<Rightarrow> VideoError + unit" where
  "make_sample_buffer H avcc pts_us = (case dh_block H (length avcc) of
       Some status \<Rightarrow> Inl (DecodeFailed (''CMBlockBufferCreate failed: '' @ show_int status))
     | None \<Rightarrow>
         if dh_replace H avcc \<noteq> 0 then Inl (DecodeFailed (''CMBlockBufferReplaceDataBytes failed: '' @ show_int (dh_replace H avcc)))
         else (case dh_sample H avcc pts_us of
             Some status \<Rightarrow> Inl (DecodeFailed (''CMSampleBufferCreate failed: '' @ show_int status))
           | None \<Rightarrow> Inr ()))"

text \<open>Decoding with a session.\<close>

definition decode_sample :: "'h vt_decode_hw \<Rightarrow> u8 list \<Rightarrow> u64 \<Rightarrow> 'h \<Rightarrow> ('h VtDecoder, VideoError, DecodedFrame list) st" where
  "decode_sample H avcc pts_us h d =
     (if avcc = [] then (Inr [], d)
      else let d = d\<lparr>td_pts_us := pts_us\<rparr>
           in case make_sample_buffer H avcc pts_us of
                Inl e \<Rightarrow> (Inl e, d)
              | Inr _ \<Rightarrow>
                  (case dh_decode H avcc pts_us h of (status, images, h) \<Rightarrow>
                     let d = fold decoded_callback images (d\<lparr>td_session := Some h\<rparr>)
                     in if status \<noteq> 0 then (Inl (DecodeFailed (''decode_frame failed: '' @ show_int status)), d)
                        else case dh_wait H h of (images, h) \<Rightarrow>
                          let d = fold decoded_callback images (d\<lparr>td_session := Some h\<rparr>)
                          in (Inr (td_queue d), d\<lparr>td_queue := []\<rparr>)))"

definition vt_decode :: "'h vt_decode_hw \<Rightarrow> u8 list \<Rightarrow> u64 \<Rightarrow> bool \<Rightarrow> ('h VtDecoder, VideoError, DecodedFrame list) st" where
  "vt_decode H data pts_us is_keyframe d =
     (let (changed, d) = absorb_parameter_sets data d;
          d = (if changed \<and> td_session d \<noteq> None then d\<lparr>td_session := None\<rparr> else d)
      in case td_session d of
           Some h \<Rightarrow> decode_sample H (annex_b_to_avcc data) pts_us h d
         | None \<Rightarrow>
             if \<not> has_parameter_sets data \<and> td_sps d = None then (Inl AwaitingParameterSets, d)
             else (case build_session H d of
                 Inl e \<Rightarrow> (Inl e, d)
               | Inr h \<Rightarrow> decode_sample H (annex_b_to_avcc data) pts_us h (d\<lparr>td_session := Some h\<rparr>)))"

definition vt_reset :: "'h VtDecoder \<Rightarrow> 'h VtDecoder" where
  "vt_reset d = d\<lparr>td_session := None, td_sps := None, td_pps := None, td_queue := []\<rparr>"

definition vt_video_decoder :: "'h vt_decode_hw \<Rightarrow> ('h VtDecoder) VideoDecoder" where
  "vt_video_decoder H = \<lparr>vd_decode = vt_decode H, vd_reset = vt_reset\<rparr>"

subsection \<open>There and back\<close>

definition avcc_unit :: "u8 list \<Rightarrow> u8 list" where
  "avcc_unit u = to_be_bytes32 (word_of_nat (length u)) @ u"

definition avcc_of :: "u8 list list \<Rightarrow> u8 list" where
  "avcc_of us = concat (map avcc_unit us)"

definition annex_of :: "u8 list list \<Rightarrow> u8 list" where
  "annex_of us = concat (map (\<lambda>u. START_CODE @ u) us)"

lemma avcc_loop_unit:
  assumes "u \<noteq> []" "length u < 2 ^ 32"
  shows "avcc_loop (pre @ avcc_unit u @ post) (length pre) out =
    avcc_loop (pre @ avcc_unit u @ post) (length pre + 4 + length u) (out @ START_CODE @ u)"
proof -
  obtain a b c d where w: "to_be_bytes32 (word_of_nat (length u)) = [a, b, c, d]" by (simp add: to_be_bytes32_def)
  then have "unat (from_be_bytes32 a b c d) = length u"
    using from_to_be_bytes32 [of "word_of_nat (length u)"] assms(2)
    by (simp add: to_be_bytes32_def unat_of_nat take_bit_nat_eq_self)
  then show ?thesis
    using assms(1) by (subst avcc_loop.simps) (simp add: avcc_unit_def w nth_append Let_def)
qed

lemma avcc_loop_units:
  "list_all (\<lambda>u. u \<noteq> [] \<and> length u < 2 ^ 32) us \<Longrightarrow>
   avcc_loop (pre @ avcc_of us) (length pre) out = Some (length (pre @ avcc_of us), out @ annex_of us)"
proof (induction us arbitrary: pre out)
  case Nil
  then show ?case by (subst avcc_loop.simps) (simp add: avcc_of_def annex_of_def)
next
  case (Cons u us)
  have "avcc_loop (pre @ avcc_of (u # us)) (length pre) out =
      avcc_loop ((pre @ avcc_unit u) @ avcc_of us) (length (pre @ avcc_unit u)) (out @ START_CODE @ u)"
    using avcc_loop_unit [of u pre "avcc_of us" out] Cons.prems by (simp add: avcc_of_def avcc_unit_def add.assoc)
  also have "\<dots> = Some (length ((pre @ avcc_unit u) @ avcc_of us), (out @ START_CODE @ u) @ annex_of us)"
    using Cons.prems by (intro Cons.IH) simp
  finally show ?case by (simp add: avcc_of_def annex_of_def)
qed

lemma avcc_to_annex_b_units:
  assumes "list_all (\<lambda>u. u \<noteq> [] \<and> length u < 2 ^ 32) us" "us \<noteq> []"
  shows "avcc_to_annex_b (avcc_of us) = annex_of us"
  using avcc_loop_units [OF assms(1), of "[]" "[]"] assms(2)
  by (cases us) (simp_all add: avcc_to_annex_b_def annex_of_def START_CODE_def)

lemma annex_of_eq: "annex_of us = annex_b (map (Pair True) us)"
  by (induction us) (simp_all add: annex_of_def START_CODE_def start_code_def)

lemma split_annex_of: "list_all nal_body us \<Longrightarrow> split_annex_b (annex_of us) = us"
  unfolding annex_of_eq
  using annex_units_annex_b [of "map (Pair True) us" "[]"] by (simp add: split_annex_b_def annex_scan_eq list_all_iff comp_def)

text \<open>C38. Keyframes start a decoder on their own. When the hardware hands the encoder's callback a sample made of units of a picture, with the
  two parameter sets in its format description, for the first frame or one that was forced, the frame queued is a keyframe whose
  bytes give any decoder exactly these two sets and exactly the bytes of that sample, however the decoder stood before.\<close>

theorem keyframe_self_starting:
  assumes "te_sequence e = 0 \<or> te_expect_keyframe e" "vs_status s = 0" "\<not> vs_dropped s"
    and "vs_data s = Some (avcc_of us)" "vs_sets s = Some [sps, pps]"
    and "us \<noteq> []" "list_all (\<lambda>u. nal_body u \<and> length u < 2 ^ 32 \<and> \<not> is_parameter_set u) us"
    and "nal_body sps" "nal_type sps = Some NAL_SPS" "nal_body pps" "nal_type pps = Some NAL_PPS"
  shows "\<exists>f. te_queue (output_callback s e) = te_queue e @ [f] \<and> ef_kind f = Keyframe \<and> has_parameter_sets (ef_data f) \<and>
    annex_b_to_avcc (ef_data f) = avcc_of us \<and>
    td_sps (snd (absorb_parameter_sets (ef_data f) d)) = Some sps \<and> td_pps (snd (absorb_parameter_sets (ef_data f) d)) = Some pps"
proof -
  have ok: "list_all (\<lambda>u. u \<noteq> [] \<and> length u < 2 ^ 32) us" "list_all nal_body (sps # pps # us)"
    using assms(7,8,10) by (auto simp: list_all_iff nal_body_def)
  have ne: "avcc_of us \<noteq> []" using assms(6) by (cases us) (simp_all add: avcc_of_def avcc_unit_def to_be_bytes32_def)
  have data: "extract_annex_b s = Some (annex_of us)"
    using ne by (simp add: extract_annex_b_def assms(4) avcc_to_annex_b_units [OF ok(1) assms(6)])
  have sets: "extract_parameter_sets s = Some (annex_of [sps, pps])"
    using assms(8,10) by (auto simp: extract_parameter_sets_def assms(5) annex_of_def nal_body_def)
  have app: "annex_of [sps, pps] @ annex_of us = annex_of (sps # pps # us)" by (simp add: annex_of_def)
  let ?bytes = "annex_of (sps # pps # us)"
  have "te_queue (output_callback s e) = te_queue e @ [\<lparr>ef_data = ?bytes, ef_kind = Keyframe, ef_pts_us = te_pts_us e, ef_sequence = te_sequence e,
      ef_temporal_layer = 0, ef_ltr_index = te_pending_recovery e, ef_qp = None\<rparr>]"
    using assms(1-3) by (cases "te_sequence e = 0") (simp_all add: output_callback_def data sets app Let_def)
  then obtain f where f: "te_queue (output_callback s e) = te_queue e @ [f]" "ef_kind f = Keyframe" "ef_data f = ?bytes" by force
  have sp: "split_annex_b ?bytes = sps # pps # us" using ok(2) by (rule split_annex_of)
  have ps: "is_parameter_set sps" "is_parameter_set pps" using assms(9,11) by (simp_all add: is_parameter_set_def)
  have keep: "td_sps (snd (fold absorb_unit us cd)) = td_sps (snd cd)" "td_pps (snd (fold absorb_unit us cd)) = td_pps (snd cd)" for cd
    using assms(7) by (induction us arbitrary: cd) (auto simp: absorb_unit_def is_parameter_set_def split: prod.splits)
  have "annex_b_to_avcc ?bytes = avcc_of us"
    using assms(7) ps by (simp add: annex_b_to_avcc_def sp avcc_of_def avcc_unit_def list_all_iff cong: map_cong)
  moreover have "has_parameter_sets ?bytes"
    by (simp add: has_parameter_sets_def sp assms(9,11) map_filter_simps)
  moreover have "td_sps (snd (absorb_parameter_sets ?bytes d)) = Some sps" "td_pps (snd (absorb_parameter_sets ?bytes d)) = Some pps"
    using assms(9,11) by (auto simp: absorb_parameter_sets_def sp keep absorb_unit_def NAL_SPS_def NAL_PPS_def)
  ultimately show ?thesis using f by auto
qed

text \<open>Annex B input is not left alone. The conversion promises to pass a stream through that is Annex B already; a start code is also
  the length one, and if the bytes after the first one of the unit happen to be a length that reaches the end, they are replaced
  by a start code. The unit below is one H.264 could produce: it contains no start code and does not end in zero.\<close>

theorem annex_b_input_corrupted:
  "let u = [0x65, 0, 0, 3, 0] @ replicate 768 1
   in nal_body u \<and> avcc_to_annex_b (annex_of [u]) = annex_of [[0x65], replicate 768 1]"
  by code_simp

subsection \<open>Requests and state\<close>

text \<open>A request for recovery is forgotten when the hardware drops the frame. The next encode call passes the request on; if every sample it
  causes is reported as dropped, no frame comes out and the request is gone, so the encoder goes on with ordinary frames.\<close>

lemma fold_dropped: "list_all vs_dropped samples \<Longrightarrow> fold output_callback samples e = e"
  by (induction samples) (simp_all add: output_callback_def)

theorem dropped_keyframe_forgets_request:
  assumes "(pf_width frame, pf_height frame) = (ec_width (te_config e), ec_height (te_config e))" "te_queue e = []"
    and "make_pixel_buffer H frame (e\<lparr>te_force_keyframe := True, te_pending_ltr := None,
      te_pixel_format := (case cv_range (pf_config frame) of FullRange \<Rightarrow> PIXEL_FORMAT_NV12_FULL | Limited \<Rightarrow> PIXEL_FORMAT_NV12_VIDEO)\<rparr>) = Inr planes"
    and "eh_encode H planes pts_us (max (ec_fps (te_config e)) 1) True (te_session e) = (0, samples, h)" "list_all vs_dropped samples"
    and "eh_complete H h = (0, samples', h')" "list_all vs_dropped samples'"
  shows "\<exists>e'. sbind (vt_request_recovery mode) (\<lambda>_. vt_encode H frame pts_us) e = (Inr [], e') \<and> \<not> te_force_keyframe e' \<and> te_pending_ltr e' = None"
  using assms
  by (simp add: sbind_def vt_request_recovery_def vt_encode_def complete_frames_def Let_def fold_dropped)

text \<open>The decoder has a session only while it knows both parameter sets, and every picture it hands on is consistent, if the system's
  buffers are as large as they say.\<close>

definition td_ok :: "'h VtDecoder \<Rightarrow> bool" where
  "td_ok d \<longleftrightarrow> (td_session d \<noteq> None \<longrightarrow> td_sps d \<noteq> None \<and> td_pps d \<noteq> None) \<and> list_all is_consistent (td_queue d)"

definition image_ok :: "vt_image \<Rightarrow> bool" where
  "image_ok i \<longleftrightarrow> 0 < vi_width i \<and> vi_width i < 2 ^ 32 \<and> 0 < vi_height i \<and> vi_height i < 2 ^ 32 \<and> vi_stride i \<ge> vi_width i * 4 \<and>
     (case vi_base i of None \<Rightarrow> True | Some base \<Rightarrow> length base \<ge> vi_stride i * vi_height i)"

definition decode_hw_ok :: "'h vt_decode_hw \<Rightarrow> bool" where
  "decode_hw_ok H \<longleftrightarrow> (\<forall>avcc pts h. list_all image_ok (fst (snd (dh_decode H avcc pts h)))) \<and> (\<forall>h. list_all image_ok (fst (dh_wait H h)))"

lemma absorb_units_keep:
  "td_session (snd (fold absorb_unit us cd)) = td_session (snd cd)" "td_queue (snd (fold absorb_unit us cd)) = td_queue (snd cd)"
  "td_sps (snd cd) \<noteq> None \<Longrightarrow> td_sps (snd (fold absorb_unit us cd)) \<noteq> None" "td_pps (snd cd) \<noteq> None \<Longrightarrow> td_pps (snd (fold absorb_unit us cd)) \<noteq> None"
  by (induction us arbitrary: cd) (auto simp: absorb_unit_def split: prod.splits)

lemma absorb_ok:
  assumes "td_ok d" "absorb_parameter_sets data d = (changed, d')"
  shows "td_ok d'"
proof -
  have d': "d' = snd (fold absorb_unit (split_annex_b data) (False, d))" using assms(2) by (simp add: absorb_parameter_sets_def)
  show ?thesis using assms(1) absorb_units_keep [where us = "split_annex_b data" and cd = "(False, d)"] by (auto simp: td_ok_def d')
qed

lemma decoded_callback_ok:
  assumes "td_ok d" "image_ok i"
  shows "td_ok (decoded_callback i d)"
  using assms
  by (auto simp: td_ok_def image_ok_def decoded_callback_def is_consistent_def Let_def word_gt_0 unat_of_nat take_bit_nat_eq_self
      word_of_nat_eq_0_iff unsigned_eq_0_iff [symmetric] nat_dvd_not_less split: option.splits)

lemma fold_decoded_ok: "td_ok d \<Longrightarrow> list_all image_ok is \<Longrightarrow> td_ok (fold decoded_callback is d)"
  by (induction "is" arbitrary: d) (simp_all add: decoded_callback_ok)

lemma decode_sample_ok:
  assumes "decode_hw_ok H" "td_ok d" "td_session d = Some h"
  shows "td_ok (snd (decode_sample H avcc pts h d)) \<and> (\<forall>fs. fst (decode_sample H avcc pts h d) = Inr fs \<longrightarrow> list_all is_consistent fs)"
proof -
  obtain status images h1 where e: "dh_decode H avcc pts h = (status, images, h1)" by (metis prod.collapse)
  obtain images' h2 where w: "dh_wait H h1 = (images', h2)" by fastforce
  have im: "list_all image_ok images" "list_all image_ok images'"
    using assms(1) e w by (auto simp: decode_hw_ok_def) (metis fst_conv snd_conv)+
  let ?d1 = "fold decoded_callback images (d\<lparr>td_pts_us := pts, td_session := Some h1\<rparr>)"
  have d1: "td_ok ?d1" using assms(2,3) im(1) by (intro fold_decoded_ok) (auto simp: td_ok_def)
  have keep: "td_sps (fold decoded_callback is x) = td_sps x \<and> td_pps (fold decoded_callback is x) = td_pps x \<and>
      td_session (fold decoded_callback is x) = td_session x" for "is" and x :: "'a VtDecoder"
    by (induction "is" arbitrary: x) (auto simp: decoded_callback_def Let_def split: option.splits)
  have "td_ok (fold decoded_callback images' (?d1\<lparr>td_session := Some h2\<rparr>))"
    using d1 im(2) keep [of images] assms(2,3) by (intro fold_decoded_ok) (auto simp: td_ok_def)
  with d1 assms(2) show ?thesis
    by (auto simp: decode_sample_def Let_def e w td_ok_def split: sum.splits)
qed

text \<open>Whatever bytes arrive, decoding and resetting keep the decoder with a session only while it has both parameter sets, and
  the pictures it returns are consistent, as long as the buffers the system delivers are as large as they say.\<close>

theorem hardware_frames_consistent:
  assumes "decode_hw_ok H" "td_ok d"
  shows "td_ok (vt_reset d) \<and> td_ok (snd (vt_decode H data pts kf d)) \<and>
    (\<forall>fs. fst (vt_decode H data pts kf d) = Inr fs \<longrightarrow> list_all is_consistent fs)"
proof -
  obtain changed d1 where a: "absorb_parameter_sets data d = (changed, d1)" by fastforce
  have d1: "td_ok d1" using assms(2) a by (rule absorb_ok)
  define d2 where "d2 = (if changed \<and> td_session d1 \<noteq> None then d1\<lparr>td_session := None\<rparr> else d1)"
  have d2: "td_ok d2" using d1 by (simp add: d2_def td_ok_def)
  let ?avcc = "annex_b_to_avcc data"
  have run: "vt_decode H data pts kf d = (case td_session d2 of
        Some h \<Rightarrow> decode_sample H ?avcc pts h d2
      | None \<Rightarrow> if \<not> has_parameter_sets data \<and> td_sps d2 = None then (Inl AwaitingParameterSets, d2)
          else (case build_session H d2 of Inl e \<Rightarrow> (Inl e, d2) | Inr h \<Rightarrow> decode_sample H ?avcc pts h (d2\<lparr>td_session := Some h\<rparr>)))"
    by (simp only: vt_decode_def a Let_def prod.case d2_def)
  have built: "td_ok (d2\<lparr>td_session := Some h\<rparr>)" if "build_session H d2 = Inr h" for h
    using that d2 by (auto simp: build_session_def td_ok_def split: option.splits sum.splits)
  have "td_ok (snd (vt_decode H data pts kf d)) \<and> (\<forall>fs. fst (vt_decode H data pts kf d) = Inr fs \<longrightarrow> list_all is_consistent fs)"
  proof (cases "td_session d2")
    case (Some h)
    then show ?thesis using decode_sample_ok [OF assms(1) d2 Some, of ?avcc pts] by (simp add: run)
  next
    case None
    have "td_ok (snd (decode_sample H ?avcc pts h (d2\<lparr>td_session := Some h\<rparr>))) \<and>
        (\<forall>fs. fst (decode_sample H ?avcc pts h (d2\<lparr>td_session := Some h\<rparr>)) = Inr fs \<longrightarrow> list_all is_consistent fs)"
      if "build_session H d2 = Inr h" for h
      using decode_sample_ok [OF assms(1) built [OF that], of h ?avcc pts] by simp
    then show ?thesis using None d2 by (cases "build_session H d2") (auto simp: run)
  qed
  then show ?thesis by (simp add: td_ok_def vt_reset_def)
qed

text \<open>The hypotheses hold for a keyframe with one slice, and it starts a decoder that has seen nothing.\<close>

lemma keyframe_self_starting_witness:
  "\<exists>f. te_queue (output_callback
        \<lparr>vs_status = 0, vs_dropped = False, vs_data = Some (avcc_of [[0x65, 0x88]]), vs_sets = Some [[0x67, 0x42], [0x68, 0xCE]]\<rparr>
        \<lparr>te_session = (), te_config = encoder_config_default, te_sequence = 0, te_pending_recovery = None, te_expect_keyframe = True, te_pts_us = 7,
         te_queue = [], te_pixel_format = PIXEL_FORMAT_NV12_FULL, te_force_keyframe = True, te_pending_ltr = None\<rparr>) = [f] \<and>
      annex_b_to_avcc (ef_data f) = avcc_of [[0x65, 0x88]]"
proof -
  have "nal_body [0x65, 0x88]" "nal_body [0x67, 0x42]" "nal_body [0x68, 0xCE]" "\<not> is_parameter_set [0x65, 0x88]"
    "nal_type [0x67, 0x42] = Some NAL_SPS" "nal_type [0x68, 0xCE] = Some NAL_PPS"
    by code_simp+
  then show ?thesis
    using keyframe_self_starting [where us = "[[0x65, 0x88]]" and sps = "[0x67, 0x42]" and pps = "[0x68, 0xCE]" and d = vt_decoder_new and
        s = "\<lparr>vs_status = 0, vs_dropped = False, vs_data = Some (avcc_of [[0x65, 0x88]]), vs_sets = Some [[0x67, 0x42], [0x68, 0xCE]]\<rparr>" and
        e = "\<lparr>te_session = (), te_config = encoder_config_default, te_sequence = 0, te_pending_recovery = None, te_expect_keyframe = True, te_pts_us = 7,
          te_queue = [], te_pixel_format = PIXEL_FORMAT_NV12_FULL, te_force_keyframe = True, te_pending_ltr = None\<rparr>"]
    by auto
qed

end
