(* ===== verification/Spec2Isabelle.thy ===== *)
theory Spec2Isabelle
  imports Rda_Seq Rda_Injector Rda_Jitter Rda_HostSession Rda_Server Rda_Pipeline Rda_ClientStream Rda_InputEncoder Rda_Serve Rda_NetSim Rda_Negotiate Rda_SignalClient Rda_FfiClient Rda_Keystore Rda_CaptureThread Rda_VideoToolbox
begin

text \<open>
  A verification library for a remote desktop system: a host that shares its screen and takes input, a viewer that controls it, and
  a rendezvous server through which the two find each other. The sources are the Rust crates under \<^verbatim>\<open>src/crates\<close>.

  \<^bold>\<open>How the parts interact.\<close> Both ends register with the server under an identifier derived from their signing key
  (\<^verbatim>\<open>rda-signal-client\<close> against \<^verbatim>\<open>rda-signal-server\<close>), the viewer asks for a host, and the two negotiate a peer connection through the
  server (\<^verbatim>\<open>rda-session/src/negotiate.rs\<close>). Over its control channel they authenticate with a PIN, each binding the exchange to the
  connection's fingerprints (\<^verbatim>\<open>rda-session/src/auth.rs\<close> over \<^verbatim>\<open>rda-crypto\<close>). The host then grants capabilities and runs a loop
  (\<^verbatim>\<open>rda-host/src/serve.rs\<close>): captured frames go through colour conversion, rate control and the encoder, are cut into fragments
  and sent; control frames that come back are decoded and applied to the machine by the injector, under the grant. The viewer
  (\<^verbatim>\<open>rda-client\<close>) reassembles, buffers, decodes and shows the frames and encodes the user's input. \<^verbatim>\<open>rda-ffi\<close> offers both directions to
  an application in another language, and \<^verbatim>\<open>rda-netsim\<close> simulates links for the tests.

  \<^bold>\<open>Foundations.\<close>
  \<^item> \<^verbatim>\<open>Rda_Prelude\<close>: machine words, saturating arithmetic, results as sums, the state-and-error composition \<open>sbind\<close>, reachability, and
    the locale \<open>inductive_invariant\<close> through which every invariant below is derived.
  \<^item> \<^verbatim>\<open>Rda_Utf8\<close>, \<^verbatim>\<open>Rda_BTree\<close>, \<^verbatim>\<open>Rda_Float\<close>, \<^verbatim>\<open>Rda_Window\<close>: what the sources use of strings, ordered maps, floating point and
    counting windows. A finite \<open>f64\<close> or \<open>f32\<close> is the rational it stands for and every operation rounds to 53 or 24 bits,
    half to even; subnormal numbers, infinities and NaN, which the modelled code does not produce, are left out. The locale \<open>window_limiter\<close> gives the budget bound of the
    malformed-frame counter, the input rate guard and the server's limiter.
  \<^item> \<^verbatim>\<open>Rda_Primitives\<close>: the cryptographic libraries as a record of functions; what is relied on (signatures verify, encodings
    decode, two sides of SPAKE2 agree) are named hypotheses, satisfied by \<open>toy_primitives\<close> in the witnesses.

  \<^bold>\<open>Protocol\<close> (\<^verbatim>\<open>rda-proto\<close>).
  \<^item> \<^verbatim>\<open>Rda_Seq\<close> (\<^verbatim>\<open>seq.rs\<close>): wrap-around sequence numbers refine unbounded counters.
  \<^item> \<^verbatim>\<open>Rda_Wire\<close>, \<^verbatim>\<open>Rda_Codec\<close> (\<^verbatim>\<open>control.rs\<close>): the reader, all payloads, the frame header; encoding and decoding are inverse on
    well-formed frames, and whatever is decoded is well formed.
  \<^item> \<^verbatim>\<open>Rda_Fragments\<close> (\<^verbatim>\<open>control.rs\<close>, \<^verbatim>\<open>rda-decode/src/reassembly.rs\<close>): fragments in any order give the frame back, frames are never
    spliced, memory is bounded.
  \<^item> \<^verbatim>\<open>Rda_Caps\<close>, \<^verbatim>\<open>Rda_Ids\<close>, \<^verbatim>\<open>Rda_Signaling\<close> (\<^verbatim>\<open>caps.rs\<close>, \<^verbatim>\<open>ids.rs\<close>, \<^verbatim>\<open>signaling.rs\<close>): capability sets and their meet, identifiers,
    signalling messages.

  \<^bold>\<open>Authentication and authorisation.\<close>
  \<^item> \<^verbatim>\<open>Rda_Identity\<close>, \<^verbatim>\<open>Rda_Keystore\<close>, \<^verbatim>\<open>Rda_Binding\<close>, \<^verbatim>\<open>Rda_Pake\<close>, \<^verbatim>\<open>Rda_Sas\<close>, \<^verbatim>\<open>Rda_Token\<close> (\<^verbatim>\<open>rda-crypto\<close>): identities and their file,
    the fingerprint binding, the PIN exchange with its three attempts, the words to compare, unattended tokens.
  \<^item> \<^verbatim>\<open>Rda_HostSession\<close> (\<^verbatim>\<open>rda-host/src/session.rs\<close>): the state machine as a step relation; a grant exists exactly in the established
    state and only after every check, failures are final, an honest controller gets in.
  \<^item> \<^verbatim>\<open>Rda_Handshake\<close> (\<^verbatim>\<open>rda-session/src/auth.rs\<close>): both sides over encoded bytes; honest ends complete it.
  \<^item> \<^verbatim>\<open>Rda_Server\<close>, \<^verbatim>\<open>Rda_SignalClient\<close>, \<^verbatim>\<open>Rda_Negotiate\<close> (\<^verbatim>\<open>rda-signal-server\<close>, \<^verbatim>\<open>rda-signal-client\<close>, \<^verbatim>\<open>rda-session/src/negotiate.rs\<close>): the
    server's handlers as a step relation over connections and the registry; registered devices proved their keys, session messages
    stay in the session, a client registers; negotiation returns and keeps the host's candidates.

  \<^bold>\<open>Input.\<close> \<^verbatim>\<open>Rda_Hid\<close>, \<^verbatim>\<open>Rda_KeyState\<close>, \<^verbatim>\<open>Rda_Backend\<close>, \<^verbatim>\<open>Rda_Grant\<close>, \<^verbatim>\<open>Rda_Injector\<close> (\<^verbatim>\<open>rda-input\<close>): nothing is injected without the capability,
    every key event passes every guard, the keys down on the machine are those tracked, and teardown frees them. The locale
    \<open>input_backend\<close> is the interface of the platforms; the recording backend interprets it. \<^verbatim>\<open>Rda_InputEncoder\<close> (\<^verbatim>\<open>rda-ffi/src/input.rs\<close>)
    is the sender behind the C interface.

  \<^bold>\<open>Video.\<close> \<^verbatim>\<open>Rda_Capture\<close>, \<^verbatim>\<open>Rda_CaptureThread\<close>, \<^verbatim>\<open>Rda_Convert\<close>, \<^verbatim>\<open>Rda_Telemetry\<close>, \<^verbatim>\<open>Rda_Rate\<close>, \<^verbatim>\<open>Rda_Encoder\<close>, \<^verbatim>\<open>Rda_Pipeline\<close>, \<^verbatim>\<open>Rda_Jitter\<close>,
    \<^verbatim>\<open>Rda_Decoder\<close>, \<^verbatim>\<open>Rda_Viewer\<close>, \<^verbatim>\<open>Rda_FfiClient\<close> (\<^verbatim>\<open>rda-capture\<close>, \<^verbatim>\<open>rda-encode\<close>, \<^verbatim>\<open>rda-telemetry\<close>, \<^verbatim>\<open>rda-decode\<close>, \<^verbatim>\<open>rda-client/src/viewer.rs\<close>,
    \<^verbatim>\<open>rda-ffi/src/client.rs\<close>): the path of a frame. \<^verbatim>\<open>Rda_VideoToolbox\<close> (\<^verbatim>\<open>backend/videotoolbox.rs\<close> of \<^verbatim>\<open>rda-encode\<close> and \<^verbatim>\<open>rda-decode\<close>): the hardware
    codecs of macOS around the system's sessions; a keyframe of the one starts the other on its own. The locales \<open>screen_capturer\<close> and \<open>video_encoder\<close> are the platform interfaces, interpreted
    by the synthetic capturer and the recording encoder of the repository.

  \<^bold>\<open>Composition.\<close> \<^verbatim>\<open>Rda_Transport\<close>, \<^verbatim>\<open>Rda_HostStream\<close>, \<^verbatim>\<open>Rda_ClientStream\<close>, \<^verbatim>\<open>Rda_Serve\<close> (\<^verbatim>\<open>rda-transport\<close>, \<^verbatim>\<open>rda-host/src/serve.rs\<close>,
    \<^verbatim>\<open>rda-client/src/session.rs\<close>): the loops of the two ends; a frame sent by one loop is recovered by the other, what the user does
    reaches the injector, and input needs both the operator's option and the handshake. \<^verbatim>\<open>Rda_Rng\<close>, \<^verbatim>\<open>Rda_NetSim\<close> (\<^verbatim>\<open>rda-netsim\<close>): the
    simulator delivers each packet once and in bounded time.

  \<^bold>\<open>Conventions.\<close> A struct is a record, an enum a datatype, an integer a word of its width; lengths are \<open>nat\<close>. A method that mutates takes
  and returns the state; an error is a value, \<open>Inl\<close>. Clock readings, message identifiers, random draws, what a socket or channel
  delivers and whether a send succeeds are arguments. A handler of the server runs to completion; interleavings are sequences of
  handlers. An asynchronous loop is a function of the list of its inputs, one per pass, and \<open>None\<close> says that it has not returned
  within the list: \<open>negotiation_outcome\<close> proves that it returns once the deadline passes. The two loops of the jitter buffer are
  \<open>partial_function\<close>s, proved to return on every input; all other recursion is terminating by proof, with no fuel.

  \<^bold>\<open>Parameters.\<close> Code outside the repository enters as arguments: cryptography, CBOR and JSON, TURN credentials, the H.264 library, the
  VideoToolbox sessions, the window system, the WebRTC stack, the file system's failures. Hypotheses on them state
  their documented behaviour only and are met by concrete functions in the witnesses.

  \<^bold>\<open>Not modelled.\<close> The platform backends for input and capture (calls into operating systems), the Flutter application (Dart),
  the executables' command lines, logging and thread creation, the wiring of WebRTC callbacks in \<^verbatim>\<open>rda-transport/src/session.rs\<close>,
  the reconnect loop around a host session, writing PNG files, the fuzz targets. Rendering of diagnostics is modelled where a
  result carries it.

  \<^bold>\<open>Shortfalls found.\<close> Several lemmas show that the code does not do what it means to: keys and buttons left down
  (\<open>untracked_key_survives_release\<close>, \<open>stream_leaves_key_down\<close>, \<open>viewer_leaves_button_down\<close>), credentials (\<open>stolen_token_accepted\<close>,
  \<open>controller_accepts_any_host_key\<close>, \<open>chatter_keeps_old_pin\<close>, \<open>store_keeps_wide_mode\<close>), negotiation (\<open>last_ready_end_not_announced\<close>,
  \<open>controller_loses_early_candidate\<close>, \<open>refusal_unnoticed\<close>, \<open>stale_peer_gone_ends_negotiation\<close>), and others noted where they are proved
  (\<open>ping_counts_as_loss\<close>, \<open>held_motion_is_lost\<close>, \<open>sync_sends_invalid_usage\<close>, \<open>queue_fills_under_steady_load\<close>,
  \<open>one_failed_restart_ends_capture\<close>, \<open>dropped_keyframe_forgets_request\<close>, \<open>annex_b_input_corrupted\<close>, \<open>reset_ends_borrow\<close>, \<open>parse_sdp_accepts_plus\<close>).
\<close>

end
